(* ===== verification/Prelude.thy ===== *)
theory Prelude
  imports
    Main
    "HOL-Library.Char_ord"
    "HOL-Library.List_Lexorder"
    "HOL-Library.Option_ord"
    "HOL-Library.Product_Lexorder"
    "HOL-Library.Multiset"
begin

text \<open>
  The shared layer of the development: the result type of fallible code, the list functions of
  the Rust standard library that the model uses (\<open>min_by\<close>, \<open>find_map\<close>, first-encounter
  grouping), and three interfaces that several components provide:
  \<^item> \<open>keyed_min\<close>: choosing the first element with the least key, which does not depend on the
    order of the input;
  \<^item> \<open>add_wins\<close>: merging tags and files so that nothing already present is lost;
  \<^item> \<open>transaction\<close>: a body that ran between BEGIN and COMMIT or ROLLBACK.
  The named collections gather the facts that \<open>simp add:\<close> uses across components.
\<close>

named_theorems carrier_simps \<open>equations of the git-notes carrier model\<close>
named_theorems db_simps \<open>equations of the SQLite store model\<close>
named_theorems inv_intros \<open>preservation facts of the store invariant\<close>

section \<open>Results\<close>

text \<open>A fallible computation of the source returns \<open>Inl\<close> its error or \<open>Inr\<close> its value.\<close>

definition bind_res :: "'e + 'a \<Rightarrow> ('a \<Rightarrow> 'e + 'b) \<Rightarrow> 'e + 'b" where
  "bind_res r f = (case r of Inl e \<Rightarrow> Inl e | Inr x \<Rightarrow> f x)"

lemma bind_res_simps [simp]:
  "bind_res (Inl e) f = Inl e"
  "bind_res (Inr x) f = f x"
  by (simp_all add: bind_res_def)

lemma bind_res_Inr_iff: "bind_res r f = Inr y \<longleftrightarrow> (\<exists>x. r = Inr x \<and> f x = Inr y)"
  by (cases r) auto

lemma bind_res_Inl_iff: "bind_res r f = Inl e \<longleftrightarrow> r = Inl e \<or> (\<exists>x. r = Inr x \<and> f x = Inl e)"
  by (cases r) auto

fun is_ok :: "'e + 'a \<Rightarrow> bool" where
  "is_ok (Inl _) = False"
| "is_ok (Inr _) = True"

lemma is_ok_iff: "is_ok r \<longleftrightarrow> (\<exists>x. r = Inr x)"
  by (cases r) auto

section \<open>Iterators of the Rust standard library\<close>

text \<open>\<open>Iterator::min_by\<close> returns the first of several equally minimal elements.\<close>

fun min_by :: "('a \<Rightarrow> 'k::linorder) \<Rightarrow> 'a list \<Rightarrow> 'a option" where
  "min_by k [] = None"
| "min_by k (x # xs) =
     (case min_by k xs of None \<Rightarrow> Some x | Some y \<Rightarrow> if k x \<le> k y then Some x else Some y)"

fun find_map :: "('a \<Rightarrow> 'b option) \<Rightarrow> 'a list \<Rightarrow> 'b option" where
  "find_map f [] = None"
| "find_map f (x # xs) = (case f x of Some y \<Rightarrow> Some y | None \<Rightarrow> find_map f xs)"

fun filter_map :: "('a \<Rightarrow> 'b option) \<Rightarrow> 'a list \<Rightarrow> 'b list" where
  "filter_map f [] = []"
| "filter_map f (x # xs) = (case f x of Some y \<Rightarrow> y # filter_map f xs | None \<Rightarrow> filter_map f xs)"

lemma set_filter_map: "set (filter_map f xs) = {y. \<exists>x \<in> set xs. f x = Some y}"
  by (induction xs) (auto split: option.splits)

lemma filter_map_append [simp]: "filter_map f (xs @ ys) = filter_map f xs @ filter_map f ys"
  by (induction xs) (auto split: option.splits)

lemma find_map_Some: "find_map f xs = Some y \<Longrightarrow> \<exists>x \<in> set xs. f x = Some y"
  by (induction xs) (auto split: option.splits)

lemma find_map_None_iff: "find_map f xs = None \<longleftrightarrow> (\<forall>x \<in> set xs. f x = None)"
  by (induction xs) (auto split: option.splits)

lemma find_NoneE: "find P xs = None \<Longrightarrow> x \<in> set xs \<Longrightarrow> \<not> P x"
  by (simp add: find_None_iff)

lemma find_SomeE: "find P xs = Some x \<Longrightarrow> x \<in> set xs \<and> P x"
  by (induction xs) (auto split: if_splits)

lemma find_unique:
  "x \<in> set xs \<Longrightarrow> P x \<Longrightarrow> (\<And>y. y \<in> set xs \<Longrightarrow> P y \<Longrightarrow> y = x) \<Longrightarrow> find P xs = Some x"
proof (cases "find P xs")
  case (Some y)
  assume "\<And>y. y \<in> set xs \<Longrightarrow> P y \<Longrightarrow> y = x"
  from this [of y] find_SomeE [OF Some] Some show ?thesis by simp
qed (use find_None_iff [of P xs] in blast)

lemma find_append: "find P (xs @ ys) = (case find P xs of Some x \<Rightarrow> Some x | None \<Rightarrow> find P ys)"
  by (induction xs) auto

lemma find_map_same:
  "(\<And>x. x \<in> set xs \<Longrightarrow> P (f x) = P x) \<Longrightarrow> find P (map f xs) = map_option f (find P xs)"
  by (induction xs) auto

lemma min_by_None_iff [simp]: "min_by k xs = None \<longleftrightarrow> xs = []"
  by (cases xs) (auto split: option.splits)

lemma min_by_in: "min_by k xs = Some x \<Longrightarrow> x \<in> set xs"
  by (induction xs arbitrary: x) (auto split: option.splits if_splits)

lemma filter_map_comp: "filter P (map f xs) = map f (filter (\<lambda>x. P (f x)) xs)"
  by (induction xs) auto

lemma min_by_Cons_not_None: "\<exists>y. min_by k (x # xs) = Some y"
  by (auto split: option.splits)

section \<open>Choosing by a least key\<close>

text \<open>
  The fold picks its base copy, and the successor of an entity, by a least key.  The lemmas of
  this locale say that the pick is a member with the least key, and that the key of the pick
  depends on the multiset of candidates alone.
\<close>

locale keyed_min =
  fixes key :: "'a \<Rightarrow> 'k::linorder"
    and pick :: "'a list \<Rightarrow> 'a option"
  assumes pick_eq: "pick xs = min_by key xs"
begin

lemma pick_Some: "pick xs = Some x \<Longrightarrow> x \<in> set xs \<and> (\<forall>y \<in> set xs. key x \<le> key y)"
  unfolding pick_eq
proof (induction xs arbitrary: x)
  case Nil
  then show ?case by simp
next
  case (Cons a xs)
  show ?case
  proof (cases "min_by key xs")
    case None
    with Cons.prems show ?thesis by simp
  next
    case (Some y)
    from Cons.IH [OF Some] Cons.prems Some show ?thesis
      by (auto split: if_splits intro: order_trans)
  qed
qed

lemma pick_nonempty: "xs \<noteq> [] \<Longrightarrow> \<exists>x. pick xs = Some x"
  unfolding pick_eq by (metis min_by_None_iff not_None_eq)

lemma pick_key_set:
  assumes "set xs = set ys"
  shows "map_option key (pick xs) = map_option key (pick ys)"
proof (cases "xs = []")
  case True
  with assms show ?thesis by (simp add: pick_eq)
next
  case False
  with assms have "ys \<noteq> []" by auto
  from False obtain x where x: "pick xs = Some x" using pick_nonempty by blast
  from \<open>ys \<noteq> []\<close> obtain y where y: "pick ys = Some y" using pick_nonempty by blast
  from pick_Some [OF x] pick_Some [OF y] assms have "key x = key y"
    by (intro order_antisym) auto
  with x y show ?thesis by simp
qed

lemma pick_unique:
  assumes "set xs = set ys" and "inj_on key (set xs)"
  shows "pick xs = pick ys"
proof (cases "pick xs")
  case None
  with assms show ?thesis by (simp add: pick_eq)
next
  case (Some x)
  with pick_key_set [OF assms(1)] obtain y where y: "pick ys = Some y" "key y = key x"
    by (cases "pick ys") auto
  with Some pick_Some [OF Some] pick_Some [OF y(1)] assms have "x = y"
    by (metis inj_onD)
  with Some y show ?thesis by simp
qed

lemma pick_singleton: "pick [x] = Some x"
  by (simp add: pick_eq)

end

section \<open>Add-wins union\<close>

text \<open>
  Tags and linked files merge add-wins on every surface: an incoming member is added and none is
  dropped.  The surfaces differ in the representation (a sorted vector, a comma-separated column),
  so the contract is on the members it stands for; \<open>ok\<close> says which members a representation can
  hold.
\<close>

locale add_wins =
  fixes members :: "'s \<Rightarrow> 'm set"
    and union :: "'s \<Rightarrow> 'm list \<Rightarrow> 's"
    and ok :: "'m \<Rightarrow> bool"
  assumes members_union: "\<forall>x \<in> set xs. ok x \<Longrightarrow> members (union s xs) = members s \<union> set xs"
begin

lemma never_drops: "\<forall>x \<in> set xs. ok x \<Longrightarrow> members s \<subseteq> members (union s xs)"
  by (simp add: members_union)

lemma union_order:
  "\<forall>x \<in> set xs. ok x \<Longrightarrow> set xs = set ys \<Longrightarrow> members (union s xs) = members (union s ys)"
  by (simp add: members_union)

lemma union_idem:
  "\<forall>x \<in> set xs. ok x \<Longrightarrow> members (union (union s xs) xs) = members (union s xs)"
  by (simp add: members_union)

lemma union_all:
  "\<forall>xs \<in> set xss. \<forall>x \<in> set xs. ok x \<Longrightarrow>
     members (foldl union s xss) = members s \<union> (\<Union>xs \<in> set xss. set xs)"
proof (induction xss arbitrary: s)
  case Nil
  then show ?case by simp
next
  case (Cons xs xss)
  then show ?case by (auto simp: members_union)
qed

end

section \<open>Transactions\<close>

text \<open>
  The stores run their multi-statement operations between BEGIN and COMMIT, and roll back on an
  error.  A body that fails therefore leaves the state it started from.  Anything a committed
  body keeps, the whole transaction keeps.
\<close>

definition in_transaction :: "('s \<Rightarrow> ('e + 'a) \<times> 's) \<Rightarrow> 's \<Rightarrow> ('e + 'a) \<times> 's" where
  "in_transaction body s =
     (case body s of (Inr v, s') \<Rightarrow> (Inr v, s') | (Inl e, _) \<Rightarrow> (Inl e, s))"

locale transaction =
  fixes oper :: "'s \<Rightarrow> ('e + 'a) \<times> 's"
    and body :: "'s \<Rightarrow> ('e + 'a) \<times> 's"
    and inv :: "'s \<Rightarrow> bool"
  assumes oper_eq: "oper s = in_transaction body s"
    and body_inv: "inv s \<Longrightarrow> body s = (Inr v, s') \<Longrightarrow> inv s'"
begin

lemma rollback: "fst (oper s) = Inl e \<Longrightarrow> snd (oper s) = s"
  by (auto simp: oper_eq in_transaction_def split: prod.splits sum.splits)

lemma commit: "oper s = (Inr v, s') \<longleftrightarrow> body s = (Inr v, s')"
  by (auto simp: oper_eq in_transaction_def split: prod.splits sum.splits)

lemma oper_inv:
  assumes "inv s"
  shows "inv (snd (oper s))"
proof (cases "body s")
  case (Pair r s')
  with assms show ?thesis
    by (cases r) (auto simp: oper_eq in_transaction_def intro: body_inv)
qed

end

section \<open>First-encounter grouping\<close>

text \<open>
  Rust code that groups by a key keeps a vector of keys in first-encounter order beside a hash
  map from a key to its members.  The association list below is that pair of structures read
  together: the keys in order, each with its members in input order.
\<close>

fun push_group :: "'k \<Rightarrow> 'a \<Rightarrow> ('k \<times> 'a list) list \<Rightarrow> ('k \<times> 'a list) list" where
  "push_group k x [] = [(k, [x])]"
| "push_group k x ((k', ys) # gs) =
     (if k = k' then (k', ys @ [x]) # gs else (k', ys) # push_group k x gs)"

definition group_by :: "('a \<Rightarrow> 'k) \<Rightarrow> 'a list \<Rightarrow> ('k \<times> 'a list) list" where
  "group_by f xs = fold (\<lambda>x. push_group (f x) x) xs []"

lemma push_group_keys:
  "map fst (push_group k x gs) = (if k \<in> fst ` set gs then map fst gs else map fst gs @ [k])"
  by (induction gs) force+

lemma map_of_push_group:
  "map_of (push_group k x gs) =
     (map_of gs)(k \<mapsto> (case map_of gs k of None \<Rightarrow> [x] | Some ys \<Rightarrow> ys @ [x]))"
  by (induction gs) (auto simp: fun_eq_iff)

lemma group_by_Nil [simp]: "group_by f [] = []"
  by (simp add: group_by_def)

lemma group_by_snoc: "group_by f (xs @ [x]) = push_group (f x) x (group_by f xs)"
  by (simp add: group_by_def)

lemma group_by_distinct: "distinct (map fst (group_by f xs))"
  by (induction xs rule: rev_induct) (auto simp: group_by_snoc push_group_keys)

lemma group_by_keys: "set (map fst (group_by f xs)) = f ` set xs"
  by (induction xs rule: rev_induct) (auto simp: group_by_snoc push_group_keys)

lemma map_of_group_by:
  "map_of (group_by f xs) k =
     (case filter (\<lambda>x. f x = k) xs of [] \<Rightarrow> None | ys \<Rightarrow> Some ys)"
proof (induction xs rule: rev_induct)
  case Nil
  then show ?case by simp
next
  case (snoc x xs)
  then show ?case
    by (auto simp: group_by_snoc map_of_push_group split: list.splits)
qed

lemma group_by_member:
  assumes "(k, g) \<in> set (group_by f xs)"
  shows "g = filter (\<lambda>x. f x = k) xs \<and> g \<noteq> []"
proof -
  from assms group_by_distinct have "map_of (group_by f xs) k = Some g"
    by (metis map_of_is_SomeI)
  then show ?thesis
    by (auto simp: map_of_group_by split: list.splits)
qed

lemma group_by_filter_in:
  assumes "x \<in> set xs"
  shows "(f x, filter (\<lambda>y. f y = f x) xs) \<in> set (group_by f xs)"
proof -
  from assms have "filter (\<lambda>y. f y = f x) xs \<noteq> []"
    by (auto simp: filter_empty_conv)
  then have "map_of (group_by f xs) (f x) = Some (filter (\<lambda>y. f y = f x) xs)"
    by (auto simp: map_of_group_by split: list.splits)
  then show ?thesis by (rule map_of_SomeD)
qed

section \<open>List facts used by several components\<close>

lemma map_if_id: "(\<And>x. x \<in> set xs \<Longrightarrow> \<not> P x) \<Longrightarrow> map (\<lambda>x. if P x then f x else x) xs = xs"
  by (induction xs) auto

lemma filter_sort_key: "filter P (sort_key f xs) = sort_key f (filter P xs)"
  by (rule filter_sort)

lemma drop_length_minus: "length xs \<le> n \<Longrightarrow> drop (length xs - n) xs = xs"
  by simp

lemma hd_filter_in: "filter P xs \<noteq> [] \<Longrightarrow> hd (filter P xs) \<in> set xs \<and> P (hd (filter P xs))"
  by (induction xs) auto

lemma distinct_map_eq: "distinct (map f xs) \<Longrightarrow> x \<in> set xs \<Longrightarrow> y \<in> set xs \<Longrightarrow> f x = f y \<Longrightarrow> x = y"
  by (simp add: distinct_map inj_on_def)

lemma distinct_remdups_adj_sorted: "sorted xs \<Longrightarrow> distinct (remdups_adj xs)"
  by (induction xs rule: remdups_adj.induct) (auto simp: order.antisym)

lemma mset_mset_set_distinct:
  assumes "finite A" and "mset xs = mset_set A"
  shows "distinct xs \<and> set xs = A"
proof -
  from assms(1) obtain ys where ys: "set ys = A" "distinct ys"
    using finite_distinct_list by blast
  then have "mset xs = mset ys" using assms(2) mset_set_set [OF ys(2)] by simp
  with ys show ?thesis using mset_eq_imp_distinct_iff mset_eq_setD by metis
qed

lemma filter_key_single:
  "distinct (map f rs) \<Longrightarrow> r \<in> set rs \<Longrightarrow> filter (\<lambda>q. f q = f r) rs = [r]"
proof (induction rs)
  case Nil
  then show ?case by simp
next
  case (Cons q qs)
  show ?case
  proof (cases "q = r")
    case True
    with Cons.prems have "\<forall>x \<in> set qs. f x \<noteq> f r" by (auto simp: image_iff)
    then have "filter (\<lambda>q. f q = f r) qs = []" by (simp add: filter_empty_conv)
    with True show ?thesis by simp
  next
    case False
    with Cons.prems have "r \<in> set qs" "f q \<noteq> f r" by (auto simp: image_iff)
    with Cons show ?thesis by simp
  qed
qed

end
