(* ===== verification/RustText.thy ===== *)
theory RustText
  imports Prelude
begin

text \<open>
  Strings of the program.  A Rust \<open>String\<close> is its UTF-8 bytes, here a \<open>string\<close> (one \<open>char\<close>
  per byte).  Rust orders strings by their bytes, which is the lexicographic order that
  \<open>Char_ord\<close> and \<open>List_Lexorder\<close> give.  This theory holds the functions of \<open>str\<close> that the
  program calls, on bytes: \<open>trim\<close>, \<open>lines\<close>, \<open>split\<close>, \<open>split_whitespace\<close>, \<open>join\<close>,
  \<open>starts_with\<close>, \<open>contains\<close>, \<open>strip_prefix\<close>, decimal printing and parsing of \<open>i64\<close>.
\<close>

section \<open>Prefixes, suffixes and substrings\<close>

definition starts_with :: "string \<Rightarrow> string \<Rightarrow> bool" where
  "starts_with p s = (take (length p) s = p)"

definition strip_prefix :: "string \<Rightarrow> string \<Rightarrow> string option" where
  "strip_prefix p s = (if starts_with p s then Some (drop (length p) s) else None)"

definition strip_suffix :: "string \<Rightarrow> string \<Rightarrow> string option" where
  "strip_suffix p s = map_option rev (strip_prefix (rev p) (rev s))"

fun str_contains :: "string \<Rightarrow> string \<Rightarrow> bool" where
  "str_contains p [] = (p = [])"
| "str_contains p (c # s) = (starts_with p (c # s) \<or> str_contains p s)"

lemma starts_with_iff: "starts_with p s \<longleftrightarrow> (\<exists>r. s = p @ r)"
  unfolding starts_with_def by (metis append_take_drop_id append_eq_conv_conj)

lemma starts_with_append [simp]: "starts_with p (p @ r)"
  by (simp add: starts_with_def)

lemma starts_with_refl [simp]: "starts_with p p"
  by (simp add: starts_with_def)

lemma starts_with_Nil [simp]: "starts_with [] s"
  by (simp add: starts_with_def)

lemma strip_prefix_Some: "strip_prefix p s = Some r \<longleftrightarrow> s = p @ r"
  by (auto simp: strip_prefix_def starts_with_iff)

lemma str_contains_iff: "str_contains p s \<longleftrightarrow> (\<exists>a b. s = a @ p @ b)"
proof (induction s)
  case Nil
  then show ?case by simp
next
  case (Cons c s)
  have "(\<exists>a b. c # s = a @ p @ b) \<longleftrightarrow> starts_with p (c # s) \<or> (\<exists>a b. s = a @ p @ b)"
    (is "?l \<longleftrightarrow> ?r")
  proof
    assume ?l
    then obtain a b where "c # s = a @ p @ b" by blast
    then show ?r by (cases a) (auto simp: starts_with_iff)
  next
    assume ?r
    then show ?l
      by (metis append_Cons append_Nil starts_with_iff)
  qed
  with Cons.IH show ?case by simp
qed

section \<open>White space\<close>

text \<open>
  \<open>ws_prefix s\<close> is the length in bytes of the character at the front of \<open>s\<close> when it has the
  Unicode White_Space property (\<open>char::is_whitespace\<close>), 0 otherwise: tab to carriage return,
  space, U+0085, U+00A0, U+1680, U+2000 to U+200A, U+2028, U+2029, U+202F, U+205F and U+3000.
\<close>

definition byte :: "char \<Rightarrow> nat" where
  "byte c = of_char c"

definition ws3 :: "nat \<Rightarrow> nat \<Rightarrow> nat \<Rightarrow> bool" where
  "ws3 a b c \<longleftrightarrow>
     (a = 225 \<and> b = 154 \<and> c = 128) \<or>
     (a = 226 \<and> b = 128 \<and> (128 \<le> c \<and> c \<le> 138 \<or> c = 168 \<or> c = 169 \<or> c = 175)) \<or>
     (a = 226 \<and> b = 129 \<and> c = 159) \<or>
     (a = 227 \<and> b = 128 \<and> c = 128)"

definition ws1 :: "nat \<Rightarrow> bool" where
  "ws1 a \<longleftrightarrow> 9 \<le> a \<and> a \<le> 13 \<or> a = 32"

definition ws2 :: "nat \<Rightarrow> nat \<Rightarrow> bool" where
  "ws2 a b \<longleftrightarrow> a = 194 \<and> (b = 133 \<or> b = 160)"

fun ws_prefix :: "string \<Rightarrow> nat" where
  "ws_prefix (a # b # c # s) =
     (if ws1 (byte a) then 1
      else if ws2 (byte a) (byte b) then 2
      else if ws3 (byte a) (byte b) (byte c) then 3
      else 0)"
| "ws_prefix [a, b] = (if ws1 (byte a) then 1 else if ws2 (byte a) (byte b) then 2 else 0)"
| "ws_prefix [a] = (if ws1 (byte a) then 1 else 0)"
| "ws_prefix [] = 0"

text \<open>The same at the end of a string, read on the reversed bytes.\<close>

fun ws_suffix :: "string \<Rightarrow> nat" where
  "ws_suffix (c # b # a # s) =
     (if ws1 (byte c) then 1
      else if ws2 (byte b) (byte c) then 2
      else if ws3 (byte a) (byte b) (byte c) then 3
      else 0)"
| "ws_suffix [b, a] = (if ws1 (byte b) then 1 else if ws2 (byte a) (byte b) then 2 else 0)"
| "ws_suffix [a] = (if ws1 (byte a) then 1 else 0)"
| "ws_suffix [] = 0"

lemma ws_prefix_le: "ws_prefix s \<le> length s"
  by (induction s rule: ws_prefix.induct) auto

lemma ws_suffix_le: "ws_suffix s \<le> length s"
  by (induction s rule: ws_suffix.induct) auto

lemma ws_prefix_append: "0 < ws_prefix p \<Longrightarrow> 0 < ws_prefix (p @ r)"
proof (induction p rule: ws_prefix.induct)
  case (1 a b c s)
  then show ?case by (auto split: if_splits)
next
  case (2 a b)
  then show ?case by (cases r) (auto split: if_splits)
next
  case (3 a)
  then show ?case
    by (cases r; cases "tl r") (auto split: if_splits)
next
  case 4
  then show ?case by simp
qed

function trim_start :: "string \<Rightarrow> string" where
  "trim_start s = (if ws_prefix s = 0 then s else trim_start (drop (ws_prefix s) s))"
  by pat_completeness auto
termination
proof (relation "measure length", goal_cases)
  case 1
  then show ?case by simp
next
  case (2 s)
  then show ?case using ws_prefix_le [of s] by (cases s) auto
qed

function trim_end_rev :: "string \<Rightarrow> string" where
  "trim_end_rev s = (if ws_suffix s = 0 then s else trim_end_rev (drop (ws_suffix s) s))"
  by pat_completeness auto
termination
proof (relation "measure length", goal_cases)
  case 1
  then show ?case by simp
next
  case (2 s)
  then show ?case using ws_suffix_le [of s] by (cases s) auto
qed

declare trim_start.simps [simp del] trim_end_rev.simps [simp del]

definition trim_end :: "string \<Rightarrow> string" where
  "trim_end s = rev (trim_end_rev (rev s))"

definition trim :: "string \<Rightarrow> string" where
  "trim s = trim_end (trim_start s)"

lemma trim_start_suffix: "\<exists>p. s = p @ trim_start s"
proof (induction s rule: trim_start.induct)
  case (1 s)
  show ?case
  proof (cases "ws_prefix s = 0")
    case True
    then show ?thesis by (simp add: trim_start.simps [of s])
  next
    case False
    with 1 obtain p where "drop (ws_prefix s) s = p @ trim_start (drop (ws_prefix s) s)"
      by blast
    then have "s = (take (ws_prefix s) s @ p) @ trim_start (drop (ws_prefix s) s)"
      by (metis append.assoc append_take_drop_id)
    moreover from False have "trim_start s = trim_start (drop (ws_prefix s) s)"
      by (simp add: trim_start.simps [of s])
    ultimately show ?thesis by metis
  qed
qed

lemma ws_prefix_trim_start: "ws_prefix (trim_start s) = 0"
proof (induction s rule: trim_start.induct)
  case (1 s)
  then show ?case by (cases "ws_prefix s = 0") (simp_all add: trim_start.simps [of s])
qed

lemma trim_start_id: "ws_prefix s = 0 \<Longrightarrow> trim_start s = s"
  by (simp add: trim_start.simps [of s])

lemma trim_end_rev_suffix: "\<exists>p. s = p @ trim_end_rev s"
proof (induction s rule: trim_end_rev.induct)
  case (1 s)
  show ?case
  proof (cases "ws_suffix s = 0")
    case True
    then show ?thesis by (simp add: trim_end_rev.simps [of s])
  next
    case False
    with 1 obtain p where "drop (ws_suffix s) s = p @ trim_end_rev (drop (ws_suffix s) s)"
      by blast
    then have "s = (take (ws_suffix s) s @ p) @ trim_end_rev (drop (ws_suffix s) s)"
      by (metis append.assoc append_take_drop_id)
    moreover from False have "trim_end_rev s = trim_end_rev (drop (ws_suffix s) s)"
      by (simp add: trim_end_rev.simps [of s])
    ultimately show ?thesis by metis
  qed
qed

lemma ws_suffix_trim_end_rev: "ws_suffix (trim_end_rev s) = 0"
proof (induction s rule: trim_end_rev.induct)
  case (1 s)
  then show ?case by (cases "ws_suffix s = 0") (simp_all add: trim_end_rev.simps [of s])
qed

lemma trim_end_prefix: "\<exists>r. s = trim_end s @ r"
proof -
  from trim_end_rev_suffix [of "rev s"] obtain p where "rev s = p @ trim_end_rev (rev s)" by blast
  then have "s = trim_end s @ rev p"
    unfolding trim_end_def by (metis rev_append rev_rev_ident)
  then show ?thesis by blast
qed

lemma trim_end_id: "ws_suffix (rev s) = 0 \<Longrightarrow> trim_end s = s"
  by (simp add: trim_end_def trim_end_rev.simps [of "rev s"])

lemma trim_idem [simp]: "trim (trim s) = trim s"
proof -
  obtain r where r: "trim_start s = trim s @ r"
    using trim_end_prefix [of "trim_start s"] unfolding trim_def by blast
  have "ws_prefix (trim s) = 0"
    using ws_prefix_append [of "trim s" r] ws_prefix_trim_start [of s] r by fastforce
  then have "trim_start (trim s) = trim s" by (rule trim_start_id)
  moreover have "ws_suffix (rev (trim s)) = 0"
    by (simp add: trim_def trim_end_def ws_suffix_trim_end_rev)
  ultimately show ?thesis by (simp add: trim_def [of "trim s"] trim_end_id)
qed

lemma set_trim: "set (trim s) \<subseteq> set s"
proof -
  obtain r where "trim_start s = trim s @ r"
    using trim_end_prefix [of "trim_start s"] unfolding trim_def by blast
  moreover obtain p where "s = p @ trim_start s" using trim_start_suffix by blast
  ultimately have "s = p @ trim s @ r" by simp
  then show ?thesis by (metis Un_subset_iff set_append subset_refl)
qed

lemma trim_Nil [simp]: "trim [] = []"
  by (simp add: trim_def trim_end_def trim_start.simps [of "[]"] trim_end_rev.simps [of "[]"])

text \<open>Trimming around an ASCII byte: it never belongs to a longer white space character.\<close>

lemma ws_prefix_append_ascii:
  assumes "s \<noteq> []" "byte c < 128"
  shows "ws_prefix (s @ c # t) = ws_prefix s"
proof (cases s rule: ws_prefix.cases)
  case (1 a b d r)
  then show ?thesis by simp
next
  case (2 a b)
  with assms show ?thesis by (cases t) (auto simp: ws3_def)
next
  case (3 a)
  with assms show ?thesis by (cases t) (auto simp: ws3_def ws2_def)
next
  case 4
  with assms show ?thesis by simp
qed

lemma ws1_prefix: "ws1 (byte c) \<Longrightarrow> ws_prefix (c # t) = 1"
  by (cases t rule: ws_prefix.cases) auto

lemma ws1_suffix: "ws1 (byte c) \<Longrightarrow> ws_suffix (c # t) = 1"
  by (cases t rule: ws_suffix.cases) auto

lemma trim_start_Nil [simp]: "trim_start [] = []"
  by (simp add: trim_start.simps [of "[]"])

lemma trim_start_ws1 [simp]: "ws1 (byte c) \<Longrightarrow> trim_start (c # t) = trim_start t"
  by (simp add: trim_start.simps [of "c # t"] ws1_prefix)

lemma trim_end_ws1 [simp]: "ws1 (byte c) \<Longrightarrow> trim_end (s @ [c]) = trim_end s"
  by (simp add: trim_end_def trim_end_rev.simps [of "c # rev s"] ws1_suffix)

lemma trim_start_ascii:
  assumes "byte c < 128"
  shows "trim_start (s @ c # t) =
    (if trim_start s = [] then trim_start (c # t) else trim_start s @ c # t)"
proof (induction s rule: trim_start.induct)
  case (1 s)
  show ?case
  proof (cases "s = []")
    case False
    from ws_prefix_append_ascii [OF False assms] have w: "ws_prefix (s @ c # t) = ws_prefix s" .
    show ?thesis
    proof (cases "ws_prefix s = 0")
      case True
      with False w show ?thesis by (simp add: trim_start_id)
    next
      case nz: False
      have "trim_start (s @ c # t) = trim_start (drop (ws_prefix s) s @ c # t)"
        using nz w ws_prefix_le [of s] by (simp add: trim_start.simps [of "s @ c # t"])
      moreover have "trim_start s = trim_start (drop (ws_prefix s) s)"
        using nz by (simp add: trim_start.simps [of s])
      ultimately show ?thesis using 1 nz by simp
    qed
  qed simp
qed

lemma ws1_ascii: "ws1 n \<Longrightarrow> n < 128"
  by (auto simp: ws1_def)

lemma trim_snoc_ws1: "ws1 (byte c) \<Longrightarrow> trim (s @ [c]) = trim s"
  using trim_start_ascii [of c s "[]"] ws1_ascii by (auto simp: trim_def)

lemma trim_start_blank_iff:
  "ws1 (byte c) \<Longrightarrow> trim_start (s @ c # t) = [] \<longleftrightarrow> trim_start s = [] \<and> trim_start t = []"
  using trim_start_ascii [of c s t] ws1_ascii by auto

lemma trim_end_rev_Nil: "trim_end_rev r = [] \<Longrightarrow> r = [] \<or> 0 < ws_prefix (rev r)"
proof (induction r rule: trim_end_rev.induct)
  case (1 r)
  show ?case
  proof (cases "ws_suffix r = 0")
    case True
    with 1 show ?thesis by (simp add: trim_end_rev.simps [of r])
  next
    case False
    let ?d = "drop (ws_suffix r) r"
    from False 1(2) have "trim_end_rev ?d = []" by (simp add: trim_end_rev.simps [of r])
    from 1(1) [OF False this] have "?d = [] \<or> 0 < ws_prefix (rev ?d)" .
    then show ?thesis
    proof
      assume "?d = []"
      then have "length r \<le> ws_suffix r" by simp
      with False show ?thesis by (cases r rule: ws_suffix.cases) (auto split: if_splits)
    next
      assume "0 < ws_prefix (rev ?d)"
      then have "0 < ws_prefix (rev ?d @ rev (take (ws_suffix r) r))" by (rule ws_prefix_append)
      then show ?thesis by (metis append_take_drop_id rev_append)
    qed
  qed
qed

lemma trim_blank_iff: "trim s = [] \<longleftrightarrow> trim_start s = []"
proof
  assume "trim s = []"
  then have "trim_end_rev (rev (trim_start s)) = []" by (simp add: trim_def trim_end_def)
  from trim_end_rev_Nil [OF this] show "trim_start s = []"
    using ws_prefix_trim_start [of s] by simp
next
  assume "trim_start s = []"
  then show "trim s = []" using trim_Nil by (simp add: trim_def)
qed

section \<open>Splitting and joining\<close>

text \<open>\<open>str::split\<close> on one character: never the empty list, \<open>[[]]\<close> on the empty string.\<close>

fun split_on :: "char \<Rightarrow> string \<Rightarrow> string list" where
  "split_on d [] = [[]]"
| "split_on d (c # s) =
     (if c = d then [] # split_on d s
      else case split_on d s of [] \<Rightarrow> [[c]] | w # ws \<Rightarrow> (c # w) # ws)"

fun join_with :: "string \<Rightarrow> string list \<Rightarrow> string" where
  "join_with sep [] = []"
| "join_with sep [w] = w"
| "join_with sep (w # ws) = w @ sep @ join_with sep ws"

lemma join_with_Cons: "join_with sep (w # ws) = (if ws = [] then w else w @ sep @ join_with sep ws)"
  by (cases ws) auto

lemma join_with_append:
  "xs \<noteq> [] \<Longrightarrow> ys \<noteq> [] \<Longrightarrow> join_with sep (xs @ ys) = join_with sep xs @ sep @ join_with sep ys"
  by (induction xs) (auto simp: join_with_Cons)

lemma split_on_nonempty [simp]: "split_on d s \<noteq> []"
  by (induction s) (auto split: list.splits)

lemma split_on_no_sep: "w \<in> set (split_on d s) \<Longrightarrow> d \<notin> set w"
proof (induction s arbitrary: w)
  case Nil
  then show ?case by simp
next
  case (Cons c s)
  show ?case
  proof (cases "split_on d s")
    case Nil
    then show ?thesis by simp
  next
    case (Cons v vs)
    with Cons.prems show ?thesis
      using Cons.IH by (auto split: if_splits)
  qed
qed

lemma split_on_id: "d \<notin> set w \<Longrightarrow> split_on d w = [w]"
  by (induction w) auto

lemma split_on_append: "d \<notin> set w \<Longrightarrow> split_on d (w @ d # s) = w # split_on d s"
  by (induction w) auto

lemma split_on_join:
  "ws \<noteq> [] \<Longrightarrow> \<forall>w \<in> set ws. d \<notin> set w \<Longrightarrow> split_on d (join_with [d] ws) = ws"
proof (induction ws)
  case Nil
  then show ?case by simp
next
  case (Cons w ws)
  then show ?case
    by (cases "ws = []") (auto simp: join_with_Cons split_on_id split_on_append)
qed

lemma join_split_on: "join_with [d] (split_on d s) = s"
  by (induction s) (auto simp: join_with_Cons split: list.splits)

text \<open>\<open>str::lines\<close>: lines end at a line feed, with one carriage return before it dropped; a
  last line that is not terminated keeps its carriage return; no empty last line.\<close>

definition nl :: char where
  "nl = CHR 0x0A"

definition cr :: char where
  "cr = CHR 0x0D"

definition strip_cr :: "string \<Rightarrow> string" where
  "strip_cr w = (if w \<noteq> [] \<and> last w = cr then butlast w else w)"

fun lines_of_pieces :: "string list \<Rightarrow> string list" where
  "lines_of_pieces [] = []"
| "lines_of_pieces [w] = (if w = [] then [] else [w])"
| "lines_of_pieces (w # ws) = strip_cr w # lines_of_pieces ws"

definition str_lines :: "string \<Rightarrow> string list" where
  "str_lines s = lines_of_pieces (split_on nl s)"

text \<open>\<open>trim_end_matches('\\n')\<close>.\<close>

definition trim_end_nl :: "string \<Rightarrow> string" where
  "trim_end_nl s = rev (dropWhile (\<lambda>c. c = nl) (rev s))"

lemma trim_end_nl_snoc [simp]: "c \<noteq> nl \<Longrightarrow> trim_end_nl (s @ [c]) = s @ [c]"
  by (simp add: trim_end_nl_def)

lemma lines_of_pieces_append:
  "ws \<noteq> [] \<Longrightarrow> lines_of_pieces (vs @ ws) = map strip_cr vs @ lines_of_pieces ws"
proof (induction vs)
  case Nil
  then show ?case by simp
next
  case (Cons v vs)
  then show ?case by (cases "vs @ ws") auto
qed

lemma str_lines_Nil [simp]: "str_lines [] = []"
  by (simp add: str_lines_def)

lemma str_lines_single: "nl \<notin> set w \<Longrightarrow> w \<noteq> [] \<Longrightarrow> str_lines w = [w]"
  by (simp add: str_lines_def split_on_id)

lemma split_on_append_sep: "split_on d (s @ d # t) = split_on d s @ split_on d t"
  by (induction s) (auto split: list.splits)

lemma str_lines_append_nl:
  "str_lines (s @ nl # t) = map strip_cr (split_on nl s) @ str_lines t"
  by (simp add: str_lines_def split_on_append_sep lines_of_pieces_append)

lemma ws1_nl [simp]: "ws1 (byte nl)"
  by (simp add: ws1_def byte_def nl_def)

lemma ws1_cr [simp]: "ws1 (byte cr)"
  by (simp add: ws1_def byte_def cr_def)

lemma trim_strip_cr [simp]: "trim (strip_cr w) = trim w"
proof (cases w rule: rev_cases)
  case (snoc v c)
  then show ?thesis by (auto simp: strip_cr_def trim_snoc_ws1)
qed (simp add: strip_cr_def)

lemma trim_blank_pieces: "trim s = [] \<Longrightarrow> w \<in> set (split_on nl s) \<Longrightarrow> trim w = []"
proof (induction "length s" arbitrary: s rule: less_induct)
  case less
  show ?case
  proof (cases "nl \<in> set s")
    case False
    with less show ?thesis by (simp add: split_on_id)
  next
    case True
    then obtain a b where s: "s = a @ nl # b" by (meson split_list)
    with less.prems have "trim a = []" "trim b = []"
      by (simp_all add: trim_blank_iff trim_start_blank_iff)
    with less.hyps [of a] less.hyps [of b] less.prems(2) s show ?thesis
      by (auto simp: split_on_append_sep)
  qed
qed

lemma trim_end_nl_eq:
  obtains k where "s = trim_end_nl s @ replicate k nl"
proof -
  have "s = rev (dropWhile (\<lambda>c. c = nl) (rev s)) @ rev (takeWhile (\<lambda>c. c = nl) (rev s))"
    by (metis rev_append rev_rev_ident takeWhile_dropWhile_id)
  moreover have "takeWhile (\<lambda>c. c = nl) (rev s) = replicate (length (takeWhile (\<lambda>c. c = nl) (rev s))) nl"
    by (rule replicate_length_same [symmetric]) (auto dest: set_takeWhileD)
  ultimately show thesis using that unfolding trim_end_nl_def by (metis rev_replicate)
qed

text \<open>\<open>str::split_whitespace\<close>.\<close>

function split_ws_acc :: "string \<Rightarrow> string \<Rightarrow> string list" where
  "split_ws_acc acc s =
     (if s = [] then (if acc = [] then [] else [rev acc])
      else if 0 < ws_prefix s
        then (if acc = [] then [] else [rev acc]) @ split_ws_acc [] (drop (ws_prefix s) s)
      else split_ws_acc (hd s # acc) (tl s))"
  by pat_completeness auto
termination
proof (relation "measure (\<lambda>(acc, s). length s)", goal_cases)
  case 1
  then show ?case by simp
next
  case (2 acc s)
  then show ?case using ws_prefix_le [of s] by (cases s) auto
next
  case (3 acc s)
  then show ?case by (cases s) auto
qed

declare split_ws_acc.simps [simp del]

definition split_whitespace :: "string \<Rightarrow> string list" where
  "split_whitespace s = split_ws_acc [] s"

section \<open>Decoding UTF-8\<close>

text \<open>
  \<open>String::from_utf8_lossy\<close>: a well-formed character is kept, and each maximal ill-formed
  sequence is replaced by U+FFFD.  \<open>utf8_step\<close> reads the front of its input: whether a
  well-formed character stands there, and how many bytes to take.
\<close>

definition byte_at :: "nat \<Rightarrow> string \<Rightarrow> nat" where
  "byte_at k s = (if k < length s then byte (s ! k) else 0)"

definition cont_byte :: "nat \<Rightarrow> bool" where
  "cont_byte b \<longleftrightarrow> 128 \<le> b \<and> b \<le> 191"

definition second_of_three :: "nat \<Rightarrow> nat \<Rightarrow> bool" where
  "second_of_three a b \<longleftrightarrow>
     (a = 224 \<and> 160 \<le> b \<and> b \<le> 191) \<or> (225 \<le> a \<and> a \<le> 236 \<and> cont_byte b) \<or>
     (a = 237 \<and> 128 \<le> b \<and> b \<le> 159) \<or> (238 \<le> a \<and> a \<le> 239 \<and> cont_byte b)"

definition second_of_four :: "nat \<Rightarrow> nat \<Rightarrow> bool" where
  "second_of_four a b \<longleftrightarrow>
     (a = 240 \<and> 144 \<le> b \<and> b \<le> 191) \<or> (241 \<le> a \<and> a \<le> 243 \<and> cont_byte b) \<or>
     (a = 244 \<and> 128 \<le> b \<and> b \<le> 143)"

definition utf8_step :: "string \<Rightarrow> bool \<times> nat" where
  "utf8_step s =
     (let a = byte_at 0 s; b = byte_at 1 s; c = byte_at 2 s; d = byte_at 3 s in
      if a < 128 then (True, 1)
      else if 194 \<le> a \<and> a \<le> 223 then (if cont_byte b then (True, 2) else (False, 1))
      else if 224 \<le> a \<and> a \<le> 239 then
        (if \<not> second_of_three a b then (False, 1)
         else if cont_byte c then (True, 3) else (False, 2))
      else if 240 \<le> a \<and> a \<le> 244 then
        (if \<not> second_of_four a b then (False, 1)
         else if \<not> cont_byte c then (False, 2)
         else if cont_byte d then (True, 4) else (False, 3))
      else (False, 1))"

lemma utf8_step_pos: "0 < snd (utf8_step s)"
  by (simp add: utf8_step_def Let_def)

definition utf8_replacement :: string where
  "utf8_replacement = [CHR 0xEF, CHR 0xBF, CHR 0xBD]"

function utf8_lossy :: "string \<Rightarrow> string" where
  "utf8_lossy s =
     (if s = [] then []
      else (if fst (utf8_step s) then take (snd (utf8_step s)) s else utf8_replacement) @
           utf8_lossy (drop (snd (utf8_step s)) s))"
  by pat_completeness auto
termination
  by (relation "measure length") (use utf8_step_pos in auto)

declare utf8_lossy.simps [simp del]

lemma utf8_lossy_Nil [simp]: "utf8_lossy [] = []"
  by (simp add: utf8_lossy.simps)

function utf8_valid :: "string \<Rightarrow> bool" where
  "utf8_valid s =
     (if s = [] then True
      else fst (utf8_step s) \<and> utf8_valid (drop (snd (utf8_step s)) s))"
  by pat_completeness auto
termination
  by (relation "measure length") (use utf8_step_pos in auto)

declare utf8_valid.simps [simp del]

lemma utf8_lossy_valid: "utf8_valid s \<Longrightarrow> utf8_lossy s = s"
proof (induction s rule: utf8_lossy.induct)
  case (1 s)
  show ?case
  proof (cases "s = []")
    case False
    with 1(2) have "fst (utf8_step s)" "utf8_valid (drop (snd (utf8_step s)) s)"
      by (simp_all add: utf8_valid.simps [of s])
    with 1(1) [OF False] False show ?thesis by (simp add: utf8_lossy.simps [of s])
  qed simp
qed

text \<open>A step that succeeds reads only the bytes it takes, so valid texts can be joined.\<close>

lemma byte_at_append: "k < length s \<Longrightarrow> byte_at k (s @ t) = byte_at k s"
  by (simp add: byte_at_def nth_append)

lemma byte_at_zero: "length s \<le> k \<Longrightarrow> byte_at k s = 0"
  by (simp add: byte_at_def)

lemma utf8_step_cases:
  assumes "fst (utf8_step s)"
  obtains "byte_at 0 s < 128"
  | "194 \<le> byte_at 0 s" "byte_at 0 s \<le> 223" "cont_byte (byte_at 1 s)"
  | "224 \<le> byte_at 0 s" "byte_at 0 s \<le> 239" "second_of_three (byte_at 0 s) (byte_at 1 s)"
    "cont_byte (byte_at 2 s)"
  | "240 \<le> byte_at 0 s" "byte_at 0 s \<le> 244" "second_of_four (byte_at 0 s) (byte_at 1 s)"
    "cont_byte (byte_at 2 s)" "cont_byte (byte_at 3 s)"
  using assms unfolding utf8_step_def Let_def by (auto split: if_splits)

lemma utf8_step_one: "byte_at 0 s < 128 \<Longrightarrow> utf8_step s = (True, 1)"
  by (simp only: utf8_step_def Let_def if_True)

lemma utf8_step_two:
  "194 \<le> byte_at 0 s \<Longrightarrow> byte_at 0 s \<le> 223 \<Longrightarrow> cont_byte (byte_at 1 s) \<Longrightarrow> utf8_step s = (True, 2)"
  by (simp add: utf8_step_def Let_def)

lemma utf8_step_three:
  "224 \<le> byte_at 0 s \<Longrightarrow> byte_at 0 s \<le> 239 \<Longrightarrow> second_of_three (byte_at 0 s) (byte_at 1 s) \<Longrightarrow>
   cont_byte (byte_at 2 s) \<Longrightarrow> utf8_step s = (True, 3)"
  by (simp add: utf8_step_def Let_def)

lemma utf8_step_four:
  "240 \<le> byte_at 0 s \<Longrightarrow> byte_at 0 s \<le> 244 \<Longrightarrow> second_of_four (byte_at 0 s) (byte_at 1 s) \<Longrightarrow>
   cont_byte (byte_at 2 s) \<Longrightarrow> cont_byte (byte_at 3 s) \<Longrightarrow> utf8_step s = (True, 4)"
  by (simp add: utf8_step_def Let_def)

lemma byte_at_in: "0 < byte_at k s \<Longrightarrow> k < length s"
  using byte_at_zero [of s k] by fastforce

lemma cont_byte_in: "cont_byte (byte_at k s) \<Longrightarrow> k < length s"
  using byte_at_in [of k s] by (simp add: cont_byte_def)

lemma second_in:
  "second_of_three a (byte_at k s) \<Longrightarrow> k < length s"
  "second_of_four a (byte_at k s) \<Longrightarrow> k < length s"
  using byte_at_in [of k s] by (auto simp: second_of_three_def second_of_four_def cont_byte_def)

lemma utf8_step_bytes:
  assumes "fst (utf8_step s)" "s \<noteq> []"
  shows "snd (utf8_step s) \<le> length s \<and> utf8_step (s @ t) = utf8_step s"
proof -
  have z: "byte_at 0 (s @ t) = byte_at 0 s" using assms(2) by (simp add: byte_at_append)
  from assms(1) show ?thesis
  proof (cases rule: utf8_step_cases)
    case 1
    with z have "utf8_step s = (True, 1)" "utf8_step (s @ t) = (True, 1)"
      by (simp_all only: utf8_step_one)
    with assms(2) show ?thesis by (cases s) auto
  next
    case 2
    note l = cont_byte_in [OF 2(3)]
    with 2 z have "utf8_step s = (True, 2)" "utf8_step (s @ t) = (True, 2)"
      by (simp_all only: utf8_step_two byte_at_append)
    with l show ?thesis by simp
  next
    case 3
    note l = cont_byte_in [OF 3(4)] second_in(1) [OF 3(3)]
    with 3 z have "utf8_step s = (True, 3)" "utf8_step (s @ t) = (True, 3)"
      by (simp_all only: utf8_step_three byte_at_append)
    with l show ?thesis by simp
  next
    case 4
    note l = cont_byte_in [OF 4(4)] cont_byte_in [OF 4(5)] second_in(2) [OF 4(3)]
    with 4 z have "utf8_step s = (True, 4)" "utf8_step (s @ t) = (True, 4)"
      by (simp_all only: utf8_step_four byte_at_append)
    with l show ?thesis by simp
  qed
qed

lemma utf8_valid_append: "utf8_valid s \<Longrightarrow> utf8_valid (s @ t) = utf8_valid t"
proof (induction s rule: utf8_valid.induct)
  case (1 s)
  show ?case
  proof (cases "s = []")
    case False
    with 1(2) have ok: "fst (utf8_step s)" "utf8_valid (drop (snd (utf8_step s)) s)"
      by (simp_all add: utf8_valid.simps [of s])
    from utf8_step_bytes [OF ok(1) False, of t]
    have "snd (utf8_step s) \<le> length s" "utf8_step (s @ t) = utf8_step s" by auto
    then show ?thesis
      using False ok 1(1) [OF False ok(2)] by (simp add: utf8_valid.simps [of "s @ t"])
  qed simp
qed

lemma utf8_valid_ascii: "\<forall>c \<in> set s. byte c < 128 \<Longrightarrow> utf8_valid s"
proof (induction s)
  case Nil
  then show ?case by (simp add: utf8_valid.simps)
next
  case (Cons c s)
  then have "utf8_step (c # s) = (True, 1)"
    by (intro utf8_step_one) (simp add: byte_at_def)
  with Cons show ?case by (simp add: utf8_valid.simps [of "c # s"])
qed

section \<open>Decimal integers\<close>

definition digit_char :: "nat \<Rightarrow> char" where
  "digit_char d = char_of (48 + d)"

fun nat_digits :: "nat \<Rightarrow> string" where
  "nat_digits n = (if n < 10 then [digit_char n] else nat_digits (n div 10) @ [digit_char (n mod 10)])"

declare nat_digits.simps [simp del]

definition int_to_string :: "int \<Rightarrow> string" where
  "int_to_string i = (if i < 0 then CHR ''-'' # nat_digits (nat (- i)) else nat_digits (nat i))"

definition digit_val :: "char \<Rightarrow> nat option" where
  "digit_val c = (if 48 \<le> byte c \<and> byte c \<le> 57 then Some (byte c - 48) else None)"

fun parse_digits :: "nat \<Rightarrow> string \<Rightarrow> nat option" where
  "parse_digits acc [] = Some acc"
| "parse_digits acc (c # s) =
     (case digit_val c of None \<Rightarrow> None | Some d \<Rightarrow> parse_digits (10 * acc + d) s)"

definition i64_min :: int where "i64_min = - (2 ^ 63)"
definition i64_max :: int where "i64_max = 2 ^ 63 - 1"

definition in_i64 :: "int \<Rightarrow> bool" where
  "in_i64 i \<longleftrightarrow> i64_min \<le> i \<and> i \<le> i64_max"

text \<open>
  \<open>str::parse::<i64>\<close>: an optional sign, at least one digit, and a value that fits.
\<close>

definition parse_i64 :: "string \<Rightarrow> int option" where
  "parse_i64 s =
     (let neg = (s \<noteq> [] \<and> hd s = CHR ''-'');
          ds = (if s \<noteq> [] \<and> (hd s = CHR ''-'' \<or> hd s = CHR ''+'') then tl s else s)
      in if ds = [] then None
         else case parse_digits 0 ds of
                None \<Rightarrow> None
              | Some n \<Rightarrow>
                  (let i = (if neg then - int n else int n) in if in_i64 i then Some i else None))"

definition parse_usize :: "string \<Rightarrow> nat option" where
  "parse_usize s =
     (let ds = (if s \<noteq> [] \<and> hd s = CHR ''+'' then tl s else s)
      in if ds = [] then None
         else case parse_digits 0 ds of
                None \<Rightarrow> None
              | Some n \<Rightarrow> if n < 2 ^ 64 then Some n else None)"

lemma byte_digit_char: "d < 10 \<Longrightarrow> byte (digit_char d) = 48 + d"
  by (simp add: byte_def digit_char_def take_bit_eq_mod)

lemma digit_val_digit_char: "d < 10 \<Longrightarrow> digit_val (digit_char d) = Some d"
  by (simp add: digit_val_def byte_digit_char)

lemma digit_char_not_sign: "d < 10 \<Longrightarrow> digit_char d \<noteq> CHR ''-'' \<and> digit_char d \<noteq> CHR ''+''"
proof
  assume d: "d < 10"
  show "digit_char d \<noteq> CHR ''-''"
    using byte_digit_char [OF d] by (auto simp: byte_def)
  show "digit_char d \<noteq> CHR ''+''"
    using byte_digit_char [OF d] by (auto simp: byte_def)
qed

lemma parse_digits_append:
  "parse_digits acc (s @ t) =
     (case parse_digits acc s of None \<Rightarrow> None | Some n \<Rightarrow> parse_digits n t)"
  by (induction s arbitrary: acc) (auto split: option.splits)

lemma parse_nat_digits: "parse_digits 0 (nat_digits n) = Some n"
proof (induction n rule: nat_digits.induct)
  case (1 n)
  show ?case
  proof (cases "n < 10")
    case True
    then show ?thesis by (simp add: nat_digits.simps [of n] digit_val_digit_char)
  next
    case False
    with 1 show ?thesis
      by (simp add: nat_digits.simps [of n] parse_digits_append digit_val_digit_char)
  qed
qed

lemma nat_digits_nonempty: "nat_digits n \<noteq> []"
  by (subst nat_digits.simps) simp

lemma nat_digits_digit: "c \<in> set (nat_digits n) \<Longrightarrow> \<exists>d < 10. c = digit_char d"
proof (induction n rule: nat_digits.induct)
  case (1 n)
  show ?case
  proof (cases "n < 10")
    case True
    with 1 show ?thesis by (auto simp: nat_digits.simps [of n])
  next
    case False
    then have "c \<in> set (nat_digits (n div 10)) \<or> c = digit_char (n mod 10)"
      using "1.prems" by (auto simp: nat_digits.simps [of n])
    moreover have "n mod 10 < 10" by simp
    ultimately show ?thesis using "1.IH" False by blast
  qed
qed

lemma hd_nat_digits: "hd (nat_digits n) \<noteq> CHR ''-'' \<and> hd (nat_digits n) \<noteq> CHR ''+''"
  using nat_digits_digit [of "hd (nat_digits n)" n] nat_digits_nonempty [of n] digit_char_not_sign
    hd_in_set by metis

lemma parse_i64_to_string: "in_i64 i \<Longrightarrow> parse_i64 (int_to_string i) = Some i"
  using hd_nat_digits [of "nat i"] nat_digits_nonempty
  by (auto simp: parse_i64_def int_to_string_def Let_def parse_nat_digits)

lemma int_to_string_nonempty [simp]: "int_to_string i \<noteq> []"
  by (simp add: int_to_string_def nat_digits_nonempty)

lemma int_to_string_inj: "in_i64 i \<Longrightarrow> in_i64 j \<Longrightarrow> int_to_string i = int_to_string j \<Longrightarrow> i = j"
  using parse_i64_to_string by (metis option.inject)

lemma parse_usize_digits: "n < 2 ^ 64 \<Longrightarrow> parse_usize (nat_digits n) = Some n"
  using nat_digits_nonempty [of n] hd_nat_digits [of n] parse_nat_digits [of n]
  by (simp add: parse_usize_def Let_def)

lemma nat_digits_ascii: "c \<in> set (nat_digits n) \<Longrightarrow> 48 \<le> byte c \<and> byte c < 58"
  using nat_digits_digit [of c n] byte_digit_char by fastforce

end
