(* ===== verification/NoteId.thy ===== *)
theory NoteId
  imports RustText
begin

text \<open>
  \<open>crates/spelunk-core/src/storage/memory/note_id.rs\<close>: the opaque identity of a memory entry
  as every backend hands it out, its narrowing to the \<open>i64\<close> rowid of a local store, and its JSON
  form (a number when it denotes an \<open>i64\<close>, a string otherwise).  The visitor of the
  deserializer is modelled on the two JSON values it accepts.
\<close>

datatype note_id = NoteId string

instantiation note_id :: linorder
begin

fun less_eq_note_id :: "note_id \<Rightarrow> note_id \<Rightarrow> bool" where
  "less_eq_note_id (NoteId a) (NoteId b) = (a \<le> b)"

fun less_note_id :: "note_id \<Rightarrow> note_id \<Rightarrow> bool" where
  "less_note_id (NoteId a) (NoteId b) = (a < b)"

instance
proof
  fix x y z :: note_id
  show "(x < y) = (x \<le> y \<and> \<not> y \<le> x)" by (cases x; cases y) auto
  show "x \<le> x" by (cases x) simp
  show "x \<le> y \<Longrightarrow> y \<le> z \<Longrightarrow> x \<le> z" by (cases x; cases y; cases z) auto
  show "x \<le> y \<Longrightarrow> y \<le> x \<Longrightarrow> x = y" by (cases x; cases y) auto
  show "x \<le> y \<or> y \<le> x" by (cases x; cases y) auto
qed

end

fun as_str :: "note_id \<Rightarrow> string" where
  "as_str (NoteId s) = s"

definition note_id_from_i64 :: "int \<Rightarrow> note_id" where
  "note_id_from_i64 i = NoteId (int_to_string i)"

definition as_i64 :: "note_id \<Rightarrow> int option" where
  "as_i64 i = parse_i64 (as_str i)"

text \<open>The three refusals, without their message text.\<close>

datatype id_error = EmptyId | NotResolvable string | InvalidType

definition note_id_from_str :: "string \<Rightarrow> id_error + note_id" where
  "note_id_from_str s = (if s = [] then Inl EmptyId else Inr (NoteId s))"

text \<open>The JSON scalars an id is written as or read from.\<close>

datatype json_scalar = JInt int | JStr string

definition note_id_serialize :: "note_id \<Rightarrow> json_scalar" where
  "note_id_serialize i = (case as_i64 i of Some n \<Rightarrow> JInt n | None \<Rightarrow> JStr (as_str i))"

text \<open>
  \<open>visit_i64\<close>, \<open>visit_u64\<close> and \<open>visit_str\<close>; a number outside both ranges reaches no visitor
  method and is the deserializer's type error.
\<close>

fun note_id_deserialize :: "json_scalar \<Rightarrow> id_error + note_id" where
  "note_id_deserialize (JInt n) =
     (if in_i64 n then Inr (note_id_from_i64 n)
      else if 0 \<le> n \<and> n < 2 ^ 64 then Inr (NoteId (int_to_string n))
      else Inl InvalidType)"
| "note_id_deserialize (JStr s) = note_id_from_str s"

text \<open>\<open>numeric_note_id\<close> of \<open>storage/backend.rs\<close>: narrowing with an error for a foreign id.\<close>

definition numeric_note_id :: "note_id \<Rightarrow> id_error + int" where
  "numeric_note_id i =
     (case as_i64 i of Some n \<Rightarrow> Inr n | None \<Rightarrow> Inl (NotResolvable (as_str i)))"

lemma as_i64_from_i64 [simp]: "in_i64 n \<Longrightarrow> as_i64 (note_id_from_i64 n) = Some n"
  by (simp add: as_i64_def note_id_from_i64_def parse_i64_to_string)

lemma parse_i64_range: "parse_i64 s = Some n \<Longrightarrow> in_i64 n"
  by (auto simp: parse_i64_def Let_def split: if_splits option.splits)

lemma as_i64_range: "as_i64 i = Some n \<Longrightarrow> in_i64 n"
  unfolding as_i64_def by (rule parse_i64_range)

lemma numeric_note_id_from_i64: "in_i64 n \<Longrightarrow> numeric_note_id (note_id_from_i64 n) = Inr n"
  by (simp add: numeric_note_id_def)

text \<open>An id survives its JSON form exactly when it is not a number, or is the number the
  decimal printer would have written; a token such as \<open>007\<close> comes back as \<open>7\<close>.\<close>

lemma note_id_json_roundtrip:
  assumes "as_str i \<noteq> []"
  shows "note_id_deserialize (note_id_serialize i) = Inr i \<longleftrightarrow>
           (case as_i64 i of None \<Rightarrow> True | Some n \<Rightarrow> i = note_id_from_i64 n)"
proof (cases "as_i64 i")
  case None
  with assms show ?thesis
    by (cases i) (simp add: note_id_serialize_def note_id_from_str_def)
next
  case (Some n)
  then have "in_i64 n" by (rule as_i64_range)
  with Some show ?thesis by (auto simp: note_id_serialize_def)
qed

lemma note_id_json_roundtrip_witness:
  "note_id_deserialize (note_id_serialize (NoteId ''ab'')) = Inr (NoteId ''ab'') \<and>
   note_id_deserialize (note_id_serialize (NoteId ''007'')) \<noteq> Inr (NoteId ''007'')"
proof -
  have a: "as_i64 (NoteId ''ab'') = None" by code_simp
  have b: "as_i64 (NoteId ''007'') = Some 7" "NoteId ''007'' \<noteq> note_id_from_i64 7" by code_simp+
  show ?thesis
    using note_id_json_roundtrip [of "NoteId ''ab''"] note_id_json_roundtrip [of "NoteId ''007''"] a b
    by simp
qed

end
