(* ===== verification/NoteRecord.thy ===== *)
theory NoteRecord
  imports NoteId
begin

text \<open>
  The data of a memory entry: \<open>storage/note_record.rs\<close> (\<open>NoteRecord\<close>, the line format of the
  notes ref), \<open>storage/memory/mod.rs\<close> (\<open>Note\<close>, the entry every reader gets),
  \<open>storage/entity_id.rs\<close> (the content-addressed identity) and \<open>storage/note_kind.rs\<close> (the
  canonical kinds).  SHA-256, hex encoding and the JSON writer are third-party crates and are
  the fields of \<open>hashing\<close>; the floating-point fields of \<open>Note\<close> are opaque bit patterns, which
  the modelled code only ever leaves unset.
\<close>

section \<open>Entity identity\<close>

record hashing =
  to_json :: "(string \<times> string) list \<Rightarrow> string"
  sha256 :: "string \<Rightarrow> string"
  hex_encode :: "string \<Rightarrow> string"

text \<open>A \<open>BTreeMap\<close> iterates in key order.\<close>

definition canonical_bytes :: "hashing \<Rightarrow> string \<Rightarrow> string \<Rightarrow> string \<Rightarrow> string" where
  "canonical_bytes E kind title body =
     to_json E (sort_key fst [(''body'', body), (''kind'', kind), (''title'', title)])"

definition entity_id :: "hashing \<Rightarrow> string \<Rightarrow> string \<Rightarrow> string \<Rightarrow> string" where
  "entity_id E kind title body = hex_encode E (sha256 E (canonical_bytes E kind title body))"

text \<open>
  What the code relies on: the JSON writer and the hex encoder lose nothing, and no two of the
  canonical forms of the entries \<open>C\<close> at hand have one digest.
\<close>

definition hashing_ok :: "hashing \<Rightarrow> (string \<times> string \<times> string) set \<Rightarrow> bool" where
  "hashing_ok E C \<longleftrightarrow> inj (to_json E) \<and> inj (hex_encode E) \<and>
     inj_on (sha256 E) ((\<lambda>(k, t, b). canonical_bytes E k t b) ` C)"

lemma sort_key_canonical:
  "sort_key fst [(''body'', b), (''kind'', k), (''title'', t)] =
     [(''body'', b), (''kind'', k), (''title'', t)]"
  by (rule sort_key_id_if_sorted) (simp add: less_eq_list_code less_char_def of_char_def)

lemma canonical_bytes_inj:
  assumes "inj (to_json E)" "canonical_bytes E k t b = canonical_bytes E k' t' b'"
  shows "k = k' \<and> t = t' \<and> b = b'"
  using assms by (auto simp: canonical_bytes_def sort_key_canonical dest: injD)

lemma entity_id_identifies':
  assumes "hashing_ok E C" "(k, t, b) \<in> C" "(k', t', b') \<in> C"
  shows "entity_id E k t b = entity_id E k' t' b' \<longleftrightarrow> k = k' \<and> t = t' \<and> b = b'"
proof
  let ?c = "\<lambda>(k, t, b). canonical_bytes E k t b"
  assume "entity_id E k t b = entity_id E k' t' b'"
  with assms(1) have "sha256 E (canonical_bytes E k t b) = sha256 E (canonical_bytes E k' t' b')"
    by (auto simp: entity_id_def hashing_ok_def dest: injD)
  moreover have "canonical_bytes E k t b \<in> ?c ` C" "canonical_bytes E k' t' b' \<in> ?c ` C"
    using assms(2,3) by force+
  ultimately have "canonical_bytes E k t b = canonical_bytes E k' t' b'"
    using assms(1) unfolding hashing_ok_def by (meson inj_onD)
  with assms(1) canonical_bytes_inj show "k = k' \<and> t = t' \<and> b = b'"
    unfolding hashing_ok_def by blast
qed simp

text \<open>The identity of an entry is a function of its kind, title and body alone, and separates
  entries that differ in any of them.\<close>

lemma entity_id_identifies:
  assumes "hashing_ok E {(k, t, b), (k', t', b')}"
  shows "entity_id E k t b = entity_id E k' t' b' \<longleftrightarrow> k = k' \<and> t = t' \<and> b = b'"
  by (rule entity_id_identifies' [OF assms]) simp_all

section \<open>Records and notes\<close>

record note_record =
  nr_schema_version :: nat
  nr_id :: int
  nr_kind :: string
  nr_title :: string
  nr_body :: string
  nr_tags :: "string list"
  nr_linked_files :: "string list"
  nr_created_at :: int
  nr_status :: string
  nr_source_ref :: "string option"
  nr_valid_at :: "int option"
  nr_invalid_at :: "int option"
  nr_superseded_by :: "int option"
  nr_remote_id :: "string option"
  nr_entity_id :: "string option"
  nr_superseded_by_entity_id :: "string option"

definition resolve_entity_id :: "hashing \<Rightarrow> note_record \<Rightarrow> string" where
  "resolve_entity_id E r =
     (case nr_entity_id r of
        Some e \<Rightarrow> e
      | None \<Rightarrow> entity_id E (nr_kind r) (nr_title r) (nr_body r))"

type_synonym f64_bits = nat

record mem_note =
  n_id :: note_id
  n_kind :: string
  n_title :: string
  n_body :: string
  n_tags :: "string list"
  n_linked_files :: "string list"
  n_created_at :: int
  n_status :: string
  n_superseded_by :: "note_id option"
  n_source_ref :: "string option"
  n_valid_at :: "int option"
  n_invalid_at :: "int option"
  n_distance :: "f64_bits option"
  n_score :: "f64_bits option"
  n_source_project :: "string option"
  n_source_project_path :: "string option"
  n_remote_id :: "string option"

definition note_entity_id :: "hashing \<Rightarrow> mem_note \<Rightarrow> string" where
  "note_entity_id E n = entity_id E (n_kind n) (n_title n) (n_body n)"

definition record_to_note :: "note_record \<Rightarrow> mem_note" where
  "record_to_note r =
     \<lparr> n_id = note_id_from_i64 (nr_id r),
       n_kind = nr_kind r,
       n_title = nr_title r,
       n_body = nr_body r,
       n_tags = nr_tags r,
       n_linked_files = nr_linked_files r,
       n_created_at = nr_created_at r,
       n_status = nr_status r,
       n_superseded_by = map_option note_id_from_i64 (nr_superseded_by r),
       n_source_ref = nr_source_ref r,
       n_valid_at = nr_valid_at r,
       n_invalid_at = nr_invalid_at r,
       n_distance = None,
       n_score = None,
       n_source_project = None,
       n_source_project_path = None,
       n_remote_id = nr_remote_id r \<rparr>"

lemma record_to_note_entity:
  "nr_entity_id r = None \<Longrightarrow> note_entity_id E (record_to_note r) = resolve_entity_id E r"
  by (simp add: note_entity_id_def record_to_note_def resolve_entity_id_def)

section \<open>Kinds\<close>

definition note_kinds :: "string list" where
  "note_kinds =
     [''decision'', ''context'', ''requirement'', ''note'', ''question'', ''answer'',
      ''handoff'', ''intent'', ''antipattern'']"

definition is_valid_note_kind :: "string \<Rightarrow> bool" where
  "is_valid_note_kind k = List.member note_kinds k"

text \<open>The error names the offending kind and the valid ones.\<close>

definition parse_note_kind :: "string \<Rightarrow> (string \<times> string list) + string" where
  "parse_note_kind k = (if is_valid_note_kind k then Inr k else Inl (k, note_kinds))"

text \<open>The status words the stores write.\<close>

abbreviation active :: string where "active \<equiv> ''active''"
abbreviation archived :: string where "archived \<equiv> ''archived''"

lemma active_not_archived [simp]: "active \<noteq> archived" "archived \<noteq> active"
  by simp_all

section \<open>A concrete hashing environment\<close>

text \<open>
  An instance that satisfies the hypotheses, for the witnesses: the identity in place of the hash
  and of the hex encoding, and a writer that escapes a backslash and the two separators it uses.
\<close>

fun esc_str :: "string \<Rightarrow> string" where
  "esc_str [] = [CHR '';'']"
| "esc_str (c # s) = CHR ''.'' # c # esc_str s"

fun plain_json :: "(string \<times> string) list \<Rightarrow> string" where
  "plain_json [] = []"
| "plain_json ((k, v) # kvs) = esc_str k @ esc_str v @ plain_json kvs"

definition plain_hashing :: hashing where
  "plain_hashing = \<lparr> to_json = plain_json, sha256 = (\<lambda>s. s), hex_encode = (\<lambda>s. s) \<rparr>"

lemma esc_str_append_inj: "esc_str s @ r = esc_str t @ q \<Longrightarrow> s = t \<and> r = q"
proof (induction s arbitrary: t)
  case Nil
  then show ?case by (cases t) auto
next
  case (Cons c s)
  then show ?case by (cases t) auto
qed

lemma plain_json_inj: "plain_json xs = plain_json ys \<Longrightarrow> xs = ys"
proof (induction xs arbitrary: ys)
  case Nil
  then show ?case
    by (cases ys) (auto, metis append_is_Nil_conv esc_str.elims list.distinct(1))
next
  case (Cons x xs)
  obtain k v where x: "x = (k, v)" by fastforce
  show ?case
  proof (cases ys)
    case Nil
    with Cons.prems x show ?thesis
      by (auto, metis append_is_Nil_conv esc_str.elims list.distinct(1))
  next
    case (Cons y zs)
    obtain k' v' where y: "y = (k', v')" by fastforce
    from Cons.prems x y \<open>ys = y # zs\<close>
    have "esc_str k @ (esc_str v @ plain_json xs) = esc_str k' @ (esc_str v' @ plain_json zs)"
      by simp
    then have "k = k'" "esc_str v @ plain_json xs = esc_str v' @ plain_json zs"
      using esc_str_append_inj by blast+
    with esc_str_append_inj have "v = v'" "plain_json xs = plain_json zs" by blast+
    with Cons.IH \<open>k = k'\<close> x y \<open>ys = y # zs\<close> show ?thesis by simp
  qed
qed

lemma plain_hashing_ok: "hashing_ok plain_hashing C"
  by (auto simp: hashing_ok_def plain_hashing_def inj_def inj_on_def dest: plain_json_inj)

lemma entity_id_identifies_witness:
  "entity_id plain_hashing ''note'' ''a'' ''b'' \<noteq> entity_id plain_hashing ''note'' ''ab'' []"
  using entity_id_identifies [OF plain_hashing_ok, of "''note''" "''a''" "''b''" "''note''" "''ab''" "[]"]
  by simp

end
