(* ===== verification/NotesFold.thy ===== *)
theory NotesFold
  imports NoteRecord
begin

text \<open>
  \<open>storage/git_notes/fold.rs\<close>: the notes ref accumulates one line per copy of an entry, and
  readers fold the copies of one entity into one record.  The model follows the file function by
  function; \<open>swap_remove\<close> and \<open>min_by\<close> keep the order the code works in.  The lemmas give
  the closed form of a fold, from which convergence (the input's order does not matter), the
  archival rule, the tag union and the anchor follow.
\<close>

section \<open>The fold\<close>

text \<open>Earliest recording wins; the trailing fields only break a tie.\<close>

definition base_key :: "note_record \<Rightarrow> int \<times> int \<times> string option \<times> string option \<times> int option" where
  "base_key r =
     (nr_created_at r, nr_id r, nr_source_ref r, nr_remote_id r, nr_superseded_by r)"

text \<open>\<open>enumerate().min_by(..)\<close>: the index of the first copy with the least key.\<close>

definition base_index :: "note_record list \<Rightarrow> nat option" where
  "base_index copies = map_option fst (min_by (\<lambda>(i, r). base_key r) (enumerate 0 copies))"

definition min_some :: "'a::linorder option \<Rightarrow> 'a option \<Rightarrow> 'a option" where
  "min_some a b =
     (case (a, b) of
        (Some x, Some y) \<Rightarrow> Some (min x y)
      | (None, b) \<Rightarrow> b
      | (a, None) \<Rightarrow> a)"

definition union_into :: "string list \<Rightarrow> string list \<Rightarrow> string list" where
  "union_into base other = remdups_adj (sort (base @ other))"

definition merge_into :: "note_record \<Rightarrow> note_record \<Rightarrow> note_record" where
  "merge_into base other =
     base\<lparr> nr_status := (if nr_status other = archived then archived else nr_status base),
           nr_schema_version := max (nr_schema_version base) (nr_schema_version other),
           nr_valid_at := min_some (nr_valid_at base) (nr_valid_at other),
           nr_invalid_at := min_some (nr_invalid_at base) (nr_invalid_at other),
           nr_tags := union_into (nr_tags base) (nr_tags other),
           nr_linked_files := union_into (nr_linked_files base) (nr_linked_files other) \<rparr>"

text \<open>
  The most recent copy that names a successor decides it.  The comparator orders by descending
  \<open>created_at\<close>, then \<open>base_key\<close>, then the value.
\<close>

definition successor_key ::
    "note_record \<Rightarrow> int \<times> (int \<times> int \<times> string option \<times> string option \<times> int option) \<times> string option" where
  "successor_key r = (- nr_created_at r, base_key r, nr_superseded_by_entity_id r)"

definition resolve_superseded_by_entity_id :: "note_record list \<Rightarrow> string option" where
  "resolve_superseded_by_entity_id copies =
     Option.bind
       (min_by successor_key (filter (\<lambda>r. nr_superseded_by_entity_id r \<noteq> None) copies))
       nr_superseded_by_entity_id"

text \<open>\<open>Vec::swap_remove\<close>: the last element takes the place of the one removed.\<close>

definition swap_remove :: "nat \<Rightarrow> 'a list \<Rightarrow> 'a \<times> 'a list" where
  "swap_remove i xs = (xs ! i, butlast (xs[i := last xs]))"

text \<open>A group is never empty: \<open>expect\<close> panics on \<open>None\<close>, which the model keeps as \<open>None\<close>.\<close>

definition fold_group :: "note_record list \<Rightarrow> note_record option" where
  "fold_group copies =
     (let succ = resolve_superseded_by_entity_id copies
      in case base_index copies of
           None \<Rightarrow> None
         | Some i \<Rightarrow>
             (let (base, others) = swap_remove i copies
              in Some ((foldl merge_into base others)\<lparr> nr_superseded_by_entity_id := succ \<rparr>)))"

definition fold_records :: "hashing \<Rightarrow> note_record list \<Rightarrow> note_record list" where
  "fold_records E records =
     filter_map (\<lambda>(key, copies). fold_group copies) (group_by (resolve_entity_id E) records)"

text \<open>
  \<open>anchor_commits\<close>: the hash map \<open>best\<close> sends an entity to the index of the best line so far; a
  later line replaces it only when its key is strictly smaller.
\<close>

definition anchor_step ::
    "hashing \<Rightarrow> (string \<times> note_record) list \<Rightarrow> nat \<times> (string \<times> note_record) \<Rightarrow>
       (string \<rightharpoonup> nat) \<Rightarrow> (string \<rightharpoonup> nat)" where
  "anchor_step E records ir best =
     (case ir of (i, (commit, r)) \<Rightarrow>
        (case best (resolve_entity_id E r) of
           None \<Rightarrow> best(resolve_entity_id E r \<mapsto> i)
         | Some j \<Rightarrow>
             (if base_key r < base_key (snd (records ! j))
              then best(resolve_entity_id E r \<mapsto> i) else best)))"

definition anchor_commits :: "hashing \<Rightarrow> (string \<times> note_record) list \<Rightarrow> (string \<rightharpoonup> string)" where
  "anchor_commits E records =
     (\<lambda>e. map_option (\<lambda>i. fst (records ! i))
            (fold (anchor_step E records) (enumerate 0 records) Map.empty e))"

section \<open>Closed form\<close>

lemma min_by_map: "min_by k (map f xs) = map_option f (min_by (k \<circ> f) xs)"
  by (induction xs) (auto split: option.splits)

lemma min_by_cong: "(\<And>x. x \<in> set xs \<Longrightarrow> k x = k' x) \<Longrightarrow> min_by k xs = min_by k' xs"
proof (induction xs)
  case Nil
  then show ?case by simp
next
  case (Cons x xs)
  have "min_by k xs = min_by k' xs" using Cons by simp
  moreover have "y \<in> set xs" if "min_by k' xs = Some y" for y
    using that by (induction xs arbitrary: y) (auto split: option.splits if_splits)
  ultimately show ?case using Cons.prems by (auto split: option.splits)
qed

interpretation base_pick: keyed_min base_key "min_by base_key"
  by unfold_locales simp

interpretation indexed_pick: keyed_min "\<lambda>(i::nat, r). base_key r" "min_by (\<lambda>(i, r). base_key r)"
  by unfold_locales simp

interpretation successor_pick: keyed_min successor_key "min_by successor_key"
  by unfold_locales simp

lemma base_index_Some:
  assumes "base_index g = Some i"
  shows "i < length g \<and> min_by base_key g = Some (g ! i)"
proof -
  from assms obtain r where m: "min_by (\<lambda>(i, r). base_key r) (enumerate 0 g) = Some (i, r)"
    by (auto simp: base_index_def)
  from indexed_pick.pick_Some [OF m] have "(i, r) \<in> set (enumerate 0 g)" by blast
  then have "i < length g" "r = g ! i"
    by (auto simp: in_set_enumerate_eq)
  moreover have "min_by base_key g = Some r"
    using min_by_map [of base_key snd "enumerate 0 g"] m by (simp add: comp_def case_prod_beta')
  ultimately show ?thesis by simp
qed

lemma base_index_nonempty: "g \<noteq> [] \<Longrightarrow> \<exists>i. base_index g = Some i"
  using indexed_pick.pick_nonempty [of "enumerate 0 g"]
  by (auto simp: base_index_def) (metis length_enumerate length_0_conv option.simps(9))

lemma mset_swap_remove:
  assumes "i < length xs"
  shows "add_mset (xs ! i) (mset (butlast (xs[i := last xs]))) = mset xs"
proof -
  let ?ys = "xs[i := last xs]"
  from assms have ne: "?ys \<noteq> []" "xs \<noteq> []" by auto
  have l: "last ?ys = last xs"
    using ne assms by (simp add: last_list_update)
  have "mset ?ys = add_mset (last ?ys) (mset (butlast ?ys))"
    using ne by (metis append_butlast_last_id mset.simps(1) mset.simps(2) mset_append
        union_mset_add_mset_right add.right_neutral)
  moreover have "add_mset (xs ! i) (mset ?ys) = add_mset (last xs) (mset xs)"
    using assms by (simp add: mset_update nth_mem_mset insert_DiffM2)
  ultimately show ?thesis using l by simp
qed

text \<open>The least present value of a list of optional times.\<close>

definition least_some :: "int option list \<Rightarrow> int option" where
  "least_some xs = (if \<exists>v. Some v \<in> set xs then Some (Min {v. Some v \<in> set xs}) else None)"

lemma finite_some_values: "finite {v. Some v \<in> set xs}"
proof -
  have "{v. Some v \<in> set xs} \<subseteq> the ` set xs" by force
  then show ?thesis by (rule finite_subset) simp
qed

lemma least_some_Nil [simp]: "least_some [] = None"
  by (simp add: least_some_def)

lemma least_some_Cons: "least_some (x # xs) = min_some x (least_some xs)"
proof (cases x)
  case None
  then show ?thesis by (simp add: least_some_def min_some_def split: option.splits)
next
  case (Some v)
  show ?thesis
  proof (cases "\<exists>w. Some w \<in> set xs")
    case True
    have "{w. Some w \<in> set (x # xs)} = insert v {w. Some w \<in> set xs}" using Some by auto
    with True Some finite_some_values [of xs] show ?thesis
      by (auto simp: least_some_def min_some_def)
  next
    case False
    with Some have "{w. Some w \<in> set (x # xs)} = {v}" by auto
    with Some False show ?thesis by (simp add: least_some_def min_some_def)
  qed
qed

lemma least_some_set: "set xs = set ys \<Longrightarrow> least_some xs = least_some ys"
  by (simp add: least_some_def)

lemma min_some_assoc: "min_some (min_some a b) c = min_some a (min_some b c)"
  by (cases a; cases b; cases c) (auto simp: min_some_def min.assoc)

lemma union_into_eq: "union_into xs ys = sorted_list_of_set (set xs \<union> set ys)"
proof -
  have "sorted (remdups_adj (sort (xs @ ys)))" "distinct (remdups_adj (sort (xs @ ys)))"
    by (simp_all add: sorted_remdups_adj sorted_sort distinct_remdups_adj_sorted)
  then show ?thesis
    unfolding union_into_def
    by (metis set_append remdups_adj_set set_sort sorted_list_of_set.idem_if_sorted_distinct)
qed

lemma set_union_into [simp]: "set (union_into xs ys) = set xs \<union> set ys"
  by (simp add: union_into_eq)

interpretation fold_tags: add_wins "set :: string list \<Rightarrow> string set" union_into "\<lambda>_. True"
  by unfold_locales simp

text \<open>The fields that merging never touches, and what it does to the others.\<close>

lemma merge_into_fields [simp]:
  "nr_id (merge_into b r) = nr_id b"
  "nr_kind (merge_into b r) = nr_kind b"
  "nr_title (merge_into b r) = nr_title b"
  "nr_body (merge_into b r) = nr_body b"
  "nr_created_at (merge_into b r) = nr_created_at b"
  "nr_source_ref (merge_into b r) = nr_source_ref b"
  "nr_superseded_by (merge_into b r) = nr_superseded_by b"
  "nr_remote_id (merge_into b r) = nr_remote_id b"
  "nr_entity_id (merge_into b r) = nr_entity_id b"
  "nr_status (merge_into b r) = (if nr_status r = archived then archived else nr_status b)"
  "nr_schema_version (merge_into b r) = max (nr_schema_version b) (nr_schema_version r)"
  "nr_valid_at (merge_into b r) = min_some (nr_valid_at b) (nr_valid_at r)"
  "nr_invalid_at (merge_into b r) = min_some (nr_invalid_at b) (nr_invalid_at r)"
  "nr_tags (merge_into b r) = union_into (nr_tags b) (nr_tags r)"
  "nr_linked_files (merge_into b r) = union_into (nr_linked_files b) (nr_linked_files r)"
  by (simp_all add: merge_into_def)

lemma merge_all_frame [simp]:
  "nr_id (foldl merge_into b os) = nr_id b"
  "nr_kind (foldl merge_into b os) = nr_kind b"
  "nr_title (foldl merge_into b os) = nr_title b"
  "nr_body (foldl merge_into b os) = nr_body b"
  "nr_created_at (foldl merge_into b os) = nr_created_at b"
  "nr_source_ref (foldl merge_into b os) = nr_source_ref b"
  "nr_superseded_by (foldl merge_into b os) = nr_superseded_by b"
  "nr_remote_id (foldl merge_into b os) = nr_remote_id b"
  "nr_entity_id (foldl merge_into b os) = nr_entity_id b"
  by (induction os arbitrary: b) simp_all

lemma merge_all_status:
  "nr_status (foldl merge_into b os) =
     (if \<exists>r \<in> set os. nr_status r = archived then archived else nr_status b)"
  by (induction os arbitrary: b) auto

lemma merge_all_schema:
  "nr_schema_version (foldl merge_into b os) = Max (nr_schema_version ` set (b # os))"
proof (induction os arbitrary: b)
  case Nil
  then show ?case by simp
next
  case (Cons r os)
  have "nr_schema_version (foldl merge_into b (r # os)) =
      Max (insert (max (nr_schema_version b) (nr_schema_version r)) (nr_schema_version ` set os))"
    using Cons.IH [of "merge_into b r"] by simp
  also have "\<dots> = Max (nr_schema_version ` set (b # r # os))"
    by (cases "os = []") (simp_all add: Max_insert max.assoc)
  finally show ?case .
qed

lemma merge_all_valid:
  "nr_valid_at (foldl merge_into b os) = least_some (map nr_valid_at (b # os))"
  "nr_invalid_at (foldl merge_into b os) = least_some (map nr_invalid_at (b # os))"
  by (induction os arbitrary: b)
     (simp_all add: least_some_Cons min_some_assoc, simp_all add: min_some_def split: option.splits)

lemma merge_all_tags:
  "nr_tags (foldl merge_into b os) =
     (if os = [] then nr_tags b
      else sorted_list_of_set (\<Union>r \<in> set (b # os). set (nr_tags r)))"
proof (induction os arbitrary: b)
  case Nil
  then show ?case by simp
next
  case (Cons r os)
  show ?case
    using Cons.IH [of "merge_into b r"]
    by (cases "os = []") (simp_all add: union_into_eq Un_assoc)
qed

lemma merge_all_files:
  "nr_linked_files (foldl merge_into b os) =
     (if os = [] then nr_linked_files b
      else sorted_list_of_set (\<Union>r \<in> set (b # os). set (nr_linked_files r)))"
proof (induction os arbitrary: b)
  case Nil
  then show ?case by simp
next
  case (Cons r os)
  show ?case
    using Cons.IH [of "merge_into b r"]
    by (cases "os = []") (simp_all add: union_into_eq Un_assoc)
qed

text \<open>The fold of a group, read off its members: an abstract specification of \<open>fold_group\<close>.\<close>

definition fold_spec :: "note_record list \<Rightarrow> note_record \<Rightarrow> note_record" where
  "fold_spec g b =
     b\<lparr> nr_status := (if \<exists>r \<in> set g. nr_status r = archived then archived else nr_status b),
        nr_schema_version := Max (nr_schema_version ` set g),
        nr_valid_at := least_some (map nr_valid_at g),
        nr_invalid_at := least_some (map nr_invalid_at g),
        nr_tags := (if length g = 1 then nr_tags b
                    else sorted_list_of_set (\<Union>r \<in> set g. set (nr_tags r))),
        nr_linked_files := (if length g = 1 then nr_linked_files b
                    else sorted_list_of_set (\<Union>r \<in> set g. set (nr_linked_files r))),
        nr_superseded_by_entity_id := resolve_superseded_by_entity_id g \<rparr>"

lemma fold_group_eq:
  assumes "g \<noteq> []"
  obtains b where "min_by base_key g = Some b" "b \<in> set g" "fold_group g = Some (fold_spec g b)"
proof -
  from assms obtain i where i: "base_index g = Some i" using base_index_nonempty by blast
  from base_index_Some [OF i] have il: "i < length g" and m: "min_by base_key g = Some (g ! i)"
    by auto
  let ?os = "butlast (g[i := last g])"
  have ms: "mset (g ! i # ?os) = mset g" using mset_swap_remove [OF il] by simp
  then have s: "set (g ! i # ?os) = set g" by (rule mset_eq_setD)
  have ne: "?os = [] \<longleftrightarrow> length g = 1"
    using mset_eq_length [OF ms] by (metis One_nat_def length_0_conv length_Cons nat.inject)
  have ls: "least_some (map f (g ! i # ?os)) = least_some (map f g)" for f :: "note_record \<Rightarrow> int option"
    by (rule least_some_set) (use s in \<open>simp only: set_map\<close>)
  have st: "(\<exists>r \<in> set g. nr_status r = archived) \<longleftrightarrow>
      nr_status (g ! i) = archived \<or> (\<exists>r \<in> set ?os. nr_status r = archived)"
    by (simp flip: s)
  have "fold_group g =
      Some ((foldl merge_into (g ! i) ?os)\<lparr> nr_superseded_by_entity_id := resolve_superseded_by_entity_id g \<rparr>)"
    by (simp add: fold_group_def i swap_remove_def)
  also have "(foldl merge_into (g ! i) ?os)\<lparr> nr_superseded_by_entity_id := resolve_superseded_by_entity_id g \<rparr>
      = fold_spec g (g ! i)"
    by (rule note_record.equality)
       (simp_all add: fold_spec_def merge_all_status merge_all_schema merge_all_valid merge_all_tags
          merge_all_files ne s st flip: ls del: list.set(2) list.map(2))
  finally show thesis using that m base_pick.pick_Some [OF m] by blast
qed

section \<open>What a fold returns\<close>

lemma fold_spec_frame [simp]:
  "base_key (fold_spec g b) = base_key b"
  "nr_kind (fold_spec g b) = nr_kind b"
  "nr_title (fold_spec g b) = nr_title b"
  "nr_body (fold_spec g b) = nr_body b"
  "nr_entity_id (fold_spec g b) = nr_entity_id b"
  by (simp_all add: fold_spec_def base_key_def)

lemma resolve_fold_spec [simp]: "resolve_entity_id E (fold_spec g b) = resolve_entity_id E b"
  by (simp add: resolve_entity_id_def split: option.split)

definition copies_of :: "hashing \<Rightarrow> string \<Rightarrow> note_record list \<Rightarrow> note_record list" where
  "copies_of E e rs = filter (\<lambda>r. resolve_entity_id E r = e) rs"

lemma set_copies_of [simp]: "set (copies_of E e rs) = {r \<in> set rs. resolve_entity_id E r = e}"
  by (auto simp: copies_of_def)

lemma in_fold_records:
  assumes "f \<in> set (fold_records E rs)"
  obtains e b where "copies_of E e rs \<noteq> []" "min_by base_key (copies_of E e rs) = Some b"
    "b \<in> set rs" "resolve_entity_id E b = e" "f = fold_spec (copies_of E e rs) b"
    "resolve_entity_id E f = e"
proof -
  from assms obtain e g where g: "(e, g) \<in> set (group_by (resolve_entity_id E) rs)"
    "fold_group g = Some f"
    by (auto simp: fold_records_def set_filter_map)
  from group_by_member [OF g(1)] have geq: "g = copies_of E e rs" and ne: "g \<noteq> []"
    unfolding copies_of_def by blast+
  from fold_group_eq [OF ne] obtain b where
    b: "min_by base_key g = Some b" "b \<in> set g" "fold_group g = Some (fold_spec g b)" .
  with g(2) have "f = fold_spec g b" by simp
  with b geq ne show thesis by (intro that [of e b]) auto
qed

lemma fold_records_mset:
  "mset (fold_records E rs) =
     image_mset (\<lambda>e. the (fold_group (copies_of E e rs))) (mset_set (resolve_entity_id E ` set rs))"
proof -
  let ?gs = "group_by (resolve_entity_id E) rs"
  have all: "fold_group g = Some (the (fold_group (copies_of E e rs)))" if "(e, g) \<in> set ?gs" for e g
  proof -
    from group_by_member [OF that] have "g = copies_of E e rs" "g \<noteq> []"
      unfolding copies_of_def by blast+
    then show ?thesis by (metis fold_group_eq option.sel)
  qed
  have "filter_map (\<lambda>(e, g). fold_group g) gs = map (\<lambda>e. the (fold_group (copies_of E e rs))) (map fst gs)"
    if "set gs \<subseteq> set ?gs" for gs
    using that
  proof (induction gs)
    case Nil
    then show ?case by simp
  next
    case (Cons p gs)
    then show ?case using all [of "fst p" "snd p"] by (cases p) auto
  qed
  from this [of ?gs]
  have "mset (fold_records E rs) =
      image_mset (\<lambda>e. the (fold_group (copies_of E e rs))) (mset (map fst ?gs))"
    by (simp add: fold_records_def multiset.map_comp)
  also have "mset (map fst ?gs) = mset_set (resolve_entity_id E ` set rs)"
    using mset_set_set [OF group_by_distinct [of "resolve_entity_id E" rs]]
      group_by_keys [of "resolve_entity_id E" rs] by simp
  finally show ?thesis .
qed

text \<open>A line as this version writes it: it carries its own entity id and one of the two states.\<close>

definition carrier_copy :: "hashing \<Rightarrow> note_record \<Rightarrow> bool" where
  "carrier_copy E r \<longleftrightarrow>
     nr_entity_id r = Some (entity_id E (nr_kind r) (nr_title r) (nr_body r)) \<and>
     (nr_status r = active \<or> nr_status r = archived)"

definition content_of :: "note_record \<Rightarrow> string \<times> string \<times> string" where
  "content_of r = (nr_kind r, nr_title r, nr_body r)"

lemma carrier_copy_content:
  assumes "hashing_ok E (content_of ` R)" "r \<in> R" "s \<in> R" "carrier_copy E r" "carrier_copy E s"
    "resolve_entity_id E r = resolve_entity_id E s"
  shows "nr_kind r = nr_kind s \<and> nr_title r = nr_title s \<and> nr_body r = nr_body s \<and>
         nr_entity_id r = nr_entity_id s"
  using assms(4-6) entity_id_identifies' [OF assms(1), of "nr_kind r" "nr_title r" "nr_body r"
      "nr_kind s" "nr_title s" "nr_body s"] imageI [OF assms(2), of content_of] imageI [OF assms(3), of content_of]
  by (auto simp: carrier_copy_def resolve_entity_id_def content_of_def)

lemma resolve_successor_set:
  assumes "set g = set g'"
  shows "resolve_superseded_by_entity_id g = resolve_superseded_by_entity_id g'"
proof -
  let ?f = "filter (\<lambda>r. nr_superseded_by_entity_id r \<noteq> None)"
  have "map_option successor_key (min_by successor_key (?f g)) =
        map_option successor_key (min_by successor_key (?f g'))"
    by (rule successor_pick.pick_key_set) (simp add: assms)
  then show ?thesis
    unfolding resolve_superseded_by_entity_id_def
    by (cases "min_by successor_key (?f g)"; cases "min_by successor_key (?f g')")
       (auto simp: successor_key_def)
qed

lemma fold_group_perm:
  assumes E: "hashing_ok E (content_of ` R)" "set g \<subseteq> R" and cc: "\<forall>r \<in> set g. carrier_copy E r"
    and one: "\<forall>r \<in> set g. resolve_entity_id E r = e" and ms: "mset g = mset g'"
  shows "fold_group g = fold_group g'"
proof (cases "g = []")
  case True
  with ms show ?thesis by simp
next
  case False
  with ms have False': "g' \<noteq> []" by auto
  have s: "set g = set g'" using ms by (rule mset_eq_setD)
  have l: "length g = length g'" using ms by (rule mset_eq_length)
  from fold_group_eq [OF False] obtain b where
    b: "min_by base_key g = Some b" "b \<in> set g" "fold_group g = Some (fold_spec g b)" .
  from fold_group_eq [OF False'] obtain b' where
    b': "min_by base_key g' = Some b'" "b' \<in> set g'" "fold_group g' = Some (fold_spec g' b')" .
  from base_pick.pick_key_set [OF s] b b' have k: "base_key b = base_key b'" by simp
  from carrier_copy_content [OF E(1), of b b'] E(2) cc one b(2) b'(2) s
  have c: "nr_kind b = nr_kind b'" "nr_title b = nr_title b'" "nr_body b = nr_body b'"
    "nr_entity_id b = nr_entity_id b'" by auto
  have st: "nr_status b = archived \<or> nr_status b = active" "nr_status b' = archived \<or> nr_status b' = active"
    using cc b(2) b'(2) s by (auto simp: carrier_copy_def)
  have m: "least_some (map f g) = least_some (map f g')" for f :: "note_record \<Rightarrow> int option"
    by (rule least_some_set) (simp add: s)
  have sing: "b = b'" if "length g' = 1"
    using that b(2) b'(2) s by (cases g') auto
  have f1: "(if \<exists>r \<in> set g'. nr_status r = archived then archived else nr_status b) =
      (if \<exists>r \<in> set g'. nr_status r = archived then archived else nr_status b')"
    using st b(2) b'(2) s by auto
  have f2: "length g' = Suc 0 \<longrightarrow> nr_tags b = nr_tags b'"
    "length g' = Suc 0 \<longrightarrow> nr_linked_files b = nr_linked_files b'"
    using sing by auto
  have "fold_spec g b = fold_spec g' b'"
    by (rule note_record.equality)
       (use k c in \<open>simp_all add: fold_spec_def s l m f1 f2 resolve_successor_set [OF s] base_key_def\<close>)
  with b(3) b'(3) show ?thesis by simp
qed

lemma copies_of_mset: "mset rs = mset rs' \<Longrightarrow> mset (copies_of E e rs) = mset (copies_of E e rs')"
  by (simp add: copies_of_def)


text \<open>Folding returns exactly one entry per entity on the ref, whatever the lines hold.\<close>

lemma fold_records_one_per_entity:
  "distinct (map (resolve_entity_id E) (fold_records E rs)) \<and>
   resolve_entity_id E ` set (fold_records E rs) = resolve_entity_id E ` set rs"
proof -
  let ?h = "\<lambda>e. the (fold_group (copies_of E e rs))"
  have r: "resolve_entity_id E (?h e) = e" if "e \<in> resolve_entity_id E ` set rs" for e
  proof -
    from that have ne: "copies_of E e rs \<noteq> []" by (auto simp: copies_of_def filter_empty_conv)
    from fold_group_eq [OF ne] obtain b where
      "b \<in> set (copies_of E e rs)" "fold_group (copies_of E e rs) = Some (fold_spec (copies_of E e rs) b)" .
    then show ?thesis by simp
  qed
  have "mset (map (resolve_entity_id E) (fold_records E rs)) =
      image_mset (\<lambda>e. resolve_entity_id E (?h e)) (mset_set (resolve_entity_id E ` set rs))"
    by (simp add: fold_records_mset multiset.map_comp comp_def)
  also have "\<dots> = image_mset (\<lambda>e. e) (mset_set (resolve_entity_id E ` set rs))"
    by (rule image_mset_cong) (use r in simp)
  finally have "mset (map (resolve_entity_id E) (fold_records E rs)) =
      mset_set (resolve_entity_id E ` set rs)" by simp
  from mset_mset_set_distinct [OF _ this] show ?thesis by simp
qed

text \<open>
  What one folded entry says.  The archival flag is a grow-only set of one element: a copy that
  says archived wins over any number that do not.
\<close>

lemma fold_records_merged:
  assumes "f \<in> set (fold_records E rs)"
  shows "(nr_status f = archived \<longleftrightarrow>
            (\<exists>r \<in> set rs. resolve_entity_id E r = resolve_entity_id E f \<and> nr_status r = archived)) \<and>
         set (nr_tags f) =
            (\<Union>r \<in> {r \<in> set rs. resolve_entity_id E r = resolve_entity_id E f}. set (nr_tags r)) \<and>
         set (nr_linked_files f) =
            (\<Union>r \<in> {r \<in> set rs. resolve_entity_id E r = resolve_entity_id E f}. set (nr_linked_files r))"
proof -
  from in_fold_records [OF assms] obtain e b where
    ne: "copies_of E e rs \<noteq> []" and m: "min_by base_key (copies_of E e rs) = Some b" and
    b: "b \<in> set rs" "resolve_entity_id E b = e" and f: "f = fold_spec (copies_of E e rs) b"
      "resolve_entity_id E f = e" .
  let ?g = "copies_of E e rs"
  have bg: "b \<in> set ?g" using b by simp
  have sing: "set ?g = {b}" if "length ?g = 1"
    using that bg by (cases ?g) auto
  have "(nr_status f = archived) = (\<exists>r \<in> set ?g. nr_status r = archived)"
    using bg f(1) by (auto simp: fold_spec_def simp del: set_copies_of)
  moreover have "set (nr_tags f) = (\<Union>r \<in> set ?g. set (nr_tags r))"
    using f(1) sing by (auto simp: fold_spec_def simp del: set_copies_of)
  moreover have "set (nr_linked_files f) = (\<Union>r \<in> set ?g. set (nr_linked_files r))"
    using f(1) sing by (auto simp: fold_spec_def simp del: set_copies_of)
  ultimately show ?thesis using f(2) by auto
qed

text \<open>An entry is archived once any copy of it is; its tags and files are those of every copy.\<close>

lemma fold_records_merges:
  assumes "f \<in> set (fold_records E rs)"
  shows "(nr_status f = archived \<longleftrightarrow>
            (\<exists>r \<in> set rs. resolve_entity_id E r = resolve_entity_id E f \<and> nr_status r = archived)) \<and>
         set (nr_tags f) =
            (\<Union>r \<in> {r \<in> set rs. resolve_entity_id E r = resolve_entity_id E f}. set (nr_tags r)) \<and>
         set (nr_linked_files f) =
            (\<Union>r \<in> {r \<in> set rs. resolve_entity_id E r = resolve_entity_id E f}. set (nr_linked_files r))"
  using assms by (rule fold_records_merged)

lemma min_by_snoc:
  "min_by k (xs @ [x]) =
     (case min_by k xs of None \<Rightarrow> Some x | Some y \<Rightarrow> if k x < k y then Some x else Some y)"
  by (induction xs) (auto split: option.splits)

section \<open>Anchors\<close>

lemma anchor_step_at:
  "anchor_step E records (i, c, r) best e =
     (if resolve_entity_id E r = e
      then (case best e of None \<Rightarrow> Some i
            | Some j \<Rightarrow> if base_key r < base_key (snd (records ! j)) then Some i else Some j)
      else best e)"
  by (auto simp: anchor_step_def split: option.split)

lemma anchor_fold:
  assumes "\<forall>(i, x) \<in> set ps. records ! i = x"
  shows "fold (anchor_step E records) ps Map.empty e =
    map_option fst (min_by (\<lambda>(i, c, r). base_key r)
      (filter (\<lambda>(i, c, r). resolve_entity_id E r = e) ps))"
  using assms
proof (induction ps rule: rev_induct)
  case Nil
  then show ?case by simp
next
  case (snoc p ps)
  obtain i c r where p: "p = (i, c, r)" by (metis prod_cases3)
  let ?m = "min_by (\<lambda>(i, c, r). base_key r) (filter (\<lambda>(i, c, r). resolve_entity_id E r = e) ps)"
  from snoc have IH: "fold (anchor_step E records) ps Map.empty e = map_option fst ?m" by simp
  show ?case
  proof (cases "resolve_entity_id E r = e")
    case False
    with p IH show ?thesis by (simp add: anchor_step_at)
  next
    case True
    show ?thesis
    proof (cases ?m)
      case None
      with True p IH show ?thesis by (simp add: anchor_step_at min_by_snoc)
    next
      case (Some q)
      obtain j c' r' where q: "q = (j, c', r')" by (metis prod_cases3)
      from Some q have "(j, c', r') \<in> set ps"
        by (metis (no_types, lifting) filter_is_subset min_by_in subsetD)
      with snoc.prems have "records ! j = (c', r')" by auto
      with True p q Some IH show ?thesis by (simp add: anchor_step_at min_by_snoc)
    qed
  qed
qed

text \<open>An entity's anchor is the commit of the copy that the fold keeps as its base.\<close>

lemma anchor_commits_base:
  "anchor_commits E records e =
     map_option fst (min_by (\<lambda>(c, r). base_key r)
       (filter (\<lambda>(c, r). resolve_entity_id E r = e) records))"
proof -
  let ?ps = "enumerate 0 records"
  let ?m = "min_by (\<lambda>(i, c, r). base_key r) (filter (\<lambda>(i, c, r). resolve_entity_id E r = e) ?ps)"
  have all: "\<forall>(i, x) \<in> set ?ps. records ! i = x" by (auto simp: in_set_enumerate_eq)
  have in_ps: "records ! i = x" if "?m = Some (i, x)" for i x
  proof -
    from that have "(i, x) \<in> set ?ps"
      by (metis (no_types, lifting) filter_is_subset min_by_in subsetD)
    with all show ?thesis by auto
  qed
  have "anchor_commits E records e = map_option (\<lambda>i. fst (records ! i)) (map_option fst ?m)"
    by (simp add: anchor_commits_def anchor_fold [OF all])
  also have "\<dots> = map_option fst (map_option snd ?m)"
    using in_ps by (cases ?m) auto
  also have "map_option snd ?m = min_by (\<lambda>(c, r). base_key r)
      (map snd (filter (\<lambda>(i, c, r). resolve_entity_id E r = e) ?ps))"
    by (simp add: min_by_map comp_def case_prod_beta')
  also have "map snd (filter (\<lambda>(i, c, r). resolve_entity_id E r = e) ?ps) =
      filter (\<lambda>(c, r). resolve_entity_id E r = e) (map snd ?ps)"
    using filter_map_comp [of "\<lambda>(c, r). resolve_entity_id E r = e" snd ?ps]
    by (simp add: case_prod_beta')
  finally show ?thesis by simp
qed

section \<open>The successor of an entity\<close>

text \<open>The folded successor is one that some copy names, and no copy that names a successor is
  more recent; there is none only when no copy names one.\<close>

lemma fold_records_successor:
  assumes "f \<in> set (fold_records E rs)"
  shows "case nr_superseded_by_entity_id f of
      None \<Rightarrow> \<forall>r \<in> set (copies_of E (resolve_entity_id E f) rs). nr_superseded_by_entity_id r = None
    | Some t \<Rightarrow> \<exists>r \<in> set (copies_of E (resolve_entity_id E f) rs).
        nr_superseded_by_entity_id r = Some t \<and>
        (\<forall>r' \<in> set (copies_of E (resolve_entity_id E f) rs).
           nr_superseded_by_entity_id r' \<noteq> None \<longrightarrow> nr_created_at r' \<le> nr_created_at r)"
proof -
  from in_fold_records [OF assms] obtain e b where
    f: "f = fold_spec (copies_of E e rs) b" "resolve_entity_id E f = e" .
  let ?g = "copies_of E e rs"
  let ?c = "filter (\<lambda>r. nr_superseded_by_entity_id r \<noteq> None) ?g"
  have ff: "nr_superseded_by_entity_id f = Option.bind (min_by successor_key ?c) nr_superseded_by_entity_id"
    using f(1) by (simp add: fold_spec_def resolve_superseded_by_entity_id_def)
  show ?thesis
  proof (cases "min_by successor_key ?c")
    case None
    with ff f(2) show ?thesis by (auto simp: filter_empty_conv)
  next
    case (Some r)
    from successor_pick.pick_Some [OF Some]
    have r: "r \<in> set ?g" "nr_superseded_by_entity_id r \<noteq> None"
      and le: "\<forall>r' \<in> set ?c. successor_key r \<le> successor_key r'" by auto
    have "nr_created_at r' \<le> nr_created_at r"
      if "r' \<in> set ?g" "nr_superseded_by_entity_id r' \<noteq> None" for r'
      using le that by (auto simp: successor_key_def less_eq_prod_def split: if_splits)
    with Some ff f(2) r show ?thesis by (auto split: option.split)
  qed
qed

section \<open>Examples\<close>

definition example_copy ::
    "int \<Rightarrow> int \<Rightarrow> string \<Rightarrow> string list \<Rightarrow> string option \<Rightarrow> note_record" where
  "example_copy created i status tags succ =
     \<lparr> nr_schema_version = 1, nr_id = i, nr_kind = ''note'', nr_title = ''a'', nr_body = ''b'',
       nr_tags = tags, nr_linked_files = [], nr_created_at = created, nr_status = status,
       nr_source_ref = None, nr_valid_at = None, nr_invalid_at = None,
       nr_superseded_by = None, nr_remote_id = None,
       nr_entity_id = Some (entity_id plain_hashing ''note'' ''a'' ''b''),
       nr_superseded_by_entity_id = succ \<rparr>"

lemma example_carrier_copy:
  "carrier_copy plain_hashing (example_copy c i active tags succ)"
  "carrier_copy plain_hashing (example_copy c i archived tags succ)"
  by (simp_all add: carrier_copy_def example_copy_def)


lemma example_fold_nonempty:
  "hd (fold_records plain_hashing
     [example_copy 2 1 archived [''x''] (Some ''e''), example_copy 1 2 active [''y''] None]) \<in>
   set (fold_records plain_hashing
     [example_copy 2 1 archived [''x''] (Some ''e''), example_copy 1 2 active [''y''] None])"
  by code_simp

lemma fold_records_merges_witness:
  "set (nr_tags (hd (fold_records plain_hashing
     [example_copy 2 1 archived [''x''] (Some ''e''), example_copy 1 2 active [''y''] None]))) =
   {''x'', ''y''}"
proof -
  let ?f = "hd (fold_records plain_hashing
     [example_copy 2 1 archived [''x''] (Some ''e''), example_copy 1 2 active [''y''] None])"
  have "resolve_entity_id plain_hashing ?f = entity_id plain_hashing ''note'' ''a'' ''b''"
    by code_simp
  moreover have "resolve_entity_id plain_hashing (example_copy c i s t u) =
      entity_id plain_hashing ''note'' ''a'' ''b''" for c i s t u
    by (simp add: resolve_entity_id_def example_copy_def)
  moreover have "nr_tags (example_copy c i s t u) = t" for c i s t u
    by (simp add: example_copy_def)
  moreover have "{r. (r = x \<or> r = y) \<and> True} = {x, y}" for x y :: note_record by auto
  ultimately show ?thesis
    using fold_records_merges [OF example_fold_nonempty] by auto
qed

lemma fold_records_successor_witness:
  "\<exists>r \<in> set [example_copy 2 1 archived [''x''] (Some ''e''), example_copy 1 2 active [''y''] None].
     nr_superseded_by_entity_id r = Some ''e''"
proof -
  have "nr_superseded_by_entity_id (hd (fold_records plain_hashing
     [example_copy 2 1 archived [''x''] (Some ''e''), example_copy 1 2 active [''y''] None])) =
     Some ''e''" by code_simp
  with fold_records_successor [OF example_fold_nonempty] show ?thesis
    by (auto split: option.splits)
qed

text \<open>A copy on its own is kept as it stands, while the same copy read twice comes back with its
  tags and files sorted and without repetitions: the fold of the tags is idempotent on sets only.\<close>
lemma fold_group_repeated:
  "fold_group [c] = Some c \<and>
   fold_group [c, c] = Some (c\<lparr> nr_tags := sorted_list_of_set (set (nr_tags c)),
                              nr_linked_files := sorted_list_of_set (set (nr_linked_files c)) \<rparr>)"
proof -
  have succ: "resolve_superseded_by_entity_id [c] = nr_superseded_by_entity_id c"
    by (simp add: resolve_superseded_by_entity_id_def)
  moreover have "resolve_superseded_by_entity_id [c, c] = nr_superseded_by_entity_id c"
    by (simp add: resolve_superseded_by_entity_id_def)
  moreover have "min_some x x = x" for x :: "int option"
    by (cases x) (simp_all add: min_some_def)
  ultimately show ?thesis
    by (simp add: fold_group_def base_index_def swap_remove_def merge_into_def union_into_eq)
qed

text \<open>Two copies that \<open>base_key\<close> does not separate need not agree on every field of the base: a
  line of an older version has no entity id, and where the copies tie the folded record has the
  entity id field of whichever line comes first, and of that field alone.\<close>

lemma fold_group_legacy_order:
  assumes "nr_entity_id c = Some e"
  shows "fold_group [c\<lparr> nr_entity_id := None \<rparr>, c] =
      map_option (\<lambda>r. r\<lparr> nr_entity_id := None \<rparr>) (fold_group [c, c\<lparr> nr_entity_id := None \<rparr>]) \<and>
    map_option nr_entity_id (fold_group [c, c\<lparr> nr_entity_id := None \<rparr>]) = Some (Some e)"
proof -
  let ?d = "c\<lparr> nr_entity_id := None \<rparr>"
  have "base_key ?d = base_key c" by (simp add: base_key_def)
  then have b: "base_index [c, ?d] = Some 0" "base_index [?d, c] = Some 0" by (simp_all add: base_index_def)
  have k: "successor_key ?d = successor_key c" by (simp add: successor_key_def base_key_def)
  have succ: "resolve_superseded_by_entity_id [c, ?d] = nr_superseded_by_entity_id c"
    "resolve_superseded_by_entity_id [?d, c] = nr_superseded_by_entity_id c"
    by (simp_all add: resolve_superseded_by_entity_id_def k)
  show ?thesis
    unfolding fold_group_def using assms
    by (simp add: b succ swap_remove_def merge_into_def)
qed

lemma fold_group_legacy_order_witness:
  "map_option nr_entity_id (fold_group [(example_copy 1 1 active [] None)\<lparr> nr_entity_id := None \<rparr>, example_copy 1 1 active [] None])
     = Some None"
proof -
  let ?c = "example_copy 1 1 active [] None"
  have "nr_entity_id ?c = Some (entity_id plain_hashing ''note'' ''a'' ''b'')" by (simp add: example_copy_def)
  from fold_group_legacy_order [OF this] show ?thesis
    by (cases "fold_group [?c, ?c\<lparr> nr_entity_id := None \<rparr>]") simp_all
qed

end
