(* ===== verification/NotesBlob.thy ===== *)
theory NotesBlob
  imports NotesFold
begin

text \<open>
  The pure part of \<open>storage/git_notes/mod.rs\<close>: what the text of a note means.  A note is JSON
  Lines with foreign lines in between; \<open>parse_records\<close> reads it, \<open>append_line\<close> is the text a
  writer puts back, \<open>parse_cat_file_batch\<close> splits the output of \<open>git cat-file --batch\<close>, and
  \<open>collect_folded\<close> is the listing.  The crate \<open>serde_json\<close> is a parameter.
\<close>

section \<open>Results\<close>

datatype notes_error =
    SchemaMismatch nat nat
  | HeaderWithoutNewline
  | BadSize string
  | TruncatedBody
  | UnexpectedHeader string
  | GitFailed "string list" string
  | SpawnFailed
  | NotesShowFailed string
  | LockContended string
  | RelativeCommonDir string
  | PublishFailed string string
  | BadNoteId id_error
  | BackendUnsupported string

type_synonym 'a notes_result = "notes_error + 'a"

section \<open>Lines\<close>

text \<open>\<open>serde_json\<close>: \<open>json_from_str\<close> parses a value, \<open>json_record\<close> is \<open>from_value\<close> at
  \<open>NoteRecord\<close>, \<open>json_line\<close> is \<open>to_string\<close> of a record.\<close>

record 'v serde =
  json_from_str :: "string \<Rightarrow> 'v option"
  json_is_object :: "'v \<Rightarrow> bool"
  json_record :: "'v \<Rightarrow> note_record option"
  json_line :: "note_record \<Rightarrow> string"

text \<open>
  What the writers rely on, for one record: compact JSON is a nonempty line without line feeds or
  white space around it, and it reads back as the object it was written from.
\<close>

definition line_ok :: "'v serde \<Rightarrow> note_record \<Rightarrow> bool" where
  "line_ok S r \<longleftrightarrow>
     json_line S r \<noteq> [] \<and> nl \<notin> set (json_line S r) \<and> trim (json_line S r) = json_line S r \<and>
     (case json_from_str S (json_line S r) of
        Some v \<Rightarrow> json_is_object S v \<and> json_record S v = Some r
      | None \<Rightarrow> False)"

definition parse_spelunk_line :: "'v serde \<Rightarrow> string \<Rightarrow> note_record option" where
  "parse_spelunk_line S line =
     (let trimmed = trim line in
      if trimmed = [] then None
      else case json_from_str S trimmed of
             None \<Rightarrow> None
           | Some value \<Rightarrow> if \<not> json_is_object S value then None else json_record S value)"

text \<open>The loop of \<open>parse_records\<close>; \<open>records\<close> is what was pushed so far.\<close>

fun parse_lines :: "'v serde \<Rightarrow> string list \<Rightarrow> note_record list \<Rightarrow> note_record list notes_result" where
  "parse_lines S [] records = Inr records"
| "parse_lines S (line # rest) records =
     (case parse_spelunk_line S line of
        None \<Rightarrow> parse_lines S rest records
      | Some record \<Rightarrow>
          if 1 < nr_schema_version record
          then Inl (SchemaMismatch (nr_schema_version record) 1)
          else parse_lines S rest (records @ [record]))"

definition parse_records :: "'v serde \<Rightarrow> string \<Rightarrow> note_record list notes_result" where
  "parse_records S blob = parse_lines S (str_lines blob) []"

text \<open>What \<open>append_to_git_notes\<close> and \<open>append_record\<close> write back.\<close>

definition append_line :: "string option \<Rightarrow> string \<Rightarrow> string" where
  "append_line existing new_line =
     (case existing of
        Some body \<Rightarrow>
          if trim body \<noteq> [] then trim_end_nl body @ [nl] @ new_line else new_line
      | None \<Rightarrow> new_line)"

section \<open>The output of cat-file\<close>

function parse_batch :: "string \<Rightarrow> string list \<Rightarrow> string list notes_result" where
  "parse_batch rest bodies =
     (if rest = [] then Inr bodies
      else if nl \<notin> set rest then Inl HeaderWithoutNewline
      else
        (let header = utf8_lossy (takeWhile (\<lambda>c. c \<noteq> nl) rest);
             rest' = tl (dropWhile (\<lambda>c. c \<noteq> nl) rest) in
         case split_on CHR '' '' header of
           [_, _] \<Rightarrow> parse_batch rest' (bodies @ [[]])
         | [_, _, size_field] \<Rightarrow>
             (case parse_usize size_field of
                None \<Rightarrow> Inl (BadSize header)
              | Some sz \<Rightarrow>
                  if length rest' < sz + 1 then Inl TruncatedBody
                  else parse_batch (drop (sz + 1) rest') (bodies @ [utf8_lossy (take sz rest')]))
         | _ \<Rightarrow> Inl (UnexpectedHeader header)))"
  by pat_completeness auto

lemma tl_dropWhile_less: "x \<in> set xs \<Longrightarrow> length (tl (dropWhile (\<lambda>c. c \<noteq> x) xs)) < length xs"
  by (induction xs) auto

termination parse_batch
proof (relation "measure (\<lambda>(rest, bodies). length rest)", goal_cases)
  case 1
  then show ?case by simp
next
  case 2
  then show ?case using tl_dropWhile_less [of nl] by simp
next
  case (3 rest)
  then have "length (tl (dropWhile (\<lambda>c. c \<noteq> nl) rest)) < length rest"
    using tl_dropWhile_less [of nl rest] by simp
  with 3 show ?case by simp
qed

declare parse_batch.simps [simp del]

definition parse_cat_file_batch :: "string \<Rightarrow> string list notes_result" where
  "parse_cat_file_batch out = parse_batch out []"

section \<open>Listing\<close>

definition record_in_window :: "note_record \<Rightarrow> bool \<Rightarrow> int option \<Rightarrow> bool" where
  "record_in_window r include_archived as_of =
     (case as_of of
        Some ts \<Rightarrow>
          (let effective = (case nr_valid_at r of Some v \<Rightarrow> v | None \<Rightarrow> nr_created_at r) in
           if effective > ts then False
           else if (case nr_invalid_at r of Some ia \<Rightarrow> ia \<le> ts | None \<Rightarrow> False) then False
           else True)
      | None \<Rightarrow> if \<not> include_archived \<and> nr_status r = archived then False else True)"

text \<open>\<open>sort_by_key(created_at)\<close>, a stable sort, then \<open>drain\<close> of the oldest beyond the limit.\<close>

definition newest :: "nat \<Rightarrow> note_record list \<Rightarrow> note_record list" where
  "newest limit rs =
     (let sorted = sort_key nr_created_at rs in
      if limit < length sorted then drop (length sorted - limit) sorted else sorted)"

definition collect_folded ::
    "string option \<Rightarrow> bool \<Rightarrow> int option \<Rightarrow> nat \<Rightarrow> note_record list \<Rightarrow> mem_note list" where
  "collect_folded kind_filter include_archived as_of limit folded =
     map record_to_note (newest limit
       (filter (\<lambda>r. if (case kind_filter of Some k \<Rightarrow> nr_kind r \<noteq> k | None \<Rightarrow> False) then False
                    else record_in_window r include_archived as_of) folded))"

definition anchored_folded ::
    "hashing \<Rightarrow> string \<Rightarrow> bool \<Rightarrow> int option \<Rightarrow> nat \<Rightarrow> (string \<times> note_record) list \<Rightarrow> mem_note list" where
  "anchored_folded E sha_prefix include_archived as_of limit records =
     (let anchors = anchor_commits E records;
          folded = fold_records E (map snd records) in
      map record_to_note (newest limit
        (filter (\<lambda>r. (case anchors (resolve_entity_id E r) of
                        Some commit \<Rightarrow> starts_with sha_prefix commit | None \<Rightarrow> False) \<and>
                     record_in_window r include_archived as_of) folded)))"

section \<open>The rewrite setting\<close>

definition SPELUNK_NOTES_REF :: string where
  "SPELUNK_NOTES_REF = ''refs/notes/spelunk''"

definition SPELUNK_TRACKING_REF :: string where
  "SPELUNK_TRACKING_REF = ''refs/notes/origin/spelunk''"

definition NOTES_NAMESPACE :: string where
  "NOTES_NAMESPACE = ''refs/notes/''"

definition rewrite_ref_covers_spelunk :: "string \<Rightarrow> bool" where
  "rewrite_ref_covers_spelunk value' =
     (let v = trim value' in
      if v = SPELUNK_NOTES_REF then True
      else case strip_suffix ''*'' v of
             Some prefix \<Rightarrow> starts_with NOTES_NAMESPACE prefix \<and> starts_with prefix SPELUNK_NOTES_REF
           | None \<Rightarrow> False)"

section \<open>Reading what was appended\<close>

lemma parse_spelunk_line_cong: "trim v = trim w \<Longrightarrow> parse_spelunk_line S v = parse_spelunk_line S w"
  by (simp add: parse_spelunk_line_def)

lemma parse_spelunk_blank: "trim w = [] \<Longrightarrow> parse_spelunk_line S w = None"
  by (simp add: parse_spelunk_line_def)

lemma parse_spelunk_json: "line_ok S r \<Longrightarrow> parse_spelunk_line S (json_line S r) = Some r"
  by (auto simp: line_ok_def parse_spelunk_line_def split: option.splits)

lemma parse_lines_append:
  "parse_lines S (xs @ ys) acc = bind_res (parse_lines S xs acc) (parse_lines S ys)"
  by (induction xs arbitrary: acc) (auto split: option.split)

lemma parse_lines_acc:
  "parse_lines S xs acc = bind_res (parse_lines S xs []) (\<lambda>rs. Inr (acc @ rs))"
proof (induction xs arbitrary: acc)
  case Nil
  then show ?case by simp
next
  case (Cons x xs)
  show ?case
  proof (cases "parse_spelunk_line S x")
    case None
    then show ?thesis using Cons.IH [of acc] by simp
  next
    case (Some r)
    show ?thesis
      using Cons.IH [of "acc @ [r]"] Cons.IH [of "[r]"] Some
      by (cases "parse_lines S xs []") simp_all
  qed
qed

lemma parse_lines_blank: "\<forall>w \<in> set ws. trim w = [] \<Longrightarrow> parse_lines S ws acc = Inr acc"
  by (induction ws) (simp_all add: parse_spelunk_blank)

lemma parse_lines_of_pieces: "parse_lines S (lines_of_pieces ws) acc = parse_lines S ws acc"
proof (induction ws arbitrary: acc rule: lines_of_pieces.induct)
  case (3 w v vs)
  have "parse_spelunk_line S (strip_cr w) = parse_spelunk_line S w"
    by (rule parse_spelunk_line_cong) simp
  with 3 show ?case by (simp split: option.split)
qed (simp_all add: parse_spelunk_blank)

lemma parse_records_pieces: "parse_records S blob = parse_lines S (split_on nl blob) []"
  by (simp add: parse_records_def str_lines_def parse_lines_of_pieces)

lemma split_on_replicate: "split_on d (s @ replicate k d) = split_on d s @ replicate k []"
proof (induction k arbitrary: s)
  case 0
  then show ?case by simp
next
  case (Suc k)
  have "s @ replicate (Suc k) d = (s @ [d]) @ replicate k d" by simp
  then have "split_on d (s @ replicate (Suc k) d) = split_on d (s @ d # []) @ replicate k []"
    by (metis Suc)
  then show ?case by (simp only: split_on_append_sep) simp
qed

lemma parse_records_trim_end_nl: "parse_records S (trim_end_nl body) = parse_records S body"
proof -
  obtain k where "body = trim_end_nl body @ replicate k nl" by (rule trim_end_nl_eq)
  then have "split_on nl body = split_on nl (trim_end_nl body) @ replicate k []"
    by (metis split_on_replicate)
  then show ?thesis
    by (cases "parse_lines S (split_on nl (trim_end_nl body)) []")
       (simp_all add: parse_records_pieces parse_lines_append parse_lines_blank)
qed

lemma parse_records_blank: "trim body = [] \<Longrightarrow> parse_records S body = Inr []"
  by (simp add: parse_records_pieces parse_lines_blank trim_blank_pieces)

text \<open>The records of an optional note body.\<close>

definition body_records :: "'v serde \<Rightarrow> string option \<Rightarrow> note_record list notes_result" where
  "body_records S existing = (case existing of Some b \<Rightarrow> parse_records S b | None \<Rightarrow> Inr [])"

lemma parse_append_line:
  assumes "line_ok S r" "nr_schema_version r \<le> 1"
  shows "parse_records S (append_line existing (json_line S r)) =
    bind_res (body_records S existing) (\<lambda>rs. Inr (rs @ [r]))"
proof -
  have one: "split_on nl (json_line S r) = [json_line S r]"
    using assms(1) by (simp add: line_ok_def split_on_id)
  have last_line: "parse_lines S [json_line S r] acc = Inr (acc @ [r])" for acc
    using assms by (simp add: parse_spelunk_json)
  have single: "parse_records S (json_line S r) = Inr [r]"
    by (simp only: parse_records_pieces one last_line append_Nil)
  show ?thesis
  proof (cases existing)
    case None
    then show ?thesis by (simp add: append_line_def body_records_def single)
  next
    case (Some body)
    show ?thesis
    proof (cases "trim body = []")
      case True
      with Some show ?thesis
        by (simp add: append_line_def body_records_def single parse_records_blank)
    next
      case False
      have "parse_records S (trim_end_nl body @ [nl] @ json_line S r) =
          bind_res (parse_records S (trim_end_nl body)) (parse_lines S [json_line S r])"
        by (simp only: append_Cons append_Nil parse_records_pieces split_on_append_sep one
              parse_lines_append)
      then have "parse_records S (trim_end_nl body @ [nl] @ json_line S r) =
          bind_res (parse_records S body) (\<lambda>rs. Inr (rs @ [r]))"
        by (cases "parse_records S body") (simp_all only: parse_records_trim_end_nl last_line bind_res_simps)
      with Some False show ?thesis by (simp add: append_line_def body_records_def)
    qed
  qed
qed

text \<open>A note read back after an append holds the records it held before, in order, and the new
  record last; if the note could not be read before, it cannot be read afterwards.\<close>
lemma append_line_records:
  assumes "line_ok S r" "nr_schema_version r \<le> 1"
  shows "parse_records S (append_line existing (json_line S r)) =
    bind_res (body_records S existing) (\<lambda>rs. Inr (rs @ [r]))"
  using assms by (rule parse_append_line)

text \<open>A codec for the examples, that knows the record it is given and writes it as \<open>{}\<close>.\<close>

definition example_serde :: "note_record \<Rightarrow> note_record serde" where
  "example_serde r0 =
     \<lparr> json_from_str = (\<lambda>s. if s = ''{}'' then Some r0 else None),
       json_is_object = (\<lambda>_. True),
       json_record = Some,
       json_line = (\<lambda>_. ''{}'') \<rparr>"

lemma example_line_ok: "line_ok (example_serde r) r"
proof -
  have "trim ''{}'' = ''{}''" by code_simp
  then show ?thesis by (simp add: line_ok_def example_serde_def nl_def)
qed

lemma example_copy_schema [simp]: "nr_schema_version (example_copy c i s t u) = 1"
  by (simp add: example_copy_def)

lemma append_line_records_witness:
  "parse_records (example_serde (example_copy 1 1 active [] None))
     (append_line (Some ''prose'') ''{}'') = Inr [example_copy 1 1 active [] None]"
proof -
  let ?S = "example_serde (example_copy 1 1 active [] None)"
  have "json_line ?S (example_copy 1 1 active [] None) = ''{}''" by (simp add: example_serde_def)
  moreover have "body_records ?S (Some ''prose'') = Inr []"
  proof -
    have "str_lines ''prose'' = [''prose'']" "trim ''prose'' = ''prose''" by code_simp+
    then show ?thesis
      by (simp add: body_records_def parse_records_def parse_spelunk_line_def example_serde_def)
  qed
  ultimately show ?thesis
    using append_line_records [OF example_line_ok, of "example_copy 1 1 active [] None" "Some ''prose''"]
    by simp
qed

section \<open>Framing\<close>

text \<open>
  What \<open>git cat-file --batch\<close> documents as its output: for each requested object either a line
  \<open><object> missing\<close>, or the line \<open><object> <type> <size>\<close>, that many bytes and a line feed.
\<close>

definition batch_frame :: "string \<times> string option \<Rightarrow> string" where
  "batch_frame ob =
     (case ob of
        (sha, None) \<Rightarrow> sha @ '' missing'' @ [nl]
      | (sha, Some body) \<Rightarrow> sha @ '' blob '' @ nat_digits (length body) @ [nl] @ body @ [nl])"

definition object_name :: "string \<Rightarrow> bool" where
  "object_name sha \<longleftrightarrow> (\<forall>c \<in> set sha. 32 < byte c \<and> byte c < 128)"

definition frame_ok :: "string \<times> string option \<Rightarrow> bool" where
  "frame_ok ob \<longleftrightarrow> object_name (fst ob) \<and>
     (case snd ob of None \<Rightarrow> True | Some body \<Rightarrow> length body < 2 ^ 64)"

definition batch_body :: "string \<times> string option \<Rightarrow> string" where
  "batch_body ob = (case snd ob of None \<Rightarrow> [] | Some body \<Rightarrow> utf8_lossy body)"

lemma takeWhile_nl: "nl \<notin> set h \<Longrightarrow> takeWhile (\<lambda>c. c \<noteq> nl) (h @ nl # r) = h"
  by (induction h) auto

lemma dropWhile_nl: "nl \<notin> set h \<Longrightarrow> dropWhile (\<lambda>c. c \<noteq> nl) (h @ nl # r) = nl # r"
  by (induction h) auto

lemma header_facts:
  assumes "\<forall>c \<in> set h. 32 \<le> byte c \<and> byte c < 128"
  shows "nl \<notin> set h" "utf8_lossy h = h"
proof -
  show "nl \<notin> set h" using assms by (auto simp: nl_def byte_def)
  show "utf8_lossy h = h" using assms by (intro utf8_lossy_valid utf8_valid_ascii) auto
qed

lemma parse_batch_header:
  assumes "\<forall>c \<in> set h. 32 \<le> byte c \<and> byte c < 128"
  shows "parse_batch (h @ nl # r) bodies =
    (case split_on CHR '' '' h of
       [_, _] \<Rightarrow> parse_batch r (bodies @ [[]])
     | [_, _, size_field] \<Rightarrow>
         (case parse_usize size_field of
            None \<Rightarrow> Inl (BadSize h)
          | Some sz \<Rightarrow>
              if length r < sz + 1 then Inl TruncatedBody
              else parse_batch (drop (sz + 1) r) (bodies @ [utf8_lossy (take sz r)]))
     | _ \<Rightarrow> Inl (UnexpectedHeader h))"
  using header_facts [OF assms]
  by (simp add: parse_batch.simps [of "h @ nl # r"] takeWhile_nl dropWhile_nl Let_def)

lemma space_byte: "byte CHR '' '' = 32"
  by (simp add: byte_def)

lemma parse_batch_frame:
  assumes "frame_ok ob"
  shows "parse_batch (batch_frame ob @ rest) bodies = parse_batch rest (bodies @ [batch_body ob])"
proof -
  obtain sha b where ob: "ob = (sha, b)" by fastforce
  from assms ob have sha: "\<forall>c \<in> set sha. 32 < byte c \<and> byte c < 128"
    by (simp add: frame_ok_def object_name_def)
  then have ns: "CHR '' '' \<notin> set sha" using space_byte by fastforce
  show ?thesis
  proof (cases b)
    case None
    have "\<forall>c \<in> set (sha @ '' missing''). 32 \<le> byte c \<and> byte c < 128"
      using sha by (auto simp: byte_def)
    from parse_batch_header [OF this, of rest bodies] show ?thesis
      using ns by (simp add: ob None batch_frame_def batch_body_def split_on_append)
  next
    case (Some body)
    let ?n = "nat_digits (length body)"
    have d: "\<forall>c \<in> set ?n. 48 \<le> byte c \<and> byte c < 58"
      using nat_digits_ascii by blast
    then have nd: "CHR '' '' \<notin> set ?n" using space_byte by fastforce
    have "\<forall>c \<in> set (sha @ '' blob '' @ ?n). 32 \<le> byte c \<and> byte c < 128"
      using sha d by (auto simp: byte_def)
    note h = parse_batch_header [OF this, of "body @ nl # rest" bodies]
    have sp: "split_on CHR '' '' (sha @ '' blob '' @ ?n) = [sha, ''blob'', ?n]"
      using ns nd by (simp add: split_on_append split_on_id)
    from assms ob Some have "parse_usize ?n = Some (length body)"
      by (intro parse_usize_digits) (simp add: frame_ok_def)
    with h sp show ?thesis
      by (simp add: ob Some batch_frame_def batch_body_def)
  qed
qed

lemma parse_frames:
  assumes "\<forall>ob \<in> set obs. frame_ok ob"
  shows "parse_cat_file_batch (concat (map batch_frame obs)) = Inr (map batch_body obs)"
proof -
  have "parse_batch (concat (map batch_frame obs)) bodies = Inr (bodies @ map batch_body obs)" for bodies
    using assms
  proof (induction obs arbitrary: bodies)
    case Nil
    then show ?case by (simp add: parse_batch.simps)
  next
    case (Cons ob obs)
    then show ?case by (simp add: parse_batch_frame)
  qed
  then show ?thesis by (simp add: parse_cat_file_batch_def)
qed

text \<open>Splitting a batch gives one body per requested object, in order, whatever newlines or
  header-like lines the bodies contain; an unreadable object reads as an empty body.\<close>

lemma parse_cat_file_batch_frames:
  assumes "\<forall>ob \<in> set obs. frame_ok ob"
  shows "parse_cat_file_batch (concat (map batch_frame obs)) = Inr (map batch_body obs)"
  using assms by (rule parse_frames)

lemma parse_cat_file_batch_frames_witness:
  "parse_cat_file_batch (concat (map batch_frame
     [(''ab'', Some (''x'' @ [nl] @ ''cd blob 9'')), (''cd'', None)])) =
   Inr [batch_body (''ab'', Some (''x'' @ [nl] @ ''cd blob 9'')), batch_body (''cd'', None)]"
  using parse_cat_file_batch_frames
    [of "[(''ab'', Some (''x'' @ [nl] @ ''cd blob 9'')), (''cd'', None)]"]
  by (simp add: frame_ok_def object_name_def byte_def)

section \<open>The newest entries\<close>

text \<open>A listing keeps the newest entries: it holds at most the limit, sorted by creation time,
  and every entry it leaves out is no newer than those it keeps.\<close>
lemma newest_spec:
  "\<exists>dropped. mset rs = mset dropped + mset (newest limit rs) \<and>
     length (newest limit rs) = min limit (length rs) \<and>
     sorted (map nr_created_at (newest limit rs)) \<and>
     (\<forall>d \<in> set dropped. \<forall>k \<in> set (newest limit rs). nr_created_at d \<le> nr_created_at k)"
proof -
  let ?s = "sort_key nr_created_at rs"
  let ?k = "length ?s - limit"
  have n: "newest limit rs = drop ?k ?s" by (simp add: newest_def Let_def)
  have "mset (take ?k ?s) + mset (drop ?k ?s) = mset rs"
    by (simp only: append_take_drop_id mset_sort flip: mset_append)
  moreover have "sorted (map nr_created_at (take ?k ?s) @ map nr_created_at (drop ?k ?s))"
    by (simp only: append_take_drop_id sorted_sort_key flip: map_append)
  then have "sorted (map nr_created_at (drop ?k ?s))"
    "\<forall>d \<in> set (take ?k ?s). \<forall>k \<in> set (drop ?k ?s). nr_created_at d \<le> nr_created_at k"
    unfolding sorted_append by auto
  moreover have "length (drop ?k ?s) = min limit (length rs)" by simp
  ultimately show ?thesis unfolding n by metis
qed

lemma newest_spec_witness:
  "\<exists>dropped. {# example_copy 1 5 active [] None, example_copy 2 3 active [] None #} =
       mset dropped + mset (newest 1 [example_copy 1 5 active [] None, example_copy 2 3 active [] None]) \<and>
     length (newest 1 [example_copy 1 5 active [] None, example_copy 2 3 active [] None]) = 1"
  using newest_spec [of "[example_copy 1 5 active [] None, example_copy 2 3 active [] None]" 1] by auto

lemma set_newest: "set (newest limit rs) \<subseteq> set rs"
  by (auto simp: newest_def Let_def dest: in_set_dropD)

lemma archived_hidden:
  assumes "n \<in> set (collect_folded kind_filter False None limit (fold_records E rs))"
  shows "\<exists>f \<in> set (fold_records E rs). n = record_to_note f \<and>
    (\<forall>r \<in> set rs. resolve_entity_id E r = resolve_entity_id E f \<longrightarrow> nr_status r \<noteq> archived)"
proof -
  from assms obtain f where f: "n = record_to_note f" "f \<in> set (fold_records E rs)"
    "record_in_window f False None"
    using set_newest by (fastforce simp: collect_folded_def split: if_splits)
  then have "nr_status f \<noteq> archived" by (simp add: record_in_window_def split: if_splits)
  with fold_records_merged [OF f(2)] f show ?thesis by blast
qed

text \<open>Once any copy of an entity is archived, no current listing shows the entity, whichever
  commits and machines the active copies came from.\<close>

lemma archived_not_listed:
  assumes "n \<in> set (collect_folded kind_filter False None limit (fold_records E rs))"
  shows "\<exists>f \<in> set (fold_records E rs). n = record_to_note f \<and>
    (\<forall>r \<in> set rs. resolve_entity_id E r = resolve_entity_id E f \<longrightarrow> nr_status r \<noteq> archived)"
  using assms by (rule archived_hidden)

lemma archived_not_listed_witness:
  "\<exists>f \<in> set (fold_records plain_hashing [example_copy 1 1 active [] None]).
     nr_status f \<noteq> archived"
proof -
  have "record_to_note (example_copy 1 1 active [] None) \<in>
    set (collect_folded None False None 5 (fold_records plain_hashing [example_copy 1 1 active [] None]))"
    by code_simp
  from archived_not_listed [OF this] fold_records_merged show ?thesis by blast
qed

end
