(* ===== verification/GitLock.thy ===== *)
theory GitLock
  imports NotesBlob
begin

text \<open>
  \<open>storage/git_notes/lock.rs\<close> and the subprocess helpers of \<open>mod.rs\<close>.  Git, the file system,
  the advisory lock and the clock are a parameter, the record \<open>world\<close> over an opaque state
  \<open>'g\<close>.  An action maps a state to \<open>Some\<close> of its result and the next state; \<open>None\<close> means that it
  does not return.  The lock loop polls until a deadline, so it is a \<open>partial_function\<close>; that it
  returns is a theorem about clocks that advance while sleeping.
\<close>

section \<open>The outside world\<close>

record proc_output =
  out_code :: "int option"
  out_stdout :: string
  out_stderr :: string

datatype try_lock = Locked | WouldBlock | LockError string

text \<open>
  \<open>git_cmd env args stdin\<close> runs git in the repository's root: \<open>Inl\<close> is the text of an I/O error
  (the process could not be spawned, or its pipes failed).  \<open>lock_open\<close> opens the lock file,
  returning the error text if it cannot.
\<close>

record 'g world =
  git_cmd :: "(string \<times> string) list \<Rightarrow> string list \<Rightarrow> string option \<Rightarrow> 'g \<Rightarrow> (string + proc_output) \<times> 'g"
  canonicalize :: "string \<Rightarrow> 'g \<Rightarrow> string option"
  lock_open :: "string \<Rightarrow> 'g \<Rightarrow> string option \<times> 'g"
  lock_try :: "string \<Rightarrow> 'g \<Rightarrow> try_lock \<times> 'g"
  lock_drop :: "string \<Rightarrow> 'g \<Rightarrow> 'g"
  clock_ms :: "'g \<Rightarrow> nat"
  sleep_ms :: "nat \<Rightarrow> 'g \<Rightarrow> 'g"
  env_is_set :: "string \<Rightarrow> 'g \<Rightarrow> bool"
  wall_secs :: "'g \<Rightarrow> int"
  wall_millis :: "'g \<Rightarrow> int"

type_synonym ('g, 'a) act = "'g \<Rightarrow> ('a notes_result \<times> 'g) option"

text \<open>Sequencing: an error ends the action (the \<open>?\<close> operator), and so does not returning.\<close>

definition ret :: "'a \<Rightarrow> ('g, 'a) act" where
  "ret x = (\<lambda>s. Some (Inr x, s))"

definition fail_with :: "notes_error \<Rightarrow> ('g, 'a) act" where
  "fail_with e = (\<lambda>s. Some (Inl e, s))"

definition seq_act :: "('g, 'a) act \<Rightarrow> ('a \<Rightarrow> ('g, 'b) act) \<Rightarrow> ('g, 'b) act" where
  "seq_act m f = (\<lambda>s. case m s of
      None \<Rightarrow> None
    | Some (Inl e, s1) \<Rightarrow> Some (Inl e, s1)
    | Some (Inr x, s1) \<Rightarrow> f x s1)"

text \<open>The outcome as a value, for the places that match on it instead of using \<open>?\<close>.\<close>

definition attempt :: "('g, 'a) act \<Rightarrow> ('g, 'a notes_result) act" where
  "attempt m = (\<lambda>s. case m s of None \<Rightarrow> None | Some (r, s1) \<Rightarrow> Some (Inr r, s1))"

definition observe :: "('g \<Rightarrow> 'a) \<Rightarrow> ('g, 'a) act" where
  "observe f = (\<lambda>s. Some (Inr (f s), s))"

lemma ret_run [carrier_simps]: "ret x s = Some (Inr x, s)"
  by (simp add: ret_def)

lemma fail_with_run [carrier_simps]: "fail_with e s = Some (Inl e, s)"
  by (simp add: fail_with_def)

lemma observe_run [carrier_simps]: "observe f s = Some (Inr (f s), s)"
  by (simp add: observe_def)

lemma seq_act_run:
  "seq_act m f s = Some (r, s') \<longleftrightarrow>
     (\<exists>e. m s = Some (Inl e, s') \<and> r = Inl e) \<or>
     (\<exists>x s1. m s = Some (Inr x, s1) \<and> f x s1 = Some (r, s'))"
  by (auto simp: seq_act_def split: option.splits sum.splits)

lemma attempt_run: "attempt m s = Some (r, s') \<longleftrightarrow> (\<exists>q. m s = Some (q, s') \<and> r = Inr q)"
  by (auto simp: attempt_def split: option.splits)

lemma ret_iff: "ret x s = Some (r, s') \<longleftrightarrow> r = Inr x \<and> s' = s"
  by (auto simp: ret_def)

lemma fail_with_iff: "fail_with e s = Some (r, s') \<longleftrightarrow> r = Inl e \<and> s' = s"
  by (auto simp: fail_with_def)

lemma observe_iff: "observe f s = Some (r, s') \<longleftrightarrow> r = Inr (f s) \<and> s' = s"
  by (auto simp: observe_def)

lemma sum_case_run:
  "(case r of Inl e \<Rightarrow> f e | Inr x \<Rightarrow> g x) s = Some y \<longleftrightarrow>
     (\<exists>e. r = Inl e \<and> f e s = Some y) \<or> (\<exists>x. r = Inr x \<and> g x s = Some y)"
  by (cases r) auto

lemmas act_iffs = seq_act_run attempt_run ret_iff fail_with_iff observe_iff

text \<open>Actions that return from every state.\<close>

definition returns :: "('g, 'a) act \<Rightarrow> bool" where
  "returns m \<longleftrightarrow> (\<forall>s. m s \<noteq> None)"

lemma returns_ret [simp]: "returns (ret x)"
  by (simp add: returns_def ret_def)

lemma returns_fail [simp]: "returns (fail_with e)"
  by (simp add: returns_def fail_with_def)

lemma returns_observe [simp]: "returns (observe f)"
  by (simp add: returns_def observe_def)

lemma returns_seq: "returns m \<Longrightarrow> (\<And>x. returns (f x)) \<Longrightarrow> returns (seq_act m f)"
  by (auto simp: returns_def seq_act_def split: option.splits sum.splits)

lemma returns_attempt: "returns m \<Longrightarrow> returns (attempt m)"
  by (auto simp: returns_def attempt_def split: option.splits)

section \<open>Subprocesses\<close>

definition succeeded :: "proc_output \<Rightarrow> bool" where
  "succeeded out = (out_code out = Some 0)"

definition run_process ::
    "'g world \<Rightarrow> (string \<times> string) list \<Rightarrow> string list \<Rightarrow> string option \<Rightarrow> ('g, string + proc_output) act" where
  "run_process W env args stdin =
     (\<lambda>s. case git_cmd W env args stdin s of (r, s1) \<Rightarrow> Some (Inr r, s1))"

definition output_of :: "'g world \<Rightarrow> string list \<Rightarrow> string option \<Rightarrow> ('g, proc_output) act" where
  "output_of W args stdin =
     seq_act (run_process W [] args stdin)
       (\<lambda>r. case r of Inl e \<Rightarrow> fail_with SpawnFailed | Inr out \<Rightarrow> ret out)"

definition run_git_with :: "'g world \<Rightarrow> string list \<Rightarrow> string option \<Rightarrow> ('g, string) act" where
  "run_git_with W args stdin =
     seq_act (output_of W args stdin)
       (\<lambda>out. if succeeded out then ret (utf8_lossy (out_stdout out))
              else fail_with (GitFailed args (trim (utf8_lossy (out_stderr out)))))"

definition run_git :: "'g world \<Rightarrow> string list \<Rightarrow> ('g, string) act" where
  "run_git W args = run_git_with W args None"

definition run_git_with_stdin :: "'g world \<Rightarrow> string list \<Rightarrow> string \<Rightarrow> ('g, string) act" where
  "run_git_with_stdin W args stdin_data = run_git_with W args (Some stdin_data)"

lemma returns_run_process [simp]: "returns (run_process W env args i)"
  by (simp add: returns_def run_process_def split: prod.split)

lemma returns_output_of [simp]: "returns (output_of W args i)"
  unfolding output_of_def by (intro returns_seq) (auto split: sum.split)

lemma returns_run_git [simp]:
  "returns (run_git_with W args i)" "returns (run_git W args)" "returns (run_git_with_stdin W args d)"
  unfolding run_git_with_def run_git_def run_git_with_stdin_def
  by (auto intro!: returns_seq)

section \<open>The lock path\<close>

text \<open>Unix paths: absolute means a leading slash, and joining an absolute path replaces.\<close>

definition is_absolute :: "string \<Rightarrow> bool" where
  "is_absolute p = starts_with ''/'' p"

definition path_join :: "string \<Rightarrow> string \<Rightarrow> string" where
  "path_join a b =
     (if is_absolute b \<or> a = [] then b
      else if last a = CHR ''/'' then a @ b else a @ ''/'' @ b)"

definition LOCK_FILE_NAME :: string where
  "LOCK_FILE_NAME = ''spelunk-notes.lock''"

definition LOCK_WAIT_BUDGET :: nat where
  "LOCK_WAIT_BUDGET = 5000"

definition LOCK_POLL_INTERVAL :: nat where
  "LOCK_POLL_INTERVAL = 10"

definition resolve_relative_common_dir :: "string \<Rightarrow> string option \<Rightarrow> string notes_result" where
  "resolve_relative_common_dir raw git_root =
     (case git_root of
        Some root \<Rightarrow> Inr (path_join root raw)
      | None \<Rightarrow> Inl (RelativeCommonDir raw))"

definition parse_absolute_dir :: "string \<Rightarrow> string option" where
  "parse_absolute_dir out =
     (case filter (\<lambda>l. trim l \<noteq> []) (str_lines out) of
        [] \<Rightarrow> None
      | line # others \<Rightarrow>
          (let first = trim line in
           if others \<noteq> [] \<or> starts_with ''--'' first then None
           else if is_absolute first then Some first else None))"

definition notes_lock_path :: "'g world \<Rightarrow> string option \<Rightarrow> ('g, string) act" where
  "notes_lock_path W git_root =
     seq_act (attempt (run_git W [''rev-parse'', ''--path-format=absolute'', ''--git-common-dir'']))
       (\<lambda>flagged.
          seq_act
            (case (case flagged of Inr out \<Rightarrow> parse_absolute_dir out | Inl _ \<Rightarrow> None) of
               Some dir \<Rightarrow> ret dir
             | None \<Rightarrow>
                 seq_act (run_git W [''rev-parse'', ''--git-common-dir''])
                   (\<lambda>raw0. let raw = trim raw0 in
                      if is_absolute raw then ret raw
                      else case resolve_relative_common_dir raw git_root of
                             Inl e \<Rightarrow> fail_with e
                           | Inr dir \<Rightarrow> ret dir))
            (\<lambda>common_dir.
               seq_act (observe (canonicalize W common_dir))
                 (\<lambda>canon. ret (path_join (case canon of Some p \<Rightarrow> p | None \<Rightarrow> common_dir)
                                         LOCK_FILE_NAME))))"

section \<open>Taking the lock\<close>

datatype lock_attempt =
    Acquired string
  | Contended string
  | Unusable string string

partial_function (option) lock_poll ::
    "'g world \<Rightarrow> string \<Rightarrow> nat \<Rightarrow> 'g \<Rightarrow> (lock_attempt notes_result \<times> 'g) option" where
  "lock_poll W path deadline s =
     (case lock_try W path s of (r, s1) \<Rightarrow>
        (case r of
           Locked \<Rightarrow> Some (Inr (Acquired path), s1)
         | WouldBlock \<Rightarrow>
             (if deadline \<le> clock_ms W s1 then Some (Inr (Contended path), s1)
              else lock_poll W path deadline (sleep_ms W LOCK_POLL_INTERVAL s1))
         | LockError reason \<Rightarrow> Some (Inr (Unusable path reason), s1)))"

declare lock_poll.simps [code]

definition open_lock_file :: "'g world \<Rightarrow> string \<Rightarrow> ('g, string option) act" where
  "open_lock_file W path = (\<lambda>s. case lock_open W path s of (r, s1) \<Rightarrow> Some (Inr r, s1))"

definition lock_notes :: "'g world \<Rightarrow> string option \<Rightarrow> ('g, lock_attempt) act" where
  "lock_notes W git_root =
     seq_act (notes_lock_path W git_root)
       (\<lambda>path. seq_act (open_lock_file W path)
          (\<lambda>opened. case opened of
               Some reason \<Rightarrow> ret (Unusable path reason)
             | None \<Rightarrow>
                 seq_act (observe (clock_ms W))
                   (\<lambda>now. lock_poll W path (now + LOCK_WAIT_BUDGET))))"

text \<open>What is assumed of the clock: sleeping lasts at least as long as asked, and time does not go
  backwards while the lock is tried.\<close>

definition clock_ok :: "'g world \<Rightarrow> bool" where
  "clock_ok W \<longleftrightarrow>
     (\<forall>n s. clock_ms W s + n \<le> clock_ms W (sleep_ms W n s)) \<and>
     (\<forall>p s. clock_ms W s \<le> clock_ms W (snd (lock_try W p s)))"

lemma lock_poll_returns:
  assumes "clock_ok W"
  shows "\<exists>a s'. lock_poll W path deadline s = Some (Inr a, s')"
proof (induction "deadline - clock_ms W s" arbitrary: s rule: less_induct)
  case less
  obtain r s1 where t: "lock_try W path s = (r, s1)" by fastforce
  from assms t have c1: "clock_ms W s \<le> clock_ms W s1"
    unfolding clock_ok_def by (metis snd_conv)
  let ?s2 = "sleep_ms W LOCK_POLL_INTERVAL s1"
  from assms have c2: "clock_ms W s1 + 10 \<le> clock_ms W ?s2"
    by (simp add: clock_ok_def LOCK_POLL_INTERVAL_def)
  show ?case
  proof (cases "r = WouldBlock \<and> clock_ms W s1 < deadline")
    case True
    with c1 c2 have "deadline - clock_ms W ?s2 < deadline - clock_ms W s" by linarith
    from less [OF this] True t show ?thesis
      by (subst lock_poll.simps) (simp add: not_le)
  next
    case False
    with t show ?thesis by (subst lock_poll.simps) (auto split: try_lock.split)
  qed
qed

lemma returns_lock_path [simp]: "returns (notes_lock_path W git_root)"
  unfolding notes_lock_path_def
  by (intro returns_seq returns_attempt)
     (auto intro!: returns_seq split: option.split sum.split simp: Let_def)

lemma lock_notes_ends:
  assumes "clock_ok W"
  shows "\<exists>r s'. lock_notes W git_root s = Some (r, s')"
proof -
  have "returns (\<lambda>s. lock_poll W path d s)" for path d
    unfolding returns_def using lock_poll_returns [OF assms] by (metis option.distinct(1))
  moreover have "returns (open_lock_file W path)" for path
    by (simp add: returns_def open_lock_file_def split: prod.split)
  ultimately have "returns (lock_notes W git_root)"
    unfolding lock_notes_def
    by (intro returns_seq) (auto intro!: returns_seq split: option.split)
  then show ?thesis unfolding returns_def by (metis not_None_eq surj_pair)
qed

text \<open>Taking the lock always returns, whoever holds it: acquired, contended or unusable, or
  the error of a failed path resolution.\<close>

lemma lock_notes_returns:
  assumes "clock_ok W"
  shows "\<exists>r s'. lock_notes W git_root s = Some (r, s')"
  using assms by (rule lock_notes_ends)

end
