(* ===== verification/GitCarrier.thy ===== *)
theory GitCarrier
  imports GitLock
begin

text \<open>
  \<open>storage/git_notes/mod.rs\<close> (the free functions) and \<open>publish.rs\<close>: appending a record to the
  note on HEAD, merging the tracking ref, publishing the notes ref.  Every call of git is a call
  of \<open>git_cmd\<close> with the arguments of the source; the lock is dropped on every way out.
\<close>

section \<open>Carry configuration\<close>

datatype rewrite_ref_status = Configured | AlreadyCovered | Failed

definition ensure_notes_rewrite_ref :: "'g world \<Rightarrow> ('g, rewrite_ref_status) act" where
  "ensure_notes_rewrite_ref W =
     seq_act (attempt (run_git W [''config'', ''--get-all'', ''notes.rewriteRef'']))
       (\<lambda>r. let existing = (case r of Inr out \<Rightarrow> out | Inl _ \<Rightarrow> []) in
          if \<exists>l \<in> set (str_lines existing). rewrite_ref_covers_spelunk l then ret AlreadyCovered
          else seq_act
            (attempt (run_git W [''config'', ''--add'', ''notes.rewriteRef'', SPELUNK_NOTES_REF]))
            (\<lambda>q. case q of Inr _ \<Rightarrow> ret Configured | Inl _ \<Rightarrow> ret Failed))"

section \<open>Writers and the lock\<close>

datatype writer_lock = Held string | Unlocked string string

definition writer_lock_of :: "'g world \<Rightarrow> string option \<Rightarrow> ('g, writer_lock) act" where
  "writer_lock_of W git_root =
     seq_act (lock_notes W git_root)
       (\<lambda>a. case a of
          Acquired path \<Rightarrow> ret (Held path)
        | Contended path \<Rightarrow> fail_with (LockContended path)
        | Unusable path reason \<Rightarrow> ret (Unlocked path reason))"

text \<open>A guard is dropped when its scope ends, on success and on error alike.\<close>

definition while_held :: "'g world \<Rightarrow> string \<Rightarrow> ('g, 'a) act \<Rightarrow> ('g, 'a) act" where
  "while_held W path m =
     (\<lambda>s. case m s of None \<Rightarrow> None | Some (r, s1) \<Rightarrow> Some (r, lock_drop W path s1))"

definition under_lock :: "'g world \<Rightarrow> writer_lock \<Rightarrow> ('g, 'a) act \<Rightarrow> ('g, 'a) act" where
  "under_lock W l m = (case l of Held path \<Rightarrow> while_held W path m | Unlocked _ _ \<Rightarrow> m)"

definition NOTE_READ_ATTEMPTS :: nat where
  "NOTE_READ_ATTEMPTS = 4"

definition NOTE_READ_BACKOFF :: nat where
  "NOTE_READ_BACKOFF = 50"

definition read_note_body :: "'g world \<Rightarrow> string \<Rightarrow> ('g, string option) act" where
  "read_note_body W object =
     seq_act (output_of W [''notes'', ''--ref=spelunk'', ''show'', ''--'', object] None)
       (\<lambda>out.
          if succeeded out then ret (Some (utf8_lossy (out_stdout out)))
          else if out_code out = Some 1 then ret None
          else fail_with (NotesShowFailed (trim (utf8_lossy (out_stderr out)))))"

definition sleep_act :: "'g world \<Rightarrow> nat \<Rightarrow> ('g, unit) act" where
  "sleep_act W n = (\<lambda>s. Some (Inr (), sleep_ms W n s))"

text \<open>The loop over \<open>1..=NOTE_READ_ATTEMPTS\<close>; \<open>left\<close> attempts remain after this one.\<close>

fun read_attempts :: "'g world \<Rightarrow> string \<Rightarrow> nat \<Rightarrow> nat \<Rightarrow> ('g, string option) act" where
  "read_attempts W object attempt_no left =
     seq_act (attempt (read_note_body W object))
       (\<lambda>r. case r of
          Inr body \<Rightarrow> ret body
        | Inl e \<Rightarrow>
            (case left of
               0 \<Rightarrow> fail_with e
             | Suc left' \<Rightarrow>
                 seq_act (sleep_act W (NOTE_READ_BACKOFF * attempt_no))
                   (\<lambda>_. read_attempts W object (attempt_no + 1) left')))"

declare read_attempts.simps [simp del]

definition read_note_body_with_retry :: "'g world \<Rightarrow> string \<Rightarrow> ('g, string option) act" where
  "read_note_body_with_retry W object = read_attempts W object 1 (NOTE_READ_ATTEMPTS - 1)"

section \<open>Appending\<close>

text \<open>\<open>lock_degradation\<close> carries the path and the reason the source formats into its text.\<close>

record append_outcome =
  ao_rewrite_ref :: rewrite_ref_status
  ao_lock_degradation :: "(string \<times> string) option"

definition notes_add_args :: "string \<Rightarrow> string list" where
  "notes_add_args object =
     [''notes'', ''--ref=spelunk'', ''add'', ''-f'', ''-F'', ''-'', ''--'', object]"

definition append_under_lock ::
    "'g world \<Rightarrow> 'v serde \<Rightarrow> note_record \<Rightarrow> ('g, unit) act" where
  "append_under_lock W S record' =
     seq_act (run_git W [''rev-parse'', ''HEAD''])
       (\<lambda>out. let head = trim out in
          seq_act (read_note_body_with_retry W head)
            (\<lambda>existing.
               seq_act (run_git_with_stdin W (notes_add_args head)
                          (append_line existing (json_line S record')))
                 (\<lambda>_. ret ())))"

definition append_to_git_notes ::
    "'g world \<Rightarrow> 'v serde \<Rightarrow> string option \<Rightarrow> note_record \<Rightarrow> ('g, append_outcome) act" where
  "append_to_git_notes W S git_root record' =
     seq_act (ensure_notes_rewrite_ref W)
       (\<lambda>rewrite_ref. seq_act (writer_lock_of W git_root)
          (\<lambda>l. under_lock W l
             (seq_act (append_under_lock W S record')
               (\<lambda>_. ret \<lparr> ao_rewrite_ref = rewrite_ref,
                          ao_lock_degradation =
                            (case l of Held _ \<Rightarrow> None | Unlocked p reason \<Rightarrow> Some (p, reason)) \<rparr>))))"

definition state_update_record ::
    "hashing \<Rightarrow> int \<Rightarrow> int \<Rightarrow> mem_note \<Rightarrow> string \<Rightarrow> int option \<Rightarrow> string option \<Rightarrow> note_record" where
  "state_update_record E millis secs base status invalid_at superseded_by_entity_id =
     \<lparr> nr_schema_version = 1,
       nr_id = millis,
       nr_kind = n_kind base,
       nr_title = n_title base,
       nr_body = n_body base,
       nr_tags = n_tags base,
       nr_linked_files = n_linked_files base,
       nr_created_at = secs,
       nr_status = status,
       nr_source_ref = n_source_ref base,
       nr_valid_at = n_valid_at base,
       nr_invalid_at = invalid_at,
       nr_superseded_by = None,
       nr_remote_id = None,
       nr_entity_id = Some (note_entity_id E base),
       nr_superseded_by_entity_id = superseded_by_entity_id \<rparr>"

definition append_state_update ::
    "'g world \<Rightarrow> 'v serde \<Rightarrow> hashing \<Rightarrow> string option \<Rightarrow> mem_note \<Rightarrow> string \<Rightarrow> int option \<Rightarrow>
       string option \<Rightarrow> ('g, append_outcome) act" where
  "append_state_update W S E git_root base status invalid_at superseded_by_entity_id =
     seq_act (observe (\<lambda>s. (wall_millis W s, wall_secs W s)))
       (\<lambda>(millis, secs). append_to_git_notes W S git_root
          (state_update_record E millis secs base status invalid_at superseded_by_entity_id))"

section \<open>Merging fetched notes\<close>

datatype notes_merge_outcome = Merged | Skipped | LockUnavailable

definition merge_args :: "string list" where
  "merge_args =
     [''notes'', ''--ref=spelunk'', ''merge'', ''-s'', ''cat_sort_uniq'', SPELUNK_TRACKING_REF]"

definition merge_tracking_notes :: "'g world \<Rightarrow> string option \<Rightarrow> ('g, notes_merge_outcome) act" where
  "merge_tracking_notes W git_root =
     seq_act (attempt (lock_notes W git_root))
       (\<lambda>r. case r of
          Inr (Acquired path) \<Rightarrow>
            while_held W path
              (seq_act (attempt (run_git W merge_args))
                (\<lambda>q. case q of Inr _ \<Rightarrow> ret Merged | Inl _ \<Rightarrow> ret Skipped))
        | Inr (Contended _) \<Rightarrow> ret LockUnavailable
        | Inr (Unusable _ _) \<Rightarrow> ret LockUnavailable
        | Inl _ \<Rightarrow> ret LockUnavailable)"

section \<open>Publishing\<close>

definition NOTES_PUSH_SENTINEL :: string where
  "NOTES_PUSH_SENTINEL = ''SPELUNK_NOTES_PUSH''"

definition MAX_PUSH_ATTEMPTS :: nat where
  "MAX_PUSH_ATTEMPTS = 3"

datatype skip_reason = Recursion | NoLocalNotes | NoSuchRemote | NotesLockUnavailable

datatype publish_outcome = Published nat | PublishSkipped skip_reason

definition is_lost_race :: "string \<Rightarrow> bool" where
  "is_lost_race stderr =
     (str_contains ''non-fast-forward'' stderr \<or> str_contains ''fetch first'' stderr)"

text \<open>\<open>git\<close> of \<open>publish.rs\<close>: \<open>Inr\<close> is stdout, \<open>Inl\<close> is stderr or the text of the I/O error.\<close>

definition publish_git ::
    "'g world \<Rightarrow> string list \<Rightarrow> (string \<times> string) list \<Rightarrow> ('g, string + string) act" where
  "publish_git W args envs =
     seq_act (run_process W envs args None)
       (\<lambda>r. case r of
          Inl e \<Rightarrow> ret (Inl e)
        | Inr out \<Rightarrow>
            if succeeded out then ret (Inr (utf8_lossy (out_stdout out)))
            else ret (Inl (utf8_lossy (out_stderr out))))"

definition fetch_args :: "string \<Rightarrow> string list" where
  "fetch_args remote =
     [''fetch'', ''--quiet'', remote, ''+'' @ SPELUNK_NOTES_REF @ '':'' @ SPELUNK_TRACKING_REF]"

definition push_args :: "string \<Rightarrow> string list" where
  "push_args remote =
     [''push'', ''--no-verify'', ''--quiet'', remote, SPELUNK_NOTES_REF @ '':'' @ SPELUNK_NOTES_REF]"

text \<open>The loop over \<open>1..=MAX_PUSH_ATTEMPTS\<close>; \<open>left\<close> attempts remain, this one included.\<close>

fun publish_attempts ::
    "'g world \<Rightarrow> string option \<Rightarrow> string \<Rightarrow> nat \<Rightarrow> string \<Rightarrow> ('g, publish_outcome) act" where
  "publish_attempts W git_root remote 0 last_err = fail_with (PublishFailed remote (trim last_err))"
| "publish_attempts W git_root remote (Suc left) last_err =
     seq_act (publish_git W (fetch_args remote) [])
       (\<lambda>_. seq_act (merge_tracking_notes W git_root)
          (\<lambda>m. if m = LockUnavailable then ret (PublishSkipped NotesLockUnavailable)
               else seq_act (publish_git W (push_args remote) [(NOTES_PUSH_SENTINEL, ''1'')])
                 (\<lambda>r. case r of
                    Inr _ \<Rightarrow> ret (Published (MAX_PUSH_ATTEMPTS - left))
                  | Inl stderr \<Rightarrow>
                      if \<not> is_lost_race stderr
                      then fail_with (PublishFailed remote (trim stderr))
                      else publish_attempts W git_root remote left stderr)))"

definition publish_notes :: "'g world \<Rightarrow> string option \<Rightarrow> string \<Rightarrow> ('g, publish_outcome) act" where
  "publish_notes W git_root remote =
     seq_act (observe (env_is_set W NOTES_PUSH_SENTINEL))
       (\<lambda>nested. if nested then ret (PublishSkipped Recursion)
        else seq_act (publish_git W [''rev-parse'', ''--verify'', ''--quiet'', SPELUNK_NOTES_REF] [])
          (\<lambda>local. case local of
             Inl _ \<Rightarrow> ret (PublishSkipped NoLocalNotes)
           | Inr _ \<Rightarrow>
               seq_act (publish_git W [''remote'', ''get-url'', remote] [])
                 (\<lambda>url. case url of
                    Inl _ \<Rightarrow> ret (PublishSkipped NoSuchRemote)
                  | Inr _ \<Rightarrow> publish_attempts W git_root remote MAX_PUSH_ATTEMPTS [])))"

section \<open>What is relied on of git\<close>

text \<open>
  \<open>head_of\<close> is the commit HEAD names and \<open>note_of\<close> the bytes of the notes on
  \<open>refs/notes/spelunk\<close>.  Git is relied on for this: reading commands change neither; \<open>rev-parse
  HEAD\<close> prints the commit; \<open>notes show\<close> exits 0 with the note, or 1 when there is none, and any
  other outcome says nothing; \<open>notes add -f\<close> replaces the note of one commit by its input with
  white space stripped (blank lines and white space at the end of lines), or fails and changes nothing;
  time passing while the lock is held changes no note.
\<close>

definition same_text :: "string \<Rightarrow> string \<Rightarrow> bool" where
  "same_text a b \<longleftrightarrow>
     filter (\<lambda>l. l \<noteq> []) (map trim (split_on nl a)) = filter (\<lambda>l. l \<noteq> []) (map trim (split_on nl b))"

definition reading_args :: "string list \<Rightarrow> bool" where
  "reading_args args \<longleftrightarrow>
     take 1 args = [''rev-parse''] \<or> take 3 args = [''notes'', ''--ref=spelunk'', ''show'']"

definition ran_ok :: "string + proc_output \<Rightarrow> bool" where
  "ran_ok r = (case r of Inr out \<Rightarrow> succeeded out | Inl _ \<Rightarrow> False)"

record 'g git_view =
  head_of :: "'g \<Rightarrow> string"
  note_of :: "'g \<Rightarrow> string \<Rightarrow> string option"

definition git_reads_ok :: "'g world \<Rightarrow> 'g git_view \<Rightarrow> bool" where
  "git_reads_ok W V \<longleftrightarrow>
     (\<forall>args s r s'. reading_args args \<longrightarrow> git_cmd W [] args None s = (r, s') \<longrightarrow>
        head_of V s' = head_of V s \<and> note_of V s' = note_of V s) \<and>
     (\<forall>s out s'. git_cmd W [] [''rev-parse'', ''HEAD''] None s = (Inr out, s') \<longrightarrow> succeeded out \<longrightarrow>
        trim (utf8_lossy (out_stdout out)) = head_of V s) \<and>
     (\<forall>object s out s'.
        git_cmd W [] [''notes'', ''--ref=spelunk'', ''show'', ''--'', object] None s = (Inr out, s') \<longrightarrow>
        (succeeded out \<longrightarrow> note_of V s object = Some (out_stdout out)) \<and>
        (out_code out = Some 1 \<longrightarrow> note_of V s object = None)) \<and>
     (\<forall>n s. head_of V (sleep_ms W n s) = head_of V s \<and> note_of V (sleep_ms W n s) = note_of V s)"

definition git_add_ok :: "'g world \<Rightarrow> 'g git_view \<Rightarrow> bool" where
  "git_add_ok W V \<longleftrightarrow>
     (\<forall>object body s r s'.
        git_cmd W [] (notes_add_args object) (Some body) s = (r, s') \<longrightarrow>
        (if ran_ok r
         then (\<exists>kept. same_text kept body \<and> note_of V s' = (note_of V s)(object \<mapsto> kept))
         else note_of V s' = note_of V s))"

lemma parse_lines_significant:
  "parse_lines S (filter (\<lambda>l. l \<noteq> []) (map trim ws)) acc = parse_lines S ws acc"
proof (induction ws arbitrary: acc)
  case Nil
  then show ?case by simp
next
  case (Cons w ws)
  have "parse_spelunk_line S (trim w) = parse_spelunk_line S w"
    by (rule parse_spelunk_line_cong) simp
  with Cons show ?case by (auto simp: parse_spelunk_blank split: option.split)
qed

lemma same_text_records: "same_text a b \<Longrightarrow> parse_records S a = parse_records S b"
  unfolding parse_records_pieces same_text_def by (metis parse_lines_significant)

section \<open>What an append does\<close>

lemma output_of_run:
  "output_of W args i s = Some (r, s') \<longleftrightarrow>
     (\<exists>q. git_cmd W [] args i s = (q, s') \<and>
          r = (case q of Inl _ \<Rightarrow> Inl SpawnFailed | Inr out \<Rightarrow> Inr out))"
  by (auto simp: output_of_def act_iffs run_process_def split: sum.splits prod.splits)

lemma run_git_with_run:
  "run_git_with W args i s = Some (r, s') \<Longrightarrow>
     \<exists>q. git_cmd W [] args i s = (q, s') \<and>
         (case r of Inr t \<Rightarrow> (\<exists>out. q = Inr out \<and> succeeded out \<and> t = utf8_lossy (out_stdout out))
          | Inl _ \<Rightarrow> \<not> ran_ok q)"
  by (auto simp: run_git_with_def act_iffs output_of_run ran_ok_def
      split: sum.splits if_splits)

lemma read_note_body_run:
  assumes "git_reads_ok W V" "read_note_body W object s = Some (r, s')"
  shows "head_of V s' = head_of V s \<and> note_of V s' = note_of V s \<and>
    (\<forall>b. r = Inr b \<longrightarrow> b = map_option utf8_lossy (note_of V s object))"
proof -
  let ?args = "[''notes'', ''--ref=spelunk'', ''show'', ''--'', object]"
  obtain q s1 where q1: "git_cmd W [] ?args None s = (q, s1)" by fastforce
  with assms(2) have q: "git_cmd W [] ?args None s = (q, s')"
    and r: "r = (case q of Inl _ \<Rightarrow> Inl SpawnFailed | Inr out \<Rightarrow>
        (if succeeded out then Inr (Some (utf8_lossy (out_stdout out)))
         else if out_code out = Some 1 then Inr None
         else Inl (NotesShowFailed (trim (utf8_lossy (out_stderr out))))))"
    by (auto simp: read_note_body_def seq_act_def output_of_def run_process_def ret_def fail_with_def
        split: sum.splits if_splits)
  have "reading_args ?args" by (simp add: reading_args_def)
  with assms(1) q have "head_of V s' = head_of V s \<and> note_of V s' = note_of V s"
    unfolding git_reads_ok_def by blast
  moreover have "note_of V s object = Some (out_stdout out)"
    if "q = Inr out" "succeeded out" for out
    using assms(1) q that unfolding git_reads_ok_def by blast
  moreover have "note_of V s object = None" if "q = Inr out" "out_code out = Some 1" for out
    using assms(1) q that unfolding git_reads_ok_def by blast
  ultimately show ?thesis using r by (auto split: sum.splits if_splits)
qed

lemma read_attempts_run:
  assumes "git_reads_ok W V" "read_attempts W object k left s = Some (r, s')"
  shows "head_of V s' = head_of V s \<and> note_of V s' = note_of V s \<and>
    (\<forall>b. r = Inr b \<longrightarrow> b = map_option utf8_lossy (note_of V s object))"
  using assms(2)
proof (induction left arbitrary: k s)
  case 0
  then obtain q s1 where q: "read_note_body W object s = Some (q, s1)"
    and rest: "(case q of Inr body \<Rightarrow> ret body | Inl e \<Rightarrow> fail_with e) s1 = Some (r, s')"
    by (auto simp: read_attempts.simps [of W object k 0] seq_act_run attempt_run)
  from rest have "q = r \<and> s1 = s'" by (cases q) (auto simp: ret_iff fail_with_iff)
  with read_note_body_run [OF assms(1) q] show ?case by simp
next
  case (Suc left)
  from Suc.prems obtain q s1 where q: "read_note_body W object s = Some (q, s1)"
    and rest: "(case q of Inr body \<Rightarrow> ret body | Inl e \<Rightarrow>
        seq_act (sleep_act W (NOTE_READ_BACKOFF * k)) (\<lambda>_. read_attempts W object (Suc k) left)) s1 =
      Some (r, s')"
    by (auto simp: read_attempts.simps [of W object k "Suc left"] act_iffs)
  note b = read_note_body_run [OF assms(1) q]
  show ?case
  proof (cases q)
    case (Inr body)
    with rest b show ?thesis by (simp add: ret_iff)
  next
    case (Inl e)
    let ?s2 = "sleep_ms W (NOTE_READ_BACKOFF * k) s1"
    from Inl rest have "read_attempts W object (Suc k) left ?s2 = Some (r, s')"
      by (auto simp: seq_act_run sleep_act_def)
    moreover have "head_of V ?s2 = head_of V s1" "note_of V ?s2 = note_of V s1"
      using assms(1) by (simp_all add: git_reads_ok_def)
    ultimately show ?thesis using Suc.IH [of "Suc k" ?s2] b by simp
  qed
qed

lemma append_under_lock_run:
  assumes R: "git_reads_ok W V" and A: "git_add_ok W V"
    and run: "append_under_lock W S r s = Some (res, s')"
  shows "case res of
      Inr _ \<Rightarrow> \<exists>kept. same_text kept
          (append_line (map_option utf8_lossy (note_of V s (head_of V s))) (json_line S r)) \<and>
        note_of V s' = (note_of V s)(head_of V s \<mapsto> kept)
    | Inl _ \<Rightarrow> note_of V s' = note_of V s"
proof -
  from run obtain h s1 where h: "run_git W [''rev-parse'', ''HEAD''] s = Some (h, s1)"
    and rest: "case h of Inl e \<Rightarrow> res = Inl e \<and> s' = s1 | Inr out \<Rightarrow>
        seq_act (read_note_body_with_retry W (trim out))
          (\<lambda>existing. seq_act (run_git_with_stdin W (notes_add_args (trim out))
              (append_line existing (json_line S r))) (\<lambda>_. ret ())) s1 = Some (res, s')"
    unfolding append_under_lock_def Let_def seq_act_run by (auto simp: seq_act_run)
  from run_git_with_run [OF h [unfolded run_git_def]]
  obtain q where q: "git_cmd W [] [''rev-parse'', ''HEAD''] None s = (q, s1)"
    and hq: "case h of Inr t \<Rightarrow> (\<exists>out. q = Inr out \<and> succeeded out \<and> t = utf8_lossy (out_stdout out))
      | Inl _ \<Rightarrow> \<not> ran_ok q" by blast
  have "reading_args [''rev-parse'', ''HEAD'']" by (simp add: reading_args_def)
  with R q have s1: "head_of V s1 = head_of V s" "note_of V s1 = note_of V s"
    unfolding git_reads_ok_def by blast+
  show ?thesis
  proof (cases h)
    case (Inl e)
    with rest s1 show ?thesis by simp
  next
    case (Inr t)
    with hq obtain out where "q = Inr out" "succeeded out" "t = utf8_lossy (out_stdout out)" by auto
    with R q have t: "trim t = head_of V s" unfolding git_reads_ok_def by blast
    from rest Inr t obtain b s2 where b: "read_note_body_with_retry W (head_of V s) s1 = Some (b, s2)"
      and rest2: "case b of Inl e \<Rightarrow> res = Inl e \<and> s' = s2 | Inr existing \<Rightarrow>
          seq_act (run_git_with_stdin W (notes_add_args (head_of V s))
            (append_line existing (json_line S r))) (\<lambda>_. ret ()) s2 = Some (res, s')"
      by (auto simp: seq_act_run)
    from read_attempts_run [OF R b [unfolded read_note_body_with_retry_def]] s1
    have s2: "note_of V s2 = note_of V s" and
      bb: "\<forall>x. b = Inr x \<longrightarrow> x = map_option utf8_lossy (note_of V s (head_of V s))"
      by auto
    show ?thesis
    proof (cases b)
      case (Inl e)
      with rest2 s2 show ?thesis by simp
    next
      case (Inr x)
      with rest2 obtain w where
        w: "run_git_with W (notes_add_args (head_of V s)) (Some (append_line x (json_line S r))) s2 = Some (w, s')"
        and res: "res = (case w of Inl e \<Rightarrow> Inl e | Inr _ \<Rightarrow> Inr ())"
        by (auto simp: seq_act_run ret_iff run_git_with_stdin_def)
      from run_git_with_run [OF w] obtain q2 where
        "git_cmd W [] (notes_add_args (head_of V s)) (Some (append_line x (json_line S r))) s2 = (q2, s')"
        "ran_ok q2 \<longleftrightarrow> (\<exists>y. w = Inr y)"
        by (cases w) (auto simp: ran_ok_def)
      with A s2 bb Inr res show ?thesis
        unfolding git_add_ok_def by (cases w) (fastforce split: if_splits)+
    qed
  qed
qed


text \<open>An append that succeeds either held the lock from before its read until after its write
  and then dropped it, or the lock could not exist and the outcome says so; a contended lock fails
  the append.\<close>

lemma append_lock_discipline:
  assumes "append_to_git_notes W S git_root r s = Some (Inr out, s')"
  shows "\<exists>s1 s2 a. lock_notes W git_root s1 = Some (Inr a, s2) \<and>
    (case a of
       Acquired p \<Rightarrow> ao_lock_degradation out = None \<and>
         (\<exists>s3. append_under_lock W S r s2 = Some (Inr (), s3) \<and> s' = lock_drop W p s3)
     | Contended p \<Rightarrow> False
     | Unusable p reason \<Rightarrow> ao_lock_degradation out = Some (p, reason) \<and>
         append_under_lock W S r s2 = Some (Inr (), s'))"
proof -
  from assms obtain st s1 l s2 where l: "writer_lock_of W git_root s1 = Some (Inr l, s2)"
    and rest: "under_lock W l (seq_act (append_under_lock W S r)
        (\<lambda>_. ret \<lparr> ao_rewrite_ref = st, ao_lock_degradation =
           (case l of Held _ \<Rightarrow> None | Unlocked p reason \<Rightarrow> Some (p, reason)) \<rparr>)) s2 =
      Some (Inr out, s')"
    by (auto simp: append_to_git_notes_def seq_act_run)
  from l obtain a s1' where a: "lock_notes W git_root s1 = Some (Inr a, s1')"
    and la: "(case a of Acquired path \<Rightarrow> ret (Held path) | Contended path \<Rightarrow> fail_with (LockContended path)
      | Unusable path reason \<Rightarrow> ret (Unlocked path reason)) s1' = Some (Inr l, s2)"
    by (auto simp: writer_lock_of_def seq_act_run)
  show ?thesis
  proof (cases a)
    case (Acquired p)
    with la have "l = Held p" "s1' = s2" by (auto simp: ret_iff)
    with a rest Acquired show ?thesis
      by (intro exI [of _ s1] exI [of _ s2] exI [of _ a])
         (auto simp: under_lock_def while_held_def seq_act_run ret_iff split: option.splits)
  next
    case (Contended p)
    with la show ?thesis by (simp add: fail_with_iff)
  next
    case (Unusable p reason)
    with la have "l = Unlocked p reason" "s1' = s2" by (auto simp: ret_iff)
    with a rest Unusable show ?thesis
      by (intro exI [of _ s1] exI [of _ s2] exI [of _ a])
         (auto simp: under_lock_def seq_act_run ret_iff)
  qed
qed

section \<open>Publishing ends\<close>

lemma returns_lock_notes: "clock_ok W \<Longrightarrow> returns (lock_notes W git_root)"
  using lock_notes_ends unfolding returns_def by (metis option.distinct(1))

lemma returns_while_held: "returns m \<Longrightarrow> returns (while_held W p m)"
  by (auto simp: returns_def while_held_def split: option.splits)

lemma returns_merge: "clock_ok W \<Longrightarrow> returns (merge_tracking_notes W git_root)"
  unfolding merge_tracking_notes_def
  by (intro returns_seq returns_attempt returns_lock_notes)
     (auto intro!: returns_while_held returns_seq returns_attempt split: sum.split lock_attempt.split)

lemma returns_publish_git [simp]: "returns (publish_git W args envs)"
  unfolding publish_git_def by (auto intro!: returns_seq split: sum.split)

lemma returns_publish_attempts:
  "clock_ok W \<Longrightarrow> returns (publish_attempts W git_root remote left last_err)"
  by (induction left arbitrary: last_err)
     (auto intro!: returns_seq returns_merge split: sum.split)

lemma publish_attempts_bound:
  "publish_attempts W git_root remote left last_err s = Some (Inr (Published n), s') \<Longrightarrow>
   left \<le> MAX_PUSH_ATTEMPTS \<Longrightarrow> MAX_PUSH_ATTEMPTS - left < n \<and> n \<le> MAX_PUSH_ATTEMPTS"
proof (induction left arbitrary: last_err s)
  case 0
  then show ?case by (simp add: fail_with_iff)
next
  case (Suc left)
  from Suc.prems(1) obtain m s1 s2 where
    "(if m = LockUnavailable then ret (PublishSkipped NotesLockUnavailable)
      else seq_act (publish_git W (push_args remote) [(NOTES_PUSH_SENTINEL, ''1'')])
        (\<lambda>r. case r of Inr _ \<Rightarrow> ret (Published (MAX_PUSH_ATTEMPTS - left))
          | Inl stderr \<Rightarrow> if \<not> is_lost_race stderr then fail_with (PublishFailed remote (trim stderr))
              else publish_attempts W git_root remote left stderr)) s1 = Some (Inr (Published n), s')"
    by (auto simp: seq_act_run)
  then obtain s3 where
    "ret (Published (MAX_PUSH_ATTEMPTS - left)) s3 = Some (Inr (Published n), s') \<or>
     (\<exists>stderr. publish_attempts W git_root remote left stderr s3 = Some (Inr (Published n), s'))"
    by (auto simp: seq_act_run ret_iff fail_with_iff sum_case_run split: if_splits)
  then show ?case
    using Suc.IH Suc.prems(2) by (fastforce simp: ret_iff)
qed


section \<open>A small repository\<close>

text \<open>One commit, its note, the lock and a clock: an instance that meets what is relied on of git.\<close>

record mini =
  mini_note :: "string option"
  mini_locked :: bool
  mini_clock :: nat

definition out_ok :: "string \<Rightarrow> string + proc_output" where
  "out_ok t = Inr \<lparr> out_code = Some 0, out_stdout = t, out_stderr = [] \<rparr>"

definition out_fail :: "string \<Rightarrow> string + proc_output" where
  "out_fail t = Inr \<lparr> out_code = Some 1, out_stdout = [], out_stderr = t \<rparr>"

definition mini_git ::
    "(string \<times> string) list \<Rightarrow> string list \<Rightarrow> string option \<Rightarrow> mini \<Rightarrow> (string + proc_output) \<times> mini" where
  "mini_git env args stdin s =
     (if args = [''rev-parse'', ''HEAD''] then (out_ok (''c0'' @ [nl]), s)
      else if args = [''rev-parse'', ''--path-format=absolute'', ''--git-common-dir'']
        then (out_ok (''/r/.git'' @ [nl]), s)
      else if args = [''notes'', ''--ref=spelunk'', ''show'', ''--'', ''c0''] then
        (case mini_note s of Some b \<Rightarrow> (out_ok b, s) | None \<Rightarrow> (out_fail ''no note'', s))
      else if args = notes_add_args ''c0'' then
        (case stdin of Some b \<Rightarrow> (out_ok [], s\<lparr> mini_note := Some b \<rparr>) | None \<Rightarrow> (out_fail [], s))
      else if args = [''notes'', ''--ref=spelunk'', ''list''] then
        (case mini_note s of Some b \<Rightarrow> (out_ok (''b0 c0'' @ [nl]), s) | None \<Rightarrow> (out_ok [], s))
      else if args = [''log'', ''--format=%H''] then (out_ok (''c0'' @ [nl]), s)
      else if args = [''cat-file'', ''--batch''] \<and> stdin = Some (''b0'' @ [nl]) then
        (out_ok (batch_frame (''b0'', mini_note s)), s)
      else (out_fail ''unknown'', s))"

definition mini_world :: "mini world" where
  "mini_world =
     \<lparr> git_cmd = mini_git,
       canonicalize = (\<lambda>p s. Some p),
       lock_open = (\<lambda>p s. (None, s)),
       lock_try = (\<lambda>p s. if mini_locked s then (WouldBlock, s) else (Locked, s\<lparr> mini_locked := True \<rparr>)),
       lock_drop = (\<lambda>p s. s\<lparr> mini_locked := False \<rparr>),
       clock_ms = mini_clock,
       sleep_ms = (\<lambda>n s. s\<lparr> mini_clock := mini_clock s + n \<rparr>),
       env_is_set = (\<lambda>k s. False),
       wall_secs = (\<lambda>s. 0),
       wall_millis = (\<lambda>s. 0) \<rparr>"

definition mini_view :: "mini git_view" where
  "mini_view =
     \<lparr> head_of = (\<lambda>s. ''c0''), note_of = (\<lambda>s c. if c = ''c0'' then mini_note s else None) \<rparr>"

lemma mini_clock_ok: "clock_ok mini_world"
  by (simp add: clock_ok_def mini_world_def)

lemma mini_reads_ok: "git_reads_ok mini_world mini_view"
proof -
  have "trim (utf8_lossy (''c0'' @ [nl])) = ''c0''" by code_simp
  then show ?thesis
    unfolding git_reads_ok_def mini_world_def mini_view_def
    by (auto simp: mini_git_def out_ok_def out_fail_def succeeded_def reading_args_def notes_add_args_def
        split: option.splits if_splits)
qed

lemma mini_add_ok: "git_add_ok mini_world mini_view"
proof -
  have "mini_git [] (notes_add_args object) (Some body) s =
      (if object = ''c0'' then (out_ok [], s\<lparr> mini_note := Some body \<rparr>) else (out_fail ''unknown'', s))"
    for object body s
    by (simp add: mini_git_def notes_add_args_def)
  moreover have "note_of mini_view (s\<lparr> mini_note := Some body \<rparr>) =
      (note_of mini_view s)(''c0'' \<mapsto> body)" for s body
    by (auto simp: mini_view_def)
  ultimately show ?thesis
    unfolding git_add_ok_def
    by (auto simp: mini_world_def out_ok_def out_fail_def succeeded_def ran_ok_def same_text_def
        split: if_splits)
qed

lemma lock_notes_returns_witness:
  "\<exists>r s'. lock_notes mini_world None \<lparr> mini_note = None, mini_locked = True, mini_clock = 0 \<rparr> = Some (r, s')"
  by (rule lock_notes_returns [OF mini_clock_ok])


lemma mini_append_run:
  "append_under_lock mini_world (example_serde r0) r0
     \<lparr> mini_note = None, mini_locked = True, mini_clock = 0 \<rparr> =
   Some (Inr (), \<lparr> mini_note = Some ''{}'', mini_locked = True, mini_clock = 0 \<rparr>)"
  by code_simp


lemma append_lock_discipline_witness:
  "\<exists>s1 s2 a. lock_notes mini_world None s1 = Some (Inr a, s2)"
proof -
  let ?r = "example_copy 1 1 active [] None"
  have "append_to_git_notes mini_world (example_serde ?r) None ?r
     \<lparr> mini_note = None, mini_locked = False, mini_clock = 0 \<rparr> =
   Some (Inr \<lparr> ao_rewrite_ref = Failed, ao_lock_degradation = None \<rparr>,
     \<lparr> mini_note = Some ''{}'', mini_locked = False, mini_clock = 0 \<rparr>)"
    by code_simp
  from append_lock_discipline [OF this] show ?thesis by blast
qed

text \<open>An append rewrites a foreign line that is not valid UTF-8: the byte 0xFF comes back as the
  three bytes of U+FFFD, so the existing lines are not always kept as they were.\<close>
lemma append_rewrites_invalid_bytes:
  "append_under_lock mini_world (example_serde r0) r0
     \<lparr> mini_note = Some [CHR 0xFF], mini_locked = True, mini_clock = 0 \<rparr> =
   Some (Inr (), \<lparr> mini_note = Some (utf8_replacement @ [nl] @ ''{}''),
                    mini_locked = True, mini_clock = 0 \<rparr>)"
  by code_simp

end
