(* ===== verification/NotesRace.thy ===== *)
theory NotesRace
  imports GitCarrier
begin

text \<open>
  Concurrent writers of one note.  \<open>append_to_git_notes\<close> runs in many processes at once; the steps
  that other processes can see are taking the lock, reading the note, writing it back and
  dropping the lock, and here they interleave freely.  \<open>usable\<close> says whether the lock file can
  exist (\<open>LockAttempt::Unusable\<close> otherwise, the one case in which a writer goes on unlocked).  With a
  usable lock no finished append is ever lost; without one, an append can be, as the source warns.
\<close>

section \<open>Steps\<close>

datatype phase =
    Waiting
  | Reading
  | Writing "string option"
  | Releasing
  | Finished
  | GaveUp

record race =
  race_note :: "string option"
  race_lock :: "nat option"
  race_phase :: "nat \<Rightarrow> phase"

definition set_phase :: "nat \<Rightarrow> phase \<Rightarrow> race \<Rightarrow> race" where
  "set_phase w p s = s\<lparr> race_phase := (race_phase s)(w := p) \<rparr>"

definition drop_held :: "nat \<Rightarrow> race \<Rightarrow> race" where
  "drop_held w s = (if race_lock s = Some w then s\<lparr> race_lock := None \<rparr> else s)"

text \<open>One step of writer \<open>w\<close>, which appends \<open>line w\<close>.  A failed read or write ends the append with an
  error and drops the lock; waiting for the lock ends in \<open>Contended\<close> at any time.\<close>

inductive append_step :: "bool \<Rightarrow> (nat \<Rightarrow> string) \<Rightarrow> race \<Rightarrow> race \<Rightarrow> bool"
  for usable :: bool and line :: "nat \<Rightarrow> string" where
  acquire: "usable \<Longrightarrow> race_phase s w = Waiting \<Longrightarrow> race_lock s = None \<Longrightarrow>
     append_step usable line s (set_phase w Reading (s\<lparr> race_lock := Some w \<rparr>))"
| contended: "usable \<Longrightarrow> race_phase s w = Waiting \<Longrightarrow> race_lock s \<noteq> None \<Longrightarrow>
     append_step usable line s (set_phase w GaveUp s)"
| unlocked: "\<not> usable \<Longrightarrow> race_phase s w = Waiting \<Longrightarrow>
     append_step usable line s (set_phase w Reading s)"
| read_note: "race_phase s w = Reading \<Longrightarrow>
     append_step usable line s (set_phase w (Writing (race_note s)) s)"
| read_fails: "race_phase s w = Reading \<Longrightarrow>
     append_step usable line s (drop_held w (set_phase w GaveUp s))"
| write_note: "race_phase s w = Writing existing \<Longrightarrow>
     append_step usable line s
       (set_phase w Releasing (s\<lparr> race_note := Some (append_line existing (line w)) \<rparr>))"
| write_fails: "race_phase s w = Writing existing \<Longrightarrow>
     append_step usable line s (drop_held w (set_phase w GaveUp s))"
| release: "race_phase s w = Releasing \<Longrightarrow>
     append_step usable line s (drop_held w (set_phase w Finished s))"

definition race_init :: "string option \<Rightarrow> race" where
  "race_init note = \<lparr> race_note = note, race_lock = None, race_phase = (\<lambda>_. Waiting) \<rparr>"

inductive race_reach :: "bool \<Rightarrow> (nat \<Rightarrow> string) \<Rightarrow> string option \<Rightarrow> race \<Rightarrow> bool"
  for usable :: bool and line :: "nat \<Rightarrow> string" and note0 :: "string option" where
  start: "race_reach usable line note0 (race_init note0)"
| more: "race_reach usable line note0 s \<Longrightarrow> append_step usable line s t \<Longrightarrow> race_reach usable line note0 t"

section \<open>The invariant\<close>

definition in_section :: "phase \<Rightarrow> bool" where
  "in_section p \<longleftrightarrow> (p = Reading \<or> (\<exists>b. p = Writing b) \<or> p = Releasing)"

lemma in_section_simps [simp]:
  "in_section Reading" "in_section (Writing b)" "in_section Releasing"
  "\<not> in_section Waiting" "\<not> in_section Finished" "\<not> in_section GaveUp"
  by (simp_all add: in_section_def)

definition has_line :: "string \<Rightarrow> string option \<Rightarrow> bool" where
  "has_line l note = (case note of Some b \<Rightarrow> l \<in> set (split_on nl b) | None \<Rightarrow> False)"

definition race_inv :: "(nat \<Rightarrow> string) \<Rightarrow> string option \<Rightarrow> race \<Rightarrow> bool" where
  "race_inv line note0 s \<longleftrightarrow>
     (\<forall>w. in_section (race_phase s w) \<longleftrightarrow> race_lock s = Some w) \<and>
     (\<forall>w b. race_phase s w = Writing b \<longrightarrow> b = race_note s) \<and>
     (\<forall>w. race_phase s w = Releasing \<or> race_phase s w = Finished \<longrightarrow> has_line (line w) (race_note s)) \<and>
     (\<forall>l. trim l \<noteq> [] \<longrightarrow> has_line l note0 \<longrightarrow> has_line l (race_note s))"

text \<open>A line that is worth keeping: one that a record is written as, or any that is not blank.\<close>

definition entry_line :: "string \<Rightarrow> bool" where
  "entry_line l \<longleftrightarrow> trim l \<noteq> [] \<and> nl \<notin> set l"

lemma pieces_trim_end_nl:
  "trim l \<noteq> [] \<Longrightarrow> l \<in> set (split_on nl b) \<longleftrightarrow> l \<in> set (split_on nl (trim_end_nl b))"
proof -
  assume l: "trim l \<noteq> []"
  obtain k where "b = trim_end_nl b @ replicate k nl" by (rule trim_end_nl_eq)
  then have "split_on nl b = split_on nl (trim_end_nl b) @ replicate k []"
    by (metis split_on_replicate)
  with l show ?thesis by auto
qed

lemma append_line_keeps:
  assumes "trim l \<noteq> []" "has_line l note"
  shows "has_line l (Some (append_line note new_line))"
proof -
  from assms obtain b where b: "note = Some b" "l \<in> set (split_on nl b)"
    by (auto simp: has_line_def split: option.splits)
  with assms have "trim b \<noteq> []" using trim_blank_pieces by blast
  with b assms(1) show ?thesis
    using pieces_trim_end_nl [of l b] by (simp add: has_line_def append_line_def split_on_append_sep)
qed

lemma append_line_adds: "nl \<notin> set l \<Longrightarrow> has_line l (Some (append_line note l))"
  by (auto simp: has_line_def append_line_def split_on_append_sep split_on_id split: option.split)

lemma race_inv_step:
  assumes inv: "race_inv line note0 s" and step: "append_step True line s t"
    and lines: "\<forall>w. entry_line (line w)"
  shows "race_inv line note0 t"
proof -
  from inv have sec: "\<And>v. in_section (race_phase s v) \<longleftrightarrow> race_lock s = Some v"
    and cur: "\<And>v b. race_phase s v = Writing b \<Longrightarrow> b = race_note s"
    and fin: "\<And>v. race_phase s v = Releasing \<or> race_phase s v = Finished \<Longrightarrow> has_line (line v) (race_note s)"
    and old: "\<And>l. trim l \<noteq> [] \<Longrightarrow> has_line l note0 \<Longrightarrow> has_line l (race_note s)"
    by (auto simp: race_inv_def)
  have own: "race_lock s = Some v" if "in_section (race_phase s v)" for v using sec that by simp
  have out: "race_lock s \<noteq> Some v" if "\<not> in_section (race_phase s v)" for v using sec that by simp
  note d = race_inv_def set_phase_def drop_held_def
  from step show ?thesis
  proof (cases rule: append_step.cases)
    case (acquire w)
    with sec cur fin old show ?thesis by (auto simp: d)
  next
    case (contended w)
    with out [of w] have "race_lock s \<noteq> Some w" by simp
    with contended sec cur fin old show ?thesis by (auto simp: d)
  next
    case (read_note w)
    with own [of w] have "race_lock s = Some w" by simp
    with read_note sec cur fin old show ?thesis by (auto simp: d)
  next
    case (read_fails w)
    with own [of w] have "race_lock s = Some w" by simp
    with read_fails sec cur fin old show ?thesis by (auto simp: d)
  next
    case (write_note w existing)
    with own [of w] have l: "race_lock s = Some w" by simp
    from write_note cur have e: "existing = race_note s" by blast
    have others: "\<not> in_section (race_phase s v)" if "v \<noteq> w" for v
      using sec l that by simp
    have keep: "has_line k (Some (append_line existing (line w)))"
      if "trim k \<noteq> []" "has_line k (race_note s)" for k
      using append_line_keeps that e by simp
    have new: "has_line (line w) (Some (append_line existing (line w)))"
      using lines by (simp add: append_line_adds entry_line_def)
    have nb: "trim (line v) \<noteq> []" for v using lines by (simp add: entry_line_def)
    have "in_section (race_phase t v) \<longleftrightarrow> race_lock t = Some v" for v
      using others [of v] l by (auto simp: write_note(1) set_phase_def)
    moreover have "b = race_note t" if "race_phase t v = Writing b" for v b
      using others [of v] that by (auto simp: write_note(1) set_phase_def split: if_splits)
    moreover have "has_line (line v) (race_note t)"
      if "race_phase t v = Releasing \<or> race_phase t v = Finished" for v
      using that fin [of v] keep [OF nb, of v] new
      by (auto simp: write_note(1) set_phase_def split: if_splits)
    moreover have "has_line k (race_note t)" if "trim k \<noteq> []" "has_line k note0" for k
      using old [OF that] keep [OF that(1)] by (simp add: write_note(1) set_phase_def)
    ultimately show ?thesis by (simp add: race_inv_def)
  next
    case (write_fails w existing)
    with own [of w] have l: "race_lock s = Some w" by simp
    have "race_phase s v \<noteq> Writing b" if "v \<noteq> w" for v b
      using sec [of v] l that by auto
    with l write_fails sec fin old show ?thesis by (auto simp: d)
  next
    case (release w)
    with own [of w] have "race_lock s = Some w" by simp
    with release sec cur fin old show ?thesis by (auto simp: d)
  qed simp
qed

lemma race_inv_init: "race_inv line note (race_init note)"
  by (simp add: race_inv_def race_init_def in_section_def)

lemma race_inv_reach:
  "race_reach True line note s \<Longrightarrow> \<forall>w. entry_line (line w) \<Longrightarrow> race_inv line note s"
  by (induction rule: race_reach.induct) (auto simp: race_inv_init intro: race_inv_step)


section \<open>Without the lock\<close>

definition lost_line :: "nat \<Rightarrow> string" where
  "lost_line w = (if w = 0 then ''a'' else ''b'')"

lemma lost_line_entry: "entry_line (lost_line w)"
proof -
  have "trim ''a'' = ''a''" "trim ''b'' = ''b''" by code_simp+
  then show ?thesis by (simp add: entry_line_def lost_line_def nl_def)
qed

text \<open>One writer that takes the lock, reads, writes and is done.\<close>

lemma locked_append_finishes:
  "\<exists>s. race_reach True lost_line (Some ''prose'') s \<and> race_phase s 0 = Finished"
proof -
  let ?s0 = "race_init (Some ''prose'')"
  let ?s1 = "set_phase 0 Reading (?s0\<lparr> race_lock := Some 0 \<rparr>)"
  let ?s2 = "set_phase 0 (Writing (race_note ?s1)) ?s1"
  let ?s3 = "set_phase 0 Releasing (?s2\<lparr> race_note := Some (append_line (race_note ?s1) (lost_line 0)) \<rparr>)"
  let ?s4 = "drop_held 0 (set_phase 0 Finished ?s3)"
  note d = set_phase_def drop_held_def race_init_def
  have "race_reach True lost_line (Some ''prose'') ?s0" by (rule race_reach.start)
  then have "race_reach True lost_line (Some ''prose'') ?s1"
    by (rule race_reach.more) (rule append_step.acquire, simp_all add: d)
  then have "race_reach True lost_line (Some ''prose'') ?s2"
    by (rule race_reach.more) (rule append_step.read_note, simp_all add: d)
  then have "race_reach True lost_line (Some ''prose'') ?s3"
    by (rule race_reach.more) (rule append_step.write_note, simp_all add: d)
  then have "race_reach True lost_line (Some ''prose'') ?s4"
    by (rule race_reach.more) (rule append_step.release, simp_all add: d)
  moreover have "race_phase ?s4 0 = Finished" by (simp add: d)
  ultimately show ?thesis by blast
qed


text \<open>Where the lock cannot exist, two appends can both finish and the first one's line be gone.\<close>
lemma unlocked_append_can_be_lost:
  "\<exists>s. race_reach False lost_line None s \<and> race_phase s 0 = Finished \<and> race_phase s 1 = Finished \<and>
       \<not> has_line (lost_line 0) (race_note s)"
proof -
  let ?s0 = "race_init None"
  let ?s1 = "set_phase 0 Reading ?s0"
  let ?s2 = "set_phase 1 Reading ?s1"
  let ?s3 = "set_phase 0 (Writing (race_note ?s2)) ?s2"
  let ?s4 = "set_phase 1 (Writing (race_note ?s3)) ?s3"
  let ?s5 = "set_phase 0 Releasing (?s4\<lparr> race_note := Some (append_line None (lost_line 0)) \<rparr>)"
  let ?s6 = "drop_held 0 (set_phase 0 Finished ?s5)"
  let ?s7 = "set_phase 1 Releasing (?s6\<lparr> race_note := Some (append_line None (lost_line 1)) \<rparr>)"
  let ?s8 = "drop_held 1 (set_phase 1 Finished ?s7)"
  note d = set_phase_def drop_held_def race_init_def
  have "race_reach False lost_line None ?s0" by (rule race_reach.start)
  then have "race_reach False lost_line None ?s1"
    by (rule race_reach.more) (rule append_step.unlocked, simp_all add: d)
  then have "race_reach False lost_line None ?s2"
    by (rule race_reach.more) (rule append_step.unlocked, simp_all add: d)
  then have "race_reach False lost_line None ?s3"
    by (rule race_reach.more) (rule append_step.read_note, simp_all add: d)
  then have "race_reach False lost_line None ?s4"
    by (rule race_reach.more) (rule append_step.read_note, simp_all add: d)
  then have "race_reach False lost_line None ?s5"
    by (rule race_reach.more) (rule append_step.write_note, simp_all add: d)
  then have "race_reach False lost_line None ?s6"
    by (rule race_reach.more) (rule append_step.release, simp_all add: d)
  then have "race_reach False lost_line None ?s7"
    by (rule race_reach.more) (rule append_step.write_note, simp_all add: d)
  then have "race_reach False lost_line None ?s8"
    by (rule race_reach.more) (rule append_step.release, simp_all add: d)
  moreover have "race_phase ?s8 0 = Finished" "race_phase ?s8 1 = Finished"
    "\<not> has_line (lost_line 0) (race_note ?s8)"
    by (simp_all add: d lost_line_def has_line_def append_line_def nl_def)
  ultimately show ?thesis by blast
qed

end
