(* ===== verification/GitBackend.thy ===== *)
theory GitBackend
  imports NotesRace
begin

text \<open>
  \<open>GitNotesBackend\<close> (the rest of \<open>storage/git_notes/mod.rs\<close> and \<open>backend_impl.rs\<close>): the memory
  backend whose store is the notes ref itself.  Listing and lookup fold every reachable copy;
  adding and archiving append.  The operations the backend cannot offer fail with
  \<open>BackendUnsupported\<close>.
\<close>

section \<open>Reading the ref\<close>

text \<open>The lines of \<open>git notes list\<close>, as \<open>(commit, blob)\<close>; collected into a hash map, a later line
  for the same commit replaces an earlier one.\<close>

definition noted_entries :: "string \<Rightarrow> (string \<times> string) list" where
  "noted_entries listing =
     filter_map
       (\<lambda>l. case split_whitespace l of blob # commit # _ \<Rightarrow> Some (commit, blob) | _ \<Rightarrow> None)
       (str_lines listing)"

definition noted_pairs :: "(string \<times> string) list \<Rightarrow> string \<Rightarrow> (string \<times> string) list" where
  "noted_pairs noted log =
     filter_map
       (\<lambda>line. let commit = trim line in
          map_option (\<lambda>blob. (commit, blob)) (map_of (rev noted) commit))
       (str_lines log)"

definition noted_commits :: "'g world \<Rightarrow> ('g, (string \<times> string) list) act" where
  "noted_commits W =
     seq_act (output_of W [''notes'', ''--ref=spelunk'', ''list''] None)
       (\<lambda>list_out.
          if \<not> succeeded list_out then ret []
          else let noted = noted_entries (utf8_lossy (out_stdout list_out)) in
            if noted = [] then ret []
            else seq_act (output_of W [''log'', ''--format=%H''] None)
              (\<lambda>log_out. if \<not> succeeded log_out then ret []
                 else ret (noted_pairs noted (utf8_lossy (out_stdout log_out)))))"

definition noted_blobs :: "'g world \<Rightarrow> ('g, string list) act" where
  "noted_blobs W = seq_act (noted_commits W) (\<lambda>ps. ret (map snd ps))"

definition lift_result :: "'a notes_result \<Rightarrow> ('g, 'a) act" where
  "lift_result r = (\<lambda>s. Some (r, s))"

definition read_note_blobs :: "'g world \<Rightarrow> string list \<Rightarrow> ('g, string list) act" where
  "read_note_blobs W blob_shas =
     (if blob_shas = [] then ret []
      else seq_act (output_of W [''cat-file'', ''--batch''] (Some (join_with [nl] blob_shas @ [nl])))
        (\<lambda>out. if \<not> succeeded out
               then fail_with (GitFailed [''cat-file'', ''--batch''] (trim (utf8_lossy (out_stderr out))))
               else lift_result (parse_cat_file_batch (out_stdout out))))"

definition read_note_blob :: "'g world \<Rightarrow> string \<Rightarrow> ('g, string) act" where
  "read_note_blob W commit_sha =
     seq_act (read_note_body_with_retry W commit_sha)
       (\<lambda>b. ret (case b of Some body \<Rightarrow> body | None \<Rightarrow> []))"

fun parse_all :: "'v serde \<Rightarrow> string list \<Rightarrow> note_record list \<Rightarrow> note_record list notes_result" where
  "parse_all S [] records = Inr records"
| "parse_all S (blob # blobs) records =
     bind_res (parse_records S blob) (\<lambda>rs. parse_all S blobs (records @ rs))"

definition folded_records :: "'g world \<Rightarrow> 'v serde \<Rightarrow> hashing \<Rightarrow> ('g, note_record list) act" where
  "folded_records W S E =
     seq_act (noted_blobs W)
       (\<lambda>shas. seq_act (read_note_blobs W shas)
          (\<lambda>blobs. seq_act (lift_result (parse_all S blobs []))
             (\<lambda>records. ret (fold_records E records))))"

fun attribute :: "'v serde \<Rightarrow> (string \<times> string) list \<Rightarrow> (string \<times> note_record) list \<Rightarrow>
    (string \<times> note_record) list notes_result" where
  "attribute S [] out = Inr out"
| "attribute S ((commit, body) # rest) out =
     bind_res (parse_records S body) (\<lambda>rs. attribute S rest (out @ map (Pair commit) rs))"

definition records_with_commit ::
    "'g world \<Rightarrow> 'v serde \<Rightarrow> ('g, (string \<times> note_record) list) act" where
  "records_with_commit W S =
     seq_act (noted_commits W)
       (\<lambda>noted. seq_act (read_note_blobs W (map snd noted))
          (\<lambda>blobs. lift_result (attribute S (zip (map fst noted) blobs) [])))"

text \<open>The source collects an unordered map; the model says which entities it holds.\<close>

definition anchored_entities ::
    "hashing \<Rightarrow> string \<Rightarrow> (string \<times> note_record) list \<Rightarrow> string set" where
  "anchored_entities E sha_prefix records =
     {e \<in> (\<lambda>(c, r). resolve_entity_id E r) ` set records.
        case anchor_commits E records e of
          Some commit \<Rightarrow> starts_with sha_prefix commit | None \<Rightarrow> False}"

definition entity_ids_anchored_to ::
    "'g world \<Rightarrow> 'v serde \<Rightarrow> hashing \<Rightarrow> string \<Rightarrow> ('g, string set) act" where
  "entity_ids_anchored_to W S E sha_prefix =
     seq_act (records_with_commit W S) (\<lambda>records. ret (anchored_entities E sha_prefix records))"

definition list_anchored_to ::
    "'g world \<Rightarrow> 'v serde \<Rightarrow> hashing \<Rightarrow> string \<Rightarrow> bool \<Rightarrow> int option \<Rightarrow> nat \<Rightarrow> ('g, mem_note list) act" where
  "list_anchored_to W S E sha_prefix include_archived as_of limit =
     seq_act (records_with_commit W S)
       (\<lambda>records. ret (anchored_folded E sha_prefix include_archived as_of limit records))"

definition collect_notes ::
    "'g world \<Rightarrow> 'v serde \<Rightarrow> hashing \<Rightarrow> string option \<Rightarrow> bool \<Rightarrow> int option \<Rightarrow> nat \<Rightarrow> ('g, mem_note list) act" where
  "collect_notes W S E kind_filter include_archived as_of limit =
     seq_act (folded_records W S E)
       (\<lambda>folded. ret (collect_folded kind_filter include_archived as_of limit folded))"

section \<open>The backend\<close>

definition GIT_NOTES_MAX_LIST :: nat where
  "GIT_NOTES_MAX_LIST = 500"

record note_input =
  in_kind :: string
  in_title :: string
  in_body :: string
  in_tags :: "string list"
  in_linked_files :: "string list"
  in_embedding :: "string option"
  in_source_ref :: "string option"
  in_valid_at :: "int option"
  in_supersedes :: "note_id option"

definition head_sha :: "'g world \<Rightarrow> ('g, string) act" where
  "head_sha W = seq_act (run_git W [''rev-parse'', ''HEAD'']) (\<lambda>out. ret (trim out))"

definition append_record ::
    "'g world \<Rightarrow> 'v serde \<Rightarrow> string option \<Rightarrow> string \<Rightarrow> note_record \<Rightarrow> ('g, unit) act" where
  "append_record W S git_root object record' =
     seq_act (ensure_notes_rewrite_ref W)
       (\<lambda>_. seq_act (writer_lock_of W git_root)
          (\<lambda>l. under_lock W l
             (seq_act (read_note_blob W object)
               (\<lambda>existing. seq_act (run_git_with_stdin W (notes_add_args object)
                             (append_line (Some existing) (json_line S record')))
                  (\<lambda>_. ret ())))))"

definition fresh_record :: "hashing \<Rightarrow> int \<Rightarrow> int \<Rightarrow> note_input \<Rightarrow> note_record" where
  "fresh_record E millis secs inp =
     \<lparr> nr_schema_version = 1,
       nr_id = millis,
       nr_kind = in_kind inp,
       nr_title = in_title inp,
       nr_body = in_body inp,
       nr_tags = in_tags inp,
       nr_linked_files = in_linked_files inp,
       nr_created_at = secs,
       nr_status = active,
       nr_source_ref = in_source_ref inp,
       nr_valid_at = in_valid_at inp,
       nr_invalid_at = None,
       nr_superseded_by = None,
       nr_remote_id = None,
       nr_entity_id = Some (entity_id E (in_kind inp) (in_title inp) (in_body inp)),
       nr_superseded_by_entity_id = None \<rparr>"

definition git_add ::
    "'g world \<Rightarrow> 'v serde \<Rightarrow> hashing \<Rightarrow> string option \<Rightarrow> note_input \<Rightarrow> ('g, note_id \<times> bool) act" where
  "git_add W S E git_root inp =
     seq_act (observe (\<lambda>s. (wall_millis W s, wall_secs W s)))
       (\<lambda>(millis, secs). seq_act (head_sha W)
          (\<lambda>head. seq_act (append_record W S git_root head (fresh_record E millis secs inp))
             (\<lambda>_. ret (note_id_from_i64 millis, True))))"

definition git_list ::
    "'g world \<Rightarrow> 'v serde \<Rightarrow> hashing \<Rightarrow> string option \<Rightarrow> nat \<Rightarrow> bool \<Rightarrow> int option \<Rightarrow> ('g, mem_note list) act" where
  "git_list W S E kind_filter limit include_archived as_of =
     collect_notes W S E kind_filter include_archived as_of (min limit GIT_NOTES_MAX_LIST)"

definition git_list_by_source_ref ::
    "'g world \<Rightarrow> 'v serde \<Rightarrow> hashing \<Rightarrow> string \<Rightarrow> nat \<Rightarrow> bool \<Rightarrow> int option \<Rightarrow> ('g, mem_note list) act" where
  "git_list_by_source_ref W S E prefix limit include_archived as_of =
     list_anchored_to W S E prefix include_archived as_of (min limit GIT_NOTES_MAX_LIST)"

definition numeric_id :: "note_id \<Rightarrow> ('g, int) act" where
  "numeric_id i = (case numeric_note_id i of Inl e \<Rightarrow> fail_with (BadNoteId e) | Inr n \<Rightarrow> ret n)"

definition git_get ::
    "'g world \<Rightarrow> 'v serde \<Rightarrow> hashing \<Rightarrow> note_id \<Rightarrow> ('g, mem_note option) act" where
  "git_get W S E i =
     seq_act (numeric_id i)
       (\<lambda>n. seq_act (folded_records W S E)
          (\<lambda>folded. ret (map_option record_to_note (find (\<lambda>r. nr_id r = n) folded))))"

definition git_count :: "'g world \<Rightarrow> ('g, int) act" where
  "git_count W = seq_act (noted_commits W) (\<lambda>ps. ret (int (length ps)))"

definition line_with_id :: "'v serde \<Rightarrow> int \<Rightarrow> string \<Rightarrow> note_record option" where
  "line_with_id S n blob =
     find_map (\<lambda>line. case parse_spelunk_line S line of
                 Some r \<Rightarrow> if nr_id r = n then Some r else None
               | None \<Rightarrow> None)
       (str_lines blob)"

fun find_record ::
    "'g world \<Rightarrow> 'v serde \<Rightarrow> int \<Rightarrow> (string \<times> string) list \<Rightarrow> ('g, note_record option) act" where
  "find_record W S n [] = ret None"
| "find_record W S n ((commit, _) # rest) =
     seq_act (read_note_blob W commit)
       (\<lambda>blob. case line_with_id S n blob of
          Some r \<Rightarrow> ret (Some r)
        | None \<Rightarrow> find_record W S n rest)"

definition git_archive ::
    "'g world \<Rightarrow> 'v serde \<Rightarrow> hashing \<Rightarrow> string option \<Rightarrow> note_id \<Rightarrow> ('g, bool) act" where
  "git_archive W S E git_root i =
     seq_act (numeric_id i)
       (\<lambda>n. seq_act (noted_commits W)
          (\<lambda>noted. seq_act (find_record W S n noted)
             (\<lambda>found. case found of
                None \<Rightarrow> ret False
              | Some r \<Rightarrow>
                  seq_act (observe (wall_secs W))
                    (\<lambda>now. let base = record_to_note r;
                               invalid_at = (case n_invalid_at base of Some t \<Rightarrow> Some t | None \<Rightarrow> Some now) in
                       seq_act (append_state_update W S E git_root base archived invalid_at None)
                         (\<lambda>_. ret True)))))"

text \<open>The operations with no meaning on a notes ref.\<close>

datatype unsupported_op =
    SearchTimeline | Search | SearchText | SearchHybrid
  | Supersede | HarvestedShas | HasSourceRef | AddEdge | GetEdges

fun op_name :: "unsupported_op \<Rightarrow> string" where
  "op_name SearchTimeline = ''search_timeline''"
| "op_name Search = ''search''"
| "op_name SearchText = ''search_text''"
| "op_name SearchHybrid = ''search_hybrid''"
| "op_name Supersede = ''supersede''"
| "op_name HarvestedShas = ''harvested_shas''"
| "op_name HasSourceRef = ''has_source_ref''"
| "op_name AddEdge = ''add_edge''"
| "op_name GetEdges = ''get_edges''"

definition git_unsupported :: "unsupported_op \<Rightarrow> ('g, 'a) act" where
  "git_unsupported op = fail_with (BackendUnsupported (op_name op))"

section \<open>Bounds\<close>

lemma length_newest: "length (newest limit rs) \<le> limit"
  by (simp add: newest_def Let_def)

text \<open>No listing of the notes ref returns more than the caller's limit, nor more than 500.\<close>
lemma git_list_bounded:
  assumes "git_list W S E kind_filter limit include_archived as_of s = Some (Inr ns, s')"
  shows "length ns \<le> min limit 500"
  using assms length_newest [of "min limit GIT_NOTES_MAX_LIST"]
  by (auto simp: git_list_def collect_notes_def collect_folded_def GIT_NOTES_MAX_LIST_def
      seq_act_run ret_iff)

section \<open>A state update archives the entity\<close>

text \<open>
  What \<open>archive\<close> relies on: the state update it appends carries the entity of the record it found,
  provided that record's own entity id is the one its content has.
\<close>

lemma state_update_entity:
  "resolve_entity_id E (state_update_record E m s (record_to_note r) st ia sb) =
     entity_id E (nr_kind r) (nr_title r) (nr_body r)"
  by (simp add: resolve_entity_id_def state_update_record_def note_entity_id_def record_to_note_def)

lemma state_update_status [simp]:
  "nr_status (state_update_record E m s b st ia sb) = st"
  by (simp add: state_update_record_def)

text \<open>Once the state update of \<open>archive\<close> is on the ref, wherever it stands among the other
  copies, no current listing shows the archived entity again.\<close>

lemma archive_update_hides:
  assumes "nr_entity_id r = None \<or>
      nr_entity_id r = Some (entity_id E (nr_kind r) (nr_title r) (nr_body r))"
    and "state_update_record E m t (record_to_note r) archived ia None \<in> set rs"
    and "n \<in> set (collect_folded kind_filter False None limit (fold_records E rs))"
  shows "\<exists>f \<in> set (fold_records E rs). n = record_to_note f \<and> resolve_entity_id E f \<noteq> resolve_entity_id E r"
proof -
  let ?u = "state_update_record E m t (record_to_note r) archived ia None"
  have "resolve_entity_id E ?u = resolve_entity_id E r"
    using assms(1) by (auto simp: state_update_entity resolve_entity_id_def [of E r])
  moreover from archived_hidden [OF assms(3)] obtain f where
    "f \<in> set (fold_records E rs)" "n = record_to_note f"
    "\<forall>r \<in> set rs. resolve_entity_id E r = resolve_entity_id E f \<longrightarrow> nr_status r \<noteq> archived" by blast
  ultimately show ?thesis using assms(2) by (metis state_update_status)
qed

section \<open>Examples\<close>

lemma mini_noted:
  assumes "mini_note s = Some b"
  shows "noted_commits mini_world s = Some (Inr [(''c0'', ''b0'')], s)"
proof -
  have "utf8_lossy (''b0 c0'' @ [nl]) = ''b0 c0'' @ [nl]" "utf8_lossy (''c0'' @ [nl]) = ''c0'' @ [nl]"
    "noted_entries (''b0 c0'' @ [nl]) = [(''c0'', ''b0'')]"
    "noted_pairs [(''c0'', ''b0'')] (''c0'' @ [nl]) = [(''c0'', ''b0'')]"
    by code_simp+
  with assms show ?thesis
    by (simp add: noted_commits_def output_of_def run_process_def seq_act_def ret_def mini_world_def
        mini_git_def out_ok_def succeeded_def notes_add_args_def)
qed

lemma mini_blobs:
  assumes "mini_note s = Some b" "length b < 2 ^ 64"
  shows "read_note_blobs mini_world [''b0''] s = Some (Inr [utf8_lossy b], s)"
proof -
  have "parse_cat_file_batch (concat (map batch_frame [(''b0'', Some b)])) =
      Inr (map batch_body [(''b0'', Some b)])"
    by (rule parse_frames) (use assms(2) in \<open>simp add: frame_ok_def object_name_def byte_def\<close>)
  with assms show ?thesis
    by (simp add: read_note_blobs_def output_of_def run_process_def seq_act_def ret_def mini_world_def
        mini_git_def out_ok_def succeeded_def notes_add_args_def lift_result_def batch_body_def)
qed

lemma mini_folded:
  assumes "mini_note s = Some b" "length b < 2 ^ 64" "parse_records S (utf8_lossy b) = Inr rs"
  shows "folded_records mini_world S E s = Some (Inr (fold_records E rs), s)"
  using assms mini_noted [OF assms(1)] mini_blobs [OF assms(1,2)]
  by (simp add: folded_records_def noted_blobs_def seq_act_def ret_def lift_result_def)

lemma mini_list_run:
  "git_list mini_world (example_serde (example_copy 1 1 active [] None)) plain_hashing None 5 False None
     \<lparr> mini_note = Some ''{}'', mini_locked = False, mini_clock = 0 \<rparr> =
   Some (Inr [record_to_note (example_copy 1 1 active [] None)],
     \<lparr> mini_note = Some ''{}'', mini_locked = False, mini_clock = 0 \<rparr>)"
proof -
  let ?r = "example_copy 1 1 active [] None"
  have "parse_records (example_serde ?r) (utf8_lossy ''{}'') = Inr [?r]"
    "collect_folded None False None 5 (fold_records plain_hashing [?r]) = [record_to_note ?r]"
    by code_simp+
  then show ?thesis
    by (simp add: git_list_def collect_notes_def GIT_NOTES_MAX_LIST_def seq_act_def ret_def mini_folded)
qed

lemma git_list_bounded_witness:
  "length [record_to_note (example_copy 1 1 active [] None)] \<le> min 5 500"
  by (rule git_list_bounded [OF mini_list_run])

definition example_other :: note_record where
  "example_other = (example_copy 1 2 active [] None)\<lparr> nr_title := ''other'', nr_entity_id := None \<rparr>"

lemma archive_update_hides_witness:
  "\<exists>f \<in> set (fold_records plain_hashing
        [example_other, state_update_record plain_hashing 0 0
           (record_to_note (example_copy 1 1 active [] None)) archived None None]).
      resolve_entity_id plain_hashing f \<noteq> resolve_entity_id plain_hashing (example_copy 1 1 active [] None)"
proof -
  let ?r = "example_copy 1 1 active [] None"
  let ?u = "state_update_record plain_hashing 0 0 (record_to_note ?r) archived None None"
  have e: "nr_entity_id ?r = None \<or>
      nr_entity_id ?r = Some (entity_id plain_hashing (nr_kind ?r) (nr_title ?r) (nr_body ?r))"
    by (simp add: example_copy_def)
  have l: "record_to_note example_other \<in>
      set (collect_folded None False None 5 (fold_records plain_hashing [example_other, ?u]))"
    by code_simp
  have u: "?u \<in> set [example_other, ?u]" by simp
  from archive_update_hides [OF e u l] show ?thesis by blast
qed

definition two_line_serde :: "note_record serde" where
  "two_line_serde =
     \<lparr> json_from_str = (\<lambda>s. if s = ''{}'' then Some (example_copy 1 1 active [] None)
                            else if s = ''{2}'' then Some example_other else None),
       json_is_object = (\<lambda>_. True),
       json_record = Some,
       json_line = (\<lambda>r. if nr_id r = 1 then ''{}'' else ''{2}'') \<rparr>"

definition two_entries :: mini where
  "two_entries =
     \<lparr> mini_note = Some (''{}'' @ [nl] @ ''{2}''), mini_locked = False, mini_clock = 0 \<rparr>"

text \<open>The count of the notes backend is the number of commits that carry a note: two entries
  recorded on one commit are listed as two and counted as one.\<close>
lemma git_count_counts_commits:
  "git_list mini_world two_line_serde plain_hashing None 5 False None two_entries =
     Some (Inr [record_to_note (example_copy 1 1 active [] None), record_to_note example_other], two_entries) \<and>
   git_count mini_world two_entries = Some (Inr 1, two_entries)"
proof -
  let ?r = "example_copy 1 1 active [] None"
  let ?b = "''{}'' @ [nl] @ ''{2}''"
  have p: "parse_records two_line_serde (utf8_lossy ?b) = Inr [?r, example_other]"
    "collect_folded None False None 5 (fold_records plain_hashing [?r, example_other]) =
       [record_to_note ?r, record_to_note example_other]"
    by code_simp+
  have n: "mini_note two_entries = Some ?b" "length ?b < 2 ^ 64"
    by (simp_all add: two_entries_def)
  have "git_list mini_world two_line_serde plain_hashing None 5 False None two_entries =
     Some (Inr [record_to_note ?r, record_to_note example_other], two_entries)"
    using mini_folded [OF n p(1)] p(2)
    by (simp add: git_list_def collect_notes_def GIT_NOTES_MAX_LIST_def seq_act_def ret_def)
  moreover have "git_count mini_world two_entries = Some (Inr 1, two_entries)"
    using mini_noted [OF n(1)] by (simp add: git_count_def seq_act_def ret_def)
  ultimately show ?thesis by simp
qed

end
