(* ===== verification/MemorySchema.thy ===== *)
theory MemorySchema
  imports RustText
begin

text \<open>
  Opening \<open>memory.db\<close>: the forward-only migration runner of \<open>storage/memory/mod.rs\<close> over the shape of
  the database (tables, the columns of \<open>notes\<close>, indexes, triggers, the vector table's dimension and
  \<open>PRAGMA user_version\<close>).  SQLite commits every statement of a batch on its own where no transaction
  is open, so the process can be killed after any of them: \<open>mc_budget\<close> is the number of writing
  statements it still gets to run, without limit where it is absent.
\<close>

section \<open>The database's shape\<close>

text \<open>The names the migrations use, as constructors: tables, columns of \<open>notes\<close>, indexes, triggers.\<close>

datatype table_name =
    T_notes
  | T_memory_fts
  | T_memory_edges
  | T_schema_v896_note_embeddings
  | T_notes_import_state

datatype column_name =
    C_id | C_kind | C_title | C_body | C_tags | C_linked_files | C_created_at
  | C_status | C_superseded_by | C_source_ref | C_valid_at | C_invalid_at | C_uuid | C_remote_id | C_entity_id

datatype index_name =
    I_idx_memory_invalid_at
  | I_idx_memory_edges_from
  | I_idx_memory_edges_to
  | I_idx_notes_uuid
  | I_idx_notes_remote_id
  | I_idx_notes_entity_id

datatype trigger_name = G_memory_fts_insert | G_memory_fts_delete | G_memory_fts_update

record schema =
  sc_tables :: "table_name list"
  sc_columns :: "column_name list"
  sc_indexes :: "(index_name \<times> bool) list"
  sc_triggers :: "trigger_name list"
  sc_vec_dim :: "nat option"
  sc_fts_filled :: bool
  sc_version :: int

datatype schema_error =
    DuplicateColumn column_name
  | NoSuchTable table_name
  | NoSuchColumn column_name
  | TableExists
  | SchemaTooNew int int
  | Killed

text \<open>The statements of the migration files.  The index constructor has the table, the column of
  \<open>notes\<close> it needs, if any, and whether the index is unique; \<open>IF NOT EXISTS\<close> is part of all but
  \<open>CreateVec\<close> and \<open>AddColumn\<close>.\<close>

datatype ddl =
    CreateTable table_name
  | CreateVecIfAbsent nat
  | CreateVec nat
  | DropVec
  | AddColumn column_name
  | CreateIndex index_name table_name "column_name option" bool
  | CreateTrigger trigger_name
  | FillFts
  | StampVersion int

definition base_columns :: "column_name list" where
  "base_columns = [C_id, C_kind, C_title, C_body, C_tags, C_linked_files, C_created_at]"

fun exec_ddl :: "ddl \<Rightarrow> schema \<Rightarrow> schema_error + schema" where
  "exec_ddl (CreateTable t) s =
     (if t \<in> set (sc_tables s) then Inr s
      else Inr (s\<lparr> sc_tables := sc_tables s @ [t],
                  sc_columns := (if t = T_notes then base_columns else sc_columns s) \<rparr>))"
| "exec_ddl (CreateVecIfAbsent n) s =
     Inr (if sc_vec_dim s = None then s\<lparr> sc_vec_dim := Some n \<rparr> else s)"
| "exec_ddl (CreateVec n) s =
     (if sc_vec_dim s = None then Inr (s\<lparr> sc_vec_dim := Some n \<rparr>) else Inl TableExists)"
| "exec_ddl DropVec s = Inr (s\<lparr> sc_vec_dim := None \<rparr>)"
| "exec_ddl (AddColumn c) s =
     (if T_notes \<notin> set (sc_tables s) then Inl (NoSuchTable T_notes)
      else if c \<in> set (sc_columns s) then Inl (DuplicateColumn c)
      else Inr (s\<lparr> sc_columns := sc_columns s @ [c] \<rparr>))"
| "exec_ddl (CreateIndex i t col u) s =
     (if i \<in> fst ` set (sc_indexes s) then Inr s
      else if t \<notin> set (sc_tables s) then Inl (NoSuchTable t)
      else (case col of
          Some c \<Rightarrow> if c \<in> set (sc_columns s) then Inr (s\<lparr> sc_indexes := sc_indexes s @ [(i, u)] \<rparr>)
                    else Inl (NoSuchColumn c)
        | None \<Rightarrow> Inr (s\<lparr> sc_indexes := sc_indexes s @ [(i, u)] \<rparr>)))"
| "exec_ddl (CreateTrigger t) s =
     (if t \<in> set (sc_triggers s) then Inr s
      else if T_notes \<notin> set (sc_tables s) then Inl (NoSuchTable T_notes)
      else Inr (s\<lparr> sc_triggers := sc_triggers s @ [t] \<rparr>))"
| "exec_ddl FillFts s =
     (if T_memory_fts \<in> set (sc_tables s) then Inr (s\<lparr> sc_fts_filled := True \<rparr>)
      else Inl (NoSuchTable T_memory_fts))"
| "exec_ddl (StampVersion v) s = Inr (s\<lparr> sc_version := v \<rparr>)"

section \<open>Running statements\<close>

record machine =
  mc_schema :: schema
  mc_budget :: "nat option"

type_synonym 'a mig = "machine \<Rightarrow> (schema_error + 'a) \<times> machine"

definition mig_ok :: "'a \<Rightarrow> 'a mig" where
  "mig_ok x = (\<lambda>m. (Inr x, m))"

definition mig_fail :: "schema_error \<Rightarrow> 'a mig" where
  "mig_fail e = (\<lambda>m. (Inl e, m))"

definition mig_read :: "(schema \<Rightarrow> 'a) \<Rightarrow> 'a mig" where
  "mig_read f = (\<lambda>m. (Inr (f (mc_schema m)), m))"

definition mig_seq :: "'a mig \<Rightarrow> ('a \<Rightarrow> 'b mig) \<Rightarrow> 'b mig" where
  "mig_seq p f = (\<lambda>m. case p m of (Inl e, m') \<Rightarrow> (Inl e, m') | (Inr x, m') \<Rightarrow> f x m')"

definition statement :: "ddl \<Rightarrow> unit mig" where
  "statement d =
     (\<lambda>m. case mc_budget m of
          Some 0 \<Rightarrow> (Inl Killed, m)
        | b \<Rightarrow>
            (case exec_ddl d (mc_schema m) of
               Inl e \<Rightarrow> (Inl e, m)
             | Inr s \<Rightarrow> (Inr (), m\<lparr> mc_schema := s, mc_budget := map_option (\<lambda>n. n - 1) b \<rparr>)))"

fun execute_batch :: "ddl list \<Rightarrow> unit mig" where
  "execute_batch [] = mig_ok ()"
| "execute_batch (d # ds) = mig_seq (statement d) (\<lambda>_. execute_batch ds)"

text \<open>\<open>Err(e) if e.to_string().contains("duplicate column name") => {}\<close>.\<close>

definition tolerate_duplicate :: "unit mig \<Rightarrow> unit mig" where
  "tolerate_duplicate p =
     (\<lambda>m. case p m of
          (Inl (DuplicateColumn c), m') \<Rightarrow> (Inr (), m')
        | r \<Rightarrow> r)"

fun add_columns :: "column_name list \<Rightarrow> unit mig" where
  "add_columns [] = mig_ok ()"
| "add_columns (c # cs) =
     mig_seq (tolerate_duplicate (execute_batch [AddColumn c])) (\<lambda>_. add_columns cs)"

section \<open>The steps\<close>

definition MEMORY_SCHEMA_VERSION :: int where
  "MEMORY_SCHEMA_VERSION = 10"

definition apply_base_migration :: "unit mig" where
  "apply_base_migration = execute_batch [CreateTable T_notes, CreateVecIfAbsent 896]"

definition apply_lifecycle_migration :: "unit mig" where
  "apply_lifecycle_migration = add_columns [C_status, C_superseded_by]"

definition apply_source_ref_migration :: "unit mig" where
  "apply_source_ref_migration = add_columns [C_source_ref]"

definition apply_fts_migration :: "unit mig" where
  "apply_fts_migration = execute_batch
     [CreateTable T_memory_fts, FillFts, CreateTrigger G_memory_fts_insert,
      CreateTrigger G_memory_fts_delete, CreateTrigger G_memory_fts_update]"

definition apply_temporal_migration :: "unit mig" where
  "apply_temporal_migration =
     mig_seq (add_columns [C_valid_at, C_invalid_at])
       (\<lambda>_. execute_batch [CreateIndex I_idx_memory_invalid_at T_notes (Some C_invalid_at) False])"

definition apply_edges_migration :: "unit mig" where
  "apply_edges_migration = execute_batch
     [CreateTable T_memory_edges, CreateIndex I_idx_memory_edges_from T_memory_edges None False,
      CreateIndex I_idx_memory_edges_to T_memory_edges None False]"

definition apply_uuid_migration :: "unit mig" where
  "apply_uuid_migration =
     mig_seq (add_columns [C_uuid, C_remote_id])
       (\<lambda>_. execute_batch [CreateIndex I_idx_notes_uuid T_notes (Some C_uuid) True,
                           CreateIndex I_idx_notes_remote_id T_notes (Some C_remote_id) True])"

definition apply_entity_id_column_migration :: "unit mig" where
  "apply_entity_id_column_migration =
     mig_seq (add_columns [C_entity_id])
       (\<lambda>_. execute_batch [CreateIndex I_idx_notes_entity_id T_notes (Some C_entity_id) False])"

definition apply_dim_upgrade_migration :: "unit mig" where
  "apply_dim_upgrade_migration =
     mig_seq (mig_read (\<lambda>s. T_schema_v896_note_embeddings \<in> set (sc_tables s)))
       (\<lambda>already_v896.
          if already_v896 then mig_ok ()
          else mig_seq (mig_read (\<lambda>s. sc_vec_dim s = Some 768))
            (\<lambda>needs_upgrade.
               mig_seq (if needs_upgrade then execute_batch [DropVec, CreateVec 896] else mig_ok ())
                 (\<lambda>_. execute_batch [CreateTable T_schema_v896_note_embeddings])))"

definition apply_notes_import_state_migration :: "unit mig" where
  "apply_notes_import_state_migration = execute_batch [CreateTable T_notes_import_state]"

definition steps :: "(int \<times> unit mig) list" where
  "steps =
     [(1, apply_base_migration), (2, apply_lifecycle_migration), (3, apply_source_ref_migration),
      (4, apply_fts_migration), (5, apply_temporal_migration), (6, apply_edges_migration),
      (7, apply_uuid_migration), (8, apply_entity_id_column_migration),
      (9, apply_dim_upgrade_migration), (10, apply_notes_import_state_migration)]"

section \<open>The runner\<close>

definition is_fresh_db :: "schema \<Rightarrow> bool" where
  "is_fresh_db s \<longleftrightarrow> sc_tables s = [] \<and> sc_vec_dim s = None"

definition ladder :: "schema \<Rightarrow> (int \<times> bool) list" where
  "ladder s =
     (let has_table = \<lambda>t. t \<in> set (sc_tables s); has_column = \<lambda>c. c \<in> set (sc_columns s) in
      [(1, has_table T_notes),
       (2, has_column C_status \<and> has_column C_superseded_by),
       (3, has_column C_source_ref),
       (4, has_table T_memory_fts),
       (5, has_column C_valid_at \<and> has_column C_invalid_at),
       (6, has_table T_memory_edges),
       (7, has_column C_uuid \<and> has_column C_remote_id),
       (8, has_column C_entity_id),
       (9, has_table T_schema_v896_note_embeddings),
       (10, has_table T_notes_import_state)])"

fun climb :: "(int \<times> bool) list \<Rightarrow> int \<Rightarrow> int" where
  "climb [] version = version"
| "climb ((v, satisfied) # rest) version = (if satisfied then climb rest v else version)"

definition infer_legacy_version :: "schema \<Rightarrow> int" where
  "infer_legacy_version s = climb (ladder s) 0"

fun run_steps :: "int \<Rightarrow> (int \<times> unit mig) list \<Rightarrow> unit mig" where
  "run_steps version [] = mig_ok ()"
| "run_steps version ((target, body) # rest) =
     mig_seq (if version < target then body else mig_ok ()) (\<lambda>_. run_steps version rest)"

definition run_migrations :: "unit mig" where
  "run_migrations =
     mig_seq (mig_read (\<lambda>s. s))
       (\<lambda>s. let version = sc_version s in
          if MEMORY_SCHEMA_VERSION < version then mig_fail (SchemaTooNew version MEMORY_SCHEMA_VERSION)
          else
            (let version = (if version = 0 \<and> \<not> is_fresh_db s then infer_legacy_version s else version) in
             mig_seq (run_steps version steps)
               (\<lambda>_. execute_batch [StampVersion MEMORY_SCHEMA_VERSION])))"

text \<open>An open that is not interrupted, and one that is killed after \<open>k\<close> statements.\<close>

definition migrate :: "schema \<Rightarrow> (schema_error + unit) \<times> schema" where
  "migrate s = (case run_migrations \<lparr> mc_schema = s, mc_budget = None \<rparr> of (r, m) \<Rightarrow> (r, mc_schema m))"

definition killed_after :: "nat \<Rightarrow> schema \<Rightarrow> schema" where
  "killed_after k s = mc_schema (snd (run_migrations \<lparr> mc_schema = s, mc_budget = Some k \<rparr>))"

definition fresh_schema :: schema where
  "fresh_schema =
     \<lparr> sc_tables = [], sc_columns = [], sc_indexes = [], sc_triggers = [], sc_vec_dim = None,
       sc_fts_filled = False, sc_version = 0 \<rparr>"

definition full_schema :: schema where
  "full_schema =
     \<lparr> sc_tables = [T_notes, T_memory_fts, T_memory_edges, T_schema_v896_note_embeddings, T_notes_import_state],
       sc_columns = base_columns @ [C_status, C_superseded_by, C_source_ref, C_valid_at,
         C_invalid_at, C_uuid, C_remote_id, C_entity_id],
       sc_indexes = [(I_idx_memory_invalid_at, False), (I_idx_memory_edges_from, False),
         (I_idx_memory_edges_to, False), (I_idx_notes_uuid, True), (I_idx_notes_remote_id, True),
         (I_idx_notes_entity_id, False)],
       sc_triggers = [G_memory_fts_insert, G_memory_fts_delete, G_memory_fts_update],
       sc_vec_dim = Some 896, sc_fts_filled = True, sc_version = 10 \<rparr>"

text \<open>A database that an older build left behind: the first \<open>k\<close> steps, no version stamp, and the
  vector table of the time.\<close>

definition field_schema :: "nat \<Rightarrow> nat \<Rightarrow> schema" where
  "field_schema dim k =
     (let m = snd (run_steps 0 (take k steps) \<lparr> mc_schema = fresh_schema, mc_budget = None \<rparr>) in
      (mc_schema m)\<lparr> sc_vec_dim := (if k = 0 then None else Some dim) \<rparr>)"

section \<open>Upgrading\<close>

text \<open>An open that runs to its end brings a new database, and one that any earlier version left
  behind without a version stamp, to the current schema; the 768-dimensional vector table of the old
  builds is replaced; a current database is left as it is.\<close>

lemma migrate_from_every_version:
  "migrate fresh_schema = (Inr (), full_schema) \<and>
   map (\<lambda>k. infer_legacy_version (field_schema 768 k)) [0..<9] = [0..8] \<and>
   map (\<lambda>k. migrate (field_schema 768 k)) [0..<9] = replicate 9 (Inr (), full_schema) \<and>
   map (\<lambda>k. migrate (field_schema 896 k)) [9..<11] = replicate 2 (Inr (), full_schema) \<and>
   migrate full_schema = (Inr (), full_schema)"
proof (intro conjI)
  show "migrate fresh_schema = (Inr (), full_schema)" by code_simp
  show "map (\<lambda>k. infer_legacy_version (field_schema 768 k)) [0..<9] = [0..8]" by code_simp
  show "map (\<lambda>k. migrate (field_schema 768 k)) [0..<9] = replicate 9 (Inr (), full_schema)" by code_simp
  show "map (\<lambda>k. migrate (field_schema 896 k)) [9..<11] = replicate 2 (Inr (), full_schema)" by code_simp
  show "migrate full_schema = (Inr (), full_schema)" by code_simp
qed

text \<open>The points at which a killed first open is not made good, in two halves.\<close>

lemma interrupted_first_half:
  "filter (\<lambda>k. migrate (killed_after k fresh_schema) \<noteq> (Inr (), full_schema)) [0..<13] = [1, 6, 7, 8, 9, 12]"
  by code_simp

lemma interrupted_second_half:
  "filter (\<lambda>k. migrate (killed_after k fresh_schema) \<noteq> (Inr (), full_schema)) [13..<26] = [14, 15, 18, 19, 21]"
  by code_simp


section \<open>What any run keeps\<close>

text \<open>Nothing but the vector table is ever dropped, and the version stays until the end.\<close>

definition grown :: "schema \<Rightarrow> schema \<Rightarrow> bool" where
  "grown s t \<longleftrightarrow>
     set (sc_tables s) \<subseteq> set (sc_tables t) \<and>
     (T_notes \<in> set (sc_tables s) \<longrightarrow> set (sc_columns s) \<subseteq> set (sc_columns t)) \<and>
     set (sc_indexes s) \<subseteq> set (sc_indexes t) \<and> set (sc_triggers s) \<subseteq> set (sc_triggers t)"

definition grows :: "'a mig \<Rightarrow> bool" where
  "grows p \<longleftrightarrow> (\<forall>m. grown (mc_schema m) (mc_schema (snd (p m))))"

lemma grown_refl: "grown s s"
  by (simp add: grown_def)

lemma grown_trans: "grown s t \<Longrightarrow> grown t u \<Longrightarrow> grown s u"
  unfolding grown_def by blast

lemma exec_ddl_grown: "exec_ddl d s = Inr t \<Longrightarrow> grown s t"
  by (cases d) (auto simp: grown_def split: if_splits option.splits)

lemma grows_statement: "grows (statement d)"
  unfolding grows_def statement_def
  by (auto simp: grown_refl intro: exec_ddl_grown split: option.split nat.split sum.split)

lemma grows_ok: "grows (mig_ok x)" "grows (mig_fail e)" "grows (mig_read f)"
  by (simp_all add: grows_def mig_ok_def mig_fail_def mig_read_def grown_refl)

lemma grows_seq:
  assumes "grows p" "\<And>x. grows (f x)"
  shows "grows (mig_seq p f)"
  unfolding grows_def
proof
  fix m
  obtain r m1 where p: "p m = (r, m1)" by fastforce
  with assms(1) have "grown (mc_schema m) (mc_schema m1)" unfolding grows_def by (metis snd_conv)
  then show "grown (mc_schema m) (mc_schema (snd (mig_seq p f m)))"
    using assms(2) p by (cases r) (auto simp: mig_seq_def grows_def intro: grown_trans)
qed

lemma grows_batch: "grows (execute_batch ds)"
  by (induction ds) (auto intro: grows_seq grows_statement grows_ok)

lemma snd_tolerate: "snd (tolerate_duplicate p m) = snd (p m)"
  by (cases "p m") (auto simp: tolerate_duplicate_def split: sum.split schema_error.split)

lemma grows_tolerate: "grows p \<Longrightarrow> grows (tolerate_duplicate p)"
  by (simp add: grows_def snd_tolerate)

lemma grows_columns: "grows (add_columns cs)"
  by (induction cs) (auto intro!: grows_seq grows_tolerate grows_batch grows_ok simp del: execute_batch.simps)

lemmas step_defs = apply_base_migration_def apply_lifecycle_migration_def apply_source_ref_migration_def
  apply_fts_migration_def apply_temporal_migration_def apply_edges_migration_def apply_uuid_migration_def
  apply_entity_id_column_migration_def apply_dim_upgrade_migration_def
  apply_notes_import_state_migration_def

lemma grows_step: "\<forall>q \<in> set steps. grows (snd q)"
  unfolding steps_def
  by (auto simp: step_defs simp del: execute_batch.simps add_columns.simps
      intro!: grows_seq grows_batch grows_columns grows_ok)

lemma grows_steps: "\<forall>q \<in> set ss. grows (snd q) \<Longrightarrow> grows (run_steps version ss)"
  by (induction ss) (auto intro!: grows_seq grows_ok)

lemma grows_run_migrations: "grows run_migrations"
proof -
  have "grows (mig_seq (run_steps v steps) (\<lambda>_. execute_batch [StampVersion MEMORY_SCHEMA_VERSION]))" for v
    by (rule grows_seq [OF grows_steps [OF grows_step] grows_batch])
  then show ?thesis
    unfolding run_migrations_def Let_def by (intro grows_seq grows_ok) (simp add: grows_ok)
qed



end
