(* ===== verification/MemoryDb.thy ===== *)
theory MemoryDb
  imports NoteRecord
begin

text \<open>
  The SQLite store behind \<open>MemoryStore\<close> (\<open>migrations/004\<close>, \<open>005\<close>, \<open>013\<close> to \<open>015\<close>, \<open>020\<close>, \<open>023\<close> and
  \<open>025\<close>): the \<open>notes\<close> table in rowid order, \<open>memory_edges\<close>, \<open>note_embeddings\<close> and the one-row import
  marker, with the constraints the schema declares.  The primitives below are the SQL statements
  the store methods issue; each either changes the tables or fails and changes nothing.
  \<open>db_fk\<close> is \<open>PRAGMA foreign_keys\<close>: the store never sets it, so it has the default of the SQLite
  build, and the model covers both.
\<close>

section \<open>Tables\<close>

record row =
  r_id :: int
  r_kind :: string
  r_title :: string
  r_body :: string
  r_tags :: "string option"
  r_linked_files :: "string option"
  r_created_at :: int
  r_status :: string
  r_superseded_by :: "int option"
  r_source_ref :: "string option"
  r_valid_at :: "int option"
  r_invalid_at :: "int option"
  r_uuid :: "string option"
  r_remote_id :: "string option"
  r_entity_id :: "string option"

record memory_edge =
  e_from :: int
  e_to :: int
  e_kind :: string
  e_created_at :: int

record notes_import_marker =
  last_merged_tracking_oid :: "string option"
  last_imported_working_oid :: "string option"

text \<open>\<open>db_seq\<close> is the largest rowid ever used (\<open>AUTOINCREMENT\<close>); \<open>db_unique\<close> says whether
  \<open>idx_notes_entity_id\<close> is UNIQUE and \<open>db_unique_marker\<close> whether the marker table exists.\<close>

record store =
  db_notes :: "row list"
  db_edges :: "memory_edge list"
  db_vecs :: "(int \<times> string) list"
  db_seq :: int
  db_unique :: bool
  db_unique_marker :: bool
  db_fk :: bool
  db_import :: "notes_import_marker option"

datatype db_error =
    UniqueViolation
  | ForeignKeyViolation
  | CheckViolation
  | QueryReturnedNoRows
  | InvalidEdgeKind string
  | NoActiveEntry int
  | SchemaTooNew int int
  | BadRowId id_error

type_synonym 'a sql = "store \<Rightarrow> (db_error + 'a) \<times> store"

definition ok :: "'a \<Rightarrow> 'a sql" where
  "ok x = (\<lambda>s. (Inr x, s))"

definition raise :: "db_error \<Rightarrow> 'a sql" where
  "raise e = (\<lambda>s. (Inl e, s))"

definition query :: "(store \<Rightarrow> 'a) \<Rightarrow> 'a sql" where
  "query f = (\<lambda>s. (Inr (f s), s))"

definition seq_sql :: "'a sql \<Rightarrow> ('a \<Rightarrow> 'b sql) \<Rightarrow> 'b sql" where
  "seq_sql m f = (\<lambda>s. case m s of (Inl e, s') \<Rightarrow> (Inl e, s') | (Inr x, s') \<Rightarrow> f x s')"

text \<open>A statement's outcome as a value, for the code that matches on it.\<close>

definition try_sql :: "'a sql \<Rightarrow> (db_error + 'a) sql" where
  "try_sql m = (\<lambda>s. case m s of (r, s') \<Rightarrow> (Inr r, s'))"

fun for_each :: "('a \<Rightarrow> unit sql) \<Rightarrow> 'a list \<Rightarrow> unit sql" where
  "for_each f [] = ok ()"
| "for_each f (x # xs) = seq_sql (f x) (\<lambda>_. for_each f xs)"

lemma sql_run [db_simps]:
  "ok x s = (Inr x, s)"
  "raise e s = (Inl e, s)"
  "query f s = (Inr (f s), s)"
  by (simp_all add: ok_def raise_def query_def)

lemma seq_sql_run:
  "seq_sql m f s = (r, s') \<longleftrightarrow>
     (\<exists>e. m s = (Inl e, s') \<and> r = Inl e) \<or> (\<exists>x s1. m s = (Inr x, s1) \<and> f x s1 = (r, s'))"
  by (auto simp: seq_sql_def split: prod.splits sum.splits)

lemma try_sql_run: "try_sql m s = (r, s') \<longleftrightarrow> (\<exists>q. m s = (q, s') \<and> r = Inr q)"
  by (auto simp: try_sql_def split: prod.splits)

lemma seq_sql_ok [db_simps]: "m s = (Inr x, s1) \<Longrightarrow> seq_sql m f s = f x s1"
  by (simp add: seq_sql_def)

lemma seq_sql_err [db_simps]: "m s = (Inl e, s1) \<Longrightarrow> seq_sql m f s = (Inl e, s1)"
  by (simp add: seq_sql_def)

section \<open>Constraints\<close>

definition ids :: "store \<Rightarrow> int set" where
  "ids s = r_id ` set (db_notes s)"

definition row_of :: "store \<Rightarrow> int \<Rightarrow> row option" where
  "row_of s i = find (\<lambda>r. r_id r = i) (db_notes s)"

text \<open>Whether a value is already in a unique index, on a row other than \<open>i\<close>; NULL never collides.\<close>

definition taken :: "(row \<Rightarrow> 'k option) \<Rightarrow> 'k option \<Rightarrow> int \<Rightarrow> store \<Rightarrow> bool" where
  "taken f v i s \<longleftrightarrow> v \<noteq> None \<and> (\<exists>r \<in> set (db_notes s). r_id r \<noteq> i \<and> f r = v)"

definition unique_conflict :: "row \<Rightarrow> store \<Rightarrow> bool" where
  "unique_conflict r s \<longleftrightarrow>
     (db_unique s \<and> taken r_entity_id (r_entity_id r) (r_id r) s) \<or>
     taken r_uuid (r_uuid r) (r_id r) s \<or>
     taken r_remote_id (r_remote_id r) (r_id r) s"

definition edge_kinds :: "string list" where
  "edge_kinds = [''supersedes'', ''relates_to'', ''contradicts'']"

definition edge_key :: "memory_edge \<Rightarrow> int \<times> int \<times> string" where
  "edge_key e = (e_from e, e_to e, e_kind e)"

section \<open>Statements\<close>

text \<open>\<open>INSERT INTO notes\<close>: \<open>mk\<close> builds the row from its new id; \<open>last_insert_rowid\<close> is returned.\<close>

definition insert_note :: "(int \<Rightarrow> row) \<Rightarrow> int sql" where
  "insert_note mk =
     (\<lambda>s. let i = db_seq s + 1; r = mk i in
        if unique_conflict r s then (Inl UniqueViolation, s)
        else (Inr i, s\<lparr> db_notes := db_notes s @ [r], db_seq := i \<rparr>))"

text \<open>\<open>UPDATE notes SET .. WHERE id = i AND p\<close>, for columns no constraint is on; the number of rows
  changed is returned.\<close>

definition map_rows :: "(row \<Rightarrow> bool) \<Rightarrow> (row \<Rightarrow> row) \<Rightarrow> store \<Rightarrow> store" where
  "map_rows p f s = s\<lparr> db_notes := map (\<lambda>r. if p r then f r else r) (db_notes s) \<rparr>"

definition update_notes :: "(row \<Rightarrow> bool) \<Rightarrow> (row \<Rightarrow> row) \<Rightarrow> nat sql" where
  "update_notes p f = (\<lambda>s. (Inr (length (filter p (db_notes s))), map_rows p f s))"

text \<open>The same where a column with a UNIQUE index or a foreign key changes, on one row.\<close>

definition update_unique :: "int \<Rightarrow> (row \<Rightarrow> bool) \<Rightarrow> (row \<Rightarrow> row) \<Rightarrow> nat sql" where
  "update_unique i p f =
     (\<lambda>s. if \<exists>r \<in> set (db_notes s). r_id r = i \<and> p r \<and> unique_conflict (f r) s
          then (Inl UniqueViolation, s)
          else update_notes (\<lambda>r. r_id r = i \<and> p r) f s)"

definition update_superseded :: "int \<Rightarrow> (row \<Rightarrow> bool) \<Rightarrow> (row \<Rightarrow> row) \<Rightarrow> int \<Rightarrow> nat sql" where
  "update_superseded i p f target =
     (\<lambda>s. if db_fk s \<and> target \<notin> ids s \<and> (\<exists>r \<in> set (db_notes s). r_id r = i \<and> p r)
          then (Inl ForeignKeyViolation, s)
          else update_notes (\<lambda>r. r_id r = i \<and> p r)
                 (\<lambda>r. (f r)\<lparr> r_superseded_by := Some target \<rparr>) s)"

text \<open>\<open>DELETE FROM notes WHERE id = i\<close>: rejected while another row supersedes to it, and cascading
  to the edges, when foreign keys are enforced.\<close>

definition delete_row :: "int \<Rightarrow> unit sql" where
  "delete_row i =
     (\<lambda>s. if db_fk s \<and> i \<in> ids s \<and> (\<exists>r \<in> set (db_notes s). r_id r \<noteq> i \<and> r_superseded_by r = Some i)
          then (Inl ForeignKeyViolation, s)
          else (Inr (), s\<lparr> db_notes := filter (\<lambda>r. r_id r \<noteq> i) (db_notes s),
                           db_edges := (if db_fk s
                             then filter (\<lambda>e. e_from e \<noteq> i \<and> e_to e \<noteq> i) (db_edges s)
                             else db_edges s) \<rparr>))"

text \<open>\<open>INSERT OR IGNORE INTO memory_edges\<close>: a row that violates the primary key or the CHECK is
  skipped; a foreign key violation is not ignored.\<close>

definition insert_edge :: "int \<Rightarrow> int \<Rightarrow> string \<Rightarrow> int \<Rightarrow> unit sql" where
  "insert_edge from to kind now =
     (\<lambda>s. if kind \<notin> set edge_kinds \<or> (from, to, kind) \<in> edge_key ` set (db_edges s) then (Inr (), s)
          else if db_fk s \<and> (from \<notin> ids s \<or> to \<notin> ids s) then (Inl ForeignKeyViolation, s)
          else (Inr (), s\<lparr> db_edges := db_edges s @
                  [\<lparr> e_from = from, e_to = to, e_kind = kind, e_created_at = now \<rparr>] \<rparr>))"

section \<open>The invariant of the schema\<close>

text \<open>No two rows share a value of the column, NULL apart.\<close>

definition unique_index :: "(row \<Rightarrow> 'k option) \<Rightarrow> store \<Rightarrow> bool" where
  "unique_index f s \<longleftrightarrow>
     (\<forall>r \<in> set (db_notes s). \<forall>q \<in> set (db_notes s). f r \<noteq> None \<and> f r = f q \<longrightarrow> r_id r = r_id q)"

definition references_ok :: "store \<Rightarrow> bool" where
  "references_ok s \<longleftrightarrow>
     (\<forall>r \<in> set (db_notes s). \<forall>t. r_superseded_by r = Some t \<longrightarrow> t \<in> ids s) \<and>
     (\<forall>e \<in> set (db_edges s). e_from e \<in> ids s \<and> e_to e \<in> ids s)"

definition edges_ok :: "store \<Rightarrow> bool" where
  "edges_ok s \<longleftrightarrow>
     distinct (map edge_key (db_edges s)) \<and> (\<forall>e \<in> set (db_edges s). e_kind e \<in> set edge_kinds)"

definition store_inv :: "store \<Rightarrow> bool" where
  "store_inv s \<longleftrightarrow>
     sorted_wrt (<) (map r_id (db_notes s)) \<and>
     (\<forall>r \<in> set (db_notes s). r_id r \<le> db_seq s) \<and>
     (db_unique s \<longrightarrow> unique_index r_entity_id s) \<and>
     unique_index r_uuid s \<and>
     unique_index r_remote_id s \<and>
     edges_ok s \<and>
     (db_fk s \<longrightarrow> references_ok s) \<and>
     distinct (map fst (db_vecs s))"

lemma store_invD:
  assumes "store_inv s"
  shows "distinct (map r_id (db_notes s))" "\<And>r. r \<in> set (db_notes s) \<Longrightarrow> r_id r \<le> db_seq s"
    "db_unique s \<Longrightarrow> unique_index r_entity_id s" "unique_index r_uuid s" "unique_index r_remote_id s"
    "edges_ok s" "db_fk s \<Longrightarrow> references_ok s" "distinct (map fst (db_vecs s))"
  using assms strict_sorted_iff [of "map r_id (db_notes s)"] by (auto simp: store_inv_def)

lemma row_of_in: "row_of s i = Some r \<Longrightarrow> r \<in> set (db_notes s) \<and> r_id r = i"
  by (auto simp: row_of_def find_Some_iff)

lemma row_of_None: "row_of s i = None \<longleftrightarrow> i \<notin> ids s"
  by (auto simp: row_of_def find_None_iff ids_def)

lemma row_of_iff:
  assumes "store_inv s"
  shows "row_of s i = Some r \<longleftrightarrow> r \<in> set (db_notes s) \<and> r_id r = i"
proof
  assume r: "r \<in> set (db_notes s) \<and> r_id r = i"
  then have "i \<in> ids s" by (auto simp: ids_def)
  then obtain q where q: "row_of s i = Some q" using row_of_None [of s i] by (cases "row_of s i") auto
  from row_of_in [OF q] r store_invD(1) [OF assms] have "q = r"
    by (metis distinct_map inj_onD)
  with q show "row_of s i = Some r" by simp
qed (rule row_of_in)

section \<open>Every statement keeps the invariant\<close>

text \<open>A method of the store keeps the invariant whatever it returns.\<close>

definition keeps :: "'a sql \<Rightarrow> bool" where
  "keeps m \<longleftrightarrow> (\<forall>s. store_inv s \<longrightarrow> store_inv (snd (m s)))"

lemma keepsD: "keeps m \<Longrightarrow> store_inv s \<Longrightarrow> m s = (r, t) \<Longrightarrow> store_inv t"
  unfolding keeps_def by (drule spec [of _ s]) simp

lemma keeps_ok [inv_intros]: "keeps (ok x)"
  by (simp add: keeps_def ok_def)

lemma keeps_raise [inv_intros]: "keeps (raise e)"
  by (simp add: keeps_def raise_def)

lemma keeps_query [inv_intros]: "keeps (query f)"
  by (simp add: keeps_def query_def)

lemma keeps_seq [inv_intros]: "keeps m \<Longrightarrow> (\<And>x. keeps (f x)) \<Longrightarrow> keeps (seq_sql m f)"
  unfolding keeps_def seq_sql_def by (fastforce split: prod.split sum.split)

lemma keeps_try [inv_intros]: "keeps m \<Longrightarrow> keeps (try_sql m)"
  unfolding keeps_def try_sql_def by (fastforce split: prod.split)

lemma keeps_for_each [inv_intros]: "(\<And>x. keeps (f x)) \<Longrightarrow> keeps (for_each f xs)"
  by (induction xs) (auto intro: inv_intros)

lemma keeps_transaction: "keeps m \<Longrightarrow> keeps (in_transaction m)"
  unfolding keeps_def in_transaction_def by (fastforce split: prod.split sum.split)

lemma ids_insert [simp]: "ids (s\<lparr> db_notes := db_notes s @ [r], db_seq := i \<rparr>) = insert (r_id r) (ids s)"
  by (auto simp: ids_def)

lemma keeps_insert_note:
  assumes mk: "\<And>i. r_id (mk i) = i" "\<And>i. r_superseded_by (mk i) = None"
  shows "keeps (insert_note mk)"
  unfolding keeps_def
proof (intro allI impI)
  fix s assume inv: "store_inv s"
  let ?i = "db_seq s + 1"
  show "store_inv (snd (insert_note mk s))"
  proof (cases "unique_conflict (mk ?i) s")
    case True
    with inv show ?thesis by (simp add: insert_note_def Let_def)
  next
    case False
    let ?t = "s\<lparr> db_notes := db_notes s @ [mk ?i], db_seq := ?i \<rparr>"
    note D = store_invD [OF inv]
    have new: "r_id r \<noteq> ?i" if "r \<in> set (db_notes s)" for r using D(2) [OF that] by simp
    have u: "unique_index f ?t" if "unique_index f s" "\<not> taken f (f (mk ?i)) ?i s" for f :: "row \<Rightarrow> string option"
    proof -
      have fresh: "f x \<noteq> f (mk ?i)" if "x \<in> set (db_notes s)" "f (mk ?i) \<noteq> None" for x
        using \<open>\<not> taken f (f (mk ?i)) ?i s\<close> that new by (auto simp: taken_def)
      show ?thesis unfolding unique_index_def
    proof (intro ballI impI)
      fix r q assume r: "r \<in> set (db_notes ?t)" and q: "q \<in> set (db_notes ?t)" and e: "f r \<noteq> None \<and> f r = f q"
      from r q consider "r \<in> set (db_notes s)" "q \<in> set (db_notes s)" | "r = mk ?i" "q = mk ?i"
        | "r = mk ?i" "q \<in> set (db_notes s)" | "r \<in> set (db_notes s)" "q = mk ?i" by auto
      then show "r_id r = r_id q"
      proof cases
        case 1
        with that(1) e show ?thesis unfolding unique_index_def by blast
      next
        case 3
        with fresh [of q] e show ?thesis by metis
      next
        case 4
        with fresh [of r] e show ?thesis by metis
      qed simp
    qed
    qed
    have "sorted_wrt (<) (map r_id (db_notes ?t))"
      using inv D(2) mk by (fastforce simp: store_inv_def sorted_wrt_append)
    moreover have "\<forall>r \<in> set (db_notes ?t). r_id r \<le> db_seq ?t"
      using D(2) mk by fastforce
    moreover have "unique_index r_uuid ?t" "unique_index r_remote_id ?t"
      "db_unique ?t \<longrightarrow> unique_index r_entity_id ?t"
      using u D False mk by (auto simp: unique_conflict_def)
    moreover have "edges_ok ?t" using D(6) by (simp add: edges_ok_def)
    moreover have "db_fk ?t \<longrightarrow> references_ok ?t"
      using D(7) mk by (auto simp: references_ok_def)
    moreover have "distinct (map fst (db_vecs ?t))" using D(8) by simp
    ultimately have "store_inv ?t" by (simp add: store_inv_def)
    with False show ?thesis by (simp add: insert_note_def Let_def)
  qed
qed

lemma map_rows_simps [simp]:
  "db_edges (map_rows p f s) = db_edges s" "db_vecs (map_rows p f s) = db_vecs s"
  "db_seq (map_rows p f s) = db_seq s" "db_unique (map_rows p f s) = db_unique s"
  "db_unique_marker (map_rows p f s) = db_unique_marker s"
  "db_fk (map_rows p f s) = db_fk s" "db_import (map_rows p f s) = db_import s"
  "db_notes (map_rows p f s) = map (\<lambda>r. if p r then f r else r) (db_notes s)"
  by (simp_all add: map_rows_def)

lemma map_id_map_rows:
  "(\<And>r. r_id (f r) = r_id r) \<Longrightarrow> map r_id (map (\<lambda>r. if p r then f r else r) rs) = map r_id rs"
  by (induction rs) auto

lemma ids_map_rows: "(\<And>r. r_id (f r) = r_id r) \<Longrightarrow> ids (map_rows p f s) = ids s"
  using map_id_map_rows [of f p "db_notes s"] unfolding ids_def map_rows_simps by (metis list.set_map)

lemma inv_map_rows:
  assumes inv: "store_inv s" and id: "\<And>r. r_id (f r) = r_id r"
    and u: "unique_index r_uuid (map_rows p f s)" "unique_index r_remote_id (map_rows p f s)"
      "db_unique s \<Longrightarrow> unique_index r_entity_id (map_rows p f s)"
    and ref: "\<And>r t. db_fk s \<Longrightarrow> r \<in> set (db_notes s) \<Longrightarrow> p r \<Longrightarrow> r_superseded_by (f r) = Some t \<Longrightarrow> t \<in> ids s"
  shows "store_inv (map_rows p f s)"
proof -
  note D = store_invD [OF inv]
  have "sorted_wrt (<) (map r_id (db_notes (map_rows p f s)))"
    unfolding map_rows_simps map_id_map_rows [OF id] using inv by (simp add: store_inv_def)
  moreover have "\<forall>r \<in> set (db_notes (map_rows p f s)). r_id r \<le> db_seq s"
    using D(2) id by auto
  moreover have "edges_ok (map_rows p f s)" using D(6) by (simp add: edges_ok_def)
  moreover have "db_fk s \<longrightarrow> references_ok (map_rows p f s)"
    using D(7) ref ids_map_rows [of f p s] id by (auto simp: references_ok_def)
  ultimately show ?thesis using u D(8) by (simp add: store_inv_def)
qed

lemma unique_index_map_rows:
  assumes "unique_index g s" "\<And>r. r_id (f r) = r_id r" "\<And>r. g (f r) = g r"
  shows "unique_index g (map_rows p f s)"
  unfolding unique_index_def map_rows_simps
proof (intro ballI impI)
  let ?h = "\<lambda>r. if p r then f r else r"
  fix r q assume r: "r \<in> set (map ?h (db_notes s))" and q: "q \<in> set (map ?h (db_notes s))"
    and e: "g r \<noteq> None \<and> g r = g q"
  have h: "r_id (?h x) = r_id x" "g (?h x) = g x" for x using assms by auto
  from r q obtain r0 q0 where z: "r0 \<in> set (db_notes s)" "q0 \<in> set (db_notes s)" "r = ?h r0" "q = ?h q0"
    unfolding set_map by blast
  then show "r_id r = r_id q" using assms(1) e h unfolding unique_index_def by metis
qed

lemma keeps_update_notes:
  assumes "\<And>r. r_id (f r) = r_id r" "\<And>r. r_uuid (f r) = r_uuid r"
    "\<And>r. r_remote_id (f r) = r_remote_id r" "\<And>r. r_entity_id (f r) = r_entity_id r"
    "\<And>r. r_superseded_by (f r) = r_superseded_by r"
  shows "keeps (update_notes p f)"
  unfolding keeps_def update_notes_def
proof (intro allI impI)
  fix s assume inv: "store_inv s"
  note D = store_invD [OF inv]
  have "store_inv (map_rows p f s)"
    by (rule inv_map_rows [OF inv])
       (use assms D in \<open>auto intro!: unique_index_map_rows simp: references_ok_def\<close>)
  then show "store_inv (snd (Inr (length (filter p (db_notes s))), map_rows p f s))" by simp
qed

lemma unique_index_update:
  assumes u: "unique_index g s" and id: "\<And>r. r_id (f r) = r_id r"
    and free: "\<And>r. r \<in> set (db_notes s) \<Longrightarrow> r_id r = i \<Longrightarrow> p r \<Longrightarrow> \<not> taken g (g (f r)) i s"
  shows "unique_index g (map_rows (\<lambda>r. r_id r = i \<and> p r) f s)"
  unfolding unique_index_def map_rows_simps
proof (intro ballI impI)
  let ?h = "\<lambda>r. if r_id r = i \<and> p r then f r else r"
  fix r q assume r: "r \<in> set (map ?h (db_notes s))" and q: "q \<in> set (map ?h (db_notes s))"
    and e: "g r \<noteq> None \<and> g r = g q"
  from r q obtain r0 q0 where z: "r0 \<in> set (db_notes s)" "q0 \<in> set (db_notes s)" "r = ?h r0" "q = ?h q0"
    unfolding set_map by blast
  have rid: "r_id r = r_id r0" "r_id q = r_id q0" using z(3,4) id by simp_all
  have apart: "r_id x = r_id y"
    if "x \<in> set (db_notes s)" "y \<in> set (db_notes s)" "r_id x = i" "p x" "g (f x) \<noteq> None" "g (f x) = g y" for x y
  proof (rule ccontr)
    assume "r_id x \<noteq> r_id y"
    with that have "r_id y \<noteq> i \<and> g y = g (f x)" by simp
    with that(2,5) have "taken g (g (f x)) i s" unfolding taken_def by blast
    with free [OF that(1,3,4)] show False by contradiction
  qed
  consider "r_id r0 = i \<and> p r0" "r_id q0 = i \<and> p q0"
    | "r_id r0 = i \<and> p r0" "\<not> (r_id q0 = i \<and> p q0)"
    | "\<not> (r_id r0 = i \<and> p r0)" "r_id q0 = i \<and> p q0"
    | "\<not> (r_id r0 = i \<and> p r0)" "\<not> (r_id q0 = i \<and> p q0)" by blast
  then show "r_id r = r_id q"
  proof cases
    case 1
    with rid show ?thesis by simp
  next
    case 2
    with z(3,4) have rq: "r = f r0" "q = q0" by auto
    have "g (f r0) \<noteq> None" "g (f r0) = g q0" using e unfolding rq by blast+
    from apart [OF z(1,2) _ _ this] 2 rid show ?thesis by simp
  next
    case 3
    with z(3,4) have rq: "r = r0" "q = f q0" by auto
    have "g (f q0) \<noteq> None" "g (f q0) = g r0" using e unfolding rq by metis+
    from apart [OF z(2,1) _ _ this] 3 rid show ?thesis by simp
  next
    case 4
    with z(3,4) have "r = r0" "q = q0" by auto
    with u z(1,2) e show ?thesis unfolding unique_index_def by blast
  qed
qed

lemma keeps_update_unique:
  assumes "\<And>r. r_id (f r) = r_id r" "\<And>r. r_superseded_by (f r) = r_superseded_by r"
  shows "keeps (update_unique i p f)"
  unfolding keeps_def
proof (intro allI impI)
  fix s assume inv: "store_inv s"
  note D = store_invD [OF inv]
  show "store_inv (snd (update_unique i p f s))"
  proof (cases "\<exists>r \<in> set (db_notes s). r_id r = i \<and> p r \<and> unique_conflict (f r) s")
    case True
    with inv show ?thesis by (simp add: update_unique_def)
  next
    case False
    then have free: "\<not> unique_conflict (f r) s" if "r \<in> set (db_notes s)" "r_id r = i" "p r" for r
      using that by blast
    have "store_inv (map_rows (\<lambda>r. r_id r = i \<and> p r) f s)"
    proof (rule inv_map_rows [OF inv assms(1)])
      show "unique_index r_uuid (map_rows (\<lambda>r. r_id r = i \<and> p r) f s)"
        by (rule unique_index_update [OF D(4) assms(1)])
           (use free assms(1) in \<open>fastforce simp: unique_conflict_def\<close>)
      show "unique_index r_remote_id (map_rows (\<lambda>r. r_id r = i \<and> p r) f s)"
        by (rule unique_index_update [OF D(5) assms(1)])
           (use free assms(1) in \<open>fastforce simp: unique_conflict_def\<close>)
      show "unique_index r_entity_id (map_rows (\<lambda>r. r_id r = i \<and> p r) f s)" if "db_unique s"
        by (rule unique_index_update [OF D(3) [OF that] assms(1)])
           (use free assms(1) that in \<open>fastforce simp: unique_conflict_def\<close>)
      show "t \<in> ids s"
        if "db_fk s" "r \<in> set (db_notes s)" "r_id r = i \<and> p r" "r_superseded_by (f r) = Some t" for r t
        using D(7) that assms(2) by (auto simp: references_ok_def)
    qed
    with False show ?thesis by (auto simp: update_unique_def update_notes_def)
  qed
qed

lemma keeps_update_superseded:
  assumes "\<And>r. r_id (f r) = r_id r" "\<And>r. r_uuid (f r) = r_uuid r"
    "\<And>r. r_remote_id (f r) = r_remote_id r" "\<And>r. r_entity_id (f r) = r_entity_id r"
  shows "keeps (update_superseded i p f target)"
  unfolding keeps_def
proof (intro allI impI)
  fix s assume inv: "store_inv s"
  note D = store_invD [OF inv]
  let ?p = "\<lambda>r. r_id r = i \<and> p r"
  let ?f = "\<lambda>r. (f r)\<lparr> r_superseded_by := Some target \<rparr>"
  show "store_inv (snd (update_superseded i p f target s))"
  proof (cases "db_fk s \<and> target \<notin> ids s \<and> (\<exists>r \<in> set (db_notes s). ?p r)")
    case True
    with inv show ?thesis by (simp add: update_superseded_def)
  next
    case False
    have "store_inv (map_rows ?p ?f s)"
    proof (rule inv_map_rows [OF inv])
      show "t \<in> ids s"
        if "db_fk s" "r \<in> set (db_notes s)" "?p r" "r_superseded_by (?f r) = Some t" for r t
        using False that by auto
    qed (use assms D in \<open>auto intro!: unique_index_map_rows\<close>)
    with False show ?thesis by (auto simp: update_superseded_def update_notes_def)
  qed
qed

lemma keeps_insert_edge: "keeps (insert_edge from to kind now)"
  unfolding keeps_def
proof (intro allI impI)
  fix s assume inv: "store_inv s"
  then show "store_inv (snd (insert_edge from to kind now s))"
    by (auto simp: insert_edge_def store_inv_def edges_ok_def references_ok_def unique_index_def
        edge_key_def ids_def)
qed

lemma keeps_delete_row: "keeps (delete_row i)"
  unfolding keeps_def
proof (intro allI impI)
  fix s assume inv: "store_inv s"
  note D = store_invD [OF inv]
  let ?t = "s\<lparr> db_notes := filter (\<lambda>r. r_id r \<noteq> i) (db_notes s),
              db_edges := (if db_fk s then filter (\<lambda>e. e_from e \<noteq> i \<and> e_to e \<noteq> i) (db_edges s)
                           else db_edges s) \<rparr>"
  show "store_inv (snd (delete_row i s))"
  proof (cases "db_fk s \<and> i \<in> ids s \<and>
      (\<exists>r \<in> set (db_notes s). r_id r \<noteq> i \<and> r_superseded_by r = Some i)")
    case True
    with inv show ?thesis by (simp add: delete_row_def)
  next
    case False
    have i: "ids ?t = ids s - {i}" by (auto simp: ids_def)
    have "sorted_wrt (<) (map r_id (db_notes ?t))"
      using inv by (auto simp: store_inv_def sorted_wrt_map intro: sorted_wrt_filter)
    moreover have "unique_index g ?t" if "unique_index g s" for g :: "row \<Rightarrow> string option"
      using that unfolding unique_index_def by auto
    moreover have "edges_ok ?t"
      using D(6) by (auto simp: edges_ok_def intro: distinct_map_filter)
    moreover have "db_fk s \<longrightarrow> references_ok ?t"
      using False D(7) i unfolding references_ok_def by (auto simp: ids_def)
    ultimately have "store_inv ?t" using D by (simp add: store_inv_def)
    with False show ?thesis by (auto simp: delete_row_def)
  qed
qed

lemmas keeps_intros = inv_intros keeps_insert_note keeps_update_notes keeps_update_unique
  keeps_update_superseded keeps_insert_edge keeps_delete_row keeps_transaction

section \<open>A fresh store\<close>

definition empty_store :: store where
  "empty_store =
     \<lparr> db_notes = [], db_edges = [], db_vecs = [], db_seq = 0, db_unique = True,
       db_unique_marker = True, db_fk = True, db_import = None \<rparr>"

lemma empty_store_inv: "store_inv empty_store"
  by (simp add: store_inv_def empty_store_def unique_index_def edges_ok_def references_ok_def)

end
