(* ===== verification/MemoryNotes.thy ===== *)
theory MemoryNotes
  imports MemoryDb
begin

text \<open>
  \<open>storage/memory/notes.rs\<close>: adding, merging, listing and archiving notes.  Tags and linked files
  are one comma-separated column each.  \<open>now\<close> is what \<open>unixepoch()\<close> answers.  A query without a
  total order returns its ties in rowid order, as the stable sort of the model does.
\<close>

section \<open>Comma-separated columns\<close>

definition comma :: char where
  "comma = CHR '',''"

definition split_csv :: "string option \<Rightarrow> string list" where
  "split_csv col =
     (case col of
        None \<Rightarrow> []
      | Some s \<Rightarrow> if s = [] then [] else filter (\<lambda>p. p \<noteq> []) (map trim (split_on comma s)))"

definition push_member :: "string \<Rightarrow> string list \<Rightarrow> string list" where
  "push_member v0 merged =
     (let v = trim v0 in if v \<noteq> [] \<and> v \<notin> set merged then merged @ [v] else merged)"

definition union_csv :: "string option \<Rightarrow> string list \<Rightarrow> string option" where
  "union_csv current incoming =
     (let merged = fold push_member incoming (split_csv current) in
      if merged = [] \<and> current = None then None else Some (join_with [comma] merged))"

section \<open>Rows and notes\<close>

definition row_to_note :: "row \<Rightarrow> mem_note" where
  "row_to_note r =
     \<lparr> n_id = note_id_from_i64 (r_id r),
       n_kind = r_kind r,
       n_title = r_title r,
       n_body = r_body r,
       n_tags = split_csv (r_tags r),
       n_linked_files = split_csv (r_linked_files r),
       n_created_at = r_created_at r,
       n_status = r_status r,
       n_superseded_by = map_option note_id_from_i64 (r_superseded_by r),
       n_source_ref = r_source_ref r,
       n_valid_at = r_valid_at r,
       n_invalid_at = r_invalid_at r,
       n_distance = None,
       n_score = None,
       n_source_project = None,
       n_source_project_path = None,
       n_remote_id = None \<rparr>"

text \<open>A row as an INSERT that names only some columns leaves it: the others have their defaults.\<close>

definition default_row :: "int \<Rightarrow> int \<Rightarrow> row" where
  "default_row now i =
     \<lparr> r_id = i, r_kind = ''note'', r_title = [], r_body = [], r_tags = None, r_linked_files = None,
       r_created_at = now, r_status = active, r_superseded_by = None, r_source_ref = None,
       r_valid_at = None, r_invalid_at = None, r_uuid = None, r_remote_id = None, r_entity_id = None \<rparr>"

section \<open>Adding\<close>

definition union_tags_and_files :: "int \<Rightarrow> string list \<Rightarrow> string list \<Rightarrow> bool sql" where
  "union_tags_and_files note_id tags linked_files =
     seq_sql (query (\<lambda>s. row_of s note_id))
       (\<lambda>q. case q of
          None \<Rightarrow> raise QueryReturnedNoRows
        | Some r \<Rightarrow>
            (let merged_tags = union_csv (r_tags r) tags;
                 merged_files = union_csv (r_linked_files r) linked_files in
             if merged_tags = r_tags r \<and> merged_files = r_linked_files r then ok False
             else seq_sql (update_notes (\<lambda>r. r_id r = note_id)
                    (\<lambda>r. r\<lparr> r_tags := merged_tags, r_linked_files := merged_files \<rparr>))
                  (\<lambda>_. ok True)))"

definition recover_from_entity_id_collision ::
    "db_error + int \<Rightarrow> string \<Rightarrow> string list \<Rightarrow> string list \<Rightarrow> (int \<times> bool) sql" where
  "recover_from_entity_id_collision insert_result eid tags linked_files =
     (case insert_result of
        Inr i \<Rightarrow> ok (i, True)
      | Inl e \<Rightarrow>
          if e = UniqueViolation then
            seq_sql (query (\<lambda>s. find (\<lambda>r. r_entity_id r = Some eid) (db_notes s)))
              (\<lambda>q. case q of
                 None \<Rightarrow> raise QueryReturnedNoRows
               | Some r \<Rightarrow>
                   seq_sql (union_tags_and_files (r_id r) tags linked_files)
                     (\<lambda>_. ok (r_id r, False)))
          else raise e)"

definition add_note ::
    "hashing \<Rightarrow> int \<Rightarrow> string \<Rightarrow> string \<Rightarrow> string \<Rightarrow> string list \<Rightarrow> string list \<Rightarrow> string option \<Rightarrow>
       int option \<Rightarrow> (int \<times> bool) sql" where
  "add_note E now kind title body tags linked_files source_ref valid_at =
     (let eid = entity_id E kind title body in
      seq_sql (try_sql (insert_note (\<lambda>i. (default_row now i)
          \<lparr> r_kind := kind, r_title := title, r_body := body,
            r_tags := Some (join_with [comma] tags),
            r_linked_files := Some (join_with [comma] linked_files),
            r_source_ref := source_ref, r_valid_at := valid_at, r_entity_id := Some eid \<rparr>)))
        (\<lambda>res. recover_from_entity_id_collision res eid tags linked_files))"

definition add_note_with_created_at ::
    "hashing \<Rightarrow> string \<Rightarrow> string \<Rightarrow> string \<Rightarrow> string list \<Rightarrow> string list \<Rightarrow> string option \<Rightarrow>
       string \<Rightarrow> int \<Rightarrow> (int \<times> bool) sql" where
  "add_note_with_created_at E kind title body tags linked_files source_ref status created_at =
     (let eid = entity_id E kind title body in
      seq_sql (try_sql (insert_note (\<lambda>i. (default_row created_at i)
          \<lparr> r_kind := kind, r_title := title, r_body := body,
            r_tags := Some (join_with [comma] tags),
            r_linked_files := Some (join_with [comma] linked_files),
            r_source_ref := source_ref, r_status := status, r_entity_id := Some eid \<rparr>)))
        (\<lambda>res. recover_from_entity_id_collision res eid tags linked_files))"

section \<open>Single-column updates\<close>

definition archive :: "int \<Rightarrow> bool sql" where
  "archive i =
     seq_sql (update_notes (\<lambda>r. r_id r = i \<and> r_status r = active) (\<lambda>r. r\<lparr> r_status := archived \<rparr>))
       (\<lambda>changed. ok (0 < changed))"

definition set_superseded_by :: "int \<Rightarrow> int \<Rightarrow> unit sql" where
  "set_superseded_by note_id successor_id =
     seq_sql (update_superseded note_id (\<lambda>_. True) (\<lambda>r. r) successor_id) (\<lambda>_. ok ())"

definition clear_superseded_by :: "int \<Rightarrow> unit sql" where
  "clear_superseded_by note_id =
     (\<lambda>s. (Inr (), map_rows (\<lambda>r. r_id r = note_id) (\<lambda>r. r\<lparr> r_superseded_by := None \<rparr>) s))"

definition notes_pointing_at :: "int \<Rightarrow> int list sql" where
  "notes_pointing_at target =
     query (\<lambda>s. map r_id (filter (\<lambda>r. r_superseded_by r = Some target) (db_notes s)))"

definition delete_note :: "int \<Rightarrow> unit sql" where
  "delete_note note_id = delete_row note_id"

section \<open>Embeddings\<close>

text \<open>\<open>note_embeddings\<close> is a \<open>vec0\<close> table of 896 floats of 4 bytes: a repeated id and a vector of another
  size are errors.\<close>

definition EMBEDDING_BYTES :: nat where
  "EMBEDDING_BYTES = 3584"

definition delete_note_embedding :: "int \<Rightarrow> unit sql" where
  "delete_note_embedding note_id =
     (\<lambda>s. (Inr (), s\<lparr> db_vecs := filter (\<lambda>(i, _). i \<noteq> note_id) (db_vecs s) \<rparr>))"

definition insert_vec :: "int \<Rightarrow> string \<Rightarrow> unit sql" where
  "insert_vec note_id blob =
     (\<lambda>s. if note_id \<in> fst ` set (db_vecs s) then (Inl UniqueViolation, s)
          else if length blob \<noteq> EMBEDDING_BYTES then (Inl CheckViolation, s)
          else (Inr (), s\<lparr> db_vecs := db_vecs s @ [(note_id, blob)] \<rparr>))"

definition write_embedding :: "int \<Rightarrow> string \<Rightarrow> unit sql" where
  "write_embedding note_id blob =
     seq_sql (delete_note_embedding note_id) (\<lambda>_. insert_vec note_id blob)"

text \<open>\<open>autocommit\<close>: no transaction is open, so the write opens and commits its own.\<close>

definition insert_embedding :: "bool \<Rightarrow> int \<Rightarrow> string \<Rightarrow> unit sql" where
  "insert_embedding autocommit note_id blob =
     (if autocommit then in_transaction (write_embedding note_id blob)
      else write_embedding note_id blob)"

definition get_embedding :: "int \<Rightarrow> string option sql" where
  "get_embedding note_id = query (\<lambda>s. map_of (db_vecs s) note_id)"

definition notes_missing_embeddings :: "bool \<Rightarrow> (int \<times> string \<times> string) list sql" where
  "notes_missing_embeddings include_archived =
     query (\<lambda>s. map (\<lambda>r. (r_id r, r_title r, r_body r))
       (filter (\<lambda>r. r_id r \<notin> fst ` set (db_vecs s) \<and> (include_archived \<or> r_status r = active))
          (db_notes s)))"

definition all_active_notes_for_reembed :: "bool \<Rightarrow> (int \<times> string \<times> string) list sql" where
  "all_active_notes_for_reembed include_archived =
     query (\<lambda>s. map (\<lambda>r. (r_id r, r_title r, r_body r))
       (filter (\<lambda>r. include_archived \<or> r_status r = active) (db_notes s)))"

section \<open>Queries\<close>

text \<open>SQLite's LIKE: ASCII case is ignored, \<open>%\<close> stands for any text and \<open>_\<close> for one character.\<close>

definition ascii_lower :: "char \<Rightarrow> nat" where
  "ascii_lower c = (if 65 \<le> byte c \<and> byte c \<le> 90 then byte c + 32 else byte c)"

definition next_char :: "string \<Rightarrow> string" where
  "next_char s = dropWhile (\<lambda>c. cont_byte (byte c)) (tl s)"

lemma next_char_less: "s \<noteq> [] \<Longrightarrow> length (next_char s) < length s"
  unfolding next_char_def
  by (metis length_dropWhile_le length_greater_0_conv length_tl diff_less le_less_trans zero_less_one)

function like :: "string \<Rightarrow> string \<Rightarrow> bool" where
  "like [] s = (s = [])"
| "like (p # ps) s =
     (if p = CHR ''%'' then like ps s \<or> (if s = [] then False else like (p # ps) (next_char s))
      else if s = [] then False
      else if p = CHR ''_'' then like ps (next_char s)
      else ascii_lower p = ascii_lower (hd s) \<and> like ps (tl s))"
  by pat_completeness auto
termination
  by (relation "measure (\<lambda>(p, s). length p + length s)")
     (auto simp: next_char_less trans_less_add2 less_imp_le intro: le_less_trans [OF _ lessI])

definition as_of_window :: "int option \<Rightarrow> row \<Rightarrow> bool" where
  "as_of_window as_of r =
     (case as_of of
        None \<Rightarrow> True
      | Some ts \<Rightarrow>
          (case r_valid_at r of Some v \<Rightarrow> v | None \<Rightarrow> r_created_at r) \<le> ts \<and>
          (case r_invalid_at r of None \<Rightarrow> True | Some ia \<Rightarrow> ts < ia))"

definition status_clause :: "bool \<Rightarrow> int option \<Rightarrow> row \<Rightarrow> bool" where
  "status_clause include_archived as_of r =
     (if include_archived \<or> as_of \<noteq> None then True else r_status r = active)"

text \<open>\<open>SELECT .. WHERE p ORDER BY created_at DESC LIMIT limit\<close>.\<close>

definition select_newest :: "(row \<Rightarrow> bool) \<Rightarrow> nat \<Rightarrow> store \<Rightarrow> row list" where
  "select_newest p limit s = take limit (sort_key (\<lambda>r. - r_created_at r) (filter p (db_notes s)))"

definition list_filtered ::
    "string option \<Rightarrow> string option \<Rightarrow> nat \<Rightarrow> bool \<Rightarrow> int option \<Rightarrow> mem_note list sql" where
  "list_filtered kind_filter source_ref_prefix limit include_archived as_of =
     query (\<lambda>s. map row_to_note (select_newest
       (\<lambda>r. status_clause include_archived as_of r \<and>
            (case kind_filter of Some k \<Rightarrow> r_kind r = k | None \<Rightarrow> True) \<and>
            (case source_ref_prefix of
               Some prefix \<Rightarrow> (case r_source_ref r of Some sr \<Rightarrow> like (prefix @ ''%'') sr | None \<Rightarrow> False)
             | None \<Rightarrow> True) \<and>
            as_of_window as_of r)
       (min limit 500) s))"

definition list_notes :: "string option \<Rightarrow> nat \<Rightarrow> bool \<Rightarrow> mem_note list sql" where
  "list_notes kind_filter limit include_archived =
     list_filtered kind_filter None limit include_archived None"

definition list_by_entity_ids ::
    "string list \<Rightarrow> nat \<Rightarrow> bool \<Rightarrow> int option \<Rightarrow> mem_note list sql" where
  "list_by_entity_ids entity_ids limit include_archived as_of =
     (if entity_ids = [] then ok []
      else query (\<lambda>s. map row_to_note (select_newest
        (\<lambda>r. (case r_entity_id r of Some e \<Rightarrow> e \<in> set entity_ids | None \<Rightarrow> False) \<and>
             status_clause include_archived as_of r \<and> as_of_window as_of r)
        (min limit 500) s)))"

definition dedup_rows :: "store \<Rightarrow> row list" where
  "dedup_rows s = sort_key (\<lambda>r. (r_created_at r, r_id r)) (db_notes s)"

definition all_notes_for_dedup :: "mem_note list sql" where
  "all_notes_for_dedup = query (\<lambda>s. map row_to_note (dedup_rows s))"

definition count_active :: "int sql" where
  "count_active = query (\<lambda>s. int (length (filter (\<lambda>r. r_status r = active) (db_notes s))))"

definition get_note :: "int \<Rightarrow> mem_note option sql" where
  "get_note i = query (\<lambda>s. map_option row_to_note (row_of s i))"

definition git_tags :: "string \<Rightarrow> string list" where
  "git_tags tags = filter_map (\<lambda>t. strip_prefix ''git:'' (trim t)) (split_on comma tags)"

definition harvested_shas :: "string set sql" where
  "harvested_shas =
     query (\<lambda>s. set (filter_map r_source_ref (db_notes s)) \<union>
       \<Union> ((\<lambda>r. case r_tags r of
                Some tags \<Rightarrow> if like ''%git:%'' tags then set (git_tags tags) else {}
              | None \<Rightarrow> {}) ` set (db_notes s)))"

definition has_source_ref :: "string \<Rightarrow> bool sql" where
  "has_source_ref sha = query (\<lambda>s. \<exists>r \<in> set (db_notes s). r_source_ref r = Some sha)"

section \<open>The tag column is an add-wins set\<close>

text \<open>A member that a comma-separated column can hold.\<close>

definition csv_member :: "string \<Rightarrow> bool" where
  "csv_member v \<longleftrightarrow> v \<noteq> [] \<and> trim v = v \<and> comma \<notin> set v"

lemma split_csv_members: "v \<in> set (split_csv col) \<Longrightarrow> csv_member v"
  unfolding csv_member_def split_csv_def
  using set_trim split_on_no_sep by (fastforce split: option.splits if_splits)

lemma split_csv_join:
  assumes "\<forall>v \<in> set vs. csv_member v"
  shows "split_csv (Some (join_with [comma] vs)) = vs"
proof (cases "vs = []")
  case True
  then show ?thesis by (simp add: split_csv_def)
next
  case False
  then have "split_on comma (join_with [comma] vs) = vs"
    using assms by (intro split_on_join) (auto simp: csv_member_def)
  moreover have "map trim vs = vs" "filter (\<lambda>p. p \<noteq> []) vs = vs"
    using assms by (simp_all add: csv_member_def map_idI filter_id_conv)
  moreover have "join_with [comma] vs \<noteq> []"
    using False assms by (cases vs) (auto simp: join_with_Cons csv_member_def)
  ultimately show ?thesis by (simp add: split_csv_def)
qed

lemma fold_push_members:
  assumes "\<forall>v \<in> set vs. csv_member v" "\<forall>v \<in> set incoming. comma \<notin> set v"
  shows "(\<forall>v \<in> set (fold push_member incoming vs). csv_member v) \<and>
    set (fold push_member incoming vs) = set vs \<union> {trim v |v. v \<in> set incoming \<and> trim v \<noteq> []} \<and>
    (\<exists>added. fold push_member incoming vs = vs @ added)"
  using assms
proof (induction incoming arbitrary: vs)
  case Nil
  then show ?case by simp
next
  case (Cons v incoming)
  have t: "csv_member (trim v)" if "trim v \<noteq> []"
    using that Cons.prems(2) set_trim [of v] by (auto simp: csv_member_def)
  have "\<forall>x \<in> set (push_member v vs). csv_member x"
    using Cons.prems t by (auto simp: push_member_def Let_def)
  note IH = Cons.IH [OF this]
  have "set (push_member v vs) = set vs \<union> (if trim v \<noteq> [] then {trim v} else {})"
    by (auto simp: push_member_def Let_def)
  moreover have "\<exists>added. push_member v vs = vs @ added"
    by (simp add: push_member_def Let_def)
  ultimately show ?case using IH Cons.prems(2) by (auto split: if_splits)
qed

text \<open>The column after a merge, whatever the column held before.\<close>

lemma union_csv_members:
  assumes "\<forall>v \<in> set incoming. comma \<notin> set v"
  shows "\<exists>added. split_csv (union_csv current incoming) = split_csv current @ added"
    and "set (split_csv (union_csv current incoming)) =
      set (split_csv current) \<union> {trim v |v. v \<in> set incoming \<and> trim v \<noteq> []}"
proof -
  let ?m = "fold push_member incoming (split_csv current)"
  have c: "\<forall>v \<in> set (split_csv current). csv_member v" using split_csv_members by blast
  note f = fold_push_members [OF c assms]
  have e: "split_csv (union_csv current incoming) = ?m"
  proof (cases "?m = [] \<and> current = None")
    case True
    then have cu: "current = None" by (rule conjunct2)
    from True have m: "?m = []" by (rule conjunct1)
    have "union_csv current incoming = None" unfolding union_csv_def Let_def using cu m by simp
    then show ?thesis by (simp only: m) (simp add: split_csv_def)
  next
    case False
    then have "union_csv current incoming = Some (join_with [comma] ?m)"
      by (auto simp: union_csv_def Let_def)
    with split_csv_join f show ?thesis by simp
  qed
  from e f show "\<exists>added. split_csv (union_csv current incoming) = split_csv current @ added" by simp
  from e f show "set (split_csv (union_csv current incoming)) =
      set (split_csv current) \<union> {trim v |v. v \<in> set incoming \<and> trim v \<noteq> []}" by simp
qed

interpretation csv_tags: add_wins "set \<circ> split_csv" union_csv csv_member
proof
  fix xs s assume xs: "\<forall>x \<in> set xs. csv_member x"
  then have "\<forall>v \<in> set xs. comma \<notin> set v" "{trim v |v. v \<in> set xs \<and> trim v \<noteq> []} = set xs"
    by (auto simp: csv_member_def) metis
  with union_csv_members(2) [of xs s] show "(set \<circ> split_csv) (union_csv s xs) = (set \<circ> split_csv) s \<union> set xs"
    by simp
qed

text \<open>Merging tags into a row keeps every tag it has, in place, and adds exactly the new ones.\<close>

lemma union_csv_add_wins:
  assumes "\<forall>v \<in> set incoming. csv_member v"
  shows "(\<exists>added. split_csv (union_csv current incoming) = split_csv current @ added) \<and>
    set (split_csv (union_csv current incoming)) = set (split_csv current) \<union> set incoming \<and>
    set (split_csv (union_csv (union_csv current incoming) incoming)) =
      set (split_csv (union_csv current incoming))"
  using assms csv_tags.members_union [of incoming current] csv_tags.union_idem [of incoming current]
    union_csv_members(1) [of incoming current]
  by (auto simp: csv_member_def)

lemma union_csv_add_wins_witness:
  "set (split_csv (union_csv (Some ''a, b'') [''b'', ''c''])) = {''a'', ''b'', ''c''}"
proof -
  have "trim ''b'' = ''b''" "trim ''c'' = ''c''" "split_csv (Some ''a, b'') = [''a'', ''b'']"
    by code_simp+
  then show ?thesis
    using union_csv_add_wins [of "[''b'', ''c'']" "Some ''a, b''"] by (auto simp: csv_member_def comma_def)
qed

section \<open>Every method keeps the invariant\<close>

lemma keeps_union [inv_intros]: "keeps (union_tags_and_files i tags files)"
  unfolding union_tags_and_files_def
  by (intro keeps_intros) (auto intro!: keeps_intros split: option.split simp: Let_def)

lemma keeps_recover [inv_intros]: "keeps (recover_from_entity_id_collision res eid tags files)"
  unfolding recover_from_entity_id_collision_def
  by (auto intro!: keeps_intros keeps_union split: sum.split option.split)

lemma keeps_add_note [inv_intros]: "keeps (add_note E now k t b tags files sr va)"
  unfolding add_note_def Let_def by (intro keeps_intros keeps_recover) (simp_all add: default_row_def)

lemma keeps_add_note_with_created_at [inv_intros]:
  "keeps (add_note_with_created_at E k t b tags files sr st ca)"
  unfolding add_note_with_created_at_def Let_def
  by (intro keeps_intros keeps_recover) (simp_all add: default_row_def)

lemma keeps_archive [inv_intros]: "keeps (archive i)"
  unfolding archive_def by (intro keeps_intros) simp_all

lemma keeps_set_superseded_by [inv_intros]: "keeps (set_superseded_by i j)"
  unfolding set_superseded_by_def by (intro keeps_intros) simp_all

lemma keeps_clear_superseded_by [inv_intros]: "keeps (clear_superseded_by i)"
  unfolding keeps_def clear_superseded_by_def
proof (intro allI impI)
  fix s assume inv: "store_inv s"
  note D = store_invD [OF inv]
  have "store_inv (map_rows (\<lambda>r. r_id r = i) (\<lambda>r. r\<lparr> r_superseded_by := None \<rparr>) s)"
    by (rule inv_map_rows [OF inv]) (use D in \<open>auto intro!: unique_index_map_rows\<close>)
  then show "store_inv (snd (Inr (), map_rows (\<lambda>r. r_id r = i) (\<lambda>r. r\<lparr> r_superseded_by := None \<rparr>) s))"
    by simp
qed

lemma keeps_delete_note [inv_intros]: "keeps (delete_note i)"
  unfolding delete_note_def by (rule keeps_delete_row)

lemma inv_vecs:
  "store_inv (s\<lparr> db_vecs := vs \<rparr>) \<longleftrightarrow> store_inv s \<and> distinct (map fst vs)" if "distinct (map fst (db_vecs s))"
  using that by (auto simp: store_inv_def unique_index_def edges_ok_def references_ok_def ids_def)

lemma keeps_delete_note_embedding [inv_intros]: "keeps (delete_note_embedding i)"
  unfolding keeps_def delete_note_embedding_def
  by (auto simp: inv_vecs store_invD(8) intro: distinct_map_filter)

lemma keeps_insert_vec [inv_intros]: "keeps (insert_vec i blob)"
  unfolding keeps_def insert_vec_def by (auto simp: inv_vecs store_invD(8))

lemma keeps_insert_embedding [inv_intros]: "keeps (insert_embedding ac i blob)"
  unfolding insert_embedding_def write_embedding_def
  by (auto intro!: keeps_intros keeps_insert_vec keeps_delete_note_embedding)

section \<open>Adding a note\<close>

lemma find_row_of:
  "find (\<lambda>r. r_entity_id r = Some e) rs = Some r \<Longrightarrow> r \<in> set rs \<and> r_entity_id r = Some e"
  by (auto simp: find_Some_iff)

lemma find_map_rows:
  "(\<And>r. r_id (f r) = r_id r) \<Longrightarrow>
     find (\<lambda>r. r_id r = i) (map (\<lambda>r. if p r then f r else r) rs) =
     map_option (\<lambda>r. if p r then f r else r) (find (\<lambda>r. r_id r = i) rs)"
  by (induction rs) auto

lemma row_of_map_rows:
  "(\<And>r. r_id (f r) = r_id r) \<Longrightarrow>
     row_of (map_rows p f s) i = map_option (\<lambda>r. if p r then f r else r) (row_of s i)"
  by (simp add: row_of_def find_map_rows)

text \<open>The row after its tags and files were merged.\<close>

definition merged_row :: "string list \<Rightarrow> string list \<Rightarrow> row \<Rightarrow> row" where
  "merged_row tags files r =
     r\<lparr> r_tags := union_csv (r_tags r) tags, r_linked_files := union_csv (r_linked_files r) files \<rparr>"

lemma merged_row_simps [simp]:
  "r_id (merged_row tags files r) = r_id r" "r_entity_id (merged_row tags files r) = r_entity_id r"
  "r_kind (merged_row tags files r) = r_kind r" "r_title (merged_row tags files r) = r_title r"
  "r_body (merged_row tags files r) = r_body r" "r_status (merged_row tags files r) = r_status r"
  "r_superseded_by (merged_row tags files r) = r_superseded_by r"
  "r_created_at (merged_row tags files r) = r_created_at r"
  "r_uuid (merged_row tags files r) = r_uuid r" "r_remote_id (merged_row tags files r) = r_remote_id r"
  by (simp_all add: merged_row_def)

lemma same_id_same_row:
  assumes "store_inv s" "r \<in> set (db_notes s)" "q \<in> set (db_notes s)" "r_id r = r_id q"
  shows "r = q"
  using store_invD(1) [OF assms(1)] assms(2-4) by (metis distinct_map inj_onD)

lemma map_rows_cong:
  "(\<And>r. r \<in> set (db_notes s) \<Longrightarrow> p r \<Longrightarrow> f r = g r) \<Longrightarrow> map_rows p f s = map_rows p g s"
  by (simp add: map_rows_def)

lemma map_rows_id: "(\<And>r. r \<in> set (db_notes s) \<Longrightarrow> p r \<Longrightarrow> f r = r) \<Longrightarrow> map_rows p f s = s"
  by (simp add: map_rows_def map_idI)

definition arch_row :: "bool \<Rightarrow> row \<Rightarrow> row" where
  "arch_row is_archived r = (if is_archived \<and> r_status r = active then r\<lparr> r_status := archived \<rparr> else r)"

lemma arch_row_simps [simp]:
  "r_id (arch_row ar r) = r_id r" "r_remote_id (arch_row ar r) = r_remote_id r"
  "r_entity_id (arch_row ar r) = r_entity_id r" "r_kind (arch_row ar r) = r_kind r"
  "r_title (arch_row ar r) = r_title r" "r_body (arch_row ar r) = r_body r"
  "r_tags (arch_row ar r) = r_tags r" "r_linked_files (arch_row ar r) = r_linked_files r"
  "arch_row ar (arch_row ar r) = arch_row ar r"
  by (simp_all add: arch_row_def)

lemma arch_row_status: "r_status (arch_row ar r) = (if ar \<and> r_status r = active then archived else r_status r)"
  by (simp add: arch_row_def)

lemma archive_run: "archive i s = (Inr (\<exists>r \<in> set (db_notes s). r_id r = i \<and> r_status r = active),
    map_rows (\<lambda>r. r_id r = i) (arch_row True) s)"
  by (auto simp: archive_def seq_sql_def update_notes_def ok_def map_rows_def arch_row_def
      filter_empty_conv)

lemma arch_step_run:
  "seq_sql (if ar then archive i else ok False) (\<lambda>_. ok v) s =
     (Inr v, map_rows (\<lambda>r. r_id r = i) (arch_row ar) s)"
proof (cases ar)
  case True
  then show ?thesis by (simp add: seq_sql_def archive_run ok_def)
next
  case False
  then have "map_rows (\<lambda>r. r_id r = i) (arch_row ar) s = s"
    by (intro map_rows_id) (simp add: arch_row_def)
  with False show ?thesis by (simp add: seq_sql_def ok_def)
qed

lemma map_rows_map_rows:
  "(\<And>r. r_id (g r) = r_id r) \<Longrightarrow>
     map_rows (\<lambda>r. r_id r = i) f (map_rows (\<lambda>r. r_id r = i) g s) = map_rows (\<lambda>r. r_id r = i) (\<lambda>r. f (g r)) s"
  by (simp add: map_rows_def o_def)

lemma union_tags_and_files_run:
  assumes inv: "store_inv s" and r: "row_of s i = Some r"
  shows "\<exists>b. union_tags_and_files i tags files s =
    (Inr b, map_rows (\<lambda>q. r_id q = i) (merged_row tags files) s)"
proof -
  have only: "q = r" if "q \<in> set (db_notes s)" "r_id q = i" for q
    using same_id_same_row [OF inv that(1), of r] row_of_in [OF r] that by simp
  let ?c = "union_csv (r_tags r) tags = r_tags r \<and> union_csv (r_linked_files r) files = r_linked_files r"
  have same: "map_rows (\<lambda>q. r_id q = i) (merged_row tags files) s =
      map_rows (\<lambda>q. r_id q = i) (\<lambda>q. q\<lparr> r_tags := union_csv (r_tags r) tags,
        r_linked_files := union_csv (r_linked_files r) files \<rparr>) s"
    by (rule map_rows_cong) (use only in \<open>auto simp: merged_row_def\<close>)
  show ?thesis
  proof (cases ?c)
    case True
    have "map_rows (\<lambda>q. r_id q = i) (merged_row tags files) s = s"
      by (rule map_rows_id) (use only True in \<open>auto simp: merged_row_def\<close>)
    with True r show ?thesis
      by (intro exI [of _ False]) (simp add: union_tags_and_files_def seq_sql_def query_def ok_def Let_def)
  next
    case False
    with r show ?thesis
      by (auto simp: union_tags_and_files_def seq_sql_def query_def ok_def Let_def update_notes_def same)
  qed
qed

lemma recover_collision_run:
  assumes inv: "store_inv s" and hit: "\<exists>r \<in> set (db_notes s). r_entity_id r = Some eid"
  obtains r where "r \<in> set (db_notes s)" "r_entity_id r = Some eid"
    "recover_from_entity_id_collision (Inl UniqueViolation) eid tags files s =
       (Inr (r_id r, False), map_rows (\<lambda>q. r_id q = r_id r) (merged_row tags files) s)"
proof -
  from hit obtain r where f: "find (\<lambda>r. r_entity_id r = Some eid) (db_notes s) = Some r"
    by (cases "find (\<lambda>r. r_entity_id r = Some eid) (db_notes s)") (auto simp: find_None_iff)
  from find_row_of [OF f] have r: "r \<in> set (db_notes s)" "r_entity_id r = Some eid" by auto
  then have "row_of s (r_id r) = Some r" using row_of_iff [OF inv] by simp
  from union_tags_and_files_run [OF inv this] obtain b where
    "union_tags_and_files (r_id r) tags files s =
       (Inr b, map_rows (\<lambda>q. r_id q = r_id r) (merged_row tags files) s)" by blast
  with f have "recover_from_entity_id_collision (Inl UniqueViolation) eid tags files s =
       (Inr (r_id r, False), map_rows (\<lambda>q. r_id q = r_id r) (merged_row tags files) s)"
    by (simp add: recover_from_entity_id_collision_def seq_sql_def query_def ok_def)
  with r that show thesis by blast
qed

text \<open>An INSERT that names no uuid and no remote id, then its recovery: the two ways it can go.\<close>

lemma insert_or_merge:
  assumes inv: "store_inv s" and mk: "\<And>i. r_id (mk i) = i" "\<And>i. r_uuid (mk i) = None"
    "\<And>i. r_remote_id (mk i) = None" "\<And>i. r_entity_id (mk i) = Some eid"
    "\<And>i. r_superseded_by (mk i) = None"
  obtains
    "seq_sql (try_sql (insert_note mk)) (\<lambda>res. recover_from_entity_id_collision res eid tags files) s =
       (Inr (db_seq s + 1, True),
        s\<lparr> db_notes := db_notes s @ [mk (db_seq s + 1)], db_seq := db_seq s + 1 \<rparr>)"
    "db_unique s \<longrightarrow> (\<forall>r \<in> set (db_notes s). r_entity_id r \<noteq> Some eid)"
  | r where "db_unique s" "r \<in> set (db_notes s)" "r_entity_id r = Some eid"
    "seq_sql (try_sql (insert_note mk)) (\<lambda>res. recover_from_entity_id_collision res eid tags files) s =
       (Inr (r_id r, False), map_rows (\<lambda>q. r_id q = r_id r) (merged_row tags files) s)"
proof -
  let ?i = "db_seq s + 1"
  have new: "r_id r \<noteq> ?i" if "r \<in> set (db_notes s)" for r
    using store_invD(2) [OF inv that] by simp
  have c: "unique_conflict (mk ?i) s \<longleftrightarrow>
      db_unique s \<and> (\<exists>r \<in> set (db_notes s). r_entity_id r = Some eid)"
    using mk new by (auto simp: unique_conflict_def taken_def)
  show thesis
  proof (cases "unique_conflict (mk ?i) s")
    case True
    with c have hit: "\<exists>r \<in> set (db_notes s). r_entity_id r = Some eid" and u: "db_unique s" by auto
    from recover_collision_run [OF inv hit, of tags files] obtain r where
      r: "r \<in> set (db_notes s)" "r_entity_id r = Some eid"
      "recover_from_entity_id_collision (Inl UniqueViolation) eid tags files s =
         (Inr (r_id r, False), map_rows (\<lambda>q. r_id q = r_id r) (merged_row tags files) s)" .
    from True r(3) have "seq_sql (try_sql (insert_note mk))
        (\<lambda>res. recover_from_entity_id_collision res eid tags files) s =
      (Inr (r_id r, False), map_rows (\<lambda>q. r_id q = r_id r) (merged_row tags files) s)"
      by (simp add: seq_sql_def try_sql_def insert_note_def Let_def)
    with that(2) u r(1,2) show thesis by blast
  next
    case False
    then have "seq_sql (try_sql (insert_note mk))
        (\<lambda>res. recover_from_entity_id_collision res eid tags files) s =
      (Inr (?i, True), s\<lparr> db_notes := db_notes s @ [mk ?i], db_seq := ?i \<rparr>)"
      by (simp add: seq_sql_def try_sql_def insert_note_def Let_def
          recover_from_entity_id_collision_def ok_def)
    with that(1) c False show thesis by blast
  qed
qed



text \<open>A store with two entries, for the examples.\<close>

definition two_note_store :: store where
  "two_note_store =
     snd (add_note plain_hashing 8 ''note'' ''c'' ''d'' [] [] None None
       (snd (add_note plain_hashing 7 ''note'' ''a'' ''b'' [''x''] [] None None empty_store)))"

lemma two_note_store_inv: "store_inv two_note_store"
  using keeps_add_note empty_store_inv unfolding two_note_store_def keeps_def by blast

lemma two_note_store_ids: "1 \<in> ids two_note_store" "2 \<in> ids two_note_store"
  unfolding ids_def by code_simp+

end
