(* ===== verification/EntityIdMigration.thy ===== *)
theory EntityIdMigration
  imports MemoryNotes
begin

text \<open>
  \<open>storage/memory/entity_id_migration/mod.rs\<close> and the rest of \<open>MemoryStore::open\<close>: giving an entity
  id to every row that has none, and making the index on it UNIQUE once no two rows share one.
\<close>

section \<open>Operations\<close>

definition entity_of :: "hashing \<Rightarrow> row \<Rightarrow> string" where
  "entity_of E r = entity_id E (r_kind r) (r_title r) (r_body r)"

definition backfill_row :: "hashing \<Rightarrow> int \<times> string \<times> string \<times> string \<Rightarrow> unit sql" where
  "backfill_row E q =
     (case q of (i, kind, title, body) \<Rightarrow>
        (let eid = entity_id E kind title body in
         seq_sql (try_sql (update_unique i (\<lambda>_. True) (\<lambda>r. r\<lparr> r_entity_id := Some eid \<rparr>)))
           (\<lambda>res. case res of
              Inr _ \<Rightarrow> ok ()
            | Inl e \<Rightarrow> if e = UniqueViolation then ok () else raise e)))"

definition backfill_entity_ids :: "hashing \<Rightarrow> unit sql" where
  "backfill_entity_ids E =
     seq_sql (query (\<lambda>s. map (\<lambda>r. (r_id r, r_kind r, r_title r, r_body r))
         (filter (\<lambda>r. r_entity_id r = None) (db_notes s))))
       (for_each (backfill_row E))"

definition duplicate_entity_ids :: "store \<Rightarrow> string list" where
  "duplicate_entity_ids s =
     filter (\<lambda>e. 1 < length (filter (\<lambda>r. r_entity_id r = Some e) (db_notes s)))
       (remdups (filter_map r_entity_id (db_notes s)))"

definition entity_id_duplicate_group_count :: "int sql" where
  "entity_id_duplicate_group_count = query (\<lambda>s. int (length (duplicate_entity_ids s)))"

text \<open>\<open>CREATE UNIQUE INDEX\<close> fails where the values are not unique.\<close>

definition create_unique_index :: "unit sql" where
  "create_unique_index =
     (\<lambda>s. if duplicate_entity_ids s \<noteq> [] then (Inl UniqueViolation, s\<lparr> db_unique := False \<rparr>)
          else (Inr (), s\<lparr> db_unique := True \<rparr>))"

definition promote_entity_id_unique_index :: "unit sql" where
  "promote_entity_id_unique_index =
     seq_sql (query db_unique_marker)
       (\<lambda>already.
          if already then ok ()
          else seq_sql entity_id_duplicate_group_count
            (\<lambda>dup_groups.
               if 0 < dup_groups then ok ()
               else seq_sql create_unique_index
                      (\<lambda>_ s. (Inr (), s\<lparr> db_unique_marker := True \<rparr>))))"

text \<open>What \<open>open\<close> does once the schema is current; the result is \<open>reembed_needed\<close>.\<close>

definition open_store :: "hashing \<Rightarrow> bool \<Rightarrow> nat option sql" where
  "open_store E dropped_768 =
     seq_sql (backfill_entity_ids E)
       (\<lambda>_. seq_sql promote_entity_id_unique_index
          (\<lambda>_. if dropped_768
               then seq_sql (notes_missing_embeddings False)
                      (\<lambda>rows. ok (if rows = [] then None else Some (length rows)))
               else ok None))"

section \<open>The invariant\<close>

lemma keeps_backfill_row: "keeps (backfill_row E q)"
  unfolding backfill_row_def Let_def
  by (auto intro!: keeps_intros split: prod.split sum.split)

lemma keeps_backfill [inv_intros]: "keeps (backfill_entity_ids E)"
  unfolding backfill_entity_ids_def by (intro keeps_intros keeps_backfill_row)

lemma no_duplicates_iff:
  assumes "store_inv s"
  shows "duplicate_entity_ids s = [] \<longleftrightarrow> unique_index r_entity_id s"
proof
  assume no: "duplicate_entity_ids s = []"
  show "unique_index r_entity_id s"
    unfolding unique_index_def
  proof (intro ballI impI)
    fix r q assume r: "r \<in> set (db_notes s)" and q: "q \<in> set (db_notes s)"
      and e: "r_entity_id r \<noteq> None \<and> r_entity_id r = r_entity_id q"
    then obtain v where v: "r_entity_id r = Some v" "r_entity_id q = Some v" by (metis not_None_eq)
    let ?f = "filter (\<lambda>r. r_entity_id r = Some v) (db_notes s)"
    have "v \<in> set (filter_map r_entity_id (db_notes s))" using r v by (auto simp: set_filter_map)
    with no have "\<not> 1 < length ?f" by (auto simp: duplicate_entity_ids_def filter_empty_conv)
    moreover have "r \<in> set ?f" "q \<in> set ?f" using r q v by auto
    ultimately have "r = q" by (cases ?f) auto
    then show "r_id r = r_id q" by simp
  qed
next
  assume u: "unique_index r_entity_id s"
  have "\<not> 1 < length (filter (\<lambda>r. r_entity_id r = Some v) (db_notes s))" for v
  proof
    let ?f = "filter (\<lambda>r. r_entity_id r = Some v) (db_notes s)"
    assume l: "1 < length ?f"
    then obtain r q rest where f: "?f = r # q # rest" by (cases ?f; cases "tl ?f") auto
    then have m: "r \<in> set ?f" "q \<in> set ?f" by (metis list.set_intros(1), metis list.set_intros)
    with u have "r_id r = r_id q" unfolding unique_index_def by auto
    moreover have "distinct (map r_id ?f)"
      using store_invD(1) [OF assms] by (rule distinct_map_filter)
    ultimately show False using f by simp
  qed
  then show "duplicate_entity_ids s = []" by (simp add: duplicate_entity_ids_def)
qed

lemma inv_unique_flag:
  "store_inv (s\<lparr> db_unique := True, db_unique_marker := m \<rparr>) \<longleftrightarrow>
     store_inv (s\<lparr> db_unique := False \<rparr>) \<and> unique_index r_entity_id s"
  by (auto simp: store_inv_def unique_index_def edges_ok_def references_ok_def ids_def)

lemma inv_unique_weaken: "store_inv s \<Longrightarrow> store_inv (s\<lparr> db_unique := False \<rparr>)"
  by (auto simp: store_inv_def unique_index_def edges_ok_def references_ok_def ids_def)

lemma promote_run:
  assumes inv: "store_inv s"
  shows "promote_entity_id_unique_index s =
    (Inr (), if db_unique_marker s \<or> \<not> unique_index r_entity_id s then s
             else s\<lparr> db_unique := True, db_unique_marker := True \<rparr>)"
  using no_duplicates_iff [OF inv]
  by (auto simp: promote_entity_id_unique_index_def seq_sql_def query_def ok_def
      entity_id_duplicate_group_count_def create_unique_index_def)

lemma keeps_promote [inv_intros]: "keeps promote_entity_id_unique_index"
  unfolding keeps_def
  using inv_unique_flag inv_unique_weaken by (auto simp: promote_run)

lemma keeps_open_store [inv_intros]: "keeps (open_store E d)"
  unfolding open_store_def notes_missing_embeddings_def
  by (auto intro!: keeps_intros keeps_backfill keeps_promote)

section \<open>What an open leaves\<close>

text \<open>\<open>t\<close> is \<open>s\<close> with an entity id filled in on some rows that had none.\<close>

definition fill_row :: "hashing \<Rightarrow> row \<Rightarrow> row" where
  "fill_row E r = r\<lparr> r_entity_id := Some (entity_of E r) \<rparr>"

definition backfilled :: "hashing \<Rightarrow> store \<Rightarrow> store \<Rightarrow> bool" where
  "backfilled E s t \<longleftrightarrow>
     (\<exists>rs. t = s\<lparr> db_notes := rs \<rparr> \<and>
       list_all2 (\<lambda>r q. q = r \<or> r_entity_id r = None \<and> q = fill_row E r) (db_notes s) rs)"

lemma fill_row_simps [simp]:
  "r_id (fill_row E r) = r_id r" "r_entity_id (fill_row E r) = Some (entity_of E r)"
  "entity_of E (fill_row E r) = entity_of E r"
  by (simp_all add: fill_row_def entity_of_def)

lemma backfilled_refl: "backfilled E s s"
  unfolding backfilled_def by (intro exI [of _ "db_notes s"]) (simp add: list_all2_same)

lemma backfilled_trans:
  assumes "backfilled E s t" "backfilled E t u"
  shows "backfilled E s u"
proof -
  let ?P = "\<lambda>r q. q = r \<or> r_entity_id r = None \<and> q = fill_row E r"
  from assms obtain rs qs where t: "t = s\<lparr> db_notes := rs \<rparr>" "list_all2 ?P (db_notes s) rs"
    and u: "u = t\<lparr> db_notes := qs \<rparr>" "list_all2 ?P (db_notes t) qs"
    unfolding backfilled_def by blast
  from u(2) t(1) have "list_all2 ?P rs qs" by simp
  with t(2) have "list_all2 ?P (db_notes s) qs"
    by (rule list_all2_trans [rotated]) auto
  with t(1) u(1) show ?thesis unfolding backfilled_def by (intro exI [of _ qs]) simp
qed

lemma backfilled_fields:
  "backfilled E s t \<Longrightarrow> db_unique t = db_unique s \<and> db_unique_marker t = db_unique_marker s \<and>
     db_edges t = db_edges s \<and> db_vecs t = db_vecs s \<and> db_seq t = db_seq s"
  unfolding backfilled_def by auto

lemma backfilled_row:
  assumes "backfilled E s t" "r \<in> set (db_notes s)"
  shows "r \<in> set (db_notes t) \<or> r_entity_id r = None \<and> fill_row E r \<in> set (db_notes t)"
proof -
  from assms(1) obtain rs where t: "db_notes t = rs"
    and l: "list_all2 (\<lambda>r q. q = r \<or> r_entity_id r = None \<and> q = fill_row E r) (db_notes s) rs"
    unfolding backfilled_def by auto
  from assms(2) obtain i where i: "i < length (db_notes s)" "r = db_notes s ! i"
    by (auto simp: in_set_conv_nth)
  with l have "i < length rs" "rs ! i = r \<or> r_entity_id r = None \<and> rs ! i = fill_row E r"
    by (auto dest: list_all2_lengthD list_all2_nthD)
  with t show ?thesis by (metis nth_mem)
qed

text \<open>A row that has its entity id, or cannot get it: another row holds it under the UNIQUE index.\<close>

definition settled :: "hashing \<Rightarrow> store \<Rightarrow> row \<Rightarrow> bool" where
  "settled E s r \<longleftrightarrow> r_entity_id r \<noteq> None \<or>
     db_unique s \<and> (\<exists>q \<in> set (db_notes s). r_id q \<noteq> r_id r \<and> r_entity_id q = Some (entity_of E r))"

definition all_settled :: "hashing \<Rightarrow> int set \<Rightarrow> store \<Rightarrow> bool" where
  "all_settled E I s \<longleftrightarrow> (\<forall>r \<in> set (db_notes s). r_id r \<in> I \<longrightarrow> settled E s r)"

lemma backfilled_in:
  assumes "backfilled E s t" "q \<in> set (db_notes t)"
  shows "q \<in> set (db_notes s) \<or> (\<exists>r \<in> set (db_notes s). r_entity_id r = None \<and> q = fill_row E r)"
proof -
  from assms(1) obtain rs where t: "db_notes t = rs"
    and l: "list_all2 (\<lambda>r q. q = r \<or> r_entity_id r = None \<and> q = fill_row E r) (db_notes s) rs"
    unfolding backfilled_def by auto
  from assms(2) t obtain i where i: "i < length rs" "q = rs ! i" by (auto simp: in_set_conv_nth)
  with l have "i < length (db_notes s)" "q = db_notes s ! i \<or> r_entity_id (db_notes s ! i) = None \<and> q = fill_row E (db_notes s ! i)"
    by (auto dest: list_all2_lengthD list_all2_nthD2)
  then show ?thesis by (metis nth_mem)
qed

lemma settled_backfilled:
  assumes "backfilled E s t" "all_settled E I s"
  shows "all_settled E I t"
  unfolding all_settled_def
proof (intro ballI impI)
  fix q assume q: "q \<in> set (db_notes t)" "r_id q \<in> I"
  from backfilled_in [OF assms(1) q(1)] show "settled E t q"
  proof
    assume "q \<in> set (db_notes s)"
    with assms(2) q(2) have "settled E s q" by (simp add: all_settled_def)
    then show ?thesis
      unfolding settled_def using backfilled_fields [OF assms(1)] backfilled_row [OF assms(1)]
      by fastforce
  next
    assume "\<exists>r \<in> set (db_notes s). r_entity_id r = None \<and> q = fill_row E r"
    then show ?thesis by (auto simp: settled_def)
  qed
qed

definition item_of :: "row \<Rightarrow> int \<times> string \<times> string \<times> string" where
  "item_of r = (r_id r, r_kind r, r_title r, r_body r)"

lemma backfill_row_run:
  assumes inv: "store_inv s" and r: "r \<in> set (db_notes s)" "r_entity_id r = None"
  obtains t where "backfill_row E (item_of r) s = (Inr (), t)" "backfilled E s t"
    "all_settled E {r_id r} t" "\<forall>q \<in> set (db_notes s). r_id q \<noteq> r_id r \<longrightarrow> q \<in> set (db_notes t)"
proof -
  let ?f = "\<lambda>q. q\<lparr> r_entity_id := Some (entity_of E r) \<rparr>"
  have only: "q = r" if "q \<in> set (db_notes s)" "r_id q = r_id r" for q
    using same_id_same_row [OF inv that(1) r(1) that(2)] .
  note D = store_invD [OF inv]
  have nt: "\<not> taken r_uuid (r_uuid r) (r_id r) s" "\<not> taken r_remote_id (r_remote_id r) (r_id r) s"
    using D(4,5) r(1) unfolding taken_def unique_index_def by metis+
  have c: "unique_conflict (?f r) s \<longleftrightarrow> db_unique s \<and> taken r_entity_id (Some (entity_of E r)) (r_id r) s"
    using nt by (simp add: unique_conflict_def)
  show thesis
  proof (cases "unique_conflict (?f r) s")
    case True
    with r have "backfill_row E (item_of r) s = (Inr (), s)"
      by (auto simp: backfill_row_def item_of_def Let_def seq_sql_def try_sql_def update_unique_def ok_def entity_of_def)
    moreover have "settled E s r" using True c by (auto simp: settled_def taken_def)
    then have "all_settled E {r_id r} s" using only by (auto simp: all_settled_def)
    ultimately show thesis using that backfilled_refl by blast
  next
    case False
    let ?t = "map_rows (\<lambda>q. r_id q = r_id r) (fill_row E) s"
    have "map_rows (\<lambda>q. r_id q = r_id r \<and> True) ?f s = ?t"
      unfolding simp_thms by (rule map_rows_cong) (auto simp: fill_row_def dest!: only)
    moreover have "\<not> (\<exists>q \<in> set (db_notes s). r_id q = r_id r \<and> unique_conflict (?f q) s)"
      using False only by blast
    ultimately have run: "backfill_row E (item_of r) s = (Inr (), ?t)"
      by (auto simp: backfill_row_def item_of_def Let_def seq_sql_def try_sql_def update_unique_def
          update_notes_def ok_def entity_of_def)
    have "backfilled E s ?t"
      unfolding backfilled_def
      by (intro exI [of _ "db_notes ?t"]) (auto simp: map_rows_def list.rel_map list_all2_same r(2) dest!: only)
    moreover have "all_settled E {r_id r} ?t"
      using only by (auto simp: all_settled_def settled_def split: if_splits)
    moreover have "\<forall>q \<in> set (db_notes s). r_id q \<noteq> r_id r \<longrightarrow> q \<in> set (db_notes ?t)" by force
    ultimately show thesis using that run by blast
  qed
qed

lemma backfill_loop:
  assumes "store_inv s" "distinct (map r_id rs)"
    "\<forall>r \<in> set rs. r \<in> set (db_notes s) \<and> r_entity_id r = None"
  shows "\<exists>t. for_each (backfill_row E) (map item_of rs) s = (Inr (), t) \<and> backfilled E s t \<and>
    all_settled E (r_id ` set rs) t"
  using assms
proof (induction rs arbitrary: s)
  case Nil
  then show ?case by (simp add: ok_def backfilled_refl all_settled_def)
next
  case (Cons r rs)
  from Cons.prems(1,3) obtain u where u: "backfill_row E (item_of r) s = (Inr (), u)" "backfilled E s u"
    "all_settled E {r_id r} u" "\<forall>q \<in> set (db_notes s). r_id q \<noteq> r_id r \<longrightarrow> q \<in> set (db_notes u)"
    using backfill_row_run [of s r E] by auto
  have "store_inv u" by (rule keepsD [OF keeps_backfill_row Cons.prems(1) u(1)])
  moreover have "\<forall>q \<in> set rs. q \<in> set (db_notes u) \<and> r_entity_id q = None"
  proof
    fix q assume q: "q \<in> set rs"
    with Cons.prems(2) have "r_id q \<noteq> r_id r" by (auto simp: image_iff)
    with q Cons.prems(3) u(4) show "q \<in> set (db_notes u) \<and> r_entity_id q = None" by simp
  qed
  ultimately obtain t where t: "for_each (backfill_row E) (map item_of rs) u = (Inr (), t)"
    "backfilled E u t" "all_settled E (r_id ` set rs) t"
    using Cons.IH [of u] Cons.prems(2) by auto
  have "all_settled E (r_id ` set (r # rs)) t"
    using settled_backfilled [OF t(2) u(3)] t(3) by (auto simp: all_settled_def)
  with u(1,2) t(1,2) show ?case by (auto simp: seq_sql_def intro: backfilled_trans)
qed

lemma backfill_run:
  assumes inv: "store_inv s"
  shows "\<exists>t. backfill_entity_ids E s = (Inr (), t) \<and> backfilled E s t \<and> (\<forall>r \<in> set (db_notes t). settled E t r)"
proof -
  let ?rs = "filter (\<lambda>r. r_entity_id r = None) (db_notes s)"
  have "distinct (map r_id ?rs)" by (rule distinct_map_filter [OF store_invD(1) [OF inv]])
  moreover have "\<forall>r \<in> set ?rs. r \<in> set (db_notes s) \<and> r_entity_id r = None" by simp
  ultimately obtain t where t: "for_each (backfill_row E) (map item_of ?rs) s = (Inr (), t)" "backfilled E s t"
    "all_settled E (r_id ` set ?rs) t"
    using backfill_loop [OF inv, of ?rs E] by blast
  have "settled E t q" if "q \<in> set (db_notes t)" for q
    using backfilled_in [OF t(2) that] t(3) that by (auto simp: all_settled_def settled_def)
  with t(1,2) show ?thesis
    by (auto simp: backfill_entity_ids_def seq_sql_def query_def item_of_def [abs_def])
qed

lemma open_store_run:
  assumes inv: "store_inv s"
  shows "\<exists>v t u. open_store E dropped s = (Inr v, u) \<and> backfilled E s t \<and> db_notes u = db_notes t \<and>
    db_import u = db_import s \<and> store_inv u"
proof -
  obtain t where t: "backfill_entity_ids E s = (Inr (), t)" "backfilled E s t"
    using backfill_run [OF inv] by blast
  have "store_inv t" by (rule keepsD [OF keeps_backfill inv t(1)])
  note p = promote_run [OF this]
  let ?u = "snd (promote_entity_id_unique_index t)"
  have "\<exists>v. open_store E dropped s = (Inr v, ?u)"
    using t(1) p by (auto simp: open_store_def seq_sql_def ok_def notes_missing_embeddings_def query_def)
  moreover have "db_notes ?u = db_notes t" "db_import ?u = db_import t" using p by simp_all
  moreover have "db_import t = db_import s" using t(2) by (auto simp: backfilled_def)
  ultimately show ?thesis using t(2) keepsD [OF keeps_open_store inv] by metis
qed


text \<open>A store of an older version: two entries, the ids not filled in, the index not yet UNIQUE.\<close>

definition old_store :: store where
  "old_store = two_note_store\<lparr> db_notes := map (\<lambda>r. r\<lparr> r_entity_id := None \<rparr>) (db_notes two_note_store),
     db_unique := False, db_unique_marker := False \<rparr>"

lemma old_store_inv: "store_inv old_store"
proof -
  have "store_inv (map_rows (\<lambda>_. True) (\<lambda>r. r\<lparr> r_entity_id := None \<rparr>) two_note_store)"
    by (rule inv_map_rows [OF two_note_store_inv])
       (use store_invD [OF two_note_store_inv] in \<open>auto intro!: unique_index_map_rows simp: unique_index_def references_ok_def\<close>)
  then have "store_inv ((map_rows (\<lambda>_. True) (\<lambda>r. r\<lparr> r_entity_id := None \<rparr>) two_note_store)
      \<lparr> db_unique := False, db_unique_marker := False \<rparr>)"
    by (auto simp: store_inv_def unique_index_def edges_ok_def references_ok_def ids_def)
  then show ?thesis by (simp add: old_store_def map_rows_def)
qed


end
