(* ===== verification/MemoryEdges.thy ===== *)
theory MemoryEdges
  imports MemoryNotes
begin

text \<open>
  \<open>storage/memory/edges.rs\<close>: superseding an entry and the relationship edges.  \<open>supersede\<close> and
  \<open>add_note_superseding\<close> run between BEGIN and COMMIT or ROLLBACK and are instances of the
  \<open>transaction\<close> interface.
\<close>

section \<open>Operations\<close>

text \<open>The UPDATE both operations issue: only an active row changes.\<close>

definition archive_superseded :: "int \<Rightarrow> int \<Rightarrow> int \<Rightarrow> nat sql" where
  "archive_superseded now old_id new_id =
     update_superseded old_id (\<lambda>r. r_status r = active)
       (\<lambda>r. r\<lparr> r_status := archived,
               r_invalid_at := (case r_invalid_at r of None \<Rightarrow> Some now | Some t \<Rightarrow> Some t) \<rparr>)
       new_id"

definition add_note_superseding_body ::
    "hashing \<Rightarrow> int \<Rightarrow> string \<Rightarrow> string \<Rightarrow> string \<Rightarrow> string list \<Rightarrow> string list \<Rightarrow> int option \<Rightarrow> int \<Rightarrow>
       (int \<times> bool) sql" where
  "add_note_superseding_body E now kind title body tags linked_files valid_at supersedes_id =
     (let eid = entity_id E kind title body in
      seq_sql (try_sql (insert_note (\<lambda>i. (default_row now i)
          \<lparr> r_kind := kind, r_title := title, r_body := body,
            r_tags := Some (join_with [comma] tags),
            r_linked_files := Some (join_with [comma] linked_files),
            r_valid_at := valid_at, r_entity_id := Some eid \<rparr>)))
        (\<lambda>res. seq_sql (recover_from_entity_id_collision res eid tags linked_files)
          (\<lambda>(i, created).
             if i = supersedes_id then ok (i, created)
             else seq_sql (archive_superseded now supersedes_id i)
               (\<lambda>changed.
                  if changed = 0 then raise (NoActiveEntry supersedes_id)
                  else seq_sql (insert_edge i supersedes_id ''supersedes'' now)
                         (\<lambda>_. ok (i, created))))))"

definition add_note_superseding ::
    "hashing \<Rightarrow> int \<Rightarrow> string \<Rightarrow> string \<Rightarrow> string \<Rightarrow> string list \<Rightarrow> string list \<Rightarrow> int option \<Rightarrow> int \<Rightarrow>
       (int \<times> bool) sql" where
  "add_note_superseding E now kind title body tags linked_files valid_at supersedes_id =
     in_transaction
       (add_note_superseding_body E now kind title body tags linked_files valid_at supersedes_id)"

definition supersede_body :: "int \<Rightarrow> int \<Rightarrow> int \<Rightarrow> bool sql" where
  "supersede_body now old_id new_id =
     seq_sql (archive_superseded now old_id new_id)
       (\<lambda>changed.
          if 0 < changed then
            seq_sql (insert_edge new_id old_id ''supersedes'' now) (\<lambda>_. ok True)
          else ok False)"

definition supersede :: "int \<Rightarrow> int \<Rightarrow> int \<Rightarrow> bool sql" where
  "supersede now old_id new_id = in_transaction (supersede_body now old_id new_id)"

definition delete_edges_for_note :: "int \<Rightarrow> unit sql" where
  "delete_edges_for_note note_id =
     (\<lambda>s. (Inr (), s\<lparr> db_edges := filter (\<lambda>e. \<not> (e_from e = note_id \<or> e_to e = note_id)) (db_edges s) \<rparr>))"

definition add_edge :: "int \<Rightarrow> int \<Rightarrow> int \<Rightarrow> string \<Rightarrow> unit sql" where
  "add_edge now from_id to_id kind =
     (if kind \<notin> set edge_kinds then raise (InvalidEdgeKind kind)
      else insert_edge from_id to_id kind now)"

definition get_edges :: "int \<Rightarrow> (memory_edge list \<times> memory_edge list) sql" where
  "get_edges i =
     query (\<lambda>s. (sort_key e_created_at (filter (\<lambda>e. e_from e = i) (db_edges s)),
                 sort_key e_created_at (filter (\<lambda>e. e_to e = i) (db_edges s))))"

section \<open>The invariant\<close>

lemma keeps_archive_superseded [inv_intros]: "keeps (archive_superseded now old new)"
  unfolding archive_superseded_def by (rule keeps_update_superseded) simp_all

lemma keeps_superseding_body:
  "keeps (add_note_superseding_body E now k t b tags files va old)"
  unfolding add_note_superseding_body_def Let_def
  by (intro keeps_intros keeps_recover)
     (auto intro!: keeps_intros keeps_archive_superseded simp: default_row_def)

lemma keeps_supersede_body: "keeps (supersede_body now old new)"
  unfolding supersede_body_def by (auto intro!: keeps_intros keeps_archive_superseded)

lemma keeps_delete_edges_for_note [inv_intros]: "keeps (delete_edges_for_note i)"
  unfolding keeps_def delete_edges_for_note_def
  by (auto simp: store_inv_def unique_index_def edges_ok_def references_ok_def ids_def
      intro: distinct_map_filter)

lemma keeps_add_edge [inv_intros]: "keeps (add_edge now from to kind)"
  unfolding add_edge_def by (auto intro!: keeps_intros)

interpretation superseding_tx: transaction
  "add_note_superseding E now k t b tags files va old"
  "add_note_superseding_body E now k t b tags files va old" store_inv
  for E now k t b tags files va old
proof
  fix s v s'
  assume "store_inv s" "add_note_superseding_body E now k t b tags files va old s = (Inr v, s')"
  then show "store_inv s'"
    by (rule keepsD [OF keeps_superseding_body])
qed (simp add: add_note_superseding_def)

interpretation supersede_tx: transaction "supersede now old new" "supersede_body now old new" store_inv
  for now old new
proof
  fix s v s'
  assume "store_inv s" "supersede_body now old new s = (Inr v, s')"
  then show "store_inv s'"
    by (rule keepsD [OF keeps_supersede_body])
qed (simp add: supersede_def)

lemma keeps_supersede [inv_intros]: "keeps (supersede now old new)"
  unfolding keeps_def using supersede_tx.oper_inv by blast

lemma keeps_add_note_superseding [inv_intros]:
  "keeps (add_note_superseding E now k t b tags files va old)"
  unfolding keeps_def using superseding_tx.oper_inv by blast

section \<open>What superseding does\<close>

definition superseded_row :: "int \<Rightarrow> int \<Rightarrow> row \<Rightarrow> row" where
  "superseded_row now new_id r =
     r\<lparr> r_status := archived,
        r_invalid_at := (case r_invalid_at r of None \<Rightarrow> Some now | Some t \<Rightarrow> Some t),
        r_superseded_by := Some new_id \<rparr>"

lemma superseded_row_id [simp]: "r_id (superseded_row now new r) = r_id r"
  by (simp add: superseded_row_def)

lemma archive_superseded_run:
  assumes inv: "store_inv s" and fk: "db_fk s \<longrightarrow> new \<in> ids s"
  shows "archive_superseded now old new s =
    (Inr (case row_of s old of Some r \<Rightarrow> if r_status r = active then 1 else 0 | None \<Rightarrow> 0),
     map_rows (\<lambda>r. r_id r = old \<and> r_status r = active) (superseded_row now new) s)"
proof -
  let ?p = "\<lambda>r. r_id r = old \<and> r_status r = active"
  have len: "length (filter ?p (db_notes s)) =
      (case row_of s old of Some r \<Rightarrow> if r_status r = active then 1 else 0 | None \<Rightarrow> 0)"
  proof (cases "row_of s old")
    case None
    then have "filter ?p (db_notes s) = []" by (auto simp: row_of_None ids_def filter_empty_conv)
    with None show ?thesis by simp
  next
    case (Some r)
    have f: "filter (\<lambda>q. r_id q = old) (db_notes s) = [r]"
      using filter_key_single [OF store_invD(1) [OF inv]] row_of_in [OF Some] by metis
    have "filter ?p (db_notes s) = filter (\<lambda>r. r_status r = active) (filter (\<lambda>q. r_id q = old) (db_notes s))"
      by (simp add: conj_commute)
    with f Some show ?thesis by simp
  qed
  have "map_rows ?p (superseded_row now new) s =
      map_rows ?p (\<lambda>r. (r\<lparr> r_status := archived,
        r_invalid_at := (case r_invalid_at r of None \<Rightarrow> Some now | Some t \<Rightarrow> Some t) \<rparr>)
        \<lparr> r_superseded_by := Some new \<rparr>) s"
    by (simp add: superseded_row_def [abs_def])
  with fk len show ?thesis
    by (auto simp: archive_superseded_def update_superseded_def update_notes_def)
qed

lemma insert_edge_run:
  assumes "store_inv s" "from \<in> ids s" "to \<in> ids s" "kind \<in> set edge_kinds"
  obtains t where "insert_edge from to kind now s = (Inr (), t)" "db_notes t = db_notes s"
    "(from, to, kind) \<in> edge_key ` set (db_edges t)"
proof (cases "(from, to, kind) \<in> edge_key ` set (db_edges s)")
  case True
  with that [of s] show thesis by (simp add: insert_edge_def)
next
  case False
  with assms that show thesis by (simp add: insert_edge_def edge_key_def)
qed

lemma row_of_notes: "db_notes t = db_notes s \<Longrightarrow> row_of t = row_of s"
  by (simp add: row_of_def [abs_def] fun_eq_iff)

lemma row_of_superseded:
  "row_of (map_rows (\<lambda>r. r_id r = old \<and> r_status r = active) (superseded_row now new) s) i =
     map_option (\<lambda>r. if r_id r = old \<and> r_status r = active then superseded_row now new r else r) (row_of s i)"
  by (rule row_of_map_rows) simp

text \<open>The shared tail: archive the active row \<open>old\<close>, then link it.\<close>

lemma supersede_tail:
  assumes inv: "store_inv s" and q: "row_of s old = Some q" "r_status q = active" and new: "new \<in> ids s"
  obtains t where
    "seq_sql (archive_superseded now old new)
       (\<lambda>changed. if changed = 0 then raise e
          else seq_sql (insert_edge new old ''supersedes'' now) (\<lambda>_. ok v)) s = (Inr v, t)"
    "seq_sql (archive_superseded now old new)
       (\<lambda>changed. if 0 < changed then seq_sql (insert_edge new old ''supersedes'' now) (\<lambda>_. ok w)
          else ok w') s = (Inr w, t)"
    "row_of t old = Some (superseded_row now new q)"
    "\<forall>j. j \<noteq> old \<longrightarrow> row_of t j = row_of s j"
    "(new, old, ''supersedes'') \<in> edge_key ` set (db_edges t)" "ids t = ids s"
proof -
  let ?u = "map_rows (\<lambda>r. r_id r = old \<and> r_status r = active) (superseded_row now new) s"
  have run: "archive_superseded now old new s = (Inr 1, ?u)"
    using archive_superseded_run [OF inv, of new now old] q new by simp
  have "store_inv ?u" by (rule keepsD [OF keeps_archive_superseded inv run])
  moreover have u: "ids ?u = ids s" by (rule ids_map_rows) simp
  moreover have "old \<in> ids s" using row_of_None [of s old] q(1) by auto
  ultimately obtain t where t: "insert_edge new old ''supersedes'' now ?u = (Inr (), t)"
    "db_notes t = db_notes ?u" "(new, old, ''supersedes'') \<in> edge_key ` set (db_edges t)"
    using insert_edge_run [of ?u new old "''supersedes''" now] new by (auto simp: edge_kinds_def)
  have rt: "row_of t j = map_option (\<lambda>r. if r_id r = old \<and> r_status r = active then superseded_row now new r else r) (row_of s j)" for j
    unfolding row_of_notes [OF t(2)] by (rule row_of_superseded)
  have other: "\<forall>j. j \<noteq> old \<longrightarrow> row_of t j = row_of s j"
  proof (intro allI impI)
    fix j assume "j \<noteq> old"
    show "row_of t j = row_of s j"
    proof (cases "row_of s j")
      case (Some r)
      with row_of_in [OF Some] \<open>j \<noteq> old\<close> rt [of j] show ?thesis by simp
    qed (use rt [of j] in simp)
  qed
  have own: "row_of t old = Some (superseded_row now new q)"
    using q row_of_in [OF q(1)] rt [of old] by simp
  have it: "ids t = ids s" using t(2) u by (simp add: ids_def)
  show thesis
    by (rule that [OF _ _ own other t(3) it]) (use run t(1) in \<open>simp_all add: seq_sql_def ok_def\<close>)
qed

text \<open>Superseding an active entry archives it, dates and links it and records the edge; on an
  entry that is absent or archived it changes nothing and says so; a successor that does not exist is
  a foreign key error that rolls back.  No other row is touched.\<close>

lemma supersede_spec:
  assumes inv: "store_inv s" and new: "new \<in> ids s"
  shows "\<exists>b s'. supersede now old new s = (Inr b, s') \<and>
    (if b
     then \<exists>q. row_of s old = Some q \<and> r_status q = active \<and>
            row_of s' old = Some (superseded_row now new q) \<and>
            (\<forall>j. j \<noteq> old \<longrightarrow> row_of s' j = row_of s j) \<and>
            (new, old, ''supersedes'') \<in> edge_key ` set (db_edges s')
     else s' = s \<and> (\<forall>q. row_of s old = Some q \<longrightarrow> r_status q \<noteq> active))"
proof (cases "\<exists>q. row_of s old = Some q \<and> r_status q = active")
  case True
  then obtain q where q: "row_of s old = Some q" "r_status q = active" by blast
  obtain t' where t: "seq_sql (archive_superseded now old new)
       (\<lambda>changed. if changed = 0 then raise (NoActiveEntry old)
          else seq_sql (insert_edge new old ''supersedes'' now) (\<lambda>_. ok ())) s = (Inr (), t')"
    "seq_sql (archive_superseded now old new)
       (\<lambda>changed. if 0 < changed then seq_sql (insert_edge new old ''supersedes'' now) (\<lambda>_. ok True)
          else ok False) s = (Inr True, t')"
    "row_of t' old = Some (superseded_row now new q)"
    "\<forall>j. j \<noteq> old \<longrightarrow> row_of t' j = row_of s j"
    "(new, old, ''supersedes'') \<in> edge_key ` set (db_edges t')" "ids t' = ids s"
    by (rule supersede_tail [OF inv q new, where now = now and e = "NoActiveEntry old" and v = "()"
          and w = True and w' = False])
  have "supersede now old new s = (Inr True, t')"
    unfolding supersede_tx.commit supersede_body_def by (rule t(2))
  with q t(3-5) show ?thesis by (intro exI [of _ True] exI [of _ t']) simp
next
  case False
  let ?u = "map_rows (\<lambda>r. r_id r = old \<and> r_status r = active) (superseded_row now new) s"
  have none: "r_status r \<noteq> active" if "r \<in> set (db_notes s)" "r_id r = old" for r
    using False row_of_iff [OF inv, of old r] that by blast
  then have "?u = s" by (intro map_rows_id) auto
  moreover have "archive_superseded now old new s = (Inr 0, ?u)"
    using archive_superseded_run [OF inv, of new now old] new False by (auto split: option.splits)
  ultimately have "supersede_body now old new s = (Inr False, s)"
    by (simp add: supersede_body_def seq_sql_def ok_def)
  with False show ?thesis
    by (intro exI [of _ False] exI [of _ s]) (simp add: supersede_tx.commit)
qed

text \<open>The insert, then what is left of \<open>add_note_superseding\<close> once the row is there.\<close>

definition superseding_tail :: "int \<Rightarrow> int \<Rightarrow> int \<Rightarrow> bool \<Rightarrow> (int \<times> bool) sql" where
  "superseding_tail now old i created =
     (if i = old then ok (i, created)
      else seq_sql (archive_superseded now old i)
        (\<lambda>changed. if changed = 0 then raise (NoActiveEntry old)
           else seq_sql (insert_edge i old ''supersedes'' now) (\<lambda>_. ok (i, created))))"

lemma superseding_body_run:
  assumes inv: "store_inv s"
  obtains i created t where "i \<in> ids t" "store_inv t"
    "add_note_superseding_body E now kind title body tags files valid_at old s = superseding_tail now old i created t"
proof -
  let ?eid = "entity_id E kind title body"
  let ?mk = "\<lambda>i. (default_row now i)\<lparr> r_kind := kind, r_title := title, r_body := body,
      r_tags := Some (join_with [comma] tags), r_linked_files := Some (join_with [comma] files),
      r_valid_at := valid_at, r_entity_id := Some ?eid \<rparr>"
  let ?ins = "seq_sql (try_sql (insert_note ?mk))
      (\<lambda>res. recover_from_entity_id_collision res ?eid tags files)"
  have "\<exists>i created t. ?ins s = (Inr (i, created), t) \<and> i \<in> ids t"
  proof (rule insert_or_merge [OF inv, of ?mk ?eid tags files])
    fix r assume "r \<in> set (db_notes s)"
      "?ins s = (Inr (r_id r, False), map_rows (\<lambda>q. r_id q = r_id r) (merged_row tags files) s)"
    moreover have "ids (map_rows (\<lambda>q. r_id q = r_id r) (merged_row tags files) s) = ids s"
      by (rule ids_map_rows) simp
    ultimately show ?thesis by (auto simp: ids_def)
  qed (auto simp: default_row_def)
  then obtain i created t where ins: "?ins s = (Inr (i, created), t)" and it: "i \<in> ids t" by blast
  have "keeps ?ins"
    by (intro keeps_intros keeps_recover) (simp_all add: default_row_def)
  then have "store_inv t" using inv ins by (rule keepsD)
  moreover have "add_note_superseding_body E now kind title body tags files valid_at old s = superseding_tail now old i created t"
    using ins unfolding add_note_superseding_body_def superseding_tail_def Let_def seq_sql_def
    by (auto split: prod.splits sum.splits)
  ultimately show thesis using that it by blast
qed

lemma superseding_tail_run:
  assumes inv: "store_inv t" and it: "i \<in> ids t" and ne: "i \<noteq> old"
    and run: "superseding_tail now old i created t = (r, t')"
  shows "case r of
      Inl e \<Rightarrow> e = NoActiveEntry old
    | Inr v \<Rightarrow> v = (i, created) \<and> i \<in> ids t' \<and> (\<exists>q. row_of t' old = Some q \<and> r_status q = archived \<and>
        r_superseded_by q = Some i) \<and> (i, old, ''supersedes'') \<in> edge_key ` set (db_edges t')"
proof (cases "\<exists>q. row_of t old = Some q \<and> r_status q = active")
  case True
  then obtain q where q: "row_of t old = Some q" "r_status q = active" by blast
  obtain u where u: "seq_sql (archive_superseded now old i)
       (\<lambda>changed. if changed = 0 then raise (NoActiveEntry old)
          else seq_sql (insert_edge i old ''supersedes'' now) (\<lambda>_. ok (i, created))) t = (Inr (i, created), u)"
    "seq_sql (archive_superseded now old i)
       (\<lambda>changed. if 0 < changed then seq_sql (insert_edge i old ''supersedes'' now) (\<lambda>_. ok True)
          else ok False) t = (Inr True, u)"
    "row_of u old = Some (superseded_row now i q)"
    "\<forall>j. j \<noteq> old \<longrightarrow> row_of u j = row_of t j"
    "(i, old, ''supersedes'') \<in> edge_key ` set (db_edges u)" "ids u = ids t"
    by (rule supersede_tail [OF inv q it, where now = now and e = "NoActiveEntry old"
          and v = "(i, created)" and w = True and w' = False])
  from run u(1) ne have "r = Inr (i, created)" "t' = u" by (simp_all add: superseding_tail_def)
  with u(3,5,6) it show ?thesis by (simp add: superseded_row_def)
next
  case False
  with ne have "superseding_tail now old i created t = (Inl (NoActiveEntry old), snd (archive_superseded now old i t))"
    using archive_superseded_run [OF inv, of i now old] it
    by (auto simp: superseding_tail_def seq_sql_def raise_def split: option.splits)
  with run show ?thesis by auto
qed


lemma supersede_spec_witness:
  "\<exists>s'. supersede 9 1 2 two_note_store = (Inr True, s') \<and>
     (2, 1, ''supersedes'') \<in> edge_key ` set (db_edges s')"
proof -
  have "fst (supersede 9 1 2 two_note_store) = Inr True" by code_simp
  with supersede_spec [OF two_note_store_inv two_note_store_ids(2), of 9 1] show ?thesis by auto
qed


text \<open>Superseding an id that is on no row is not always refused: where it is the id the new row
  is about to get, the insert succeeds and the call reports a new entry.\<close>
lemma superseding_the_next_rowid:
  "ids empty_store = {} \<and>
   fst (add_note_superseding plain_hashing 9 ''note'' ''a'' ''b'' [] [] None 1 empty_store) = Inr (1, True)"
proof
  show "ids empty_store = {}" by (simp add: ids_def empty_store_def)
  show "fst (add_note_superseding plain_hashing 9 ''note'' ''a'' ''b'' [] [] None 1 empty_store) = Inr (1, True)"
    by code_simp
qed

end
