(* ===== verification/Dedupe.thy ===== *)
theory Dedupe
  imports EntityIdMigration MemoryEdges
begin

text \<open>
  \<open>storage/memory/dedupe/mod.rs\<close>: collapsing the rows of \<open>memory.db\<close> that record one entry.  The
  survivor of a group is its earliest row.  The run plans on a snapshot of all notes, writes in three
  phases inside one transaction, and its dry run shares the code that counts.
\<close>

section \<open>Operations\<close>

definition rowid :: "mem_note \<Rightarrow> int sql" where
  "rowid n = (case numeric_note_id (n_id n) of Inl e \<Rightarrow> raise (BadRowId e) | Inr i \<Rightarrow> ok i)"

definition superseded_rowid :: "mem_note \<Rightarrow> int option" where
  "superseded_rowid n = Option.bind (n_superseded_by n) as_i64"

record dedupe_summary =
  total_notes :: nat
  duplicate_groups :: nat
  rows_collapsed :: nat
  tags_merged :: nat
  linked_files_merged :: nat
  supersede_edges_repointed :: nat
  supersede_self_edges_dropped :: nat

fun map_sql :: "('a \<Rightarrow> 'b sql) \<Rightarrow> 'a list \<Rightarrow> 'b list sql" where
  "map_sql f [] = ok []"
| "map_sql f (x # xs) = seq_sql (f x) (\<lambda>y. seq_sql (map_sql f xs) (\<lambda>ys. ok (y # ys)))"

text \<open>The members of \<open>xss\<close> that \<open>held\<close> lacks, each once, in the order they are met.\<close>

definition new_members :: "string list \<Rightarrow> string list list \<Rightarrow> string list" where
  "new_members held xss =
     fold (\<lambda>xs acc. fold (\<lambda>x acc. if x \<notin> set held \<and> x \<notin> set acc then acc @ [x] else acc) xs acc)
       xss []"

definition redirect :: "(int \<rightharpoonup> int) \<Rightarrow> int \<Rightarrow> int \<Rightarrow> int option" where
  "redirect loser_to_survivor survivor_id v =
     (let target = (case loser_to_survivor v of Some t \<Rightarrow> t | None \<Rightarrow> v) in
      if target = survivor_id then None else Some target)"

definition collapse_group_survivor ::
    "mem_note list \<Rightarrow> (int \<rightharpoonup> int) \<Rightarrow> dedupe_summary \<Rightarrow> bool \<Rightarrow> dedupe_summary sql" where
  "collapse_group_survivor copies loser_to_survivor summary apply =
     (let survivor = hd copies; losers = tl copies in
      seq_sql (rowid survivor)
        (\<lambda>survivor_id.
           let new_tags = new_members (n_tags survivor) (map n_tags losers);
               new_files = new_members (n_linked_files survivor) (map n_linked_files losers);
               any_archived = (\<exists>n \<in> set copies. n_status n = archived);
               resolve = redirect loser_to_survivor survivor_id;
               external_values = filter_map (\<lambda>n. Option.bind (superseded_rowid n) resolve) copies;
               resolved = (case external_values of [] \<Rightarrow> None | v # _ \<Rightarrow> Some v);
               self_dropped = (map_option resolve (superseded_rowid survivor) = Some None);
               summary' = summary
                 \<lparr> tags_merged := tags_merged summary + length new_tags,
                   linked_files_merged := linked_files_merged summary + length new_files,
                   supersede_self_edges_dropped :=
                     supersede_self_edges_dropped summary + (if self_dropped then 1 else 0),
                   rows_collapsed := rows_collapsed summary + length losers \<rparr>
           in
           if \<not> apply then ok summary'
           else
             seq_sql (if new_tags \<noteq> [] \<or> new_files \<noteq> []
                      then union_tags_and_files survivor_id new_tags new_files else ok False)
             (\<lambda>_. seq_sql (if any_archived then archive survivor_id else ok False)
             (\<lambda>_. seq_sql
                 (case resolved of
                    Some val \<Rightarrow>
                      if superseded_rowid survivor \<noteq> Some val then set_superseded_by survivor_id val
                      else ok ()
                  | None \<Rightarrow>
                      if n_superseded_by survivor \<noteq> None then clear_superseded_by survivor_id
                      else ok ())
             (\<lambda>_. ok summary')))))"

fun collapse_groups ::
    "mem_note list list \<Rightarrow> (int \<rightharpoonup> int) \<Rightarrow> dedupe_summary \<Rightarrow> bool \<Rightarrow> dedupe_summary sql" where
  "collapse_groups [] l2s summary apply = ok summary"
| "collapse_groups (g # gs) l2s summary apply =
     seq_sql (collapse_group_survivor g l2s summary apply)
       (\<lambda>summary'. collapse_groups gs l2s summary' apply)"

fun rewrite_cross_references ::
    "mem_note list \<Rightarrow> int set \<Rightarrow> (int \<rightharpoonup> int) \<Rightarrow> (int \<rightharpoonup> nat) \<Rightarrow> dedupe_summary \<Rightarrow> bool \<Rightarrow>
       dedupe_summary sql" where
  "rewrite_cross_references [] survivor_ids l2s note_group_of summary apply = ok summary"
| "rewrite_cross_references (note # rest) survivor_ids l2s note_group_of summary apply =
     seq_sql (rowid note)
       (\<lambda>note_id.
          if note_id \<in> survivor_ids then
            rewrite_cross_references rest survivor_ids l2s note_group_of summary apply
          else
            (case superseded_rowid note of
               None \<Rightarrow> rewrite_cross_references rest survivor_ids l2s note_group_of summary apply
             | Some v \<Rightarrow>
                 (case l2s v of
                    None \<Rightarrow> rewrite_cross_references rest survivor_ids l2s note_group_of summary apply
                  | Some target \<Rightarrow>
                      (let same_group = (case (note_group_of note_id, note_group_of v) of
                              (Some a, Some b) \<Rightarrow> a = b | _ \<Rightarrow> False);
                           summary' = (if same_group then summary
                             else summary\<lparr> supersede_edges_repointed := supersede_edges_repointed summary + 1 \<rparr>)
                       in
                       seq_sql (if apply then set_superseded_by note_id target else ok ())
                         (\<lambda>_. rewrite_cross_references rest survivor_ids l2s note_group_of summary' apply)))))"

definition delete_loser :: "mem_note \<Rightarrow> unit sql" where
  "delete_loser loser =
     seq_sql (rowid loser)
       (\<lambda>loser_id. seq_sql (delete_note_embedding loser_id)
          (\<lambda>_. seq_sql (delete_edges_for_note loser_id) (\<lambda>_. delete_note loser_id)))"

definition duplicate_groups_of :: "hashing \<Rightarrow> mem_note list \<Rightarrow> mem_note list list" where
  "duplicate_groups_of E all = filter (\<lambda>g. 1 < length g) (map snd (group_by (note_entity_id E) all))"

text \<open>Entries inserted one after another into a hash map.\<close>

definition insert_all :: "('k \<times> 'v) list \<Rightarrow> 'k \<rightharpoonup> 'v" where
  "insert_all kvs = fold (\<lambda>(k, v) m. m(k \<mapsto> v)) kvs Map.empty"

definition loser_pairs :: "int list list \<Rightarrow> (int \<times> int) list" where
  "loser_pairs groups = concat (map (\<lambda>g. map (\<lambda>l. (l, hd g)) (tl g)) groups)"

definition group_pairs :: "int list list \<Rightarrow> (int \<times> nat) list" where
  "group_pairs groups = concat (map (\<lambda>(gi, g). map (\<lambda>i. (i, gi)) g) (enumerate 0 groups))"

definition dedupe_phases ::
    "mem_note list \<Rightarrow> mem_note list list \<Rightarrow> int list list \<Rightarrow> dedupe_summary \<Rightarrow> bool \<Rightarrow> dedupe_summary sql" where
  "dedupe_phases all groups gids summary apply =
     (let l2s = insert_all (loser_pairs gids); note_group_of = insert_all (group_pairs gids);
          survivor_ids = set (map hd gids) in
      seq_sql (collapse_groups groups l2s summary apply)
        (\<lambda>summary'. seq_sql (rewrite_cross_references all survivor_ids l2s note_group_of summary' apply)
          (\<lambda>summary''.
             if apply then
               seq_sql (for_each (\<lambda>g. for_each delete_loser (tl g)) groups) (\<lambda>_. ok summary'')
             else ok summary'')))"

definition dedupe_entity_ids :: "hashing \<Rightarrow> bool \<Rightarrow> dedupe_summary sql" where
  "dedupe_entity_ids E dry_run =
     seq_sql all_notes_for_dedup
       (\<lambda>all.
          let groups = duplicate_groups_of E all;
              summary = \<lparr> total_notes = length all, duplicate_groups = length groups,
                rows_collapsed = 0, tags_merged = 0, linked_files_merged = 0,
                supersede_edges_repointed = 0, supersede_self_edges_dropped = 0 \<rparr>
          in
          if groups = [] then ok summary
          else seq_sql (map_sql (map_sql rowid) groups)
            (\<lambda>gids.
               if dry_run then dedupe_phases all groups gids summary False
               else in_transaction (dedupe_phases all groups gids summary True)))"

section \<open>Runs over rows of the store\<close>

text \<open>The ids a row of SQLite can hold.\<close>

definition row_i64 :: "row \<Rightarrow> bool" where
  "row_i64 r \<longleftrightarrow> in_i64 (r_id r) \<and> (\<forall>t. r_superseded_by r = Some t \<longrightarrow> in_i64 t)"

lemma rowid_row: "row_i64 r \<Longrightarrow> rowid (row_to_note r) = ok (r_id r)"
  by (simp add: rowid_def row_to_note_def row_i64_def numeric_note_id_from_i64)

lemma superseded_rowid_row: "row_i64 r \<Longrightarrow> superseded_rowid (row_to_note r) = r_superseded_by r"
  by (cases "r_superseded_by r") (simp_all add: superseded_rowid_def row_to_note_def row_i64_def)

lemma row_to_note_simps:
  "n_tags (row_to_note r) = split_csv (r_tags r)" "n_linked_files (row_to_note r) = split_csv (r_linked_files r)"
  "n_status (row_to_note r) = r_status r" "n_superseded_by (row_to_note r) = None \<longleftrightarrow> r_superseded_by r = None"
  "note_entity_id E (row_to_note r) = entity_of E r"
  by (simp_all add: row_to_note_def note_entity_id_def entity_of_def)

definition group_target :: "(int \<rightharpoonup> int) \<Rightarrow> row list \<Rightarrow> int option" where
  "group_target l2s rows =
     (case filter_map (\<lambda>r. Option.bind (r_superseded_by r) (redirect l2s (r_id (hd rows)))) rows of
        [] \<Rightarrow> None | v # _ \<Rightarrow> Some v)"

definition group_tags :: "row list \<Rightarrow> string list" where
  "group_tags rows = new_members (split_csv (r_tags (hd rows))) (map (\<lambda>r. split_csv (r_tags r)) (tl rows))"

definition group_files :: "row list \<Rightarrow> string list" where
  "group_files rows =
     new_members (split_csv (r_linked_files (hd rows))) (map (\<lambda>r. split_csv (r_linked_files r)) (tl rows))"

definition collapsed_row :: "(int \<rightharpoonup> int) \<Rightarrow> row list \<Rightarrow> row \<Rightarrow> row" where
  "collapsed_row l2s rows r =
     (let q = (if group_tags rows \<noteq> [] \<or> group_files rows \<noteq> []
               then merged_row (group_tags rows) (group_files rows) r else r) in
      q\<lparr> r_status := (if (\<exists>x \<in> set rows. r_status x = archived) \<and> r_status r = active then archived
                      else r_status r),
         r_superseded_by := group_target l2s rows \<rparr>)"

definition collapse_counts :: "(int \<rightharpoonup> int) \<Rightarrow> row list \<Rightarrow> dedupe_summary \<Rightarrow> dedupe_summary" where
  "collapse_counts l2s rows summary =
     summary\<lparr> tags_merged := tags_merged summary + length (group_tags rows),
       linked_files_merged := linked_files_merged summary + length (group_files rows),
       supersede_self_edges_dropped := supersede_self_edges_dropped summary +
         (if map_option (redirect l2s (r_id (hd rows))) (r_superseded_by (hd rows)) = Some None then 1 else 0),
       rows_collapsed := rows_collapsed summary + length (tl rows) \<rparr>"

lemma collapsed_row_simps [simp]:
  "r_id (collapsed_row l2s rows r) = r_id r" "r_kind (collapsed_row l2s rows r) = r_kind r"
  "r_title (collapsed_row l2s rows r) = r_title r" "r_body (collapsed_row l2s rows r) = r_body r"
  "r_created_at (collapsed_row l2s rows r) = r_created_at r"
  "r_superseded_by (collapsed_row l2s rows r) = group_target l2s rows"
  by (simp_all add: collapsed_row_def Let_def)

lemma filter_map_map: "filter_map f (map g xs) = filter_map (\<lambda>x. f (g x)) xs"
  by (induction xs) (auto split: option.split)

lemma filter_map_cong: "(\<And>x. x \<in> set xs \<Longrightarrow> f x = g x) \<Longrightarrow> filter_map f xs = filter_map g xs"
  by (induction xs) (auto split: option.split)

lemma set_superseded_run:
  assumes "db_fk u \<longrightarrow> v \<in> ids u"
  shows "set_superseded_by i v u = (Inr (), map_rows (\<lambda>r. r_id r = i) (\<lambda>r. r\<lparr> r_superseded_by := Some v \<rparr>) u)"
  using assms by (auto simp: set_superseded_by_def seq_sql_def update_superseded_def update_notes_def ok_def)

lemma superseded_self: "r\<lparr> r_superseded_by := r_superseded_by r \<rparr> = r"
  by (cases r) simp

lemma collapse_run:
  assumes inv: "store_inv u" and ne: "rows \<noteq> []" and i64: "\<forall>x \<in> set rows. row_i64 x"
    and r: "row_of u (r_id (hd rows)) = Some (hd rows)"
    and fk: "\<And>v. db_fk u \<Longrightarrow> group_target l2s rows = Some v \<Longrightarrow> v \<in> ids u"
  shows "collapse_group_survivor (map row_to_note rows) l2s summary apply u =
    (Inr (collapse_counts l2s rows summary),
     if apply then map_rows (\<lambda>q. r_id q = r_id (hd rows)) (collapsed_row l2s rows) u else u)"
proof -
  let ?r = "hd rows"
  let ?p = "\<lambda>q. r_id q = r_id ?r"
  let ?new = "group_tags rows \<noteq> [] \<or> group_files rows \<noteq> []"
  let ?any = "\<exists>x \<in> set rows. r_status x = archived"
  let ?G = "\<lambda>q. arch_row ?any (if ?new then merged_row (group_tags rows) (group_files rows) q else q)"
  have rin: "?r \<in> set rows" using ne by simp
  have only: "q = ?r" if "q \<in> set (db_notes u)" "?p q" for q
    using same_id_same_row [OF inv that(1) _ that(2)] row_of_in [OF r] by simp
  have hdn: "hd (map row_to_note rows) = row_to_note ?r" "tl (map row_to_note rows) = map row_to_note (tl rows)"
    using ne by (simp_all add: hd_map map_tl)
  have rid: "rowid (row_to_note ?r) = ok (r_id ?r)" "superseded_rowid (row_to_note ?r) = r_superseded_by ?r"
    using i64 rin rowid_row superseded_rowid_row by auto
  have ext: "filter_map (\<lambda>n. Option.bind (superseded_rowid n) (redirect l2s (r_id ?r))) (map row_to_note rows) =
      filter_map (\<lambda>x. Option.bind (r_superseded_by x) (redirect l2s (r_id ?r))) rows"
    unfolding filter_map_map by (rule filter_map_cong) (use i64 superseded_rowid_row in auto)
  have tags: "new_members (n_tags (row_to_note ?r)) (map n_tags (map row_to_note (tl rows))) = group_tags rows"
    "new_members (n_linked_files (row_to_note ?r)) (map n_linked_files (map row_to_note (tl rows))) = group_files rows"
    by (simp_all add: group_tags_def group_files_def row_to_note_simps o_def)
  have anyn: "(\<exists>n \<in> set (map row_to_note rows). n_status n = archived) \<longleftrightarrow> ?any"
    by (simp add: row_to_note_simps)
  obtain w1 where s1: "(if ?new then union_tags_and_files (r_id ?r) (group_tags rows) (group_files rows) else ok False) u =
      (Inr w1, map_rows ?p (\<lambda>q. if ?new then merged_row (group_tags rows) (group_files rows) q else q) u)" (is "_ = (_, ?u1)")
  proof (cases ?new)
    case True
    then show ?thesis using union_tags_and_files_run [OF inv r, of "group_tags rows" "group_files rows"] that by auto
  next
    case False
    then have "map_rows ?p (\<lambda>q. if ?new then merged_row (group_tags rows) (group_files rows) q else q) u = u"
      by (intro map_rows_id) simp
    with False that [of False] show ?thesis by (simp add: ok_def)
  qed
  have s2: "\<exists>w2. (if ?any then archive (r_id ?r) else ok False) ?u1 = (Inr w2, map_rows ?p ?G u)"
  proof (cases ?any)
    case True
    then show ?thesis by (simp add: archive_run map_rows_map_rows)
  next
    case False
    then show ?thesis by (intro exI [of _ False]) (simp add: ok_def arch_row_def)
  qed
  then obtain w2 where s2: "(if ?any then archive (r_id ?r) else ok False) ?u1 = (Inr w2, map_rows ?p ?G u)" by blast
  let ?u2 = "map_rows ?p ?G u"
  let ?t = "group_target l2s rows"
  have sup: "r_superseded_by (?G q) = r_superseded_by q" for q by (simp add: arch_row_def)
  have g: "(?G q)\<lparr> r_superseded_by := ?t \<rparr> = collapsed_row l2s rows q" for q
    by (cases "?any \<and> r_status q = active"; cases ?new) (simp_all add: collapsed_row_def Let_def arch_row_def)
  have fin: "map_rows ?p (\<lambda>q. (?G q)\<lparr> r_superseded_by := ?t \<rparr>) u = map_rows ?p (collapsed_row l2s rows) u"
    unfolding g ..
  have same: "?u2 = map_rows ?p (\<lambda>q. (?G q)\<lparr> r_superseded_by := ?t \<rparr>) u" if "r_superseded_by ?r = ?t"
  proof (rule map_rows_cong)
    fix q assume q: "q \<in> set (db_notes u)" "?p q"
    have e: "r_superseded_by (?G q) = ?t" unfolding sup only [OF q] by (rule that)
    have "(?G q)\<lparr> r_superseded_by := r_superseded_by (?G q) \<rparr> = ?G q" by (rule superseded_self)
    then show "?G q = (?G q)\<lparr> r_superseded_by := ?t \<rparr>" unfolding e by (rule sym)
  qed
  have ids2: "ids ?u2 = ids u" by (rule ids_map_rows) simp
  have s3: "(case ?t of
        Some val \<Rightarrow> if r_superseded_by ?r \<noteq> Some val then set_superseded_by (r_id ?r) val else ok ()
      | None \<Rightarrow> if r_superseded_by ?r \<noteq> None then clear_superseded_by (r_id ?r) else ok ()) ?u2 =
      (Inr (), map_rows ?p (collapsed_row l2s rows) u)"
  proof (cases ?t)
    case None
    then show ?thesis
      using same fin by (auto simp: clear_superseded_by_def map_rows_map_rows ok_def)
  next
    case (Some val)
    have "db_fk ?u2 \<longrightarrow> val \<in> ids ?u2" using fk Some ids2 by simp
    from set_superseded_run [OF this, of "r_id ?r"] Some same fin show ?thesis
      by (auto simp: map_rows_map_rows ok_def)
  qed
  have t: "(case filter_map (\<lambda>x. Option.bind (r_superseded_by x) (redirect l2s (r_id ?r))) rows of
      [] \<Rightarrow> None | v # _ \<Rightarrow> Some v) = ?t"
    by (simp add: group_target_def)
  show ?thesis
    unfolding collapse_group_survivor_def Let_def hdn rid(1) seq_sql_ok [OF sql_run(1)] tags anyn ext t rid(2)
      row_to_note_simps(4)
    using s1 s2 s3
    by (auto simp: seq_sql_def ok_def collapse_counts_def)
qed

lemma keeps_collapse: "keeps (collapse_group_survivor g l2s summary apply)"
  unfolding collapse_group_survivor_def Let_def rowid_def
  by (auto intro!: keeps_intros keeps_union keeps_archive keeps_set_superseded_by keeps_clear_superseded_by
      split: sum.split option.split list.split)

definition collapse_all :: "(int \<rightharpoonup> int) \<Rightarrow> row list list \<Rightarrow> store \<Rightarrow> store" where
  "collapse_all l2s gs u =
     fold (\<lambda>g. map_rows (\<lambda>q. r_id q = r_id (hd g)) (collapsed_row l2s g)) gs u"

lemma collapse_all_simps [simp]:
  "collapse_all l2s [] u = u"
  "collapse_all l2s (g # gs) u =
     collapse_all l2s gs (map_rows (\<lambda>q. r_id q = r_id (hd g)) (collapsed_row l2s g) u)"
  by (simp_all add: collapse_all_def)

lemma collapse_all_frame:
  "ids (collapse_all l2s gs u) = ids u \<and> db_fk (collapse_all l2s gs u) = db_fk u \<and>
   map r_id (db_notes (collapse_all l2s gs u)) = map r_id (db_notes u)"
proof (induction gs arbitrary: u)
  case (Cons g gs)
  let ?u = "map_rows (\<lambda>q. r_id q = r_id (hd g)) (collapsed_row l2s g) u"
  have "ids ?u = ids u" by (rule ids_map_rows) simp
  moreover have "map r_id (db_notes ?u) = map r_id (db_notes u)"
    unfolding map_rows_simps by (rule map_id_map_rows) simp
  ultimately show ?case using Cons.IH [of ?u] by simp
qed simp

lemma row_of_update:
  "(\<And>r. r_id (f r) = r_id r) \<Longrightarrow>
     row_of (map_rows (\<lambda>q. r_id q = j) f u) i = (if i = j then map_option f (row_of u i) else row_of u i)"
proof -
  assume f: "\<And>r. r_id (f r) = r_id r"
  have "row_of (map_rows (\<lambda>q. r_id q = j) f u) i = map_option (\<lambda>r. if r_id r = j then f r else r) (row_of u i)"
    by (rule row_of_map_rows) (rule f)
  then show ?thesis using row_of_in [of u i] by (cases "row_of u i") auto
qed

lemma row_of_collapse_all:
  assumes "distinct (map (\<lambda>g. r_id (hd g)) gs)"
  shows "row_of (collapse_all l2s gs u) i =
    map_option (\<lambda>r. case find (\<lambda>g. r_id (hd g) = i) gs of Some g \<Rightarrow> collapsed_row l2s g r | None \<Rightarrow> r) (row_of u i)"
  using assms
proof (induction gs arbitrary: u)
  case Nil
  then show ?case by (simp add: option.map_ident)
next
  case (Cons g gs)
  let ?u = "map_rows (\<lambda>q. r_id q = r_id (hd g)) (collapsed_row l2s g) u"
  have u: "row_of ?u i = (if i = r_id (hd g) then map_option (collapsed_row l2s g) (row_of u i) else row_of u i)"
    by (rule row_of_update) simp
  have n: "find (\<lambda>h. r_id (hd h) = r_id (hd g)) gs = None"
    using Cons.prems by (auto simp: find_None_iff image_iff)
  from Cons.IH [of ?u] Cons.prems show ?case
    by (auto simp: u n option.map_comp o_def option.map_ident)
qed

lemma collapse_groups_run:
  assumes "store_inv u" "distinct (map (\<lambda>g. r_id (hd g)) gs)"
    "\<forall>g \<in> set gs. g \<noteq> [] \<and> (\<forall>x \<in> set g. row_i64 x) \<and> row_of u (r_id (hd g)) = Some (hd g) \<and>
       (\<forall>v. db_fk u \<longrightarrow> group_target l2s g = Some v \<longrightarrow> v \<in> ids u)"
  shows "collapse_groups (map (map row_to_note) gs) l2s summary ap u =
      (Inr (fold (collapse_counts l2s) gs summary), if ap then collapse_all l2s gs u else u) \<and>
    store_inv (collapse_all l2s gs u)"
  using assms
proof (induction gs arbitrary: u summary)
  case Nil
  then show ?case by (simp add: ok_def)
next
  case (Cons g gs)
  let ?u = "map_rows (\<lambda>q. r_id q = r_id (hd g)) (collapsed_row l2s g) u"
  have run: "collapse_group_survivor (map row_to_note g) l2s summary ap u =
      (Inr (collapse_counts l2s g summary), if ap then ?u else u)" for ap
    by (rule collapse_run) (use Cons.prems in auto)
  have inv: "store_inv ?u"
    by (rule keepsD [OF keeps_collapse Cons.prems(1), of "map row_to_note g" l2s summary True]) (simp add: run)
  have ids: "ids ?u = ids u" by (rule ids_map_rows) simp
  have ro: "row_of ?u i = (if i = r_id (hd g) then map_option (collapsed_row l2s g) (row_of u i) else row_of u i)" for i
    by (rule row_of_update) simp
  have "\<forall>h \<in> set gs. h \<noteq> [] \<and> (\<forall>x \<in> set h. row_i64 x) \<and> row_of ?u (r_id (hd h)) = Some (hd h) \<and>
       (\<forall>v. db_fk ?u \<longrightarrow> group_target l2s h = Some v \<longrightarrow> v \<in> ids ?u)"
    using Cons.prems(2,3) ids ro by (auto simp: image_iff)
  note IH = Cons.IH [OF inv _ this] Cons.IH [OF Cons.prems(1)]
  show ?case using IH Cons.prems run by (cases ap) (auto simp: seq_sql_def)
qed

text \<open>The second phase.\<close>

definition rewrite_to :: "int set \<Rightarrow> (int \<rightharpoonup> int) \<Rightarrow> row \<Rightarrow> int option" where
  "rewrite_to survivors l2s x = (if r_id x \<in> survivors then None else Option.bind (r_superseded_by x) l2s)"

definition rewrite_counts ::
    "int set \<Rightarrow> (int \<rightharpoonup> int) \<Rightarrow> (int \<rightharpoonup> nat) \<Rightarrow> row \<Rightarrow> dedupe_summary \<Rightarrow> dedupe_summary" where
  "rewrite_counts survivors l2s group_of x summary =
     (case rewrite_to survivors l2s x of
        None \<Rightarrow> summary
      | Some _ \<Rightarrow>
          if (case (group_of (r_id x), Option.bind (r_superseded_by x) group_of) of
                (Some a, Some b) \<Rightarrow> a = b | _ \<Rightarrow> False) then summary
          else summary\<lparr> supersede_edges_repointed := supersede_edges_repointed summary + 1 \<rparr>)"

definition rewrite_step :: "int set \<Rightarrow> (int \<rightharpoonup> int) \<Rightarrow> row \<Rightarrow> store \<Rightarrow> store" where
  "rewrite_step survivors l2s x u =
     (case rewrite_to survivors l2s x of
        None \<Rightarrow> u
      | Some t \<Rightarrow> map_rows (\<lambda>r. r_id r = r_id x) (\<lambda>r. r\<lparr> r_superseded_by := Some t \<rparr>) u)"

lemma rewrite_step_frame:
  "ids (rewrite_step S l2s x u) = ids u \<and> db_fk (rewrite_step S l2s x u) = db_fk u \<and>
   map r_id (db_notes (rewrite_step S l2s x u)) = map r_id (db_notes u)"
proof (cases "rewrite_to S l2s x")
  case (Some t)
  let ?f = "\<lambda>r. r\<lparr> r_superseded_by := Some t \<rparr>"
  have "ids (map_rows (\<lambda>r. r_id r = r_id x) ?f u) = ids u" by (rule ids_map_rows) simp
  moreover have "map r_id (db_notes (map_rows (\<lambda>r. r_id r = r_id x) ?f u)) = map r_id (db_notes u)"
    unfolding map_rows_simps by (rule map_id_map_rows) simp
  ultimately show ?thesis using Some by (simp add: rewrite_step_def)
qed (simp add: rewrite_step_def)

lemma rewrite_all_frame:
  "ids (fold (rewrite_step S l2s) xs u) = ids u \<and> db_fk (fold (rewrite_step S l2s) xs u) = db_fk u \<and>
   map r_id (db_notes (fold (rewrite_step S l2s) xs u)) = map r_id (db_notes u)"
  by (induction xs arbitrary: u) (simp_all add: rewrite_step_frame)

lemma row_of_rewrite_step:
  "row_of (rewrite_step S l2s x u) i =
     (if i = r_id x then map_option (\<lambda>r. case rewrite_to S l2s x of None \<Rightarrow> r | Some t \<Rightarrow> r\<lparr> r_superseded_by := Some t \<rparr>) (row_of u i)
      else row_of u i)"
proof (cases "rewrite_to S l2s x")
  case (Some t)
  have "row_of (map_rows (\<lambda>q. r_id q = r_id x) (\<lambda>r. r\<lparr> r_superseded_by := Some t \<rparr>) u) i =
      (if i = r_id x then map_option (\<lambda>r. r\<lparr> r_superseded_by := Some t \<rparr>) (row_of u i) else row_of u i)"
    by (rule row_of_update) simp
  with Some show ?thesis by (simp add: rewrite_step_def)
qed (simp add: rewrite_step_def option.map_ident)

lemma row_of_rewrite_all:
  assumes "distinct (map r_id xs)"
  shows "row_of (fold (rewrite_step S l2s) xs u) i =
    map_option (\<lambda>r. case Option.bind (find (\<lambda>x. r_id x = i) xs) (rewrite_to S l2s) of
      None \<Rightarrow> r | Some t \<Rightarrow> r\<lparr> r_superseded_by := Some t \<rparr>) (row_of u i)"
  using assms
proof (induction xs arbitrary: u)
  case Nil
  then show ?case by (simp add: option.map_ident)
next
  case (Cons x xs)
  have n: "find (\<lambda>y. r_id y = r_id x) xs = None"
    using Cons.prems by (auto simp: find_None_iff image_iff)
  from Cons.IH [of "rewrite_step S l2s x u"] Cons.prems show ?case
    by (auto simp: row_of_rewrite_step n option.map_comp o_def option.map_ident)
qed

lemma rewrite_run:
  assumes "store_inv u" "\<forall>x \<in> set xs. row_i64 x" "\<forall>t. t \<in> ran l2s \<longrightarrow> t \<in> ids u"
  shows "rewrite_cross_references (map row_to_note xs) S l2s group_of summary ap u =
      (Inr (fold (rewrite_counts S l2s group_of) xs summary),
       if ap then fold (rewrite_step S l2s) xs u else u) \<and>
    store_inv (fold (rewrite_step S l2s) xs u)"
  using assms
proof (induction xs arbitrary: u summary)
  case Nil
  then show ?case by (simp add: ok_def)
next
  case (Cons x xs)
  let ?u = "rewrite_step S l2s x u"
  have ru: "rowid (row_to_note x) = ok (r_id x)" "superseded_rowid (row_to_note x) = r_superseded_by x"
    using Cons.prems(2) rowid_row superseded_rowid_row by auto
  have step: "set_superseded_by (r_id x) t u = (Inr (), ?u)" if "rewrite_to S l2s x = Some t" for t
  proof -
    from that have "t \<in> ran l2s"
      by (auto simp: rewrite_to_def ran_def bind_eq_Some_conv split: if_splits)
    with Cons.prems(3) have "db_fk u \<longrightarrow> t \<in> ids u" by blast
    from set_superseded_run [OF this] that show ?thesis by (simp add: rewrite_step_def)
  qed
  have inv: "store_inv ?u"
  proof (cases "rewrite_to S l2s x")
    case None
    with Cons.prems(1) show ?thesis by (simp add: rewrite_step_def)
  next
    case (Some t)
    show ?thesis by (rule keepsD [OF keeps_set_superseded_by Cons.prems(1) step [OF Some]])
  qed
  have ids: "ids ?u = ids u" using rewrite_step_frame by blast
  note IHu = Cons.IH [OF Cons.prems(1)] and IHs = Cons.IH [OF inv]
  have "rewrite_cross_references (map row_to_note (x # xs)) S l2s group_of summary ap u =
      rewrite_cross_references (map row_to_note xs) S l2s group_of (rewrite_counts S l2s group_of x summary) ap
        (if ap then ?u else u)"
  proof (cases "rewrite_to S l2s x")
    case None
    then show ?thesis
      by (auto simp: ru seq_sql_ok [OF sql_run(1)] rewrite_counts_def rewrite_step_def rewrite_to_def
          split: option.split if_splits)
  next
    case (Some t)
    then obtain v where v: "r_superseded_by x = Some v" "l2s v = Some t" "r_id x \<notin> S"
      by (auto simp: rewrite_to_def bind_eq_Some_conv split: if_splits)
    have "seq_sql (if ap then set_superseded_by (r_id x) t else ok ()) f u = f () (if ap then ?u else u)"
      for f :: "unit \<Rightarrow> dedupe_summary sql"
      using step [OF Some] by (simp add: seq_sql_def ok_def)
    with v Some show ?thesis
      by (simp add: ru seq_sql_ok [OF sql_run(1)] rewrite_counts_def Let_def)
  qed
  then show ?case using IHu IHs Cons.prems ids by (cases ap) simp_all
qed

text \<open>The third phase.\<close>

lemma seq_assoc: "seq_sql (seq_sql m f) g = seq_sql m (\<lambda>x. seq_sql (f x) g)"
  by (auto simp: seq_sql_def fun_eq_iff split: prod.split sum.split)

lemma seq_ok_left: "seq_sql (ok x) f = f x"
  by (simp add: seq_sql_def ok_def fun_eq_iff)

lemma for_each_append: "for_each f (xs @ ys) = seq_sql (for_each f xs) (\<lambda>_. for_each f ys)"
  by (induction xs) (simp_all add: seq_ok_left seq_assoc)

lemma for_each_nested: "for_each (\<lambda>g. for_each f (h g)) gs = for_each f (concat (map h gs))"
  by (induction gs) (simp_all add: for_each_append)

lemma delete_loser_run:
  assumes "row_i64 x" "\<forall>r \<in> set (db_notes u). r_superseded_by r \<noteq> Some (r_id x)"
  obtains t where "delete_loser (row_to_note x) u = (Inr (), t)"
    "db_notes t = filter (\<lambda>r. r_id r \<noteq> r_id x) (db_notes u)"
  using assms(2) that
  by (auto simp: delete_loser_def rowid_row [OF assms(1)] seq_sql_def ok_def delete_note_embedding_def
      delete_edges_for_note_def delete_note_def delete_row_def)

lemma deletes_run:
  assumes "\<forall>x \<in> set xs. row_i64 x"
    "\<forall>r \<in> set (db_notes u). \<forall>x \<in> set xs. r_superseded_by r \<noteq> Some (r_id x)"
  shows "\<exists>t. for_each delete_loser (map row_to_note xs) u = (Inr (), t) \<and>
    db_notes t = filter (\<lambda>r. r_id r \<notin> r_id ` set xs) (db_notes u)"
  using assms
proof (induction xs arbitrary: u)
  case Nil
  then show ?case by (simp add: ok_def)
next
  case (Cons x xs)
  from Cons.prems obtain t where t: "delete_loser (row_to_note x) u = (Inr (), t)"
    "db_notes t = filter (\<lambda>r. r_id r \<noteq> r_id x) (db_notes u)"
    using delete_loser_run [of x u] by auto
  have "\<forall>r \<in> set (db_notes t). \<forall>x \<in> set xs. r_superseded_by r \<noteq> Some (r_id x)"
    using Cons.prems(2) t(2) by auto
  with Cons.IH [of t] Cons.prems(1) t show ?case by (auto simp: seq_sql_def conj_commute)
qed

end
