(* ===== verification/DedupeSpec.thy ===== *)
theory DedupeSpec
  imports Dedupe
begin

text \<open>
  What a dedupe run does to the store: the groups the code finds among the rows, the store after the
  three phases as a function of the store before, and the properties of the rows that are left.
\<close>

section \<open>The groups of a store\<close>

lemma push_group_map: "push_group k (g x) (map (\<lambda>(k, ys). (k, map g ys)) gs) = map (\<lambda>(k, ys). (k, map g ys)) (push_group k x gs)"
  by (induction gs) auto

lemma group_by_map: "group_by f (map g xs) = map (\<lambda>(k, ys). (k, map g ys)) (group_by (\<lambda>x. f (g x)) xs)"
  by (induction xs rule: rev_induct) (simp_all add: group_by_snoc push_group_map)

definition dup_rows :: "hashing \<Rightarrow> store \<Rightarrow> row list list" where
  "dup_rows E s = filter (\<lambda>g. 1 < length g) (map snd (group_by (entity_of E) (dedup_rows s)))"

lemma duplicate_groups_rows:
  "duplicate_groups_of E (map row_to_note (dedup_rows s)) = map (map row_to_note) (dup_rows E s)"
proof -
  have "group_by (note_entity_id E) (map row_to_note (dedup_rows s)) =
      map (\<lambda>(k, ys). (k, map row_to_note ys)) (group_by (entity_of E) (dedup_rows s))"
    unfolding group_by_map row_to_note_simps ..
  then have "map snd (group_by (note_entity_id E) (map row_to_note (dedup_rows s))) =
      map (map row_to_note) (map snd (group_by (entity_of E) (dedup_rows s)))"
    by (simp add: case_prod_beta o_def)
  then show ?thesis by (simp add: duplicate_groups_of_def dup_rows_def filter_map o_def)
qed

lemma set_dedup_rows [simp]: "set (dedup_rows s) = set (db_notes s)"
  by (simp add: dedup_rows_def)

lemma distinct_dedup_rows: "store_inv s \<Longrightarrow> distinct (map r_id (dedup_rows s))"
proof -
  assume "store_inv s"
  from store_invD(1) [OF this] have "distinct (map r_id (db_notes s))" .
  moreover have "mset (map r_id (dedup_rows s)) = mset (map r_id (db_notes s))"
    by (simp add: dedup_rows_def)
  ultimately show ?thesis by (metis mset_eq_imp_distinct_iff)
qed

lemma dup_rowsD:
  assumes "g \<in> set (dup_rows E s)"
  shows "g = filter (\<lambda>r. entity_of E r = entity_of E (hd g)) (dedup_rows s)" "1 < length g" "g \<noteq> []"
    "hd g \<in> set g" "set g \<subseteq> set (db_notes s)" "\<And>r. r \<in> set g \<Longrightarrow> entity_of E r = entity_of E (hd g)"
proof -
  from assms obtain e where e: "(e, g) \<in> set (group_by (entity_of E) (dedup_rows s))" and l: "1 < length g"
    by (auto simp: dup_rows_def)
  from group_by_member [OF e] have g: "g = filter (\<lambda>r. entity_of E r = e) (dedup_rows s)" "g \<noteq> []" by auto
  have h: "hd g \<in> set g" using g(2) by (rule hd_in_set)
  then have "entity_of E (hd g) = e" using g(1) by auto
  with g l h show "g = filter (\<lambda>r. entity_of E r = entity_of E (hd g)) (dedup_rows s)" "1 < length g" "g \<noteq> []"
    "hd g \<in> set g" "set g \<subseteq> set (db_notes s)" "\<And>r. r \<in> set g \<Longrightarrow> entity_of E r = entity_of E (hd g)"
    by auto
qed

lemma dup_rowsI:
  assumes "r \<in> set (db_notes s)" "1 < length (filter (\<lambda>q. entity_of E q = entity_of E r) (dedup_rows s))"
  shows "filter (\<lambda>q. entity_of E q = entity_of E r) (dedup_rows s) \<in> set (dup_rows E s)"
  using group_by_filter_in [of r "dedup_rows s" "entity_of E"] assms by (force simp: dup_rows_def)

lemma dup_rows_same:
  "g \<in> set (dup_rows E s) \<Longrightarrow> h \<in> set (dup_rows E s) \<Longrightarrow> entity_of E (hd g) = entity_of E (hd h) \<Longrightarrow> g = h"
  using dup_rowsD(1) by metis

lemma dup_rows_heads:
  assumes inv: "store_inv s"
  shows "distinct (map (\<lambda>g. r_id (hd g)) (dup_rows E s))"
proof -
  have "distinct (map snd (group_by (entity_of E) (dedup_rows s)))"
    unfolding distinct_map
  proof
    show "distinct (group_by (entity_of E) (dedup_rows s))"
      using group_by_distinct [of "entity_of E" "dedup_rows s"] by (simp add: distinct_map)
    show "inj_on snd (set (group_by (entity_of E) (dedup_rows s)))"
    proof (rule inj_onI)
      fix p q assume p: "p \<in> set (group_by (entity_of E) (dedup_rows s))"
        and q: "q \<in> set (group_by (entity_of E) (dedup_rows s))" and e: "snd p = snd q"
      have p': "snd p = filter (\<lambda>x. entity_of E x = fst p) (dedup_rows s)" "snd p \<noteq> []"
        using group_by_member [of "fst p" "snd p" "entity_of E" "dedup_rows s"] p
        unfolding prod.collapse by blast+
      have q': "snd q = filter (\<lambda>x. entity_of E x = fst q) (dedup_rows s)"
        using group_by_member [of "fst q" "snd q" "entity_of E" "dedup_rows s"] q
        unfolding prod.collapse by blast
      from p'(2) have h: "hd (snd p) \<in> set (snd p)" by simp
      have "entity_of E (hd (snd p)) = fst p" using h unfolding p'(1) by auto
      moreover have "entity_of E (hd (snd p)) = fst q" using h unfolding e q' by auto
      ultimately show "p = q" using e by (auto simp: prod_eq_iff)
    qed
  qed
  then have "distinct (dup_rows E s)" by (simp add: dup_rows_def)
  moreover have "inj_on (\<lambda>g. r_id (hd g)) (set (dup_rows E s))"
  proof (rule inj_onI)
    fix g h assume g: "g \<in> set (dup_rows E s)" and h: "h \<in> set (dup_rows E s)" and i: "r_id (hd g) = r_id (hd h)"
    have "hd g \<in> set (db_notes s)" "hd h \<in> set (db_notes s)"
      using dup_rowsD(4,5) [OF g] dup_rowsD(4,5) [OF h] by auto
    from same_id_same_row [OF inv this i] show "g = h" using dup_rows_same [OF g h] by simp
  qed
  ultimately show ?thesis by (simp add: distinct_map)
qed

lemma insert_all_eq: "insert_all kvs = map_of (rev kvs)"
proof -
  have "fold (\<lambda>(k, v) m. m(k \<mapsto> v)) kvs m = m ++ map_of (rev kvs)" for m :: "'a \<rightharpoonup> 'b"
    by (induction kvs arbitrary: m) (auto simp: map_add_def fun_eq_iff split: option.split)
  from this [of Map.empty] show ?thesis by (simp add: insert_all_def)
qed

lemma insert_all_Some: "insert_all kvs k = Some v \<Longrightarrow> (k, v) \<in> set kvs"
  unfolding insert_all_eq using map_of_SomeD by fastforce

lemma insert_all_None: "insert_all kvs k = None \<longleftrightarrow> k \<notin> fst ` set kvs"
  unfolding insert_all_eq by (simp add: map_of_eq_None_iff)

definition survivor_map :: "hashing \<Rightarrow> store \<Rightarrow> int \<rightharpoonup> int" where
  "survivor_map E s = insert_all (loser_pairs (map (map r_id) (dup_rows E s)))"

definition loser_rows :: "hashing \<Rightarrow> store \<Rightarrow> row list" where
  "loser_rows E s = concat (map tl (dup_rows E s))"

lemma loser_pairs_in:
  assumes "\<forall>g \<in> set gs. g \<noteq> []"
  shows "(v, t) \<in> set (loser_pairs (map (map r_id) gs)) \<longleftrightarrow> (\<exists>g \<in> set gs. v \<in> r_id ` set (tl g) \<and> t = r_id (hd g))"
proof -
  have "set (map (\<lambda>l. (l, hd (map r_id g))) (tl (map r_id g))) = {(v, t). v \<in> r_id ` set (tl g) \<and> t = r_id (hd g)}"
    if "g \<in> set gs" for g
    using assms that by (cases g) auto
  then show ?thesis by (simp add: loser_pairs_def)
qed

lemma survivor_map_Some:
  assumes "survivor_map E s v = Some t"
  shows "\<exists>g \<in> set (dup_rows E s). v \<in> r_id ` set (tl g) \<and> t = r_id (hd g)"
proof -
  have "\<forall>g \<in> set (dup_rows E s). g \<noteq> []" by (auto dest: dup_rowsD(3))
  from loser_pairs_in [OF this] insert_all_Some [OF assms [unfolded survivor_map_def]] show ?thesis by simp
qed

lemma survivor_map_None: "survivor_map E s v = None \<longleftrightarrow> v \<notin> r_id ` set (loser_rows E s)"
proof -
  have "v \<in> fst ` set (loser_pairs (map (map r_id) (dup_rows E s))) \<longleftrightarrow> (\<exists>g \<in> set (dup_rows E s). v \<in> r_id ` set (tl g))"
  proof -
    have "\<forall>g \<in> set (dup_rows E s). g \<noteq> []" by (auto dest: dup_rowsD(3))
    from loser_pairs_in [OF this, of v] show ?thesis unfolding fst_eq_Domain Domain_iff by blast
  qed
  then show ?thesis by (auto simp: survivor_map_def insert_all_None loser_rows_def)
qed

lemma loser_row_group:
  assumes inv: "store_inv s" and r: "r \<in> set (db_notes s)"
  shows "r_id r \<in> r_id ` set (loser_rows E s) \<longleftrightarrow>
    (let g = filter (\<lambda>q. entity_of E q = entity_of E r) (dedup_rows s) in 1 < length g \<and> r \<in> set (tl g))"
proof
  assume "r_id r \<in> r_id ` set (loser_rows E s)"
  then obtain g x where g: "g \<in> set (dup_rows E s)" "x \<in> set (tl g)" "r_id r = r_id x"
    by (auto simp: loser_rows_def)
  have x: "x \<in> set g" using g(2) by (rule list.set_sel(2) [OF dup_rowsD(3) [OF g(1)]])
  then have "x \<in> set (db_notes s)" using dup_rowsD(5) [OF g(1)] by auto
  then have "x = r" using same_id_same_row [OF inv _ r] g(3) by simp
  with dup_rowsD(1,2) [OF g(1)] dup_rowsD(6) [OF g(1) x] g(2)
  show "let g = filter (\<lambda>q. entity_of E q = entity_of E r) (dedup_rows s) in 1 < length g \<and> r \<in> set (tl g)"
    by (simp add: Let_def)
next
  assume "let g = filter (\<lambda>q. entity_of E q = entity_of E r) (dedup_rows s) in 1 < length g \<and> r \<in> set (tl g)"
  then show "r_id r \<in> r_id ` set (loser_rows E s)"
    using dup_rowsI [OF r, of E] by (auto simp: loser_rows_def Let_def)
qed

lemma head_not_loser:
  assumes inv: "store_inv s" and g: "g \<in> set (dup_rows E s)"
  shows "r_id (hd g) \<notin> r_id ` set (loser_rows E s)"
proof
  assume a: "r_id (hd g) \<in> r_id ` set (loser_rows E s)"
  have r: "hd g \<in> set (db_notes s)" using dup_rowsD(4,5) [OF g] by auto
  from a loser_row_group [OF inv r, of E] dup_rowsD(1) [OF g] have "hd g \<in> set (tl g)"
    by (simp add: Let_def)
  moreover have "distinct (map r_id g)"
    using dup_rowsD(1) [OF g] distinct_map_filter [OF distinct_dedup_rows [OF inv]] by metis
  then have "hd g \<notin> set (tl g)" using dup_rowsD(3) [OF g] by (cases g) auto
  ultimately show False by simp
qed

lemma survivor_map_stable: "store_inv s \<Longrightarrow> survivor_map E s v = Some t \<Longrightarrow> survivor_map E s t = None"
  using survivor_map_Some [of E s v t] head_not_loser [of s] by (auto simp: survivor_map_None)

section \<open>The whole run\<close>

definition final_row :: "hashing \<Rightarrow> store \<Rightarrow> row \<Rightarrow> row" where
  "final_row E s r =
     (case find (\<lambda>g. r_id (hd g) = r_id r) (dup_rows E s) of
        Some g \<Rightarrow> collapsed_row (survivor_map E s) g r
      | None \<Rightarrow>
          (case Option.bind (r_superseded_by r) (survivor_map E s) of
             None \<Rightarrow> r
           | Some t \<Rightarrow> r\<lparr> r_superseded_by := Some t \<rparr>))"

lemma final_row_simps [simp]:
  "r_id (final_row E s r) = r_id r" "r_kind (final_row E s r) = r_kind r"
  "r_title (final_row E s r) = r_title r" "r_body (final_row E s r) = r_body r"
  "r_created_at (final_row E s r) = r_created_at r" "entity_of E (final_row E s r) = entity_of E r"
  by (auto simp: final_row_def entity_of_def split: option.split)

lemma group_target_not_loser:
  assumes inv: "store_inv s" and t: "group_target (survivor_map E s) g = Some v"
  shows "survivor_map E s v = None"
proof -
  let ?h = "\<lambda>r :: row. Option.bind (r_superseded_by r) (redirect (survivor_map E s) (r_id (hd g)))"
  from t have "v \<in> set (filter_map ?h g)" by (auto simp: group_target_def split: list.splits)
  then obtain x where "?h x = Some v" unfolding set_filter_map by blast
  then obtain w where w: "redirect (survivor_map E s) (r_id (hd g)) w = Some v"
    by (auto simp: bind_eq_Some_conv)
  then show ?thesis
    using survivor_map_stable [OF inv] by (cases "survivor_map E s w") (auto simp: redirect_def Let_def split: if_splits)
qed

lemma final_row_not_loser:
  assumes "store_inv s" "r_superseded_by (final_row E s r) = Some v"
  shows "survivor_map E s v = None"
  using assms survivor_map_stable [OF assms(1)] group_target_not_loser [OF assms(1)]
  by (auto simp: final_row_def bind_eq_Some_conv split: option.splits)

lemma survivor_map_ids: "survivor_map E s v = Some t \<Longrightarrow> t \<in> ids s"
  using survivor_map_Some [of E s v t] dup_rowsD(4,5) by (fastforce simp: ids_def)

lemma group_target_ids:
  assumes ref: "references_ok s" and g: "g \<in> set (dup_rows E s)"
    and t: "group_target (survivor_map E s) g = Some v"
  shows "v \<in> ids s"
proof -
  let ?h = "\<lambda>r :: row. Option.bind (r_superseded_by r) (redirect (survivor_map E s) (r_id (hd g)))"
  from t have "v \<in> set (filter_map ?h g)" by (auto simp: group_target_def split: list.splits)
  then obtain x w where x: "x \<in> set g" "r_superseded_by x = Some w" "redirect (survivor_map E s) (r_id (hd g)) w = Some v"
    unfolding set_filter_map bind_eq_Some_conv by blast
  have "x \<in> set (db_notes s)" using x(1) dup_rowsD(5) [OF g] by auto
  with ref x(2) have "w \<in> ids s" by (auto simp: references_ok_def)
  with x(3) survivor_map_ids [of E s w] show ?thesis
    by (cases "survivor_map E s w") (auto simp: redirect_def Let_def split: if_splits)
qed

lemma map_sql_rowid: "\<forall>r \<in> set rows. row_i64 r \<Longrightarrow> map_sql rowid (map row_to_note rows) = ok (map r_id rows)"
  by (induction rows) (simp_all add: rowid_row seq_ok_left)

lemma map_sql_rowids:
  "\<forall>g \<in> set gs. \<forall>r \<in> set g. row_i64 r \<Longrightarrow>
     map_sql (map_sql rowid) (map (map row_to_note) gs) = ok (map (map r_id) gs)"
  by (induction gs) (simp_all add: map_sql_rowid seq_ok_left)

text \<open>What both kinds of run report.\<close>

definition final_counts :: "hashing \<Rightarrow> store \<Rightarrow> dedupe_summary \<Rightarrow> dedupe_summary" where
  "final_counts E s summary =
     fold (rewrite_counts (set (map hd (map (map r_id) (dup_rows E s)))) (survivor_map E s)
         (insert_all (group_pairs (map (map r_id) (dup_rows E s))))) (dedup_rows s)
       (fold (collapse_counts (survivor_map E s)) (dup_rows E s) summary)"

lemma phases_run:
  assumes inv: "store_inv s" and i64: "\<forall>r \<in> set (db_notes s). row_i64 r"
  shows "dedupe_phases (map row_to_note (dedup_rows s)) (map (map row_to_note) (dup_rows E s))
      (map (map r_id) (dup_rows E s)) summary False s = (Inr (final_counts E s summary), s)" (is ?dry)
    and "\<exists>t. dedupe_phases (map row_to_note (dedup_rows s)) (map (map row_to_note) (dup_rows E s))
      (map (map r_id) (dup_rows E s)) summary True s = (Inr (final_counts E s summary), t) \<and>
      db_notes t = map (final_row E s) (filter (\<lambda>r. r_id r \<notin> r_id ` set (loser_rows E s)) (db_notes s))" (is ?wet)
proof -
  let ?G = "dup_rows E s" and ?l = "survivor_map E s"
  let ?S = "set (map hd (map (map r_id) ?G))"
  let ?o = "insert_all (group_pairs (map (map r_id) ?G))"
  let ?c = "fold (collapse_counts ?l) ?G summary"
  have g64: "\<forall>g \<in> set ?G. \<forall>r \<in> set g. row_i64 r" using i64 dup_rowsD(5) by blast
  have rows: "\<forall>g \<in> set ?G. g \<noteq> [] \<and> (\<forall>x \<in> set g. row_i64 x) \<and> row_of s (r_id (hd g)) = Some (hd g) \<and>
       (\<forall>v. db_fk s \<longrightarrow> group_target ?l g = Some v \<longrightarrow> v \<in> ids s)"
  proof (intro ballI conjI allI impI)
    fix g assume g: "g \<in> set ?G"
    show "g \<noteq> []" by (rule dup_rowsD(3) [OF g])
    show "row_of s (r_id (hd g)) = Some (hd g)"
      using row_of_iff [OF inv] dup_rowsD(4,5) [OF g] by auto
    show "v \<in> ids s" if "db_fk s" "group_target ?l g = Some v" for v
      by (rule group_target_ids [OF store_invD(7) [OF inv that(1)] g that(2)])
  qed (use g64 in blast)
  note p1 = collapse_groups_run [OF inv dup_rows_heads [OF inv] rows]
  have S: "?S = (\<lambda>g. r_id (hd g)) ` set ?G"
    by (auto simp: hd_map dup_rowsD(3) image_image intro!: rev_image_eqI)
  have ran: "\<forall>t. t \<in> ran ?l \<longrightarrow> t \<in> ids s" using survivor_map_ids by (auto simp: ran_def)
  have d64: "\<forall>x \<in> set (dedup_rows s). row_i64 x" using i64 by simp
  have "rewrite_cross_references (map row_to_note (dedup_rows s)) ?S ?l ?o ?c False s = (Inr (final_counts E s summary), s)"
    using rewrite_run [OF inv d64 ran, of ?S ?o ?c False] by (simp add: final_counts_def)
  then show ?dry
    using p1 by (simp add: dedupe_phases_def survivor_map_def [symmetric] Let_def seq_sql_def ok_def)
  let ?u1 = "collapse_all ?l ?G s"
  let ?u = "fold (rewrite_step ?S ?l) (dedup_rows s) ?u1"
  have inv1: "store_inv ?u1" using p1 by blast
  have ran1: "\<forall>t. t \<in> ran ?l \<longrightarrow> t \<in> ids ?u1" using ran collapse_all_frame by metis
  have p2: "rewrite_cross_references (map row_to_note (dedup_rows s)) ?S ?l ?o ?c True ?u1 = (Inr (final_counts E s summary), ?u)"
    and invu: "store_inv ?u"
    using rewrite_run [OF inv1 d64 ran1, of ?S ?o ?c True] by (simp_all add: final_counts_def)
  have ru: "row_of ?u i = map_option (final_row E s) (row_of s i)" for i
  proof (cases "row_of s i")
    case None
    then show ?thesis
      by (simp add: row_of_rewrite_all [OF distinct_dedup_rows [OF inv]] row_of_collapse_all [OF dup_rows_heads [OF inv]])
  next
    case (Some r)
    from row_of_in [OF Some] have r: "r \<in> set (db_notes s)" "r_id r = i" by auto
    have f: "find (\<lambda>x. r_id x = i) (dedup_rows s) = Some r"
    proof (rule find_unique)
      show "y = r" if "y \<in> set (dedup_rows s)" "r_id y = i" for y
        using same_id_same_row [OF inv, of y r] that r by simp
    qed (use r in simp_all)
    have iS: "i \<in> ?S \<longleftrightarrow> find (\<lambda>g. r_id (hd g) = i) ?G \<noteq> None"
      unfolding S by (auto simp: find_None_iff)
    show ?thesis
      using Some r(2) iS
      by (auto simp: row_of_rewrite_all [OF distinct_dedup_rows [OF inv]] row_of_collapse_all [OF dup_rows_heads [OF inv]]
          f final_row_def rewrite_to_def split: option.splits)
  qed
  have ids: "map r_id (db_notes ?u) = map r_id (db_notes s)"
    using rewrite_all_frame [of ?S ?l "dedup_rows s" ?u1] collapse_all_frame [of ?l ?G s] by simp
  have notes_u: "db_notes ?u = map (final_row E s) (db_notes s)"
  proof (rule nth_equalityI)
    show len: "length (db_notes ?u) = length (map (final_row E s) (db_notes s))"
      using ids by (metis length_map)
    fix j assume j: "j < length (db_notes ?u)"
    with len have j': "j < length (db_notes s)" by simp
    have e: "r_id (db_notes ?u ! j) = r_id (db_notes s ! j)"
      using ids j j' by (metis nth_map)
    have "row_of ?u (r_id (db_notes ?u ! j)) = Some (db_notes ?u ! j)"
      using row_of_iff [OF invu] j by simp
    moreover have "row_of s (r_id (db_notes s ! j)) = Some (db_notes s ! j)"
      using row_of_iff [OF inv] j' by simp
    ultimately have "Some (db_notes ?u ! j) = map_option (final_row E s) (Some (db_notes s ! j))"
      using ru [of "r_id (db_notes s ! j)"] e by simp
    with j' show "db_notes ?u ! j = map (final_row E s) (db_notes s) ! j" by simp
  qed
  have l64: "\<forall>x \<in> set (loser_rows E s). row_i64 x"
  proof
    fix x assume "x \<in> set (loser_rows E s)"
    then obtain g where "g \<in> set ?G" "x \<in> set (tl g)" by (auto simp: loser_rows_def)
    with g64 dup_rowsD(3) show "row_i64 x" by (metis list.set_sel(2))
  qed
  have clean: "\<forall>r \<in> set (db_notes ?u). \<forall>x \<in> set (loser_rows E s). r_superseded_by r \<noteq> Some (r_id x)"
  proof (intro ballI notI)
    fix r x assume r: "r \<in> set (db_notes ?u)" and x: "x \<in> set (loser_rows E s)" and b: "r_superseded_by r = Some (r_id x)"
    from r obtain q where "r = final_row E s q" unfolding notes_u by auto
    with b have "survivor_map E s (r_id x) = None" using final_row_not_loser [OF inv] by simp
    with x show False by (simp add: survivor_map_None)
  qed
  from deletes_run [OF l64 clean] obtain t where t: "for_each delete_loser (map row_to_note (loser_rows E s)) ?u = (Inr (), t)"
    "db_notes t = filter (\<lambda>r. r_id r \<notin> r_id ` set (loser_rows E s)) (db_notes ?u)" by blast
  have flat: "for_each (\<lambda>g. for_each delete_loser (tl g)) (map (map row_to_note) ?G) =
      for_each delete_loser (map row_to_note (loser_rows E s))"
    by (simp add: for_each_nested [where h = tl] loser_rows_def map_concat map_tl o_def)
  have "dedupe_phases (map row_to_note (dedup_rows s)) (map (map row_to_note) ?G) (map (map r_id) ?G) summary True s =
      (Inr (final_counts E s summary), t)"
    using p1 p2 t(1) flat by (simp add: dedupe_phases_def survivor_map_def [symmetric] Let_def seq_sql_def ok_def)
  moreover have "db_notes t = map (final_row E s) (filter (\<lambda>r. r_id r \<notin> r_id ` set (loser_rows E s)) (db_notes s))"
    unfolding t(2) notes_u filter_map by (simp add: o_def)
  ultimately show ?wet by blast
qed

lemma keeps_map_sql: "(\<And>x. keeps (f x)) \<Longrightarrow> keeps (map_sql f xs)"
  by (induction xs) (auto intro!: keeps_intros)

lemma keeps_rowid: "keeps (rowid n)"
  unfolding rowid_def by (auto intro!: keeps_intros split: sum.split)

lemma keeps_rewrite: "keeps (rewrite_cross_references xs S l2s g summary ap)"
  by (induction xs arbitrary: summary)
     (auto intro!: keeps_intros keeps_rowid keeps_set_superseded_by simp: Let_def split: option.split)

lemma keeps_collapse_groups: "keeps (collapse_groups gs l2s summary ap)"
  by (induction gs arbitrary: summary) (auto intro!: keeps_intros keeps_collapse)

lemma keeps_delete_loser: "keeps (delete_loser n)"
  unfolding delete_loser_def
  by (intro keeps_seq keeps_rowid keeps_delete_note_embedding keeps_delete_edges_for_note keeps_delete_note)

lemma keeps_phases: "keeps (dedupe_phases all gs gids summary ap)"
  unfolding dedupe_phases_def Let_def
  by (auto intro!: keeps_intros keeps_collapse_groups keeps_rewrite keeps_delete_loser)

interpretation dedupe_tx: transaction
  "\<lambda>s. in_transaction (dedupe_phases all gs gids summary ap) s"
  "dedupe_phases all gs gids summary ap" store_inv
  for all gs gids summary ap
proof
  fix s v s'
  assume "store_inv s" "dedupe_phases all gs gids summary ap s = (Inr v, s')"
  then show "store_inv s'" by (rule keepsD [OF keeps_phases])
qed simp

lemma keeps_dedupe [inv_intros]: "keeps (dedupe_entity_ids E dry)"
  unfolding dedupe_entity_ids_def all_notes_for_dedup_def Let_def
  by (auto intro!: keeps_intros keeps_map_sql keeps_rowid keeps_phases)

lemma dedupe_run:
  assumes inv: "store_inv s" and i64: "\<forall>r \<in> set (db_notes s). row_i64 r"
  obtains summary t where "dedupe_entity_ids E False s = (Inr summary, t)"
    "dedupe_entity_ids E True s = (Inr summary, s)"
    "db_notes t = map (final_row E s) (filter (\<lambda>r. r_id r \<notin> r_id ` set (loser_rows E s)) (db_notes s))"
proof (cases "dup_rows E s = []")
  case True
  then have "map (final_row E s) (filter (\<lambda>r. r_id r \<notin> r_id ` set (loser_rows E s)) (db_notes s)) = db_notes s"
    by (auto simp: final_row_def survivor_map_def loser_rows_def loser_pairs_def insert_all_def
        intro!: map_idI split: option.split)
  moreover have "\<exists>summary. dedupe_entity_ids E dry s = (Inr summary, s)" for dry
    using True by (simp add: dedupe_entity_ids_def all_notes_for_dedup_def duplicate_groups_rows Let_def
        seq_sql_def query_def ok_def)
  moreover have "fst (dedupe_entity_ids E False s) = fst (dedupe_entity_ids E True s)"
    using True by (simp add: dedupe_entity_ids_def all_notes_for_dedup_def duplicate_groups_rows Let_def
        seq_sql_def query_def ok_def)
  ultimately show thesis using that by (metis fst_conv)
next
  case False
  let ?sum = "\<lparr> total_notes = length (dedup_rows s), duplicate_groups = length (dup_rows E s),
      rows_collapsed = 0, tags_merged = 0, linked_files_merged = 0,
      supersede_edges_repointed = 0, supersede_self_edges_dropped = 0 \<rparr>"
  have g64: "\<forall>g \<in> set (dup_rows E s). \<forall>r \<in> set g. row_i64 r" using i64 dup_rowsD(5) by blast
  have unf: "dedupe_entity_ids E dry s =
      (if dry then dedupe_phases (map row_to_note (dedup_rows s)) (map (map row_to_note) (dup_rows E s))
          (map (map r_id) (dup_rows E s)) ?sum False s
       else in_transaction (dedupe_phases (map row_to_note (dedup_rows s)) (map (map row_to_note) (dup_rows E s))
          (map (map r_id) (dup_rows E s)) ?sum True) s)" for dry
    using False by (simp add: dedupe_entity_ids_def all_notes_for_dedup_def duplicate_groups_rows Let_def
        seq_sql_ok [OF sql_run(3)] map_sql_rowids [OF g64] seq_ok_left)
  obtain t where t: "dedupe_phases (map row_to_note (dedup_rows s)) (map (map row_to_note) (dup_rows E s))
          (map (map r_id) (dup_rows E s)) ?sum True s = (Inr (final_counts E s ?sum), t)"
    "db_notes t = map (final_row E s) (filter (\<lambda>r. r_id r \<notin> r_id ` set (loser_rows E s)) (db_notes s))"
    using phases_run(2) [OF inv i64, of E ?sum] by blast
  show thesis
  proof (rule that)
    show "dedupe_entity_ids E False s = (Inr (final_counts E s ?sum), t)"
      using t(1) by (simp add: unf dedupe_tx.commit)
    show "dedupe_entity_ids E True s = (Inr (final_counts E s ?sum), s)"
      using phases_run(1) [OF inv i64, of E ?sum] by (simp add: unf)
  qed (rule t(2))
qed

section \<open>Which rows survive\<close>

text \<open>The earliest row of its entry.\<close>

definition earliest :: "hashing \<Rightarrow> store \<Rightarrow> row \<Rightarrow> bool" where
  "earliest E s r \<longleftrightarrow>
     (\<forall>q \<in> set (db_notes s). entity_of E q = entity_of E r \<longrightarrow>
        (r_created_at r, r_id r) \<le> (r_created_at q, r_id q))"

definition copies :: "hashing \<Rightarrow> store \<Rightarrow> row \<Rightarrow> row list" where
  "copies E s r = filter (\<lambda>q. entity_of E q = entity_of E r) (dedup_rows s)"

lemma copies_sorted: "sorted (map (\<lambda>r. (r_created_at r, r_id r)) (copies E s r))"
  unfolding copies_def dedup_rows_def filter_sort by (rule sorted_sort_key)

lemma copies_distinct: "store_inv s \<Longrightarrow> distinct (map r_id (copies E s r))"
  unfolding copies_def by (rule distinct_map_filter [OF distinct_dedup_rows])

lemma not_loser_iff:
  assumes inv: "store_inv s" and r: "r \<in> set (db_notes s)"
  shows "r_id r \<notin> r_id ` set (loser_rows E s) \<longleftrightarrow> earliest E s r"
proof -
  have rc: "r \<in> set (copies E s r)" using r by (simp add: copies_def)
  then obtain x xs where c: "copies E s r = x # xs" by (cases "copies E s r") auto
  have l: "r_id r \<in> r_id ` set (loser_rows E s) \<longleftrightarrow> r \<in> set xs"
    using loser_row_group [OF inv r, of E] c by (cases xs) (auto simp: copies_def Let_def)
  have le: "(r_created_at x, r_id x) \<le> (r_created_at q, r_id q)" if "q \<in> set (copies E s r)" for q
    using copies_sorted [of E s r] that unfolding c by auto
  have x: "x \<in> set (copies E s r)" using c by simp
  show ?thesis
  proof
    assume "r_id r \<notin> r_id ` set (loser_rows E s)"
    then have "r = x" using l rc c by auto
    with le show "earliest E s r" by (auto simp: earliest_def copies_def)
  next
    assume "earliest E s r"
    with x have "(r_created_at r, r_id r) \<le> (r_created_at x, r_id x)"
      by (auto simp: earliest_def copies_def)
    with le [OF rc] have "r_id r = r_id x" by (metis order_antisym prod.inject)
    then have "r_id r \<notin> r_id ` set xs" using copies_distinct [OF inv, of E r] unfolding c by simp
    then show "r_id r \<notin> r_id ` set (loser_rows E s)" using l by blast
  qed
qed

lemma earliest_exists:
  assumes r: "r \<in> set (db_notes s)"
  obtains x where "x \<in> set (db_notes s)" "entity_of E x = entity_of E r" "earliest E s x" "hd (copies E s r) = x"
proof -
  have rc: "r \<in> set (copies E s r)" using r by (simp add: copies_def)
  then obtain x xs where c: "copies E s r = x # xs" by (cases "copies E s r") auto
  have x: "x \<in> set (copies E s r)" using c by simp
  have le: "(r_created_at x, r_id x) \<le> (r_created_at q, r_id q)" if "q \<in> set (copies E s r)" for q
    using copies_sorted [of E s r] that unfolding c by auto
  have "entity_of E x = entity_of E r" using x by (simp add: copies_def)
  then have "earliest E s x"
    unfolding earliest_def using le by (simp add: copies_def del: less_eq_prod_def)
  with x c that [of x] show thesis by (auto simp: copies_def)
qed

lemma earliest_unique:
  assumes inv: "store_inv s" and "r \<in> set (db_notes s)" "q \<in> set (db_notes s)" "earliest E s r" "earliest E s q"
    "entity_of E r = entity_of E q"
  shows "r = q"
proof -
  have "(r_created_at r, r_id r) = (r_created_at q, r_id q)"
    using assms(2-6) unfolding earliest_def by (metis order_antisym)
  then show ?thesis using same_id_same_row [OF inv assms(2,3)] by simp
qed

lemma final_row_copies:
  assumes inv: "store_inv s" and r: "r \<in> set (db_notes s)" and e: "earliest E s r"
  shows "hd (copies E s r) = r"
    "1 < length (copies E s r) \<Longrightarrow> final_row E s r = collapsed_row (survivor_map E s) (copies E s r) r"
    "\<not> 1 < length (copies E s r) \<Longrightarrow> copies E s r = [r] \<and>
       r_status (final_row E s r) = r_status r \<and> r_tags (final_row E s r) = r_tags r \<and>
       r_linked_files (final_row E s r) = r_linked_files r"
proof -
  obtain x where x: "x \<in> set (db_notes s)" "entity_of E x = entity_of E r" "earliest E s x" "hd (copies E s r) = x"
    using earliest_exists [OF r] .
  with earliest_unique [OF inv r x(1) e x(3)] show h: "hd (copies E s r) = r" by simp
  have rc: "r \<in> set (copies E s r)" using r by (simp add: copies_def)
  have other: "g = copies E s r" if "g \<in> set (dup_rows E s)" "r_id (hd g) = r_id r" for g
  proof -
    have "hd g \<in> set (db_notes s)" using dup_rowsD(4,5) [OF that(1)] by auto
    from same_id_same_row [OF inv this r that(2)] dup_rowsD(1) [OF that(1)] show ?thesis by (simp add: copies_def)
  qed
  show "final_row E s r = collapsed_row (survivor_map E s) (copies E s r) r" if l: "1 < length (copies E s r)"
  proof -
    have "copies E s r \<in> set (dup_rows E s)" using dup_rowsI [OF r] l by (simp add: copies_def)
    then have "find (\<lambda>g. r_id (hd g) = r_id r) (dup_rows E s) = Some (copies E s r)"
      by (rule find_unique) (use h other in simp_all)
    then show ?thesis by (simp add: final_row_def)
  qed
  show "copies E s r = [r] \<and> r_status (final_row E s r) = r_status r \<and> r_tags (final_row E s r) = r_tags r \<and>
       r_linked_files (final_row E s r) = r_linked_files r" if l: "\<not> 1 < length (copies E s r)"
  proof -
    have one: "copies E s r = [r]" using l rc by (cases "copies E s r") auto
    have "find (\<lambda>g. r_id (hd g) = r_id r) (dup_rows E s) = None"
      unfolding find_None_iff using other dup_rowsD(2) l by metis
    with one show ?thesis by (auto simp: final_row_def split: option.split)
  qed
qed

lemma fold_new_set:
  "set (fold (\<lambda>x acc. if x \<notin> set held \<and> x \<notin> set acc then acc @ [x] else acc) xs acc) =
     set acc \<union> (set xs - set held)"
  by (induction xs arbitrary: acc) auto

lemma set_new_members: "set (new_members held xss) = (\<Union>xs \<in> set xss. set xs) - set held"
proof -
  have "set (fold (\<lambda>xs acc. fold (\<lambda>x acc. if x \<notin> set held \<and> x \<notin> set acc then acc @ [x] else acc) xs acc) xss acc) =
      set acc \<union> ((\<Union>xs \<in> set xss. set xs) - set held)" for acc
    by (induction xss arbitrary: acc) (auto simp: fold_new_set)
  then show ?thesis by (simp add: new_members_def)
qed

lemma union_members_set:
  assumes "\<forall>v \<in> set incoming. csv_member v"
  shows "set (split_csv (union_csv c incoming)) = set (split_csv c) \<union> set incoming"
  using csv_tags.members_union [OF assms, of c] by simp

lemma collapsed_members:
  assumes g: "g \<noteq> []" and q: "q \<in> set g"
  shows "set (split_csv (r_tags q)) \<subseteq> set (split_csv (r_tags (collapsed_row l2s g (hd g))))"
    "set (split_csv (r_linked_files q)) \<subseteq> set (split_csv (r_linked_files (collapsed_row l2s g (hd g))))"
proof -
  have m: "\<forall>v \<in> set (new_members (split_csv (f (hd g))) (map (\<lambda>r. split_csv (f r)) (tl g))). csv_member v"
    for f :: "row \<Rightarrow> string option"
    unfolding set_new_members using split_csv_members by fastforce
  have all: "set (split_csv (f q)) \<subseteq> set (split_csv (f (hd g))) \<union>
      set (new_members (split_csv (f (hd g))) (map (\<lambda>r. split_csv (f r)) (tl g)))" for f :: "row \<Rightarrow> string option"
    using q g unfolding set_new_members by (cases g) auto
  show "set (split_csv (r_tags q)) \<subseteq> set (split_csv (r_tags (collapsed_row l2s g (hd g))))"
    using all [of r_tags] union_members_set [OF m [of r_tags], of "r_tags (hd g)"]
    by (auto simp: collapsed_row_def Let_def merged_row_def group_tags_def group_files_def)
  show "set (split_csv (r_linked_files q)) \<subseteq> set (split_csv (r_linked_files (collapsed_row l2s g (hd g))))"
    using all [of r_linked_files] union_members_set [OF m [of r_linked_files], of "r_linked_files (hd g)"]
    by (auto simp: collapsed_row_def Let_def merged_row_def group_tags_def group_files_def)
qed

section \<open>Properties\<close>

text \<open>C15: a dedupe run never fails, and leaves one row for every entry that was there, its earliest, in
  the order of the table; the dry run reports what the run will report and writes nothing.\<close>
theorem dedupe_one_row_per_entity:
  assumes inv: "store_inv s" and i64: "\<forall>r \<in> set (db_notes s). row_i64 r"
  shows "\<exists>summary t. dedupe_entity_ids E False s = (Inr summary, t) \<and>
    dedupe_entity_ids E True s = (Inr summary, s) \<and>
    map r_id (db_notes t) = map r_id (filter (earliest E s) (db_notes s)) \<and>
    distinct (map (entity_of E) (db_notes t)) \<and>
    entity_of E ` set (db_notes t) = entity_of E ` set (db_notes s)"
proof -
  obtain summary t where run: "dedupe_entity_ids E False s = (Inr summary, t)"
    "dedupe_entity_ids E True s = (Inr summary, s)"
    "db_notes t = map (final_row E s) (filter (\<lambda>r. r_id r \<notin> r_id ` set (loser_rows E s)) (db_notes s))"
    using dedupe_run [OF inv i64] .
  have f: "filter (\<lambda>r. r_id r \<notin> r_id ` set (loser_rows E s)) (db_notes s) = filter (earliest E s) (db_notes s)"
    by (rule filter_cong) (use not_loser_iff [OF inv] in auto)
  have t: "db_notes t = map (final_row E s) (filter (earliest E s) (db_notes s))" using run(3) f by simp
  have "distinct (map (entity_of E) (filter (earliest E s) (db_notes s)))"
    unfolding distinct_map
  proof
    show "distinct (filter (earliest E s) (db_notes s))"
      using store_invD(1) [OF inv] by (simp add: distinct_map)
    show "inj_on (entity_of E) (set (filter (earliest E s) (db_notes s)))"
      by (rule inj_onI) (use earliest_unique [OF inv] in auto)
  qed
  then have "distinct (map (entity_of E) (db_notes t))" unfolding t by (simp add: o_def)
  moreover have "entity_of E ` set (db_notes t) = entity_of E ` set (db_notes s)"
  proof -
    have "entity_of E r \<in> entity_of E ` set (filter (earliest E s) (db_notes s))" if r: "r \<in> set (db_notes s)" for r
    proof -
      obtain x where "x \<in> set (db_notes s)" "entity_of E x = entity_of E r" "earliest E s x"
        using earliest_exists [OF r] by metis
      then show ?thesis using imageI [of x "set (filter (earliest E s) (db_notes s))" "entity_of E"] by simp
    qed
    then show ?thesis unfolding t by (auto simp: image_image)
  qed
  moreover have "map r_id (db_notes t) = map r_id (filter (earliest E s) (db_notes s))"
    unfolding t by (simp add: o_def)
  ultimately show ?thesis using run(1,2) by blast
qed

text \<open>The row that is left has the tags and files of every copy, is archived once any copy is, and
  points to no row that the run removed.\<close>

lemma dedupe_merges:
  assumes inv: "store_inv s" and i64: "\<forall>r \<in> set (db_notes s). row_i64 r"
    and run: "dedupe_entity_ids E False s = (Inr summary, t)"
    and r: "r \<in> set (db_notes t)" and q: "q \<in> set (db_notes s)" "entity_of E q = entity_of E r"
    and st: "\<forall>x \<in> set (db_notes s). r_status x = active \<or> r_status x = archived"
  shows "set (split_csv (r_tags q)) \<subseteq> set (split_csv (r_tags r)) \<and>
    set (split_csv (r_linked_files q)) \<subseteq> set (split_csv (r_linked_files r)) \<and>
    (r_status q = archived \<longrightarrow> r_status r = archived) \<and>
    (\<forall>v. r_superseded_by r = Some v \<longrightarrow> v \<in> ids s \<longrightarrow> v \<in> ids t)"
proof -
  have t: "db_notes t = map (final_row E s) (filter (\<lambda>r. r_id r \<notin> r_id ` set (loser_rows E s)) (db_notes s))"
  proof (rule dedupe_run [OF inv i64, of E])
    fix summary' t' assume "dedupe_entity_ids E False s = (Inr summary', t')"
      "db_notes t' = map (final_row E s) (filter (\<lambda>r. r_id r \<notin> r_id ` set (loser_rows E s)) (db_notes s))"
    with run show ?thesis by simp
  qed
  from r obtain x where x: "x \<in> set (db_notes s)" "r_id x \<notin> r_id ` set (loser_rows E s)" "r = final_row E s x"
    unfolding t by auto
  then have e: "earliest E s x" using not_loser_iff [OF inv x(1)] by blast
  note fr = final_row_copies [OF inv x(1) e]
  have qc: "q \<in> set (copies E s x)" using q x(3) by (simp add: copies_def)
  have sup: "v \<in> ids t" if "r_superseded_by r = Some v" "v \<in> ids s" for v
  proof -
    from that(1) have "survivor_map E s v = None" using final_row_not_loser [OF inv] x(3) by simp
    then have "v \<notin> r_id ` set (loser_rows E s)" by (simp add: survivor_map_None)
    with that(2) obtain y where "y \<in> set (db_notes s)" "r_id y = v" "r_id y \<notin> r_id ` set (loser_rows E s)"
      by (auto simp: ids_def)
    then have "final_row E s y \<in> set (db_notes t)" "r_id (final_row E s y) = v" unfolding t by simp_all
    then show ?thesis unfolding ids_def by blast
  qed
  show ?thesis
  proof (cases "1 < length (copies E s x)")
    case True
    let ?g = "copies E s x"
    have ne: "?g \<noteq> []" using True by auto
    have rr: "r = collapsed_row (survivor_map E s) ?g (hd ?g)" using fr(1,2) True x(3) by simp
    have "r_status q = archived \<longrightarrow> r_status r = archived"
      using qc st x(1) fr(1) unfolding rr by (auto simp: collapsed_row_def Let_def)
    with collapsed_members [OF ne qc, of "survivor_map E s"] sup show ?thesis unfolding rr [symmetric] by blast
  next
    case False
    from fr(3) [OF this] qc x(3) sup show ?thesis by auto
  qed
qed

text \<open>Three rows, two of them the same entry.\<close>

definition twin_store :: store where
  "twin_store = snd (add_note plain_hashing 9 ''note'' ''a'' ''b'' [''y''] [] None None
     (two_note_store\<lparr> db_unique := False \<rparr>))"

lemma twin_store_inv: "store_inv twin_store"
  using keeps_add_note inv_unique_weaken [OF two_note_store_inv] unfolding twin_store_def keeps_def by blast

lemma twin_rows: "\<forall>r \<in> set (db_notes twin_store). row_i64 r \<and> (r_status r = active \<or> r_status r = archived)"
proof -
  have "map (\<lambda>r. (r_id r, r_superseded_by r, r_status r)) (db_notes twin_store) =
      [(1, None, active), (2, None, active), (3, None, active)]" by code_simp
  then have "(r_id r, r_superseded_by r, r_status r) \<in> {(1, None, active), (2, None, active), (3, None, active)}"
    if "r \<in> set (db_notes twin_store)" for r
    using that by (metis (no_types, lifting) image_eqI list.set_map list.simps(15) empty_set)
  then show ?thesis by (fastforce simp: row_i64_def in_i64_def i64_min_def i64_max_def)
qed

theorem dedupe_one_row_per_entity_witness:
  "\<exists>summary t. dedupe_entity_ids plain_hashing False twin_store = (Inr summary, t) \<and>
     length (db_notes twin_store) = 3 \<and> map r_id (db_notes t) = [1, 2]"
proof -
  have "map r_id (filter (earliest plain_hashing twin_store) (db_notes twin_store)) = [1, 2]"
    "length (db_notes twin_store) = 3" by code_simp+
  with dedupe_one_row_per_entity [OF twin_store_inv, of plain_hashing] twin_rows show ?thesis by metis
qed

lemma dedupe_merges_witness:
  "\<exists>summary t r. dedupe_entity_ids plain_hashing False twin_store = (Inr summary, t) \<and>
     r \<in> set (db_notes t) \<and> r_id r = 1 \<and> ''y'' \<in> set (split_csv (r_tags r))"
proof -
  obtain summary t where run: "dedupe_entity_ids plain_hashing False twin_store = (Inr summary, t)"
    using dedupe_run [OF twin_store_inv, of plain_hashing] twin_rows by metis
  have "map r_id (db_notes (snd (dedupe_entity_ids plain_hashing False twin_store))) = [1, 2]"
    "map (\<lambda>r. entity_of plain_hashing r = entity_id plain_hashing ''note'' ''a'' ''b'')
       (db_notes (snd (dedupe_entity_ids plain_hashing False twin_store))) = [True, False]" by code_simp+
  with run obtain r q where rs: "db_notes t = [r, q]" "r_id r = 1"
    "entity_of plain_hashing r = entity_id plain_hashing ''note'' ''a'' ''b''" by auto
  have "map (\<lambda>r. entity_of plain_hashing r = entity_id plain_hashing ''note'' ''a'' ''b'') (db_notes twin_store) = [True, False, True]"
    "map (\<lambda>r. split_csv (r_tags r)) (db_notes twin_store) = [[''x''], [], [''y'']]" by code_simp+
  then obtain z w x where "db_notes twin_store = [z, w, x]"
    and x2: "entity_of plain_hashing x = entity_id plain_hashing ''note'' ''a'' ''b''" "split_csv (r_tags x) = [''y'']"
    by auto
  then have x1: "x \<in> set (db_notes twin_store)" by simp
  have "r \<in> set (db_notes t)" using rs(1) by simp
  from dedupe_merges [OF twin_store_inv _ run this x1] x2 rs twin_rows show ?thesis
    using run by fastforce
qed

end
