(* ===== verification/MemorySync.thy ===== *)
theory MemorySync
  imports MemoryEdges
begin

text \<open>
  \<open>storage/memory/sync.rs\<close> and \<open>import_state.rs\<close>: the identities that tie a local row to the cloud,
  applying a pulled note, the pull cursor, and the marker that gates the import of git notes.  A
  freshly minted UUIDv7 is an argument; where several rows may need one, \<open>fresh\<close> gives the one
  minted for each row.
\<close>

section \<open>Identities\<close>

definition uuid_for :: "int \<Rightarrow> string option sql" where
  "uuid_for note_id = query (\<lambda>s. Option.bind (row_of s note_id) r_uuid)"

definition ensure_uuid :: "string \<Rightarrow> int \<Rightarrow> string sql" where
  "ensure_uuid minted note_id =
     seq_sql (uuid_for note_id)
       (\<lambda>q. case q of
          Some existing \<Rightarrow> ok existing
        | None \<Rightarrow>
            seq_sql (update_unique note_id (\<lambda>r. r_uuid r = None) (\<lambda>r. r\<lparr> r_uuid := Some minted \<rparr>))
              (\<lambda>_. seq_sql (uuid_for note_id)
                 (\<lambda>u. ok (case u of Some x \<Rightarrow> x | None \<Rightarrow> minted))))"

definition note_id_for_uuid :: "string \<Rightarrow> int option sql" where
  "note_id_for_uuid uuid =
     query (\<lambda>s. map_option r_id (find (\<lambda>r. r_uuid r = Some uuid) (db_notes s)))"

definition set_remote_id :: "int \<Rightarrow> string \<Rightarrow> unit sql" where
  "set_remote_id note_id remote_id =
     seq_sql (update_unique note_id (\<lambda>r. r_remote_id r = None) (\<lambda>r. r\<lparr> r_remote_id := Some remote_id \<rparr>))
       (\<lambda>_. ok ())"

definition has_remote_id :: "string \<Rightarrow> bool sql" where
  "has_remote_id remote_id = query (\<lambda>s. \<exists>r \<in> set (db_notes s). r_remote_id r = Some remote_id)"

definition note_id_for_remote_id :: "string \<Rightarrow> int option sql" where
  "note_id_for_remote_id remote_id =
     query (\<lambda>s. map_option r_id (find (\<lambda>r. r_remote_id r = Some remote_id) (db_notes s)))"

section \<open>Rows to push\<close>

record sync_row =
  sr_local_id :: int
  sr_uuid :: string
  sr_remote_id :: "string option"
  sr_kind :: string
  sr_title :: string
  sr_body :: string
  sr_source_ref :: "string option"
  sr_archived :: bool

definition sync_row_of :: "int \<Rightarrow> sync_row option sql" where
  "sync_row_of note_id =
     query (\<lambda>s. case row_of s note_id of
          None \<Rightarrow> None
        | Some r \<Rightarrow>
            (case r_uuid r of
               None \<Rightarrow> None
             | Some uuid \<Rightarrow> Some
                 \<lparr> sr_local_id = r_id r, sr_uuid = uuid, sr_remote_id = r_remote_id r,
                   sr_kind = r_kind r, sr_title = r_title r, sr_body = r_body r,
                   sr_source_ref = r_source_ref r, sr_archived = (r_status r = archived) \<rparr>))"

fun sync_rows :: "(int \<Rightarrow> string) \<Rightarrow> int list \<Rightarrow> sync_row list \<Rightarrow> sync_row list sql" where
  "sync_rows fresh [] out = ok out"
| "sync_rows fresh (i # is) out =
     seq_sql (ensure_uuid (fresh i) i)
       (\<lambda>_. seq_sql (sync_row_of i)
          (\<lambda>q. sync_rows fresh is (case q of Some row \<Rightarrow> out @ [row] | None \<Rightarrow> out)))"

definition rows_for_sync :: "(int \<Rightarrow> string) \<Rightarrow> bool \<Rightarrow> sync_row list sql" where
  "rows_for_sync fresh include_archived =
     seq_sql (query (\<lambda>s. map r_id (filter (\<lambda>r. include_archived \<or> r_status r = active) (dedup_rows s))))
       (\<lambda>is. sync_rows fresh is [])"

section \<open>Pulling\<close>

definition apply_new_remote ::
    "hashing \<Rightarrow> string \<Rightarrow> string \<Rightarrow> string \<Rightarrow> string \<Rightarrow> string \<Rightarrow> string option \<Rightarrow> int \<Rightarrow> bool \<Rightarrow> bool sql" where
  "apply_new_remote E minted remote_id kind title body source_ref created_at is_archived =
     (let eid = entity_id E kind title body in
      seq_sql (try_sql (insert_note (\<lambda>i. (default_row created_at i)
          \<lparr> r_uuid := Some minted, r_remote_id := Some remote_id, r_kind := kind, r_title := title,
            r_body := body, r_source_ref := source_ref,
            r_status := (if is_archived then archived else active), r_entity_id := Some eid \<rparr>)))
        (\<lambda>res. seq_sql (recover_from_entity_id_collision res eid [] [])
          (\<lambda>(row_id, created).
             if created then ok True
             else seq_sql (set_remote_id row_id remote_id)
                    (\<lambda>_. seq_sql (if is_archived then archive row_id else ok False) (\<lambda>_. ok False)))))"

definition apply_remote_note ::
    "hashing \<Rightarrow> string \<Rightarrow> string \<Rightarrow> string \<Rightarrow> string \<Rightarrow> string \<Rightarrow> string option \<Rightarrow> int \<Rightarrow> bool \<Rightarrow> bool sql" where
  "apply_remote_note E minted remote_id kind title body source_ref created_at is_archived =
     seq_sql (note_id_for_remote_id remote_id)
       (\<lambda>q. case q of
          Some existing_id \<Rightarrow>
            seq_sql (if is_archived then archive existing_id else ok False) (\<lambda>_. ok False)
        | None \<Rightarrow>
            in_transaction
              (apply_new_remote E minted remote_id kind title body source_ref created_at is_archived))"

definition max_remote_id :: "string option sql" where
  "max_remote_id =
     query (\<lambda>s. let rs = filter_map r_remote_id (db_notes s) in
        if rs = [] then None else Some (Max (set rs)))"

record sync_edge =
  se_from_local_id :: int
  se_to_local_id :: int
  se_from_external_id :: string
  se_to_external_id :: string

definition sync_edge_of :: "store \<Rightarrow> memory_edge \<Rightarrow> sync_edge option" where
  "sync_edge_of s e =
     (case (row_of s (e_from e), row_of s (e_to e)) of
        (Some nf, Some nt) \<Rightarrow>
          (if e_kind e = ''relates_to'' \<and> r_remote_id nf \<noteq> None \<and> r_remote_id nt \<noteq> None
           then (case (r_uuid nf, r_uuid nt) of
                   (Some uf, Some ut) \<Rightarrow> Some
                     \<lparr> se_from_local_id = e_from e, se_to_local_id = e_to e,
                       se_from_external_id = uf, se_to_external_id = ut \<rparr>
                 | _ \<Rightarrow> None)
           else None)
      | _ \<Rightarrow> None)"

definition relates_to_edges_for_sync :: "sync_edge list sql" where
  "relates_to_edges_for_sync =
     query (\<lambda>s. filter_map (sync_edge_of s)
       (sort_key (\<lambda>e. (e_created_at e, e_from e, e_to e)) (db_edges s)))"

definition pending_sync_count :: "int sql" where
  "pending_sync_count =
     query (\<lambda>s. int (length (filter (\<lambda>r. r_status r = active \<and> r_remote_id r = None) (db_notes s))))"

section \<open>The import marker\<close>

definition default_marker :: notes_import_marker where
  "default_marker = \<lparr> last_merged_tracking_oid = None, last_imported_working_oid = None \<rparr>"

definition notes_import_state :: "notes_import_marker sql" where
  "notes_import_state = query (\<lambda>s. case db_import s of Some m \<Rightarrow> m | None \<Rightarrow> default_marker)"

definition set_notes_merged_tracking_oid :: "string option \<Rightarrow> unit sql" where
  "set_notes_merged_tracking_oid oid =
     (\<lambda>s. (Inr (), s\<lparr> db_import := Some (case db_import s of
          Some m \<Rightarrow> m\<lparr> last_merged_tracking_oid := oid \<rparr>
        | None \<Rightarrow> default_marker\<lparr> last_merged_tracking_oid := oid \<rparr>) \<rparr>))"

definition set_notes_imported_working_oid :: "string option \<Rightarrow> unit sql" where
  "set_notes_imported_working_oid oid =
     (\<lambda>s. (Inr (), s\<lparr> db_import := Some (case db_import s of
          Some m \<Rightarrow> m\<lparr> last_imported_working_oid := oid \<rparr>
        | None \<Rightarrow> default_marker\<lparr> last_imported_working_oid := oid \<rparr>) \<rparr>))"

section \<open>The invariant\<close>

lemma keeps_uuid_for [inv_intros]: "keeps (uuid_for i)"
  unfolding uuid_for_def by (rule keeps_query)

lemma keeps_ensure_uuid [inv_intros]: "keeps (ensure_uuid minted i)"
  unfolding ensure_uuid_def
  by (auto intro!: keeps_intros keeps_uuid_for split: option.split)

lemma keeps_set_remote_id [inv_intros]: "keeps (set_remote_id i rid)"
  unfolding set_remote_id_def by (intro keeps_intros) simp_all

lemma keeps_sync_rows [inv_intros]: "keeps (sync_rows fresh is out)"
proof (induction "is" arbitrary: out)
  case Nil
  then show ?case by (simp add: keeps_ok)
next
  case (Cons i "is")
  then show ?case
    by (auto intro!: keeps_seq keeps_ensure_uuid simp: sync_row_of_def keeps_query split: option.split)
qed

lemma keeps_rows_for_sync [inv_intros]: "keeps (rows_for_sync fresh ia)"
  unfolding rows_for_sync_def by (intro keeps_seq keeps_query keeps_sync_rows)

lemma keeps_apply_new_remote:
  "keeps (apply_new_remote E minted rid k t b sr ca ar)"
  unfolding apply_new_remote_def Let_def
  by (intro keeps_intros keeps_recover)
     (auto intro!: keeps_intros keeps_set_remote_id keeps_archive simp: default_row_def)

interpretation pull_tx: transaction
  "\<lambda>s. in_transaction (apply_new_remote E minted rid k t b sr ca ar) s"
  "apply_new_remote E minted rid k t b sr ca ar" store_inv
  for E minted rid k t b sr ca ar
proof
  fix s v s'
  assume "store_inv s" "apply_new_remote E minted rid k t b sr ca ar s = (Inr v, s')"
  then show "store_inv s'" by (rule keepsD [OF keeps_apply_new_remote])
qed simp

lemma keeps_apply_remote_note [inv_intros]:
  "keeps (apply_remote_note E minted rid k t b sr ca ar)"
  unfolding apply_remote_note_def note_id_for_remote_id_def
  by (auto intro!: keeps_intros keeps_archive keeps_apply_new_remote split: option.split)

lemma inv_import: "store_inv (s\<lparr> db_import := m \<rparr>) \<longleftrightarrow> store_inv s"
proof -
  let ?t = "s\<lparr> db_import := m \<rparr>"
  have n: "db_notes ?t = db_notes s" and e: "db_edges ?t = db_edges s" by simp_all
  have "unique_index f ?t \<longleftrightarrow> unique_index f s" for f :: "row \<Rightarrow> string option"
    unfolding unique_index_def n ..
  moreover have "edges_ok ?t \<longleftrightarrow> edges_ok s" unfolding edges_ok_def e ..
  moreover have "references_ok ?t \<longleftrightarrow> references_ok s"
    unfolding references_ok_def ids_def n e ..
  ultimately show ?thesis by (simp add: store_inv_def)
qed

lemma keeps_set_import_state [inv_intros]:
  "keeps (set_notes_merged_tracking_oid oid)" "keeps (set_notes_imported_working_oid oid)"
  by (simp_all add: keeps_def set_notes_merged_tracking_oid_def set_notes_imported_working_oid_def inv_import)

section \<open>What applying a pulled note does\<close>

definition stamp_row :: "string \<Rightarrow> row \<Rightarrow> row" where
  "stamp_row rid r = (if r_remote_id r = None then r\<lparr> r_remote_id := Some rid \<rparr> else r)"

definition adopted_row :: "string \<Rightarrow> bool \<Rightarrow> row \<Rightarrow> row" where
  "adopted_row rid ar r = arch_row ar (stamp_row rid (merged_row [] [] r))"

lemma stamp_row_simps [simp]:
  "r_id (stamp_row rid r) = r_id r" "r_entity_id (stamp_row rid r) = r_entity_id r"
  "r_kind (stamp_row rid r) = r_kind r" "r_title (stamp_row rid r) = r_title r"
  "r_body (stamp_row rid r) = r_body r" "r_status (stamp_row rid r) = r_status r"
  "r_tags (stamp_row rid r) = r_tags r" "r_linked_files (stamp_row rid r) = r_linked_files r"
  by (simp_all add: stamp_row_def)

lemma adopted_row_simps [simp]:
  "r_id (adopted_row rid ar r) = r_id r" "r_entity_id (adopted_row rid ar r) = r_entity_id r"
  "r_kind (adopted_row rid ar r) = r_kind r" "r_title (adopted_row rid ar r) = r_title r"
  "r_body (adopted_row rid ar r) = r_body r"
  by (simp_all add: adopted_row_def)

lemma adopted_row_more:
  "r_status (adopted_row rid ar r) = (if ar \<and> r_status r = active then archived else r_status r)"
  "r_remote_id (adopted_row rid ar r) = (if r_remote_id r = None then Some rid else r_remote_id r)"
  "r_tags (adopted_row rid ar r) = union_csv (r_tags r) []"
  by (simp_all add: adopted_row_def stamp_row_def merged_row_def arch_row_def)

lemma union_csv_nothing: "union_csv (union_csv c []) [] = union_csv c []"
proof -
  have "split_csv (Some (join_with [comma] (split_csv c))) = split_csv c"
    by (rule split_csv_join) (use split_csv_members in blast)
  moreover have "split_csv None = []" by (simp add: split_csv_def)
  ultimately show ?thesis by (cases c) (simp_all add: union_csv_def Let_def)
qed

lemma adopted_row_idem: "adopted_row rid ar (adopted_row rid ar r) = adopted_row rid ar r"
  by (simp add: adopted_row_def merged_row_def stamp_row_def arch_row_def union_csv_nothing)

lemma set_remote_id_run:
  assumes "set_remote_id i rid s = (Inr u, t)"
  shows "t = map_rows (\<lambda>r. r_id r = i) (stamp_row rid) s"
  using assms
  by (auto simp: set_remote_id_def seq_sql_def update_unique_def update_notes_def ok_def map_rows_def
      stamp_row_def split: if_splits)

text \<open>The three ways a pull can go.\<close>

definition pulled_row ::
    "hashing \<Rightarrow> string \<Rightarrow> string \<Rightarrow> string \<Rightarrow> string \<Rightarrow> string \<Rightarrow> string option \<Rightarrow> int \<Rightarrow> bool \<Rightarrow> int \<Rightarrow> row" where
  "pulled_row E minted remote_id kind title body source_ref created_at is_archived i =
     (default_row created_at i)
       \<lparr> r_uuid := Some minted, r_remote_id := Some remote_id, r_kind := kind, r_title := title,
         r_body := body, r_source_ref := source_ref,
         r_status := (if is_archived then archived else active),
         r_entity_id := Some (entity_id E kind title body) \<rparr>"

lemma pulled_row_simps [simp]:
  "r_id (pulled_row E m rid k t b sr ca ar i) = i"
  "r_remote_id (pulled_row E m rid k t b sr ca ar i) = Some rid"
  "r_entity_id (pulled_row E m rid k t b sr ca ar i) = Some (entity_id E k t b)"
  "arch_row ar (pulled_row E m rid k t b sr ca ar i) = pulled_row E m rid k t b sr ca ar i"
  by (simp_all add: pulled_row_def arch_row_def default_row_def)

lemma known_remote_run:
  assumes "find (\<lambda>r. r_remote_id r = Some rid) (db_notes s) = Some q"
  shows "apply_remote_note E m rid k t b sr ca ar s =
    (Inr False, map_rows (\<lambda>r. r_id r = r_id q) (arch_row ar) s)"
  using assms arch_step_run [of ar "r_id q" False s]
  by (simp add: apply_remote_note_def note_id_for_remote_id_def seq_sql_ok [OF sql_run(3)])

text \<open>An insert that collides goes on with the row that has the entity id.\<close>

lemma collided_run:
  assumes inv: "store_inv s"
    and c: "unique_conflict (pulled_row E m rid k t b sr ca ar (db_seq s + 1)) s"
    and q: "find (\<lambda>r. r_entity_id r = Some (entity_id E k t b)) (db_notes s) = Some q"
  shows "apply_new_remote E m rid k t b sr ca ar s =
    seq_sql (set_remote_id (r_id q) rid)
      (\<lambda>_. seq_sql (if ar then archive (r_id q) else ok False) (\<lambda>_. ok False))
      (map_rows (\<lambda>x. r_id x = r_id q) (merged_row [] []) s)"
proof -
  let ?s1 = "map_rows (\<lambda>x. r_id x = r_id q) (merged_row [] []) s"
  let ?eid = "entity_id E k t b"
  have ins: "insert_note (pulled_row E m rid k t b sr ca ar) s = (Inl UniqueViolation, s)"
    using c by (simp add: insert_note_def Let_def)
  from find_row_of [OF q] row_of_iff [OF inv, of "r_id q" q] have ro: "row_of s (r_id q) = Some q" by simp
  from union_tags_and_files_run [OF inv ro, of "[]" "[]"] obtain w where
    u: "union_tags_and_files (r_id q) [] [] s = (Inr w, ?s1)" by blast
  have "recover_from_entity_id_collision (Inl UniqueViolation) ?eid [] [] s = (Inr (r_id q, False), ?s1)"
    using q u by (simp add: recover_from_entity_id_collision_def seq_sql_def query_def ok_def)
  with ins show ?thesis
    by (simp add: apply_new_remote_def Let_def pulled_row_def [abs_def] seq_sql_def try_sql_def)
qed

lemma apply_remote_cases:
  assumes inv: "store_inv s"
    and run: "apply_remote_note E m rid k t b sr ca ar s = (Inr v, s')"
  obtains (known) q where "find (\<lambda>r. r_remote_id r = Some rid) (db_notes s) = Some q" "\<not> v"
      "s' = map_rows (\<lambda>r. r_id r = r_id q) (arch_row ar) s"
  | (inserted) "find (\<lambda>r. r_remote_id r = Some rid) (db_notes s) = None" v
      "\<not> unique_conflict (pulled_row E m rid k t b sr ca ar (db_seq s + 1)) s"
      "s' = s\<lparr> db_notes := db_notes s @ [pulled_row E m rid k t b sr ca ar (db_seq s + 1)],
               db_seq := db_seq s + 1 \<rparr>"
  | (adopted) q where "find (\<lambda>r. r_remote_id r = Some rid) (db_notes s) = None" "\<not> v"
      "find (\<lambda>r. r_entity_id r = Some (entity_id E k t b)) (db_notes s) = Some q"
      "s' = map_rows (\<lambda>r. r_id r = r_id q) (adopted_row rid ar) s"
proof (cases "find (\<lambda>r. r_remote_id r = Some rid) (db_notes s)")
  case (Some q)
  from known_remote_run [OF Some, of E m k t b sr ca ar] run known [OF Some] show thesis by simp
next
  case none: None
  let ?eid = "entity_id E k t b"
  let ?r = "pulled_row E m rid k t b sr ca ar (db_seq s + 1)"
  from run none have body: "apply_new_remote E m rid k t b sr ca ar s = (Inr v, s')"
    using pull_tx.commit [of E m rid k t b sr ca ar s]
    by (simp add: apply_remote_note_def note_id_for_remote_id_def seq_sql_ok [OF sql_run(3)])
  show thesis
  proof (cases "unique_conflict ?r s")
    case False
    then have "insert_note (pulled_row E m rid k t b sr ca ar) s =
        (Inr (db_seq s + 1), s\<lparr> db_notes := db_notes s @ [?r], db_seq := db_seq s + 1 \<rparr>)"
      by (simp add: insert_note_def Let_def)
    with body have "v" "s' = s\<lparr> db_notes := db_notes s @ [?r], db_seq := db_seq s + 1 \<rparr>"
      by (simp_all add: apply_new_remote_def Let_def pulled_row_def [abs_def] seq_sql_def try_sql_def
          recover_from_entity_id_collision_def ok_def)
    with none False inserted show thesis by blast
  next
    case True
    then have ins: "insert_note (pulled_row E m rid k t b sr ca ar) s = (Inl UniqueViolation, s)"
      by (simp add: insert_note_def Let_def)
    from body ins obtain q where q: "find (\<lambda>r. r_entity_id r = Some ?eid) (db_notes s) = Some q"
      by (cases "find (\<lambda>r. r_entity_id r = Some ?eid) (db_notes s)")
        (simp_all add: apply_new_remote_def Let_def pulled_row_def [abs_def] seq_sql_def try_sql_def
          recover_from_entity_id_collision_def query_def raise_def)
    let ?s1 = "map_rows (\<lambda>x. r_id x = r_id q) (merged_row [] []) s"
    have "seq_sql (set_remote_id (r_id q) rid)
        (\<lambda>_. seq_sql (if ar then archive (r_id q) else ok False) (\<lambda>_. ok False)) ?s1 = (Inr v, s')"
      using body unfolding collided_run [OF inv True q] .
    then obtain x s2 where s2: "set_remote_id (r_id q) rid ?s1 = (Inr x, s2)"
      "seq_sql (if ar then archive (r_id q) else ok False) (\<lambda>_. ok False) s2 = (Inr v, s')"
      unfolding seq_sql_run [of "set_remote_id (r_id q) rid"] by blast
    from s2(2) have v: "\<not> v" and s': "s' = map_rows (\<lambda>r. r_id r = r_id q) (arch_row ar) s2"
      unfolding arch_step_run by auto
    have "s' = map_rows (\<lambda>r. r_id r = r_id q) (adopted_row rid ar) s"
      unfolding s' set_remote_id_run [OF s2(1)] adopted_row_def by (simp add: map_rows_map_rows)
    with none v q adopted show thesis by blast
  qed
qed

lemma adopted_again_same:
  assumes inv: "store_inv s" and q: "q \<in> set (db_notes s)" and none: "find (\<lambda>r. r_remote_id r = Some rid) (db_notes s) = None"
    and unstamped: "r_remote_id q = None"
    and s': "s' = map_rows (\<lambda>r. r_id r = r_id q) (adopted_row rid ar) s"
  shows "apply_remote_note E m rid k t b sr ca ar s' = (Inr False, s')"
proof -
  let ?h = "\<lambda>r. if r_id r = r_id q then adopted_row rid ar r else r"
  let ?p = "\<lambda>r. r_remote_id r = Some rid"
  let ?q = "adopted_row rid ar q"
  have ns: "db_notes s' = map ?h (db_notes s)" by (simp add: s')
  have "find ?p (db_notes s') = Some ?q"
  proof (rule find_unique)
    show "?q \<in> set (db_notes s')" using q unfolding ns by force
    show "?p ?q" using unstamped by (simp add: adopted_row_more)
    fix y assume y: "y \<in> set (db_notes s')" "?p y"
    then obtain r where r: "r \<in> set (db_notes s)" "y = ?h r" unfolding ns by auto
    have "r_remote_id r \<noteq> Some rid" using none r(1) by (auto simp: find_None_iff)
    with y r same_id_same_row [OF inv _ q, of r] show "y = ?q" by (auto split: if_splits)
  qed
  from known_remote_run [OF this, of E m k t b sr ca ar] show ?thesis
    by (simp add: s' map_rows_map_rows adopted_row_def)
qed

text \<open>The row that was adopted already had another remote id: the pull merges into it once more.\<close>

lemma adopted_again_other:
  assumes inv: "store_inv s" and inv': "store_inv s'" and u: "db_unique s"
    and q: "find (\<lambda>r. r_entity_id r = Some (entity_id E k t b)) (db_notes s) = Some q"
    and none: "find (\<lambda>r. r_remote_id r = Some rid) (db_notes s) = None"
    and stamped: "r_remote_id q = Some other"
    and s': "s' = map_rows (\<lambda>r. r_id r = r_id q) (adopted_row rid ar) s"
  shows "apply_remote_note E m rid k t b sr ca ar s' = (Inr False, s')"
proof -
  let ?h = "\<lambda>r. if r_id r = r_id q then adopted_row rid ar r else r"
  let ?q = "adopted_row rid ar q"
  let ?r = "pulled_row E m rid k t b sr ca ar (db_seq s' + 1)"
  have q_in: "q \<in> set (db_notes s)" using find_SomeE [OF q] by simp
  have ns: "db_notes s' = map ?h (db_notes s)" by (simp add: s')
  have none': "find (\<lambda>r. r_remote_id r = Some rid) (db_notes s') = None"
    unfolding find_None_iff ns
  proof clarify
    fix y assume y: "y \<in> set (map ?h (db_notes s))" "r_remote_id y = Some rid"
    then obtain r where r: "r \<in> set (db_notes s)" "y = ?h r" by auto
    with none have "r_remote_id r \<noteq> Some rid" "r_remote_id q \<noteq> Some rid"
      using q_in by (auto simp: find_None_iff)
    with y r same_id_same_row [OF inv r(1) q_in] stamped show False
      by (auto simp: adopted_row_more split: if_splits)
  qed
  have f: "find (\<lambda>r. r_entity_id r = Some (entity_id E k t b)) (db_notes s') = Some ?q"
    using find_map_same [of "db_notes s" "\<lambda>r. r_entity_id r = Some (entity_id E k t b)" ?h] q unfolding ns by simp
  have m: "?q \<in> set (db_notes s')" using find_SomeE [OF f] by simp
  have only: "r = ?q" if "r \<in> set (db_notes s')" "r_id r = r_id ?q" for r
    using same_id_same_row [OF inv' that(1) m that(2)] .
  have "taken r_entity_id (r_entity_id ?r) (r_id ?r) s'"
    using find_SomeE [OF f] store_invD(2) [OF inv' m] unfolding taken_def by (intro conjI bexI [OF _ m]) simp_all
  then have c: "unique_conflict ?r s'" using u by (simp add: s' unique_conflict_def)
  have clean: "map_rows (\<lambda>x. r_id x = r_id ?q) g s' = s'" if "g ?q = ?q" for g
    by (rule map_rows_id) (use only that in blast)
  have s: "set_remote_id (r_id ?q) rid s' = (Inr (), s')"
  proof -
    have nn: "r_remote_id r \<noteq> None" if "r \<in> set (db_notes s')" "r_id r = r_id ?q" for r
      using only [OF that] stamped by (simp add: adopted_row_more)
    have "map_rows (\<lambda>r. r_id r = r_id ?q \<and> r_remote_id r = None) (\<lambda>r. r\<lparr> r_remote_id := Some rid \<rparr>) s' = s'"
      by (rule map_rows_id) (use nn in blast)
    moreover have "\<not> (\<exists>r \<in> set (db_notes s'). r_id r = r_id ?q \<and> r_remote_id r = None \<and> unique_conflict (r\<lparr> r_remote_id := Some rid \<rparr>) s')"
      using nn by blast
    ultimately show ?thesis
      by (simp add: set_remote_id_def seq_sql_def update_unique_def update_notes_def ok_def)
  qed
  have again: "merged_row [] [] ?q = ?q" "arch_row ar ?q = ?q"
    by (simp_all add: adopted_row_def merged_row_def stamp_row_def arch_row_def union_csv_nothing)
  have "apply_new_remote E m rid k t b sr ca ar s' = (Inr False, s')"
    unfolding collided_run [OF inv' c f] clean [of "merged_row [] []", OF again(1)]
      seq_sql_ok [where m = "set_remote_id (r_id ?q) rid" and s = s', OF s] arch_step_run clean [of "arch_row ar", OF again(2)] ..
  with none' show ?thesis
    using pull_tx.commit [of E m rid k t b sr ca ar s' False s']
    by (simp add: apply_remote_note_def note_id_for_remote_id_def seq_sql_ok [OF sql_run(3)])
qed

lemma apply_remote_fails:
  assumes "apply_remote_note E m rid k t b sr ca ar s = (Inl e, s')"
  shows "s' = s"
proof (cases "find (\<lambda>r. r_remote_id r = Some rid) (db_notes s)")
  case (Some q)
  from known_remote_run [OF Some, of E m k t b sr ca ar] assms show ?thesis by simp
next
  case None
  with assms show ?thesis
    using pull_tx.rollback [of E m rid k t b sr ca ar s e]
    by (simp add: apply_remote_note_def note_id_for_remote_id_def seq_sql_ok [OF sql_run(3)])
qed

section \<open>What a pull keeps\<close>

definition kept_row :: "row \<Rightarrow> row \<Rightarrow> bool" where
  "kept_row r r' \<longleftrightarrow>
     (r_kind r', r_title r', r_body r', r_entity_id r') = (r_kind r, r_title r, r_body r, r_entity_id r) \<and>
     split_csv (r_tags r') = split_csv (r_tags r) \<and>
     (r_remote_id r \<noteq> None \<longrightarrow> r_remote_id r' = r_remote_id r) \<and>
     (r_status r' = r_status r \<or> r_status r = active \<and> r_status r' = archived)"

lemma kept_row_refl [simp]: "kept_row r r"
  by (simp add: kept_row_def)

lemma kept_row_trans: "kept_row r q \<Longrightarrow> kept_row q p \<Longrightarrow> kept_row r p"
  by (auto simp: kept_row_def)

lemma split_union_nothing: "split_csv (union_csv c []) = split_csv c"
  using union_csv_members(1) [of "[]" c] union_csv_nothing [of c]
  by (cases c) (auto simp: union_csv_def Let_def split_csv_join split_csv_members split: if_splits)

lemma kept_arch: "kept_row r (arch_row ar r)" and kept_adopted: "kept_row r (adopted_row rid ar r)"
  by (simp_all add: kept_row_def adopted_row_more arch_row_status split_union_nothing)

lemma apply_remote_rows:
  assumes inv: "store_inv s"
    and run: "apply_remote_note E m rid k t b sr ca ar s = (Inr v, s')"
  shows "\<forall>i r. row_of s i = Some r \<longrightarrow> (\<exists>r'. row_of s' i = Some r' \<and> kept_row r r' \<and> (ar \<or> r_status r' = r_status r))"
    and "\<forall>i r'. row_of s' i = Some r' \<and> row_of s i = None \<longrightarrow> v \<and> r_remote_id r' = Some rid"
proof -
  let ?keeps = "\<forall>i r. row_of s i = Some r \<longrightarrow> (\<exists>r'. row_of s' i = Some r' \<and> kept_row r r' \<and> (ar \<or> r_status r' = r_status r))"
  let ?new = "\<forall>i r'. row_of s' i = Some r' \<and> row_of s i = None \<longrightarrow> v \<and> r_remote_id r' = Some rid"
  have changed: "?keeps \<and> ?new"
    if s': "s' = map_rows (\<lambda>r. r_id r = i) f s" and f: "f = arch_row ar \<or> f = adopted_row rid ar" for i f
  proof -
    have id: "r_id (f r) = r_id r" for r using f by auto
    have ro: "row_of s' j = map_option (\<lambda>r. if r_id r = i then f r else r) (row_of s j)" for j
      unfolding s' by (rule row_of_map_rows) (rule id)
    have "kept_row r (f r) \<and> (ar \<or> r_status (f r) = r_status r)" for r
      using f kept_arch kept_adopted by (auto simp: adopted_row_more arch_row_status split: if_splits)
    with ro show ?thesis by auto
  qed
  have "?keeps \<and> ?new" using inv run
  proof (cases rule: apply_remote_cases)
    case (known q)
    then show ?thesis using changed by blast
  next
    case (adopted q)
    then show ?thesis using changed by blast
  next
    case inserted
    have "row_of s' i = (case row_of s i of Some r \<Rightarrow> Some r
        | None \<Rightarrow> if i = db_seq s + 1 then Some (pulled_row E m rid k t b sr ca ar i) else None)" for i
      by (auto simp: inserted(4) row_of_def find_append split: option.split)
    with inserted(2) show ?thesis by auto
  qed
  then show ?keeps ?new by blast+
qed

text \<open>Pulling the same note again is a no-op, whatever became of the first pull.\<close>

lemma apply_remote_note_idempotent:
  assumes inv: "store_inv s" and u: "db_unique s"
    and run: "apply_remote_note E minted remote_id kind title body source_ref created_at is_archived s = (Inr v, s')"
  shows "apply_remote_note E minted' remote_id kind title body source_ref created_at is_archived s' = (Inr False, s')"
  using inv run
proof (cases rule: apply_remote_cases)
  case (known q)
  let ?p = "\<lambda>r. r_remote_id r = Some remote_id"
  have "find ?p (db_notes s') = map_option (\<lambda>r. if r_id r = r_id q then arch_row is_archived r else r) (find ?p (db_notes s))"
    unfolding known(3) map_rows_simps by (rule find_map_same) simp
  with known(1) have "find ?p (db_notes s') = Some (arch_row is_archived q)" by simp
  from known_remote_run [OF this, of E minted' kind title body source_ref created_at is_archived]
  show ?thesis by (simp add: known(3) map_rows_map_rows)
next
  case inserted
  let ?r = "pulled_row E minted remote_id kind title body source_ref created_at is_archived (db_seq s + 1)"
  have f: "find (\<lambda>r. r_remote_id r = Some remote_id) (db_notes s') = Some ?r"
    using inserted(1) by (auto simp: inserted(4) find_append split: option.split)
  have "map_rows (\<lambda>r. r_id r = r_id ?r) (arch_row is_archived) s' = s'"
  proof (rule map_rows_id)
    fix r assume "r \<in> set (db_notes s')" "r_id r = r_id ?r"
    then have "r = ?r" using store_invD(2) [OF inv, of r] by (auto simp: inserted(4))
    then show "arch_row is_archived r = r" by simp
  qed
  with known_remote_run [OF f, of E minted' kind title body source_ref created_at is_archived] show ?thesis by simp
next
  case (adopted q)
  have inv': "store_inv s'" by (rule keepsD [OF keeps_apply_remote_note inv run])
  have q: "q \<in> set (db_notes s)" using find_SomeE [OF adopted(3)] by simp
  show ?thesis
  proof (cases "r_remote_id q")
    case None
    show ?thesis by (rule adopted_again_same [OF inv q adopted(1) None adopted(4)])
  next
    case (Some other)
    show ?thesis by (rule adopted_again_other [OF inv inv' u adopted(3,1) Some adopted(4)])
  qed
qed

text \<open>A pull keeps every row: its id, content, identity and tags are as they were, a remote id it
  has stays, and a status changes only from active to archived; what it adds is at most the one new
  row, which carries the pulled remote id.\<close>

lemma apply_remote_note_keeps_rows:
  assumes inv: "store_inv s"
    and run: "apply_remote_note E minted remote_id kind title body source_ref created_at is_archived s = (Inr v, s')"
  shows "(\<forall>i r. row_of s i = Some r \<longrightarrow> (\<exists>r'. row_of s' i = Some r' \<and>
      (r_kind r', r_title r', r_body r', r_entity_id r') = (r_kind r, r_title r, r_body r, r_entity_id r) \<and>
      split_csv (r_tags r') = split_csv (r_tags r) \<and>
      (r_remote_id r \<noteq> None \<longrightarrow> r_remote_id r' = r_remote_id r) \<and>
      (r_status r' = r_status r \<or> r_status r = active \<and> is_archived \<and> r_status r' = archived))) \<and>
    (\<forall>i r'. row_of s' i = Some r' \<and> row_of s i = None \<longrightarrow> v \<and> r_remote_id r' = Some remote_id)"
  using apply_remote_rows [OF inv run] unfolding kept_row_def by meson

text \<open>A pull over an entry that is there without a remote id: it is adopted, then known.\<close>

lemma example_pull_unique: "db_unique two_note_store"
  unfolding two_note_store_def by code_simp

lemma example_pull:
  "\<exists>s'. apply_remote_note plain_hashing ''u'' ''r1'' ''note'' ''a'' ''b'' None 3 True two_note_store = (Inr False, s')"
proof -
  have "fst (apply_remote_note plain_hashing ''u'' ''r1'' ''note'' ''a'' ''b'' None 3 True two_note_store) = Inr False"
    by code_simp
  then show ?thesis by (metis prod.collapse)
qed

lemma apply_remote_note_idempotent_witness:
  "\<exists>s'. apply_remote_note plain_hashing ''u'' ''r1'' ''note'' ''a'' ''b'' None 3 True two_note_store = (Inr False, s') \<and>
     apply_remote_note plain_hashing ''w'' ''r1'' ''note'' ''a'' ''b'' None 3 True s' = (Inr False, s')"
proof -
  obtain s' where s': "apply_remote_note plain_hashing ''u'' ''r1'' ''note'' ''a'' ''b'' None 3 True two_note_store = (Inr False, s')"
    using example_pull by blast
  from apply_remote_note_idempotent [OF two_note_store_inv example_pull_unique s', of "''w''"] s' show ?thesis by blast
qed

lemma apply_remote_note_keeps_rows_witness:
  "\<exists>s' r'. apply_remote_note plain_hashing ''u'' ''r1'' ''note'' ''a'' ''b'' None 3 True two_note_store = (Inr False, s') \<and>
     row_of s' 1 = Some r' \<and> r_title r' = ''a''"
proof -
  obtain s' where s': "apply_remote_note plain_hashing ''u'' ''r1'' ''note'' ''a'' ''b'' None 3 True two_note_store = (Inr False, s')"
    using example_pull by blast
  have "map_option r_title (row_of two_note_store 1) = Some ''a''" by code_simp
  then obtain r where "row_of two_note_store 1 = Some r" "r_title r = ''a''" by auto
  with apply_remote_note_keeps_rows [OF two_note_store_inv s'] s' show ?thesis by fastforce
qed

end
