(* ===== verification/Relay.thy ===== *)
theory Relay
  imports RustText "HOL-Library.AList"
begin

text \<open>
  \<open>spelunk-server/src/relay/mod.rs\<close>: the local relay, which pushes a CLI's outbox to the team server
  and buffers what it pulls from there until the CLI confirms that it applied it.  A session is the
  state behind one mutex; the answers of the team server are arguments (\<open>Inl\<close> the message of a
  failed request or of a client that could not be built).  A hash map is an association list
  without repeated keys; nothing here depends on its order.
\<close>

section \<open>Data\<close>

record relay_key =
  k_server_url :: string
  k_project_id :: string

definition trim_end_slashes :: "string \<Rightarrow> string" where
  "trim_end_slashes s = rev (dropWhile (\<lambda>c. c = CHR ''/'') (rev s))"

definition relay_key_new :: "string \<Rightarrow> string \<Rightarrow> relay_key" where
  "relay_key_new server_url project_id =
     \<lparr> k_server_url = trim_end_slashes server_url, k_project_id = project_id \<rparr>"

record relay_push_entry =
  pe_kind :: string
  pe_title :: string
  pe_body :: "string option"
  pe_external_id :: string
  pe_source_commit :: "string option"

text \<open>The vector of a pushed item is the list of the bit patterns of its \<open>f32\<close>s.\<close>

record batch_push_item =
  b_kind :: string
  b_title :: string
  b_body :: "string option"
  b_external_id :: string
  b_source_commit :: "string option"
  b_vector :: "nat list option"
  b_vector_model :: "string option"
  b_vector_precision :: "string option"

definition batch_item_from :: "relay_push_entry \<Rightarrow> batch_push_item" where
  "batch_item_from e =
     \<lparr> b_kind = pe_kind e, b_title = pe_title e, b_body = pe_body e, b_external_id = pe_external_id e,
       b_source_commit = pe_source_commit e, b_vector = None, b_vector_model = None,
       b_vector_precision = None \<rparr>"

record batch_item_result =
  i_status :: string
  i_external_id :: "string option"
  i_id :: "string option"

record remote_entry =
  m_id :: string
  m_kind :: string
  m_title :: string
  m_body :: "string option"
  m_source_commit :: "string option"
  m_archived_at :: "string option"
  m_created_at :: string

definition is_archived :: "remote_entry \<Rightarrow> bool" where
  "is_archived e \<longleftrightarrow> m_archived_at e \<noteq> None"

record relay_push_result =
  q_external_id :: string
  q_remote_id :: "string option"
  q_status :: string

record relay_pulled_entry =
  u_remote_id :: string
  u_kind :: string
  u_title :: string
  u_body :: "string option"
  u_source_commit :: "string option"
  u_created_at :: string
  u_archived :: bool

definition pulled_entry_from :: "remote_entry \<Rightarrow> relay_pulled_entry" where
  "pulled_entry_from e =
     \<lparr> u_remote_id = m_id e, u_kind = m_kind e, u_title = m_title e, u_body = m_body e,
       u_source_commit = m_source_commit e, u_created_at = m_created_at e, u_archived = is_archived e \<rparr>"

definition MAX_BUFFERED_ITEMS_PER_SESSION :: nat where
  "MAX_BUFFERED_ITEMS_PER_SESSION = 10000"

datatype relay_error = RequestFailed string | PushBufferFull | PulledBufferFull | FrameTooLong

record session =
  s_bearer :: "string option"
  s_cursor :: "string option"
  s_last_event_id :: "string option"
  s_push_results :: "(string \<times> relay_push_result) list"
  s_pulled :: "(string \<times> relay_pulled_entry) list"
  s_last_synced_at :: "int option"
  s_last_error :: "relay_error option"
  s_pull_task_started :: bool

definition session_new :: session where
  "session_new =
     \<lparr> s_bearer = None, s_cursor = None, s_last_event_id = None, s_push_results = [], s_pulled = [],
       s_last_synced_at = None, s_last_error = None, s_pull_task_started = False \<rparr>"

section \<open>Operations of a session\<close>

definition set_bearer :: "string option \<Rightarrow> session \<Rightarrow> session" where
  "set_bearer bearer s = (if bearer \<noteq> None then s\<lparr> s_bearer := bearer \<rparr> else s)"

definition seed_cursor :: "string option \<Rightarrow> session \<Rightarrow> session" where
  "seed_cursor since_cursor s =
     (case since_cursor of
        None \<Rightarrow> s
      | Some c \<Rightarrow>
          if c > (case s_cursor s of None \<Rightarrow> [] | Some d \<Rightarrow> d) then s\<lparr> s_cursor := Some c \<rparr> else s)"

definition record_error :: "relay_error \<Rightarrow> session \<Rightarrow> session" where
  "record_error msg s = s\<lparr> s_last_error := Some msg \<rparr>"

definition created :: string where "created = ''created''"
definition skipped :: string where "skipped = ''skipped''"

text \<open>One round of the loop over the results: the session and whether the buffer was full.\<close>

definition buffer_result :: "batch_item_result \<Rightarrow> session \<times> bool \<Rightarrow> session \<times> bool" where
  "buffer_result r sb =
     (case sb of (s, buffer_full) \<Rightarrow>
       (case i_external_id r of
          None \<Rightarrow> (s, buffer_full)
        | Some external_id \<Rightarrow>
            let durably_persisted = (i_status r = created \<or> i_status r = skipped);
                at_capacity = MAX_BUFFERED_ITEMS_PER_SESSION \<le> length (s_push_results s);
                new = \<lparr> q_external_id = external_id, q_remote_id = i_id r, q_status = i_status r \<rparr>
            in
            if \<not> durably_persisted then (s, buffer_full)
            else
              (case map_of (s_push_results s) external_id of
                 Some old \<Rightarrow>
                   if i_id r \<noteq> None \<or> q_remote_id old = None
                   then (s\<lparr> s_push_results := AList.update external_id new (s_push_results s) \<rparr>, buffer_full)
                   else (s, buffer_full)
               | None \<Rightarrow>
                   if at_capacity then (s, True)
                   else (s\<lparr> s_push_results := AList.update external_id new (s_push_results s) \<rparr>, buffer_full))))"

definition session_push ::
    "int \<Rightarrow> string + batch_item_result list \<Rightarrow> relay_push_entry list \<Rightarrow> session \<Rightarrow> session" where
  "session_push now answer entries s =
     (if entries = [] then s
      else
        (case answer of
           Inl msg \<Rightarrow> record_error (RequestFailed msg) s
         | Inr results \<Rightarrow>
             (case fold buffer_result results (s, False) of
                (s', buffer_full) \<Rightarrow>
                  s'\<lparr> s_last_synced_at := Some now,
                      s_last_error := if buffer_full then Some PushBufferFull else None \<rparr>)))"

text \<open>The loop over a pulled page, which stops at the first entry the full buffer cannot take.\<close>

fun buffer_pulled :: "remote_entry list \<Rightarrow> session \<Rightarrow> session \<times> bool" where
  "buffer_pulled [] s = (s, False)"
| "buffer_pulled (e # es) s =
     (let i = m_id e; already_buffered = map_of (s_pulled s) i \<noteq> None in
      if \<not> already_buffered \<and> MAX_BUFFERED_ITEMS_PER_SESSION \<le> length (s_pulled s) then (s, True)
      else
        (let s1 = (if already_buffered then s
                   else s\<lparr> s_pulled := AList.update i (pulled_entry_from e) (s_pulled s) \<rparr>);
             s2 = (if Some i > s_cursor s1 then s1\<lparr> s_cursor := Some i \<rparr> else s1)
         in buffer_pulled es s2))"

text \<open>
  \<open>catch_up\<close> reads the cursor under the lock, asks the team server without it and takes it again
  for the answer; \<open>catch_up\<close> below is the last part.
\<close>

definition catch_up :: "int \<Rightarrow> string + remote_entry list \<Rightarrow> session \<Rightarrow> session" where
  "catch_up now answer s =
     (case answer of
        Inl msg \<Rightarrow> record_error (RequestFailed msg) s
      | Inr entries \<Rightarrow>
          if entries = [] then s
          else
            (case buffer_pulled entries s of
               (s', buffer_full) \<Rightarrow>
                 s'\<lparr> s_last_synced_at := Some now,
                     s_last_error := if buffer_full then Some PulledBufferFull else None \<rparr>))"

record relay_poll_response =
  p_push_results :: "relay_push_result list"
  p_pulled :: "relay_pulled_entry list"
  p_last_synced_at :: "int option"
  p_last_error :: "relay_error option"

definition session_poll :: "session \<Rightarrow> relay_poll_response" where
  "session_poll s =
     \<lparr> p_push_results = map snd (s_push_results s), p_pulled = map snd (s_pulled s),
       p_last_synced_at = s_last_synced_at s, p_last_error = s_last_error s \<rparr>"

definition session_ack :: "string list \<Rightarrow> string list \<Rightarrow> session \<Rightarrow> session" where
  "session_ack applied_push_external_ids applied_pull_remote_ids s =
     s\<lparr> s_push_results := fold AList.delete applied_push_external_ids (s_push_results s),
        s_pulled := fold AList.delete applied_pull_remote_ids (s_pulled s) \<rparr>"

section \<open>The registry\<close>

text \<open>What an operation leaves running: tokio tasks, by the session they work on.\<close>

datatype spawned = PullLoop relay_key | PushTask relay_key "relay_push_entry list"

type_synonym registry = "(relay_key \<times> session) list"

record relay_push_request =
  rq_server_url :: string
  rq_project_id :: string
  rq_bearer :: "string option"
  rq_since_cursor :: "string option"
  rq_entries :: "relay_push_entry list"

definition session_count :: "registry \<Rightarrow> nat" where
  "session_count reg = length reg"

definition get_or_create :: "string \<Rightarrow> string \<Rightarrow> registry \<Rightarrow> session \<times> registry" where
  "get_or_create server_url project_id reg =
     (let key = relay_key_new server_url project_id in
      (case map_of reg key of
         Some s \<Rightarrow> (s, reg)
       | None \<Rightarrow> (session_new, AList.update key session_new reg)))"

definition ensure_pull_task :: "relay_key \<Rightarrow> session \<Rightarrow> session \<times> spawned list" where
  "ensure_pull_task key s =
     (if s_pull_task_started s then (s, []) else (s\<lparr> s_pull_task_started := True \<rparr>, [PullLoop key]))"

definition registry_push :: "relay_push_request \<Rightarrow> registry \<Rightarrow> (unit + spawned list) \<times> registry" where
  "registry_push req reg =
     (if trim (rq_server_url req) = [] \<or> trim (rq_project_id req) = [] then (Inl (), reg)
      else
        (let key = relay_key_new (rq_server_url req) (rq_project_id req);
             (session, reg1) = get_or_create (rq_server_url req) (rq_project_id req) reg;
             (session', tasks) =
               ensure_pull_task key (seed_cursor (rq_since_cursor req) (set_bearer (rq_bearer req) session))
         in (Inr (tasks @ [PushTask key (rq_entries req)]), AList.update key session' reg1)))"

definition default_poll_response :: relay_poll_response where
  "default_poll_response =
     \<lparr> p_push_results = [], p_pulled = [], p_last_synced_at = None, p_last_error = None \<rparr>"

definition registry_poll :: "string \<Rightarrow> string \<Rightarrow> registry \<Rightarrow> relay_poll_response" where
  "registry_poll server_url project_id reg =
     (case map_of reg (relay_key_new server_url project_id) of
        Some s \<Rightarrow> session_poll s | None \<Rightarrow> default_poll_response)"

definition registry_ack :: "string \<Rightarrow> string \<Rightarrow> string list \<Rightarrow> string list \<Rightarrow> registry \<Rightarrow> registry" where
  "registry_ack server_url project_id pushes pulls reg =
     (let key = relay_key_new server_url project_id in
      (case map_of reg key of
         Some s \<Rightarrow> AList.update key (session_ack pushes pulls s) reg | None \<Rightarrow> reg))"

section \<open>The pull loop\<close>

text \<open>\<open>attempt\<close> is a \<open>u32\<close> that saturates; \<open>1u64.checked_shl(attempt.min(5))\<close> is always \<open>Some\<close>.\<close>

definition next_attempt :: "bool \<Rightarrow> nat \<Rightarrow> nat" where
  "next_attempt graceful attempt = (if graceful then 0 else min (attempt + 1) (2 ^ 32 - 1))"

definition backoff :: "nat \<Rightarrow> nat" where
  "backoff attempt = min (2 ^ min attempt 5) 30"

text \<open>The seconds slept after each connection, given how each ended.\<close>

fun pull_loop_sleeps :: "nat \<Rightarrow> bool list \<Rightarrow> nat list" where
  "pull_loop_sleeps attempt [] = []"
| "pull_loop_sleeps attempt (graceful # rest) =
     (let attempt' = next_attempt graceful attempt in backoff attempt' # pull_loop_sleeps attempt' rest)"

definition MAX_SSE_BUFFER_BYTES :: nat where
  "MAX_SSE_BUFFER_BYTES = 1024 * 1024"

fun find_double_newline :: "string \<Rightarrow> nat option" where
  "find_double_newline (a # b # s) =
     (if a = nl \<and> b = nl then Some 0 else map_option Suc (find_double_newline (b # s)))"
| "find_double_newline _ = None"

lemma find_double_newline_less:
  "find_double_newline s = Some pos \<Longrightarrow> pos + 2 \<le> length s"
  by (induction s arbitrary: pos rule: find_double_newline.induct) (auto split: if_splits)

text \<open>The loop that takes complete frames off the front of the buffer: the frames and the rest.\<close>

function take_frames :: "string \<Rightarrow> string list \<times> string" where
  "take_frames buf =
     (case find_double_newline buf of
        None \<Rightarrow> ([], buf)
      | Some pos \<Rightarrow>
          (case take_frames (drop (pos + 2) buf) of (frames, rest) \<Rightarrow> (take (pos + 2) buf # frames, rest)))"
  by pat_completeness auto
termination
  by (relation "measure length") (auto dest: find_double_newline_less)

declare take_frames.simps [simp del]

text \<open>What one frame says: whether it carries data, and its id.\<close>

definition read_frame_line :: "string \<Rightarrow> bool \<times> string option \<Rightarrow> bool \<times> string option" where
  "read_frame_line line st =
     (case strip_prefix ''data:'' line of
        Some rest \<Rightarrow> (if trim rest \<noteq> [] then (True, snd st) else st)
      | None \<Rightarrow>
          (case strip_prefix ''id:'' line of
             Some rest \<Rightarrow> (fst st, Some (trim rest))
           | None \<Rightarrow> st))"

definition read_frame :: "string \<Rightarrow> bool \<times> string option" where
  "read_frame frame_bytes = fold read_frame_line (str_lines (utf8_lossy frame_bytes)) (False, None)"

text \<open>
  The chunks of a connection: the frames met, and how the stream ended.  \<open>None\<close> among the chunks is
  a transport error.
\<close>

fun read_stream :: "string \<Rightarrow> string option list \<Rightarrow> string list \<times> (relay_error + unit)" where
  "read_stream buf [] = ([], Inr ())"
| "read_stream buf (None # chunks) = ([], Inl (RequestFailed []))"
| "read_stream buf (Some chunk # chunks) =
     (let buf1 = buf @ chunk in
      if MAX_SSE_BUFFER_BYTES < length buf1 then ([], Inl FrameTooLong)
      else
        (case take_frames buf1 of
           (frames, rest) \<Rightarrow>
             (case read_stream rest chunks of (more_frames, r) \<Rightarrow> (frames @ more_frames, r))))"

text \<open>What a frame does to the session, \<open>answer\<close> being what a catch-up would get.\<close>

definition on_frame :: "int \<Rightarrow> string + remote_entry list \<Rightarrow> string \<Rightarrow> session \<Rightarrow> session" where
  "on_frame now answer frame s =
     (case read_frame frame of (saw_data, frame_id) \<Rightarrow>
        let s1 = (case frame_id of Some i \<Rightarrow> s\<lparr> s_last_event_id := Some i \<rparr> | None \<Rightarrow> s) in
        if saw_data then catch_up now answer s1 else s1)"

end
