(* ===== verification/RelaySpec.thy ===== *)
theory RelaySpec
  imports Relay
begin

text \<open>
  What the relay promises: bounded buffers, nothing buffered is given up before the CLI confirmed it,
  no remote entry is passed over by the cursor, and a backlog is delivered a page per catch-up.
\<close>

section \<open>Every order of events\<close>

text \<open>The critical sections of a session, in whatever order its tasks and requests reach the mutex.\<close>

datatype session_event =
    Registered "string option" "string option"
  | PushAnswered int "string + batch_item_result list" "relay_push_entry list"
  | PullAnswered int "string + remote_entry list"
  | StreamFailed relay_error
  | FrameIdSeen string
  | Acked "string list" "string list"

fun handle_event :: "session_event \<Rightarrow> session \<Rightarrow> session" where
  "handle_event (Registered bearer since_cursor) s = seed_cursor since_cursor (set_bearer bearer s)"
| "handle_event (PushAnswered now answer entries) s = session_push now answer entries s"
| "handle_event (PullAnswered now answer) s = catch_up now answer s"
| "handle_event (StreamFailed e) s = record_error e s"
| "handle_event (FrameIdSeen i) s = s\<lparr> s_last_event_id := Some i \<rparr>"
| "handle_event (Acked pushes pulls) s = session_ack pushes pulls s"

text \<open>What holds of an event when it holds of every elementary change of the buffers.\<close>

lemma fold_preserves: "P s \<Longrightarrow> (\<And>x t. P t \<Longrightarrow> P (f x t)) \<Longrightarrow> P (fold f xs s)"
  by (induction xs arbitrary: s) auto

lemma buffer_results_preserve:
  fixes rs :: "batch_item_result list" and s :: session
  assumes s: "P (s_push_results s)"
    and upd: "\<And>b (r :: batch_item_result) x. P b \<Longrightarrow> i_external_id r = Some x \<Longrightarrow>
       (\<forall>old. map_of b x = Some old \<longrightarrow> i_id r \<noteq> None \<or> q_remote_id old = None) \<Longrightarrow>
       (map_of b x = None \<longrightarrow> length b < MAX_BUFFERED_ITEMS_PER_SESSION) \<Longrightarrow>
       P (AList.update x \<lparr> q_external_id = x, q_remote_id = i_id r, q_status = i_status r \<rparr> b)"
  shows "P (s_push_results (fst (fold buffer_result rs (s, full)))) \<and>
    s_pulled (fst (fold buffer_result rs (s, full))) = s_pulled s \<and>
    s_cursor (fst (fold buffer_result rs (s, full))) = s_cursor s"
  using s
proof (induction rs arbitrary: s full)
  case Nil
  then show ?case by simp
next
  case (Cons r rs)
  obtain s1 f1 where b: "buffer_result r (s, full) = (s1, f1)" by fastforce
  have "P (s_push_results s1) \<and> s_pulled s1 = s_pulled s \<and> s_cursor s1 = s_cursor s"
    using b Cons.prems upd [OF Cons.prems, of r]
    by (auto simp: buffer_result_def Let_def split: option.splits if_splits)
  with Cons.IH [of s1 f1] b show ?case by simp
qed

lemma buffer_pulled_preserve:
  fixes es :: "remote_entry list" and s :: session
  assumes s: "P (s_pulled s)"
    and upd: "\<And>b (e :: remote_entry). P b \<Longrightarrow> map_of b (m_id e) = None \<Longrightarrow> length b < MAX_BUFFERED_ITEMS_PER_SESSION \<Longrightarrow>
       P (AList.update (m_id e) (pulled_entry_from e) b)"
  shows "P (s_pulled (fst (buffer_pulled es s))) \<and>
    s_push_results (fst (buffer_pulled es s)) = s_push_results s"
  using s
proof (induction es arbitrary: s)
  case Nil
  then show ?case by simp
next
  case (Cons e es)
  show ?case
  proof (cases "map_of (s_pulled s) (m_id e) = None \<and> MAX_BUFFERED_ITEMS_PER_SESSION \<le> length (s_pulled s)")
    case True
    with Cons.prems show ?thesis by simp
  next
    case False
    let ?s1 = "if map_of (s_pulled s) (m_id e) \<noteq> None then s
       else s\<lparr> s_pulled := AList.update (m_id e) (pulled_entry_from e) (s_pulled s) \<rparr>"
    let ?s2 = "if Some (m_id e) > s_cursor ?s1 then ?s1\<lparr> s_cursor := Some (m_id e) \<rparr> else ?s1"
    have b: "buffer_pulled (e # es) s = buffer_pulled es ?s2"
      using False by (auto simp: Let_def)
    have "P (s_pulled ?s2)" "s_push_results ?s2 = s_push_results s"
      using Cons.prems False upd [OF Cons.prems, of e] by auto
    then show ?thesis using Cons.IH [of ?s2] unfolding b by metis
  qed
qed

section \<open>The buffers\<close>

definition buffer_ok :: "('v \<Rightarrow> string) \<Rightarrow> (string \<times> 'v) list \<Rightarrow> bool" where
  "buffer_ok key b \<longleftrightarrow> distinct (map fst b) \<and> length b \<le> MAX_BUFFERED_ITEMS_PER_SESSION \<and>
     list_all (\<lambda>(k, v). key v = k) b"

definition session_ok :: "session \<Rightarrow> bool" where
  "session_ok s \<longleftrightarrow> buffer_ok q_external_id (s_push_results s) \<and> buffer_ok u_remote_id (s_pulled s)"

lemma map_of_None_fst: "map_of b k = None \<longleftrightarrow> k \<notin> fst ` set b"
  by (simp add: map_of_eq_None_iff)

lemma length_update:
  "length (AList.update k v b) = (if k \<in> fst ` set b then length b else Suc (length b))"
  by (induction b) auto

lemma set_update_subset: "set (AList.update k v b) \<subseteq> insert (k, v) (set b)"
  by (induction b) auto

lemma buffer_ok_update:
  assumes "buffer_ok key b" and "key v = k" and "map_of b k = None \<longrightarrow> length b < MAX_BUFFERED_ITEMS_PER_SESSION"
  shows "buffer_ok key (AList.update k v b)"
  using assms set_update_subset [of k v b] distinct_update [of b k v]
  by (auto simp: buffer_ok_def length_update map_of_None_fst list_all_iff)

lemma buffer_ok_delete: "buffer_ok key b \<Longrightarrow> buffer_ok key (AList.delete k b)"
  using AList.distinct_delete [of b k] length_delete_le
  by (auto simp: buffer_ok_def list_all_iff AList.delete_eq intro: order_trans [OF length_filter_le])

lemma handle_event_push:
  "s_push_results (handle_event e s) =
    (case e of
       PushAnswered now (Inr rs) (x # xs) \<Rightarrow> s_push_results (fst (fold buffer_result rs (s, False)))
     | Acked pushes pulls \<Rightarrow> fold AList.delete pushes (s_push_results s)
     | _ \<Rightarrow> s_push_results s)"
  using buffer_pulled_preserve [of "\<lambda>_. True"]
  by (cases e) (auto simp: session_push_def catch_up_def record_error_def seed_cursor_def set_bearer_def
      session_ack_def case_prod_beta split: sum.splits option.splits list.splits if_splits)

lemma handle_event_pulled:
  "s_pulled (handle_event e s) =
    (case e of
       PullAnswered now (Inr es) \<Rightarrow> s_pulled (fst (buffer_pulled es s))
     | Acked pushes pulls \<Rightarrow> fold AList.delete pulls (s_pulled s)
     | _ \<Rightarrow> s_pulled s)"
  using buffer_results_preserve [of "\<lambda>_. True"]
  by (cases e) (auto simp: session_push_def catch_up_def record_error_def seed_cursor_def set_bearer_def
      session_ack_def case_prod_beta split: sum.splits option.splits list.splits if_splits)

lemma session_ok_event: "session_ok s \<Longrightarrow> session_ok (handle_event e s)"
  unfolding session_ok_def handle_event_push handle_event_pulled
  using buffer_results_preserve [of "buffer_ok q_external_id", OF _ buffer_ok_update]
    buffer_pulled_preserve [of "buffer_ok u_remote_id", OF _ buffer_ok_update]
    fold_preserves [of "buffer_ok q_external_id" _ AList.delete, OF _ buffer_ok_delete]
    fold_preserves [of "buffer_ok u_remote_id" _ AList.delete, OF _ buffer_ok_delete]
  by (auto simp: pulled_entry_from_def split: session_event.splits sum.splits list.splits)

lemma session_new_ok: "session_ok session_new"
  by (simp add: session_ok_def session_new_def buffer_ok_def)

text \<open>C17: in every order of requests, answers and failures the two buffers of a session hold at most 10000
  items, each under its own key and no key twice.\<close>
theorem relay_buffers_bounded:
  "session_ok (fold handle_event evs session_new)"
  using session_new_ok by (rule fold_preserves) (rule session_ok_event)

section \<open>Kept until confirmed\<close>

text \<open>
  A consumer that confirms by key: whatever it held stays held until its own key is confirmed.
  The buffers of the relay provide it twice.
\<close>

locale kept_until_confirmed =
  fixes step :: "'e \<Rightarrow> 's \<Rightarrow> 's"
    and holds :: "'s \<Rightarrow> 'k \<Rightarrow> bool"
    and confirmed :: "'e \<Rightarrow> 'k set"
  assumes kept: "holds s k \<Longrightarrow> k \<notin> confirmed e \<Longrightarrow> holds (step e s) k"
begin

lemma kept_by_all:
  "holds s k \<Longrightarrow> \<forall>e \<in> set evs. k \<notin> confirmed e \<Longrightarrow> holds (fold step evs s) k"
proof (induction evs arbitrary: s)
  case Nil
  then show ?case by simp
next
  case (Cons e evs)
  then show ?case using kept by auto
qed

lemma gone_was_confirmed:
  assumes "holds s k" and "\<not> holds (fold step evs s) k"
  shows "\<exists>e \<in> set evs. k \<in> confirmed e"
  using assms kept_by_all by blast

end

fun confirmed_pushes :: "session_event \<Rightarrow> string set" where
  "confirmed_pushes (Acked pushes pulls) = set pushes"
| "confirmed_pushes _ = {}"

fun confirmed_pulls :: "session_event \<Rightarrow> string set" where
  "confirmed_pulls (Acked pushes pulls) = set pulls"
| "confirmed_pulls _ = {}"

text \<open>The session can stamp \<open>k\<close> with the id the team server gave it.\<close>

definition knows_id :: "session \<Rightarrow> string \<Rightarrow> bool" where
  "knows_id s k = (case map_of (s_push_results s) k of Some q \<Rightarrow> q_remote_id q \<noteq> None | None \<Rightarrow> False)"

definition offers :: "session \<Rightarrow> string \<Rightarrow> relay_pulled_entry \<Rightarrow> bool" where
  "offers s k u \<longleftrightarrow> map_of (s_pulled s) k = Some u"

lemma map_of_deletes: "map_of (fold AList.delete ks b) k = (if k \<in> set ks then None else map_of b k)"
  by (induction ks arbitrary: b) (auto simp: delete_conv')

lemma knows_id_event:
  assumes "knows_id s k" and "k \<notin> confirmed_pushes e"
  shows "knows_id (handle_event e s) k"
proof -
  let ?P = "\<lambda>b :: (string \<times> relay_push_result) list.
    case map_of b k of Some q \<Rightarrow> q_remote_id q \<noteq> None | None \<Rightarrow> False"
  have "?P (s_push_results (fst (fold buffer_result rs (s, full))))" for rs full
    by (rule buffer_results_preserve [of ?P, THEN conjunct1])
      (use assms in \<open>auto simp: knows_id_def update_conv' split: option.splits\<close>)
  then show ?thesis
    using assms by (auto simp: knows_id_def handle_event_push map_of_deletes
        split: session_event.splits sum.splits list.splits)
qed

lemma offers_event:
  assumes "offers s k u" and "k \<notin> confirmed_pulls e"
  shows "offers (handle_event e s) k u"
proof -
  have "map_of (s_pulled (fst (buffer_pulled es s))) k = Some u" for es
    by (rule buffer_pulled_preserve [of "\<lambda>b. map_of b k = Some u", THEN conjunct1])
      (use assms in \<open>auto simp: offers_def update_conv'\<close>)
  then show ?thesis
    using assms by (auto simp: offers_def handle_event_pulled map_of_deletes
        split: session_event.splits sum.splits list.splits)
qed

interpretation pushes: kept_until_confirmed handle_event knows_id confirmed_pushes
  by unfold_locales (rule knows_id_event)

interpretation pulls: kept_until_confirmed handle_event "\<lambda>s (k, u). offers s k u" "\<lambda>e. confirmed_pulls e \<times> UNIV"
  by unfold_locales (auto intro: offers_event)

lemma offered_pulled:
  assumes "session_ok s"
  shows "u \<in> set (p_pulled (session_poll s)) \<longleftrightarrow> offers s (u_remote_id u) u"
proof -
  have d: "distinct (map fst (s_pulled s))" "\<forall>(k, v) \<in> set (s_pulled s). u_remote_id v = k"
    using assms by (auto simp: session_ok_def buffer_ok_def list_all_iff)
  then show ?thesis
    by (auto simp: offers_def session_poll_def dest!: map_of_SomeD intro: rev_image_eqI)
qed

lemma offered_push:
  assumes "session_ok s" and "q \<in> set (p_push_results (session_poll s))" and "q_remote_id q \<noteq> None"
  shows "knows_id s (q_external_id q)"
proof -
  from assms(2) obtain k where k: "(k, q) \<in> set (s_push_results s)" by (auto simp: session_poll_def)
  with assms(1) have "q_external_id q = k" "distinct (map fst (s_push_results s))"
    by (auto simp: session_ok_def buffer_ok_def list_all_iff)
  with k assms(3) show ?thesis by (simp add: knows_id_def)
qed

lemma knows_id_offered:
  assumes "session_ok s" and "knows_id s k"
  shows "\<exists>q \<in> set (p_push_results (session_poll s)). q_external_id q = k \<and> q_remote_id q \<noteq> None"
proof -
  from assms(2) obtain q where q: "(k, q) \<in> set (s_push_results s)" "q_remote_id q \<noteq> None"
    by (auto simp: knows_id_def split: option.splits dest: map_of_SomeD)
  with assms(1) have "q_external_id q = k" by (auto simp: session_ok_def buffer_ok_def list_all_iff)
  with q show ?thesis by (force simp: session_poll_def)
qed

text \<open>C18: a pulled entry a poll returned is returned by every later poll, and an external id that has a
  remote id goes on having one (a later answer that carries none does not take it away), until an
  event confirms that very id.\<close>
theorem relay_keeps_until_confirmed:
  assumes "session_ok s"
  shows "(u \<in> set (p_pulled (session_poll s)) \<longrightarrow>
      u \<in> set (p_pulled (session_poll (fold handle_event evs s))) \<or>
      (\<exists>e \<in> set evs. u_remote_id u \<in> confirmed_pulls e)) \<and>
    (q \<in> set (p_push_results (session_poll s)) \<longrightarrow> q_remote_id q \<noteq> None \<longrightarrow>
      (\<exists>q' \<in> set (p_push_results (session_poll (fold handle_event evs s))).
         q_external_id q' = q_external_id q \<and> q_remote_id q' \<noteq> None) \<or>
      (\<exists>e \<in> set evs. q_external_id q \<in> confirmed_pushes e))"
proof (intro conjI impI)
  let ?t = "fold handle_event evs s"
  assume "u \<in> set (p_pulled (session_poll s))"
  with offered_pulled [OF assms] have "offers s (u_remote_id u) u" by blast
  with pulls.kept_by_all [of s "(u_remote_id u, u)" evs]
  have "offers ?t (u_remote_id u) u \<or> (\<exists>e \<in> set evs. u_remote_id u \<in> confirmed_pulls e)" by auto
  then show "u \<in> set (p_pulled (session_poll ?t)) \<or> (\<exists>e \<in> set evs. u_remote_id u \<in> confirmed_pulls e)"
    by (auto simp: offers_def session_poll_def dest!: map_of_SomeD intro: rev_image_eqI)
next
  let ?t = "fold handle_event evs s"
  assume q: "q \<in> set (p_push_results (session_poll s))" "q_remote_id q \<noteq> None"
  then have "knows_id s (q_external_id q)" using offered_push [OF assms] by blast
  with pushes.kept_by_all [of s "q_external_id q" evs]
  have "knows_id ?t (q_external_id q) \<or> (\<exists>e \<in> set evs. q_external_id q \<in> confirmed_pushes e)" by auto
  moreover have "session_ok ?t" using assms session_ok_event by (rule fold_preserves)
  ultimately show "(\<exists>q' \<in> set (p_push_results (session_poll ?t)).
         q_external_id q' = q_external_id q \<and> q_remote_id q' \<noteq> None) \<or>
      (\<exists>e \<in> set evs. q_external_id q \<in> confirmed_pushes e)"
    using knows_id_offered by blast
qed

definition acked_session :: session where
  "acked_session = session_new\<lparr> s_push_results := [(''x'', \<lparr> q_external_id = ''x'', q_remote_id = Some ''r'', q_status = created \<rparr>)] \<rparr>"

theorem relay_keeps_until_confirmed_witness:
  "\<exists>q'. q' \<in> set (p_push_results (session_poll (handle_event
      (PushAnswered 0 (Inr [\<lparr> i_status = skipped, i_external_id = Some ''x'', i_id = None \<rparr>]) [undefined]) acked_session)))
     \<and> q_external_id q' = ''x'' \<and> q_remote_id q' \<noteq> None"
proof -
  let ?q = "\<lparr> q_external_id = ''x'', q_remote_id = Some ''r'', q_status = created \<rparr>"
  have ok: "session_ok acked_session"
    by (simp add: acked_session_def session_ok_def session_new_def buffer_ok_def MAX_BUFFERED_ITEMS_PER_SESSION_def)
  have "?q \<in> set (p_push_results (session_poll acked_session))"
    by (simp add: session_poll_def acked_session_def)
  with relay_keeps_until_confirmed [OF ok, of undefined
      "[PushAnswered 0 (Inr [\<lparr> i_status = skipped, i_external_id = Some ''x'', i_id = None \<rparr>]) [undefined]]" ?q]
  show ?thesis by auto
qed

end
