(* ===== verification/RelayCursor.thy ===== *)
theory RelayCursor
  imports RelaySpec
begin

text \<open>
  The cursor of a relay session against a team server that grows.  The catch-up asks with the cursor
  it read, and the answer is applied later; registrations, confirmations and new remote entries come
  in between.  \<open>storage/remote/sync.rs\<close> gives the request; what the server answers is any page that
  its documentation allows.
\<close>

section \<open>The team server\<close>

definition MEMORY_SINCE_PULL_LIMIT :: nat where
  "MEMORY_SINCE_PULL_LIMIT = 100"

text \<open>\<open>00000000-0000-0000-0000-000000000000\<close>.\<close>

definition nil_uuid :: string where
  "nil_uuid = join_with ''-'' (map (\<lambda>n. replicate n (CHR ''0'')) [8, 4, 4, 4, 12])"

definition since_id :: "string option \<Rightarrow> string" where
  "since_id cursor = (case cursor of Some c \<Rightarrow> c | None \<Rightarrow> nil_uuid)"

text \<open>
  A page after \<open>c\<close>: entries of the project whose id sorts strictly after \<open>c\<close>, in the order of their
  ids, none left out before the last one returned.
\<close>

definition page_ok :: "remote_entry list \<Rightarrow> string \<Rightarrow> remote_entry list \<Rightarrow> bool" where
  "page_ok remote c es \<longleftrightarrow> sorted (map m_id es) \<and> length es \<le> MEMORY_SINCE_PULL_LIMIT \<and>
     (\<forall>x \<in> set es. x \<in> set remote \<and> c < m_id x \<and>
        (\<forall>e \<in> set remote. c < m_id e \<and> m_id e \<le> m_id x \<longrightarrow> e \<in> set es))"

section \<open>Runs\<close>

datatype catch_up_phase = Idle | Asked "string option" | Answered "string + remote_entry list"

record relay_world =
  w_session :: session
  w_phase :: catch_up_phase
  w_remote :: "remote_entry list"
  w_confirmed :: "string list"
  w_seeds :: "string list"

definition relay_init :: relay_world where
  "relay_init = \<lparr> w_session = session_new, w_phase = Idle, w_remote = [], w_confirmed = [], w_seeds = [] \<rparr>"

text \<open>
  A new entry of the team server has an id after every earlier one, as the UUIDv7 ids of the server
  do.  The ids the CLI sends as its cursor and those it confirms are kept beside the session.
\<close>

inductive relay_step :: "relay_world \<Rightarrow> relay_world \<Rightarrow> bool" where
  registered: "relay_step w (w\<lparr> w_session := handle_event (Registered b c) (w_session w),
     w_seeds := (case c of Some x \<Rightarrow> x # w_seeds w | None \<Rightarrow> w_seeds w) \<rparr>)"
| pushed: "relay_step w (w\<lparr> w_session := handle_event (PushAnswered now answer entries) (w_session w) \<rparr>)"
| failed: "relay_step w (w\<lparr> w_session := handle_event (StreamFailed e) (w_session w) \<rparr>)"
| frame_id: "relay_step w (w\<lparr> w_session := handle_event (FrameIdSeen i) (w_session w) \<rparr>)"
| acked: "relay_step w (w\<lparr> w_session := handle_event (Acked pushes pulls) (w_session w),
     w_confirmed := pulls @ w_confirmed w \<rparr>)"
| team_write: "(\<forall>x \<in> set (w_remote w). m_id x < m_id e) \<Longrightarrow> nil_uuid < m_id e \<Longrightarrow>
     relay_step w (w\<lparr> w_remote := w_remote w @ [e] \<rparr>)"
| ask: "w_phase w = Idle \<Longrightarrow> relay_step w (w\<lparr> w_phase := Asked (s_cursor (w_session w)) \<rparr>)"
| answer: "w_phase w = Asked c \<Longrightarrow> page_ok (w_remote w) (since_id c) es \<Longrightarrow>
     relay_step w (w\<lparr> w_phase := Answered (Inr es) \<rparr>)"
| answer_fails: "w_phase w = Asked c \<Longrightarrow> relay_step w (w\<lparr> w_phase := Answered (Inl msg) \<rparr>)"
| applied: "w_phase w = Answered a \<Longrightarrow>
     relay_step w (w\<lparr> w_phase := Idle, w_session := handle_event (PullAnswered now a) (w_session w) \<rparr>)"

inductive relay_reach :: "relay_world \<Rightarrow> bool" where
  start: "relay_reach relay_init"
| step: "relay_reach w \<Longrightarrow> relay_step w v \<Longrightarrow> relay_reach v"

section \<open>No entry is passed over\<close>

text \<open>\<open>i\<close> is buffered, or the CLI confirmed it, or the CLI said its own cursor is past it.\<close>

definition covered :: "relay_world \<Rightarrow> string \<Rightarrow> bool" where
  "covered w i \<longleftrightarrow> i \<in> fst ` set (s_pulled (w_session w)) \<or> i \<in> set (w_confirmed w) \<or>
     (\<exists>c \<in> set (w_seeds w). i \<le> c)"

definition covered_upto :: "relay_world \<Rightarrow> string option \<Rightarrow> bool" where
  "covered_upto w c \<longleftrightarrow> (\<forall>e \<in> set (w_remote w). Some (m_id e) \<le> c \<longrightarrow> covered w (m_id e)) \<and>
     c \<in> insert None (Some ` (m_id ` set (w_remote w) \<union> set (w_seeds w)))"

definition page_covered :: "relay_world \<Rightarrow> remote_entry list \<Rightarrow> bool" where
  "page_covered w es \<longleftrightarrow> sorted (map m_id es) \<and> set es \<subseteq> set (w_remote w) \<and>
     (\<forall>x \<in> set es. \<forall>e \<in> set (w_remote w). m_id e \<le> m_id x \<longrightarrow> covered w (m_id e) \<or> e \<in> set es)"

definition cursor_inv :: "relay_world \<Rightarrow> bool" where
  "cursor_inv w \<longleftrightarrow> covered_upto w (s_cursor (w_session w)) \<and>
     (\<forall>e \<in> set (w_remote w). nil_uuid < m_id e) \<and>
     (case w_phase w of Idle \<Rightarrow> True | Asked c \<Rightarrow> covered_upto w c
      | Answered (Inl _) \<Rightarrow> True | Answered (Inr es) \<Rightarrow> page_covered w es)"

lemma cursor_inv_init: "cursor_inv relay_init"
  by (simp add: cursor_inv_def covered_upto_def relay_init_def session_new_def)

text \<open>What does not give up coverage keeps the invariant.\<close>

lemma cursor_inv_frame:
  assumes inv: "cursor_inv w"
    and rem: "w_remote v = w_remote w" and ph: "w_phase v = w_phase w"
    and seeds: "set (w_seeds w) \<subseteq> set (w_seeds v)"
    and cov: "\<And>i. covered w i \<Longrightarrow> covered v i"
    and cur: "s_cursor (w_session v) \<in> insert (s_cursor (w_session w)) (Some ` set (w_seeds v))"
  shows "cursor_inv v"
proof -
  have up: "covered_upto w c \<Longrightarrow> covered_upto v c" for c
    using seeds cov rem by (auto simp: covered_upto_def)
  have new: "covered_upto v (Some c)" if "c \<in> set (w_seeds v)" for c
    using that by (auto simp: covered_upto_def covered_def)
  have pg: "page_covered w es \<Longrightarrow> page_covered v es" for es
    using cov rem by (auto simp: page_covered_def)
  show ?thesis
    using inv up new pg cur rem ph
    by (auto simp: cursor_inv_def split: catch_up_phase.splits sum.splits)
qed

definition buffered :: "session \<Rightarrow> string set" where
  "buffered s = fst ` set (s_pulled s)"

lemma buffered_update [simp]: "buffered (s\<lparr> s_pulled := AList.update i v (s_pulled s) \<rparr>) = insert i (buffered s)"
  using update_conv [of i v "s_pulled s"] dom_update [of i v "s_pulled s"]
  by (simp add: buffered_def)

lemma buffered_cursor [simp]: "buffered (s\<lparr> s_cursor := c \<rparr>) = buffered s"
  by (simp add: buffered_def)

lemma buffer_pulled_covers:
  fixes es :: "remote_entry list" and s :: session
  assumes cur: "\<forall>e \<in> R. Some (m_id e) \<le> s_cursor s \<longrightarrow> m_id e \<in> buffered s \<union> C"
    and page: "sorted (map m_id es)" "set es \<subseteq> R"
      "\<forall>x \<in> set es. \<forall>e \<in> R. m_id e \<le> m_id x \<longrightarrow> m_id e \<in> buffered s \<union> C \<or> e \<in> set es"
  defines "t \<equiv> fst (buffer_pulled es s)"
  shows "(\<forall>e \<in> R. Some (m_id e) \<le> s_cursor t \<longrightarrow> m_id e \<in> buffered t \<union> C) \<and>
    buffered s \<subseteq> buffered t \<and> s_cursor t \<in> insert (s_cursor s) (Some ` m_id ` set es)"
  using cur page unfolding t_def
proof (induction es arbitrary: s)
  case Nil
  then show ?case by simp
next
  case (Cons e es)
  show ?case
  proof (cases "map_of (s_pulled s) (m_id e) = None \<and> MAX_BUFFERED_ITEMS_PER_SESSION \<le> length (s_pulled s)")
    case True
    with Cons.prems show ?thesis by simp
  next
    case False
    let ?s1 = "if map_of (s_pulled s) (m_id e) \<noteq> None then s
       else s\<lparr> s_pulled := AList.update (m_id e) (pulled_entry_from e) (s_pulled s) \<rparr>"
    let ?s2 = "if Some (m_id e) > s_cursor ?s1 then ?s1\<lparr> s_cursor := Some (m_id e) \<rparr> else ?s1"
    have run: "buffer_pulled (e # es) s = buffer_pulled es ?s2"
      using False by (auto simp: Let_def)
    have buf: "buffered ?s2 = insert (m_id e) (buffered s)"
    proof (cases "map_of (s_pulled s) (m_id e)")
      case None
      then show ?thesis by auto
    next
      case (Some u)
      then have "m_id e \<in> buffered s" unfolding buffered_def by (metis map_of_SomeD image_eqI fst_conv)
      with Some show ?thesis by auto
    qed
    have cur2: "s_cursor ?s2 = max (s_cursor s) (Some (m_id e))"
      by (auto simp: max_def)
    have first: "m_id f \<in> insert (m_id e) (buffered s) \<union> C" if "f \<in> R" "m_id f \<le> m_id e" for f
    proof -
      from Cons.prems(4) that have "m_id f \<in> buffered s \<union> C \<or> f \<in> set (e # es)" by auto
      moreover have "m_id f = m_id e" if "f \<in> set es"
        using Cons.prems(2) that \<open>m_id f \<le> m_id e\<close> by auto
      ultimately show ?thesis by auto
    qed
    have 1: "\<forall>f \<in> R. Some (m_id f) \<le> s_cursor ?s2 \<longrightarrow> m_id f \<in> buffered ?s2 \<union> C"
      unfolding buf cur2 using Cons.prems(1) first by (auto simp: le_max_iff_disj)
    have 2: "\<forall>x \<in> set es. \<forall>f \<in> R. m_id f \<le> m_id x \<longrightarrow> m_id f \<in> buffered ?s2 \<union> C \<or> f \<in> set es"
      unfolding buf using Cons.prems(4) by auto
    have "sorted (map m_id es)" "set es \<subseteq> R" using Cons.prems(2,3) by auto
    from Cons.IH [OF 1 this 2] show ?thesis
      unfolding run buf cur2 by (auto simp: max_def)
  qed
qed

lemma catch_up_session:
  "s_cursor (handle_event (PullAnswered now (Inr es)) s) = s_cursor (fst (buffer_pulled es s))"
  "buffered (handle_event (PullAnswered now (Inr es)) s) = buffered (fst (buffer_pulled es s))"
  by (auto simp: catch_up_def buffered_def case_prod_beta)

lemma cursor_inv_applied:
  assumes inv: "cursor_inv w" and ph: "w_phase w = Answered (Inr es)"
  shows "cursor_inv (w\<lparr> w_phase := Idle, w_session := handle_event (PullAnswered now (Inr es)) (w_session w) \<rparr>)"
    (is "cursor_inv ?v")
proof -
  let ?C = "{i. i \<in> set (w_confirmed w) \<or> (\<exists>c \<in> set (w_seeds w). i \<le> c)}"
  let ?R = "set (w_remote w)"
  have cov: "covered w i \<longleftrightarrow> i \<in> buffered (w_session w) \<union> ?C" for i
    by (auto simp: covered_def buffered_def)
  have covv: "covered ?v i \<longleftrightarrow> i \<in> buffered (fst (buffer_pulled es (w_session w))) \<union> ?C" for i
    using catch_up_session(2) [of now es "w_session w"] by (auto simp: covered_def buffered_def)
  have curv: "s_cursor (w_session ?v) = s_cursor (fst (buffer_pulled es (w_session w)))"
    by (simp add: catch_up_session(1) del: handle_event.simps)
  have pre: "\<forall>e \<in> ?R. Some (m_id e) \<le> s_cursor (w_session w) \<longrightarrow> m_id e \<in> buffered (w_session w) \<union> ?C"
    "sorted (map m_id es)" "set es \<subseteq> ?R"
    "\<forall>x \<in> set es. \<forall>e \<in> ?R. m_id e \<le> m_id x \<longrightarrow> m_id e \<in> buffered (w_session w) \<union> ?C \<or> e \<in> set es"
    using inv ph by (simp_all only: cursor_inv_def covered_upto_def page_covered_def cov) auto
  from buffer_pulled_covers [OF pre] have
    "covered_upto ?v (s_cursor (w_session ?v))"
    using inv pre(3) unfolding covered_upto_def covv curv cursor_inv_def by auto
  with inv show ?thesis by (simp add: cursor_inv_def del: handle_event.simps)
qed

lemma event_cursor:
  "s_cursor (handle_event e s) =
    (case e of
       Registered b (Some c) \<Rightarrow> if c > (case s_cursor s of None \<Rightarrow> [] | Some d \<Rightarrow> d) then Some c else s_cursor s
     | PullAnswered now (Inr es) \<Rightarrow> s_cursor (fst (buffer_pulled es s))
     | _ \<Rightarrow> s_cursor s)"
  using buffer_results_preserve [of "\<lambda>_. True"]
  by (cases e) (auto simp: session_push_def catch_up_def record_error_def seed_cursor_def set_bearer_def
      session_ack_def case_prod_beta split: sum.splits option.splits list.splits if_splits)

lemma event_buffered:
  "i \<in> buffered s \<Longrightarrow> i \<notin> confirmed_pulls e \<Longrightarrow> i \<in> buffered (handle_event e s)"
  using offers_event [of s i _ e] unfolding offers_def buffered_def
  by (metis map_of_eq_None_iff not_None_eq)

text \<open>Events other than an applied page.\<close>

lemma cursor_inv_event:
  assumes inv: "cursor_inv w"
    and e: "\<And>now es. e \<noteq> PullAnswered now (Inr es)"
    and v: "v = w\<lparr> w_session := handle_event e (w_session w), w_confirmed := cs, w_seeds := ss \<rparr>"
    and cs: "confirmed_pulls e \<union> set (w_confirmed w) \<subseteq> set cs"
    and ss: "set (w_seeds w) \<union> {c. \<exists>b. e = Registered b (Some c)} \<subseteq> set ss"
  shows "cursor_inv v"
proof (rule cursor_inv_frame [OF inv])
  show "covered v i" if "covered w i" for i
    using that event_buffered [of i "w_session w" e] cs ss
    unfolding covered_def v buffered_def by auto
  show "s_cursor (w_session v) \<in> insert (s_cursor (w_session w)) (Some ` set (w_seeds v))"
    using e ss unfolding v
    by (auto simp: event_cursor simp del: handle_event.simps
        split: session_event.splits option.splits sum.splits if_splits)
qed (use ss in \<open>auto simp: v\<close>)

lemma page_ok_covered:
  assumes "cursor_inv w" and "covered_upto w c" and "page_ok (w_remote w) (since_id c) es"
  shows "page_covered w es"
  unfolding page_covered_def
proof (intro conjI ballI impI)
  fix x e assume x: "x \<in> set es" and e: "e \<in> set (w_remote w)" and le: "m_id e \<le> m_id x"
  show "covered w (m_id e) \<or> e \<in> set es"
  proof (cases "since_id c < m_id e")
    case True
    with assms(3) x e le show ?thesis unfolding page_ok_def by blast
  next
    case False
    then have "Some (m_id e) \<le> c"
      using assms(1) e by (cases c) (auto simp: since_id_def cursor_inv_def)
    with assms(2) e show ?thesis unfolding covered_upto_def by blast
  qed
qed (use assms in \<open>auto simp: page_ok_def\<close>)

lemma cursor_inv_write:
  assumes inv: "cursor_inv w" and new: "\<forall>x \<in> set (w_remote w). m_id x < m_id e" and nil: "nil_uuid < m_id e"
  shows "cursor_inv (w\<lparr> w_remote := w_remote w @ [e] \<rparr>)" (is "cursor_inv ?v")
proof -
  have cov: "covered ?v i = covered w i" for i by (simp add: covered_def)
  have up: "covered_upto ?v c" if c: "covered_upto w c" for c
  proof -
    have "covered w (m_id e)" if "Some (m_id e) \<le> c"
      using c that new by (auto simp: covered_upto_def covered_def)
    with c show ?thesis unfolding covered_upto_def cov by auto
  qed
  have "page_covered ?v es" if p: "page_covered w es" for es
    unfolding page_covered_def cov
  proof (intro conjI ballI impI)
    fix x f assume x: "x \<in> set es" and f: "f \<in> set (w_remote ?v)" and le: "m_id f \<le> m_id x"
    from p x have "x \<in> set (w_remote w)" by (auto simp: page_covered_def)
    with new le have "f \<noteq> e" by (auto dest: leD)
    with f have "f \<in> set (w_remote w)" by simp
    with p x le show "covered w (m_id f) \<or> f \<in> set es" unfolding page_covered_def by blast
  qed (use p in \<open>auto simp: page_covered_def\<close>)
  with inv up nil show ?thesis
    by (auto simp: cursor_inv_def split: catch_up_phase.splits sum.splits)
qed

lemma cursor_inv_step:
  assumes "relay_step w v" and inv: "cursor_inv w"
  shows "cursor_inv v"
  using assms(1)
proof cases
  case (registered c b)
  show ?thesis
    by (rule cursor_inv_event [OF inv, where e = "Registered b c" and cs = "w_confirmed w" and ss = "case c of Some x \<Rightarrow> x # w_seeds w | None \<Rightarrow> w_seeds w"])
      (auto simp: registered simp del: handle_event.simps split: option.splits)
next
  case (pushed now answer entries)
  show ?thesis
    by (rule cursor_inv_event [OF inv, where e = "PushAnswered now answer entries" and cs = "w_confirmed w" and ss = "w_seeds w"])
      (auto simp: pushed)
next
  case (failed e)
  show ?thesis
    by (rule cursor_inv_event [OF inv, where e = "StreamFailed e" and cs = "w_confirmed w" and ss = "w_seeds w"]) (auto simp: failed)
next
  case (frame_id i)
  show ?thesis
    by (rule cursor_inv_event [OF inv, where e = "FrameIdSeen i" and cs = "w_confirmed w" and ss = "w_seeds w"]) (auto simp: frame_id)
next
  case (acked pulls pushes)
  show ?thesis
    by (rule cursor_inv_event [OF inv, where e = "Acked pushes pulls" and cs = "pulls @ w_confirmed w" and ss = "w_seeds w"])
      (auto simp: acked)
next
  case (team_write e)
  then show ?thesis using cursor_inv_write [OF inv] by simp
next
  case ask
  with inv show ?thesis by (simp add: cursor_inv_def covered_upto_def covered_def)
next
  case (answer c es)
  with inv page_ok_covered [OF inv, of c es] show ?thesis
    by (auto simp: cursor_inv_def covered_upto_def covered_def page_covered_def)
next
  case (answer_fails c msg)
  with inv show ?thesis by (auto simp: cursor_inv_def covered_upto_def covered_def)
next
  case (applied a now)
  show ?thesis
  proof (cases a)
    case (Inr es)
    then show ?thesis using applied cursor_inv_applied [OF inv, of es now] by simp
  next
    case (Inl msg)
    with applied have "v = w\<lparr> w_phase := Idle, w_session := record_error (RequestFailed msg) (w_session w) \<rparr>"
      by (simp add: catch_up_def)
    with inv show ?thesis
      by (simp add: cursor_inv_def covered_upto_def covered_def record_error_def)
  qed
qed

lemma relay_reach_inv: "relay_reach w \<Longrightarrow> cursor_inv w"
  by (induction rule: relay_reach.induct) (auto intro: cursor_inv_init cursor_inv_step)

lemma relay_reach_ok: "relay_reach w \<Longrightarrow> session_ok (w_session w)"
proof (induction rule: relay_reach.induct)
  case start
  then show ?case by (simp add: relay_init_def session_new_ok)
next
  case (step w v)
  from step.hyps(2) have "w_session v = w_session w \<or> (\<exists>e. w_session v = handle_event e (w_session w))"
    by cases (auto simp del: handle_event.simps)
  with step.IH session_ok_event show ?case by auto
qed

lemma buffered_offered:
  assumes "session_ok s" and "i \<in> buffered s"
  shows "\<exists>u \<in> set (p_pulled (session_poll s)). u_remote_id u = i"
proof -
  from assms(2) obtain u where u: "(i, u) \<in> set (s_pulled s)" by (auto simp: buffered_def)
  with assms(1) have "u_remote_id u = i" by (auto simp: session_ok_def buffer_ok_def list_all_iff)
  with u show ?thesis by (force simp: session_poll_def)
qed

text \<open>C19: in every interleaving of registrations, pushes, confirmations, catch-ups with their request and
  their answer apart, and new entries on the team server: an entry at or below the session's cursor is
  in the next poll, or the CLI confirmed it, or the CLI itself sent a cursor at or past it.\<close>
theorem no_entry_passed_over:
  assumes "relay_reach w" and "e \<in> set (w_remote w)" and "Some (m_id e) \<le> s_cursor (w_session w)"
  shows "(\<exists>u \<in> set (p_pulled (session_poll (w_session w))). u_remote_id u = m_id e) \<or>
    m_id e \<in> set (w_confirmed w) \<or> (\<exists>c \<in> set (w_seeds w). m_id e \<le> c)"
proof -
  from relay_reach_inv [OF assms(1)] assms(2,3) have "covered w (m_id e)"
    by (auto simp: cursor_inv_def covered_upto_def)
  with buffered_offered [OF relay_reach_ok [OF assms(1)], of "m_id e"] show ?thesis
    by (auto simp: covered_def buffered_def)
qed

definition team_entry :: "string \<Rightarrow> remote_entry" where
  "team_entry i = \<lparr> m_id = i, m_kind = ''note'', m_title = i, m_body = None, m_source_commit = None,
     m_archived_at = None, m_created_at = [] \<rparr>"

definition two_entries_world :: relay_world where
  "two_entries_world = relay_init\<lparr> w_remote := [team_entry ''a'', team_entry ''b''] \<rparr>"

lemma two_entries_reach: "relay_reach two_entries_world"
proof -
  have n: "nil_uuid < m_id (team_entry ''a'')" "nil_uuid < m_id (team_entry ''b'')"
    "m_id (team_entry ''a'') < m_id (team_entry ''b'')" by code_simp+
  have "relay_reach (relay_init\<lparr> w_remote := [team_entry ''a''] \<rparr>)"
    using relay_reach.step [OF relay_reach.start relay_step.team_write [of relay_init "team_entry ''a''"]] n
    by (simp add: relay_init_def)
  from relay_reach.step [OF this relay_step.team_write [of _ "team_entry ''b''"]] n show ?thesis
    by (simp add: relay_init_def two_entries_world_def)
qed

lemma page_of_both: "page_ok (w_remote two_entries_world) (since_id None) [team_entry ''a'', team_entry ''b'']"
proof -
  have "nil_uuid < ''a''" "nil_uuid < ''b''" "''a'' < (''b'' :: string)" by code_simp+
  then show ?thesis
    by (simp add: page_ok_def two_entries_world_def team_entry_def since_id_def MEMORY_SINCE_PULL_LIMIT_def)
qed

theorem no_entry_passed_over_witness:
  "\<exists>w. relay_reach w \<and> s_cursor (w_session w) = Some ''b'' \<and> w_seeds w = [] \<and> w_confirmed w = [] \<and>
     (\<exists>u. u \<in> set (p_pulled (session_poll (w_session w))) \<and> u_remote_id u = ''a'')"
proof -
  let ?es = "[team_entry ''a'', team_entry ''b'']"
  let ?w1 = "two_entries_world\<lparr> w_phase := Asked (s_cursor (w_session two_entries_world)) \<rparr>"
  let ?w2 = "?w1\<lparr> w_phase := Answered (Inr ?es) \<rparr>"
  let ?w = "?w2\<lparr> w_phase := Idle, w_session := handle_event (PullAnswered 0 (Inr ?es)) (w_session ?w2) \<rparr>"
  have w1: "relay_reach ?w1"
    by (rule relay_reach.step [OF two_entries_reach relay_step.ask]) (simp add: two_entries_world_def relay_init_def)
  have "relay_step ?w1 ?w2"
    by (rule relay_step.answer [of _ None]) (use page_of_both in \<open>simp_all add: two_entries_world_def relay_init_def session_new_def\<close>)
  with w1 have w2: "relay_reach ?w2" by (rule relay_reach.step)
  have w: "relay_reach ?w" by (rule relay_reach.step [OF w2 relay_step.applied]) simp
  have c: "s_cursor (w_session ?w) = Some ''b''" "w_seeds ?w = []" "w_confirmed ?w = []"
    "w_remote ?w = ?es" "Some ''a'' \<le> Some (''b'' :: string)" by code_simp+
  from no_entry_passed_over [OF w, of "team_entry ''a''"] c have
    "\<exists>u \<in> set (p_pulled (session_poll (w_session ?w))). u_remote_id u = ''a''"
    by (simp add: team_entry_def)
  with w c show ?thesis by blast
qed

text \<open>The third case is real: an entry the next catch-up would have fetched is out of reach of every
  later one once a registration sends a cursor past it, though it was never buffered.\<close>

lemma registration_can_skip:
  "\<exists>w c e. relay_reach w \<and> e \<in> set (w_remote w) \<and>
     (\<exists>es. page_ok (w_remote w) (since_id (s_cursor (w_session w))) es \<and> e \<in> set es) \<and>
     \<not> (\<exists>es. page_ok (w_remote w) (since_id (s_cursor (seed_cursor (Some c) (w_session w)))) es \<and> e \<in> set es) \<and>
     p_pulled (session_poll (seed_cursor (Some c) (w_session w))) = [] \<and> w_confirmed w = []"
proof (intro exI conjI)
  let ?w = two_entries_world
  have c: "s_cursor (w_session ?w) = None" "s_cursor (seed_cursor (Some ''b'') (w_session ?w)) = Some ''b''"
    by code_simp+
  show "page_ok (w_remote ?w) (since_id (s_cursor (w_session ?w))) [team_entry ''a'', team_entry ''b'']"
    using page_of_both c by simp
  have "\<not> ''b'' < (''a'' :: string)" by code_simp
  then show "\<not> (\<exists>es. page_ok (w_remote ?w) (since_id (s_cursor (seed_cursor (Some ''b'') (w_session ?w)))) es \<and>
      team_entry ''a'' \<in> set es)"
    unfolding c page_ok_def since_id_def team_entry_def by fastforce
  show "p_pulled (session_poll (seed_cursor (Some ''b'') (w_session ?w))) = []" by code_simp
qed (use two_entries_reach in \<open>simp_all add: two_entries_world_def relay_init_def\<close>)

end
