(* ===== verification/RelayDelivery.thy ===== *)
theory RelayDelivery
  imports RelayCursor
begin

text \<open>
  How a backlog reaches the CLI, one page per catch-up, and the reading of the event stream, which
  must not depend on where the transport cuts it.
\<close>

section \<open>A backlog\<close>

text \<open>The page the team server documents; it keeps its entries in the order of their ids.\<close>

definition pull_page :: "remote_entry list \<Rightarrow> string \<Rightarrow> remote_entry list" where
  "pull_page remote c = take MEMORY_SINCE_PULL_LIMIT (filter (\<lambda>e. c < m_id e) remote)"

definition catch_up_once :: "remote_entry list \<Rightarrow> int \<Rightarrow> session \<Rightarrow> session" where
  "catch_up_once remote now s = catch_up now (Inr (pull_page remote (since_id (s_cursor s)))) s"

lemma update_new: "k \<notin> fst ` set b \<Longrightarrow> AList.update k v b = b @ [(k, v)]"
  by (induction b) auto

lemma buffer_pulled_room:
  assumes "sorted_wrt (<) (map m_id es)" and "\<forall>e \<in> set es. s_cursor s < Some (m_id e)"
    and "\<forall>e \<in> set es. m_id e \<notin> fst ` set (s_pulled s)"
    and "length (s_pulled s) + length es \<le> MAX_BUFFERED_ITEMS_PER_SESSION"
  shows "buffer_pulled es s =
    (s\<lparr> s_pulled := s_pulled s @ map (\<lambda>e. (m_id e, pulled_entry_from e)) es,
        s_cursor := if es = [] then s_cursor s else Some (m_id (last es)) \<rparr>, False)"
  using assms
proof (induction es arbitrary: s)
  case Nil
  then show ?case by simp
next
  case (Cons e es)
  let ?s = "s\<lparr> s_pulled := s_pulled s @ [(m_id e, pulled_entry_from e)], s_cursor := Some (m_id e) \<rparr>"
  have "buffer_pulled (e # es) s = buffer_pulled es ?s"
    using Cons.prems by (simp add: update_new map_of_eq_None_iff Let_def)
  also have "\<dots> = (?s\<lparr> s_pulled := s_pulled ?s @ map (\<lambda>e. (m_id e, pulled_entry_from e)) es,
        s_cursor := if es = [] then s_cursor ?s else Some (m_id (last es)) \<rparr>, False)"
    by (rule Cons.IH) (use Cons.prems in auto)
  finally show ?case by simp
qed

definition fetched :: "remote_entry list \<Rightarrow> nat \<Rightarrow> session \<Rightarrow> bool" where
  "fetched remote n s \<longleftrightarrow> s_pulled s = map (\<lambda>e. (m_id e, pulled_entry_from e)) (take n remote) \<and>
     s_cursor s = (if take n remote = [] then None else Some (m_id (last (take n remote))))"

lemma sorted_last:
  "sorted_wrt (<) (map m_id xs) \<Longrightarrow> e \<in> set xs \<Longrightarrow> m_id e \<le> m_id (last xs)"
  by (induction xs) (auto intro: order.strict_implies_order)

lemma after_last:
  assumes w: "sorted_wrt (<) (map m_id xs)" and ne: "take n xs \<noteq> []"
  shows "filter (\<lambda>e. m_id (last (take n xs)) < m_id e) xs = drop n xs"
proof -
  let ?a = "take n xs" and ?b = "drop n xs"
  have w': "sorted_wrt (<) (map m_id (?a @ ?b))" using w by simp
  have "m_id (last ?a) < m_id e" if "e \<in> set ?b" for e
    using w' that ne unfolding map_append sorted_wrt_append by auto
  moreover have "\<not> m_id (last ?a) < m_id e" if "e \<in> set ?a" for e
    using w' that sorted_last [of ?a e] unfolding map_append sorted_wrt_append by auto
  ultimately have "filter (\<lambda>e. m_id (last ?a) < m_id e) (?a @ ?b) = ?b"
    unfolding filter_append by (simp add: filter_id_conv filter_empty_conv)
  then show ?thesis by simp
qed

lemma after_cursor:
  assumes sorted: "sorted_wrt (<) (map m_id remote)" and nil: "\<forall>e \<in> set remote. nil_uuid < m_id e"
    and s: "fetched remote n s"
  shows "filter (\<lambda>e. since_id (s_cursor s) < m_id e) remote = drop n remote"
proof (cases "take n remote = []")
  case True
  then have "s_cursor s = None" "drop n remote = remote" using s by (auto simp: fetched_def)
  with nil show ?thesis by (simp add: since_id_def)
next
  case False
  with s after_last [OF sorted False] show ?thesis by (simp add: fetched_def since_id_def)
qed

lemma catch_up_once_fetches:
  assumes sorted: "sorted_wrt (<) (map m_id remote)" and nil: "\<forall>e \<in> set remote. nil_uuid < m_id e"
    and room: "length remote \<le> MAX_BUFFERED_ITEMS_PER_SESSION" and s: "fetched remote n s"
  shows "fetched remote (n + MEMORY_SINCE_PULL_LIMIT) (catch_up_once remote now s)"
proof -
  let ?L = MEMORY_SINCE_PULL_LIMIT
  let ?es = "take ?L (drop n remote)"
  have page: "pull_page remote (since_id (s_cursor s)) = ?es"
    unfolding pull_page_def after_cursor [OF sorted nil s] ..
  have ab: "take (n + ?L) remote = take n remote @ ?es" by (simp add: take_add)
  have w: "sorted_wrt (<) (map m_id (take n remote @ drop n remote))" using sorted by simp
  have w1: "sorted_wrt (<) (map m_id (take n remote @ ?es))"
    using sorted ab by (metis take_map sorted_wrt_take)
  show ?thesis
  proof (cases "?es = []")
    case True
    then have "catch_up_once remote now s = s" unfolding catch_up_once_def page by (simp add: catch_up_def)
    with s True ab show ?thesis by (simp add: fetched_def)
  next
    case False
    have run: "buffer_pulled ?es s =
      (s\<lparr> s_pulled := s_pulled s @ map (\<lambda>e. (m_id e, pulled_entry_from e)) ?es,
          s_cursor := if ?es = [] then s_cursor s else Some (m_id (last ?es)) \<rparr>, False)"
    proof (rule buffer_pulled_room)
      show "sorted_wrt (<) (map m_id ?es)" using w1 by (simp only: map_append sorted_wrt_append)
      have lt: "m_id x < m_id e" if "x \<in> set (take n remote)" "e \<in> set ?es" for x e
        using w1 that by (auto simp only: map_append sorted_wrt_append set_map)
      show "\<forall>e \<in> set ?es. s_cursor s < Some (m_id e)"
        using s lt by (auto simp: fetched_def)
      show "\<forall>e \<in> set ?es. m_id e \<notin> fst ` set (s_pulled s)"
        using s lt by (force simp: fetched_def)
      have "length (take (n + ?L) remote) \<le> length remote" by simp
      then show "length (s_pulled s) + length ?es \<le> MAX_BUFFERED_ITEMS_PER_SESSION"
        using room s ab by (simp add: fetched_def)
    qed
    then show ?thesis
      using s False ab unfolding catch_up_once_def page catch_up_def by (auto simp: fetched_def)
  qed
qed

lemma catch_ups_fetch:
  assumes "sorted_wrt (<) (map m_id remote)" and "\<forall>e \<in> set remote. nil_uuid < m_id e"
    and "length remote \<le> MAX_BUFFERED_ITEMS_PER_SESSION"
  shows "fetched remote (n * MEMORY_SINCE_PULL_LIMIT) ((catch_up_once remote now ^^ n) session_new)"
proof (induction n)
  case 0
  then show ?case by (simp add: fetched_def session_new_def)
next
  case (Suc n)
  from catch_up_once_fetches [OF assms this, of now] show ?case by (simp add: add.commute)
qed

text \<open>After n catch-ups a fresh session offers exactly the first 100 n entries of a team server that
  holds no more than the buffer does; in particular one catch-up does not fetch more than one page.\<close>

lemma backlog_delivered:
  assumes "sorted_wrt (<) (map m_id remote)" and "\<forall>e \<in> set remote. nil_uuid < m_id e"
    and "length remote \<le> MAX_BUFFERED_ITEMS_PER_SESSION"
  shows "u_remote_id ` set (p_pulled (session_poll ((catch_up_once remote now ^^ n) session_new))) =
    m_id ` set (take (n * MEMORY_SINCE_PULL_LIMIT) remote)"
  using catch_ups_fetch [OF assms, of n now]
  by (simp add: fetched_def session_poll_def image_image pulled_entry_from_def)

lemma backlog_delivered_witness:
  "u_remote_id ` set (p_pulled (session_poll
     ((catch_up_once [team_entry ''a'', team_entry ''b''] 0 ^^ 1) session_new))) = {''a'', ''b''}"
proof -
  have "nil_uuid < ''a''" "nil_uuid < ''b''" "''a'' < (''b'' :: string)" by code_simp+
  then show ?thesis
    using backlog_delivered [where remote = "[team_entry ''a'', team_entry ''b'']" and now = 0 and n = 1]
    by (simp add: team_entry_def MEMORY_SINCE_PULL_LIMIT_def MAX_BUFFERED_ITEMS_PER_SESSION_def)
qed

section \<open>The event stream\<close>

lemma find_double_newline_append:
  "find_double_newline a = Some p \<Longrightarrow> find_double_newline (a @ b) = Some p"
  by (induction a arbitrary: p rule: find_double_newline.induct) (auto split: if_splits)

lemma take_frames_append:
  "take_frames (a @ b) =
    (case take_frames a of (fs, r) \<Rightarrow> case take_frames (r @ b) of (gs, r') \<Rightarrow> (fs @ gs, r'))"
proof (induction a rule: take_frames.induct)
  case (1 a)
  show ?case
  proof (cases "find_double_newline a")
    case None
    then have "take_frames a = ([], a)" by (simp add: take_frames.simps)
    then show ?thesis by (simp split: prod.split)
  next
    case (Some p)
    let ?t = "drop (p + 2) a"
    have l: "p + 2 \<le> length a" using find_double_newline_less [OF Some] .
    have a: "take_frames a = (take (p + 2) a # fst (take_frames ?t), snd (take_frames ?t))"
      by (subst take_frames.simps) (simp add: Some case_prod_beta)
    have ab: "take_frames (a @ b) = (take (p + 2) a # fst (take_frames (?t @ b)), snd (take_frames (?t @ b)))"
      by (subst take_frames.simps) (use l in \<open>simp add: find_double_newline_append [OF Some] case_prod_beta\<close>)
    from 1 [OF Some] show ?thesis unfolding a ab by (simp add: case_prod_beta)
  qed
qed

lemma read_stream_frames:
  "read_stream buf (map Some cs) = (fs, Inr ()) \<Longrightarrow> fst (take_frames buf) = [] \<Longrightarrow>
     fs = fst (take_frames (buf @ concat cs))"
proof (induction cs arbitrary: buf fs)
  case Nil
  then show ?case by simp
next
  case (Cons c cs)
  obtain gs r where t: "take_frames (buf @ c) = (gs, r)" by fastforce
  obtain hs x where h: "read_stream r (map Some cs) = (hs, x)" by fastforce
  have fs: "fs = gs @ hs" "x = Inr ()" using Cons.prems(1) t h by (auto simp: Let_def split: if_splits)
  have "take_frames (r @ []) = ([], r)"
    using take_frames_append [of "buf @ c" "[]"] t by (cases "take_frames r") auto
  then have "hs = fst (take_frames (r @ concat cs))" using Cons.IH [of r hs] h fs by simp
  moreover have "fst (take_frames ((buf @ c) @ concat cs)) = gs @ fst (take_frames (r @ concat cs))"
    unfolding take_frames_append [of "buf @ c"] t by (simp add: case_prod_beta)
  ultimately show ?case using fs by simp
qed

text \<open>The frames read from an event stream are the same wherever the transport cuts it.\<close>

lemma stream_frames_any_chunks:
  assumes "read_stream [] (map Some cs) = (fs, Inr ())" and "read_stream [] (map Some ds) = (gs, Inr ())"
    and "concat cs = concat ds"
  shows "fs = gs"
proof -
  have "fst (take_frames []) = []" by (simp add: take_frames.simps)
  with assms read_stream_frames show ?thesis by metis
qed

lemma stream_frames_any_chunks_witness:
  "\<exists>fs. read_stream [] [Some ''data: x'', Some [nl], Some (nl # ''id: 7'')] = (fs, Inr ()) \<and>
     read_stream [] [Some (''data: x'' @ [nl, nl]), Some ''id: 7''] = (fs, Inr ()) \<and> fs \<noteq> []"
proof -
  let ?cs = "[''data: x'', [nl], nl # ''id: 7'']" and ?ds = "[''data: x'' @ [nl, nl], ''id: 7'']"
  have c: "read_stream [] (map Some ?cs) = ([''data: x'' @ [nl, nl]], Inr ())"
    by (simp add: MAX_SSE_BUFFER_BYTES_def take_frames.simps nl_def)
  have d: "snd (read_stream [] (map Some ?ds)) = Inr ()"
    by (simp add: MAX_SSE_BUFFER_BYTES_def take_frames.simps nl_def)
  obtain gs where g: "read_stream [] (map Some ?ds) = (gs, Inr ())" using d by (metis prod.collapse)
  have "gs = [''data: x'' @ [nl, nl]]" using stream_frames_any_chunks [OF c g] by simp
  with c g show ?thesis by auto
qed

end
