(* ===== verification/CloudSync.thy ===== *)
theory CloudSync
  imports MemorySync RelayDelivery
begin

text \<open>
  \<open>storage/remote/sync.rs\<close>: the wire client of the two-way sync, and the monad in which the commands
  that use it run: the local store beside everything outside the process.  The team server, the
  embedder, the clock and the source of UUIDs are the record \<open>outside\<close>; an HTTP answer is
  \<open>Inl\<close> a transport error or its status with the parsed body.
\<close>

section \<open>The outside\<close>

type_synonym 'a http = "string + nat \<times> (string + 'a)"

record batch_push_result =
  br_created :: nat
  br_skipped :: nat
  br_failed :: nat
  br_results :: "batch_item_result list"

record sync_edge_push =
  ep_from_external_id :: string
  ep_to_external_id :: string
  ep_kind :: string

text \<open>The acknowledged edges, by their status.\<close>

type_synonym edge_push_result = "string list"

record 't outside =
  o_get_since :: "string \<Rightarrow> nat \<Rightarrow> 't \<Rightarrow> remote_entry list http \<times> 't"
  o_post_batch :: "batch_push_item list \<Rightarrow> 't \<Rightarrow> batch_push_result http \<times> 't"
  o_post_edges :: "sync_edge_push list \<Rightarrow> 't \<Rightarrow> edge_push_result http \<times> 't"
  o_delete :: "string \<Rightarrow> 't \<Rightarrow> unit http \<times> 't"
  o_embedder :: "'t \<Rightarrow> bool \<times> 't"
  o_embed_text :: "string \<Rightarrow> 't \<Rightarrow> (string + nat list) \<times> 't"
  o_uuid :: "'t \<Rightarrow> string \<times> 't"
  o_now :: "'t \<Rightarrow> int \<times> 't"
  o_rfc3339 :: "string \<Rightarrow> int option"

text \<open>\<open>OutOfFuel\<close> is not an error of the code: it marks a run of the paging loop cut short by the model.\<close>

datatype net_error = StoreError db_error | NetError string | OutOfFuel

type_synonym ('t, 'a) net = "store \<times> 't \<Rightarrow> (net_error + 'a) \<times> store \<times> 't"

definition net_ok :: "'a \<Rightarrow> ('t, 'a) net" where
  "net_ok x = (\<lambda>w. (Inr x, w))"

definition net_fail :: "net_error \<Rightarrow> ('t, 'a) net" where
  "net_fail e = (\<lambda>w. (Inl e, w))"

definition seq_net :: "('t, 'a) net \<Rightarrow> ('a \<Rightarrow> ('t, 'b) net) \<Rightarrow> ('t, 'b) net" where
  "seq_net m f = (\<lambda>w. case m w of (Inl e, w') \<Rightarrow> (Inl e, w') | (Inr x, w') \<Rightarrow> f x w')"

definition try_net :: "('t, 'a) net \<Rightarrow> ('t, net_error + 'a) net" where
  "try_net m = (\<lambda>w. case m w of (r, w') \<Rightarrow> (Inr r, w'))"

definition local_net :: "'a sql \<Rightarrow> ('t, 'a) net" where
  "local_net m = (\<lambda>(s, t). case m s of
      (Inl e, s') \<Rightarrow> (Inl (StoreError e), s', t) | (Inr x, s') \<Rightarrow> (Inr x, s', t))"

definition outside_net :: "('t \<Rightarrow> 'a \<times> 't) \<Rightarrow> ('t, 'a) net" where
  "outside_net f = (\<lambda>(s, t). case f t of (x, t') \<Rightarrow> (Inr x, s, t'))"

lemma net_run:
  "net_ok x w = (Inr x, w)" "net_fail e w = (Inl e, w)"
  by (simp_all add: net_ok_def net_fail_def)

lemma seq_net_run:
  "seq_net m f w = (r, w') \<longleftrightarrow>
     (\<exists>e. m w = (Inl e, w') \<and> r = Inl e) \<or> (\<exists>x w1. m w = (Inr x, w1) \<and> f x w1 = (r, w'))"
  by (auto simp: seq_net_def split: prod.splits sum.splits)

section \<open>The client\<close>

definition PUSHED_VECTOR_PRECISION :: string where
  "PUSHED_VECTOR_PRECISION = ''fp32''"

definition MODEL_ID :: string where
  "MODEL_ID = ''F2LLM-v2-330M@896''"

definition pushed_vector_model_tag :: string where
  "pushed_vector_model_tag = hd (split_on (CHR ''@'') MODEL_ID)"

definition maybe_attach_vector :: "bool \<Rightarrow> nat list option \<Rightarrow> batch_push_item \<Rightarrow> batch_push_item" where
  "maybe_attach_vector server_accepts_vectors vector item =
     (case vector of
        Some v \<Rightarrow>
          if server_accepts_vectors
          then item\<lparr> b_vector := Some v, b_vector_model := Some pushed_vector_model_tag,
                 b_vector_precision := Some PUSHED_VECTOR_PRECISION \<rparr>
          else item
      | None \<Rightarrow> item)"

definition is_success :: "nat \<Rightarrow> bool" where
  "is_success status \<longleftrightarrow> 200 \<le> status \<and> status < 300"

definition is_error_status :: "nat \<Rightarrow> bool" where
  "is_error_status status \<longleftrightarrow> 400 \<le> status \<and> status < 600"

definition empty_batch_result :: batch_push_result where
  "empty_batch_result = \<lparr> br_created = 0, br_skipped = 0, br_failed = 0, br_results = [] \<rparr>"

definition from_http :: "'a http \<Rightarrow> (nat \<Rightarrow> string + 'a \<Rightarrow> (net_error + 'b)) \<Rightarrow> ('t, 'b) net" where
  "from_http resp f =
     (case resp of
        Inl msg \<Rightarrow> net_fail (NetError msg)
      | Inr (status, body) \<Rightarrow> (case f status body of Inl e \<Rightarrow> net_fail e | Inr x \<Rightarrow> net_ok x))"

definition parsed_if :: "bool \<Rightarrow> string + 'a \<Rightarrow> net_error + 'a" where
  "parsed_if good body =
     (if good then (case body of Inl msg \<Rightarrow> Inl (NetError msg) | Inr x \<Rightarrow> Inr x)
      else Inl (NetError ''bad status''))"

definition push_batch :: "'t outside \<Rightarrow> batch_push_item list \<Rightarrow> ('t, batch_push_result) net" where
  "push_batch out entries =
     (if entries = [] then net_ok empty_batch_result
      else seq_net (outside_net (o_post_batch out entries))
             (\<lambda>resp. from_http resp (\<lambda>status. parsed_if (is_success status))))"

definition push_edges :: "'t outside \<Rightarrow> sync_edge_push list \<Rightarrow> ('t, edge_push_result) net" where
  "push_edges out edges =
     (if edges = [] then net_ok []
      else seq_net (outside_net (o_post_edges out edges))
             (\<lambda>resp. from_http resp (\<lambda>status. parsed_if (is_success status))))"

definition edges_applied :: "edge_push_result \<Rightarrow> nat" where
  "edges_applied edges =
     length (filter (\<lambda>status. status = created \<or> status = ''applied'' \<or> status = ''updated'') edges)"

definition edges_acknowledged :: "edge_push_result \<Rightarrow> nat" where
  "edges_acknowledged edges = length edges"

definition delete_remote :: "'t outside \<Rightarrow> string \<Rightarrow> ('t, unit) net" where
  "delete_remote out remote_id =
     seq_net (outside_net (o_delete out remote_id))
       (\<lambda>resp. from_http resp
          (\<lambda>status _. if is_success status \<or> status = 404 then Inr () else Inl (NetError ''bad status'')))"

definition pull_since :: "'t outside \<Rightarrow> string option \<Rightarrow> ('t, remote_entry list) net" where
  "pull_since out cursor =
     seq_net (outside_net (o_get_since out (since_id cursor) MEMORY_SINCE_PULL_LIMIT))
       (\<lambda>resp. from_http resp
          (\<lambda>status body. if status = 404 then Inr [] else parsed_if (\<not> is_error_status status) body))"

end
