(* ===== verification/SyncRound.thy ===== *)
theory SyncRound
  imports CloudSync
begin

text \<open>
  \<open>spelunk sync\<close> (\<open>spelunk-cli/src/cli/cmd/memory/sync/\<close>): pulling page by page, the repair of local
  embeddings, pushing in chunks, and the round that puts them together.
\<close>

section \<open>Pull\<close>

definition parse_iso_to_secs :: "'t outside \<Rightarrow> string \<Rightarrow> ('t, int) net" where
  "parse_iso_to_secs out text =
     (case o_rfc3339 out text of Some secs \<Rightarrow> net_ok secs | None \<Rightarrow> outside_net (o_now out))"

text \<open>A UUID is drawn for every entry; only an inserted row uses it.\<close>

definition apply_entry :: "'t outside \<Rightarrow> hashing \<Rightarrow> remote_entry \<Rightarrow> ('t, bool) net" where
  "apply_entry out E e =
     seq_net (parse_iso_to_secs out (m_created_at e))
       (\<lambda>created_secs. seq_net (outside_net (o_uuid out))
          (\<lambda>minted. local_net (apply_remote_note E minted (m_id e) (m_kind e) (m_title e)
             (case m_body e of Some b \<Rightarrow> b | None \<Rightarrow> []) (m_source_commit e) created_secs (is_archived e))))"

fun apply_page :: "'t outside \<Rightarrow> hashing \<Rightarrow> remote_entry list \<Rightarrow> nat \<Rightarrow> ('t, nat) net" where
  "apply_page out E [] applied = net_ok applied"
| "apply_page out E (e # es) applied =
     seq_net (apply_entry out E e)
       (\<lambda>inserted. apply_page out E es (if inserted then applied + 1 else applied))"

fun pull_pages :: "nat \<Rightarrow> 't outside \<Rightarrow> hashing \<Rightarrow> string option \<Rightarrow> nat \<Rightarrow> ('t, nat) net" where
  "pull_pages 0 out E cursor applied = net_fail OutOfFuel"
| "pull_pages (Suc fuel) out E cursor applied =
     seq_net (pull_since out cursor)
       (\<lambda>entries. seq_net (apply_page out E entries applied)
          (\<lambda>applied'.
             if length entries < MEMORY_SINCE_PULL_LIMIT then net_ok applied'
             else pull_pages fuel out E
               (if entries = [] then None else Some (m_id (last entries))) applied'))"

definition pull_and_apply_since :: "nat \<Rightarrow> 't outside \<Rightarrow> hashing \<Rightarrow> string option \<Rightarrow> ('t, nat) net" where
  "pull_and_apply_since fuel out E cursor = pull_pages fuel out E cursor 0"

definition pull_and_apply :: "nat \<Rightarrow> 't outside \<Rightarrow> hashing \<Rightarrow> ('t, nat) net" where
  "pull_and_apply fuel out E =
     seq_net (local_net max_remote_id) (\<lambda>cursor. pull_and_apply_since fuel out E cursor)"

section \<open>Local embeddings\<close>

text \<open>An \<open>f32\<close> is its bit pattern; four bytes each, the least significant first.\<close>

definition EMBEDDING_DIM :: nat where
  "EMBEDDING_DIM = 896"

definition f32_to_le_bytes :: "nat \<Rightarrow> string" where
  "f32_to_le_bytes b = map (\<lambda>k. char_of (b div 256 ^ k mod 256)) [0, 1, 2, 3]"

definition vec_to_blob :: "nat list \<Rightarrow> string" where
  "vec_to_blob v = concat (map f32_to_le_bytes v)"

fun blob_to_vec :: "string \<Rightarrow> nat list" where
  "blob_to_vec (a # b # c # d # rest) =
     (of_char a + 256 * of_char b + 256 ^ 2 * of_char c + 256 ^ 3 * of_char d) # blob_to_vec rest"
| "blob_to_vec _ = []"

definition usable_vector :: "string option \<Rightarrow> nat list option" where
  "usable_vector blob =
     (case blob of
        None \<Rightarrow> None
      | Some b \<Rightarrow> if length (blob_to_vec b) = EMBEDDING_DIM then Some (blob_to_vec b) else None)"

datatype sync_mode = Offline | LocalFirst | CloudFirst

datatype local_embed_policy = Repair | Skip

definition for_push :: "sync_mode \<Rightarrow> string option \<Rightarrow> local_embed_policy" where
  "for_push mode server_url = (if mode = CloudFirst \<and> server_url \<noteq> None then Skip else Repair)"

record repair_counts =
  rc_embedded :: nat
  rc_without_vector :: nat

fun missing_vectors :: "sync_row list \<Rightarrow> sync_row list sql" where
  "missing_vectors [] = ok []"
| "missing_vectors (r # rs) =
     seq_sql (get_embedding (sr_local_id r))
       (\<lambda>blob. seq_sql (missing_vectors rs)
          (\<lambda>missing. ok (if usable_vector blob = None then r # missing else missing)))"

definition embed_document :: "sync_row \<Rightarrow> string" where
  "embed_document r = ''title: '' @ sr_title r @ '' | text: '' @ sr_body r"

fun embed_missing :: "'t outside \<Rightarrow> sync_row list \<Rightarrow> repair_counts \<Rightarrow> ('t, repair_counts) net" where
  "embed_missing out [] counts = net_ok counts"
| "embed_missing out (r # rs) counts =
     seq_net (outside_net (o_embed_text out (embed_document r)))
       (\<lambda>res. case res of
          Inr v \<Rightarrow>
            seq_net (local_net (insert_embedding True (sr_local_id r) (vec_to_blob v)))
              (\<lambda>_. embed_missing out rs (counts\<lparr> rc_embedded := rc_embedded counts + 1 \<rparr>))
        | Inl _ \<Rightarrow> embed_missing out rs (counts\<lparr> rc_without_vector := rc_without_vector counts + 1 \<rparr>))"

definition repair_local_embeddings ::
    "'t outside \<Rightarrow> sync_row list \<Rightarrow> local_embed_policy \<Rightarrow> ('t, repair_counts) net" where
  "repair_local_embeddings out live policy =
     (case policy of
        Skip \<Rightarrow> net_ok \<lparr> rc_embedded = 0, rc_without_vector = 0 \<rparr>
      | Repair \<Rightarrow>
          seq_net (local_net (missing_vectors live))
            (\<lambda>missing.
               if missing = [] then net_ok \<lparr> rc_embedded = 0, rc_without_vector = 0 \<rparr>
               else
                 seq_net (outside_net (o_embedder out))
                   (\<lambda>reachable.
                      if \<not> reachable then net_ok \<lparr> rc_embedded = 0, rc_without_vector = length missing \<rparr>
                      else embed_missing out missing \<lparr> rc_embedded = 0, rc_without_vector = 0 \<rparr>)))"

section \<open>Push\<close>

definition PUSH_BATCH_CHUNK_SIZE :: nat where
  "PUSH_BATCH_CHUNK_SIZE = 50"

record push_summary =
  ps_attempted :: nat
  ps_created :: nat
  ps_skipped :: nat
  ps_failed :: nat
  ps_already_synced :: nat
  ps_interrupted :: "net_error option"
  ps_embedded_locally :: nat
  ps_without_local_vector :: nat
  ps_edges_pushed :: nat

function chunks :: "nat \<Rightarrow> 'a list \<Rightarrow> 'a list list" where
  "chunks n xs = (if xs = [] \<or> n = 0 then [] else take n xs # chunks n (drop n xs))"
  by pat_completeness auto
termination
  by (relation "measure (\<lambda>(n, xs). length xs)") auto

declare chunks.simps [simp del]

definition push_item :: "bool \<Rightarrow> sync_row \<Rightarrow> batch_push_item sql" where
  "push_item accepts_pushed_vectors r =
     seq_sql (if accepts_pushed_vectors then seq_sql (get_embedding (sr_local_id r)) (\<lambda>b. ok (usable_vector b))
              else ok None)
       (\<lambda>vector. ok (maybe_attach_vector accepts_pushed_vectors vector
          \<lparr> b_kind = sr_kind r, b_title = sr_title r,
            b_body = (if sr_body r = [] then None else Some (sr_body r)),
            b_external_id = sr_uuid r, b_source_commit = sr_source_ref r,
            b_vector = None, b_vector_model = None, b_vector_precision = None \<rparr>))"

fun push_items :: "bool \<Rightarrow> sync_row list \<Rightarrow> batch_push_item list sql" where
  "push_items accepts [] = ok []"
| "push_items accepts (r # rs) =
     seq_sql (push_item accepts r) (\<lambda>i. seq_sql (push_items accepts rs) (\<lambda>is. ok (i # is)))"

record tally =
  ty_created :: nat
  ty_skipped :: nat
  ty_failed :: nat
  ty_just_synced :: "int list"

definition count_status :: "string \<Rightarrow> tally \<Rightarrow> tally" where
  "count_status status y =
     (if status = created then y\<lparr> ty_created := ty_created y + 1 \<rparr>
      else if status = skipped then y\<lparr> ty_skipped := ty_skipped y + 1 \<rparr>
      else y\<lparr> ty_failed := ty_failed y + 1 \<rparr>)"

definition stamp_of :: "sync_row list \<Rightarrow> batch_item_result \<Rightarrow> (sync_row \<times> string) option" where
  "stamp_of chunk item =
     (if i_status item = created \<or> i_status item = skipped then
        (case (i_external_id item, i_id item) of
           (Some ext, Some cloud_id) \<Rightarrow> map_option (\<lambda>r. (r, cloud_id)) (find (\<lambda>r. sr_uuid r = ext) chunk)
         | _ \<Rightarrow> None)
      else None)"

fun record_results :: "sync_row list \<Rightarrow> batch_item_result list \<Rightarrow> tally \<Rightarrow> tally sql" where
  "record_results chunk [] y = ok y"
| "record_results chunk (item # items) y =
     (let y1 = count_status (i_status item) y in
      (case stamp_of chunk item of
         Some (row, cloud_id) \<Rightarrow>
           seq_sql (set_remote_id (sr_local_id row) cloud_id)
             (\<lambda>_. record_results chunk items (y1\<lparr> ty_just_synced := sr_local_id row # ty_just_synced y1 \<rparr>))
       | None \<Rightarrow> record_results chunk items y1))"

definition count_aggregate :: "batch_push_result \<Rightarrow> tally \<Rightarrow> tally" where
  "count_aggregate res y =
     (if br_results res = []
      then y\<lparr> ty_created := ty_created y + br_created res, ty_skipped := ty_skipped y + br_skipped res,
             ty_failed := ty_failed y + br_failed res \<rparr>
      else y)"

text \<open>The chunks in turn, up to the first request that fails: the tally and that failure.\<close>

fun push_chunks ::
    "'t outside \<Rightarrow> bool \<Rightarrow> sync_row list list \<Rightarrow> tally \<Rightarrow> ('t, tally \<times> net_error option) net" where
  "push_chunks out accepts [] y = net_ok (y, None)"
| "push_chunks out accepts (chunk # rest) y =
     seq_net (local_net (push_items accepts chunk))
       (\<lambda>items. seq_net (try_net (push_batch out items))
          (\<lambda>answer. case answer of
             Inl e \<Rightarrow> net_ok (y, Some e)
           | Inr res \<Rightarrow>
               seq_net (local_net (record_results chunk (br_results res) (count_aggregate res y)))
                 (\<lambda>y'. push_chunks out accepts rest y')))"

fun push_tombstones :: "'t outside \<Rightarrow> sync_row list \<Rightarrow> ('t, unit) net" where
  "push_tombstones out [] = net_ok ()"
| "push_tombstones out (r # rs) =
     (case (sr_archived r, sr_remote_id r) of
        (True, Some remote_id) \<Rightarrow> seq_net (delete_remote out remote_id) (\<lambda>_. push_tombstones out rs)
      | _ \<Rightarrow> push_tombstones out rs)"

definition push_relates_to_edges :: "'t outside \<Rightarrow> int list \<Rightarrow> ('t, nat) net" where
  "push_relates_to_edges out just_synced =
     (if just_synced = [] then net_ok 0
      else
        seq_net (local_net relates_to_edges_for_sync)
          (\<lambda>all_edges.
             let edges = map (\<lambda>e. \<lparr> ep_from_external_id = se_from_external_id e,
                     ep_to_external_id = se_to_external_id e, ep_kind = ''relates_to'' \<rparr>)
                   (filter (\<lambda>e. se_from_local_id e \<in> set just_synced \<or> se_to_local_id e \<in> set just_synced)
                     all_edges)
             in if edges = [] then net_ok 0
                else seq_net (push_edges out edges) (\<lambda>acks. net_ok (edges_applied acks))))"

definition push_local ::
    "'t outside \<Rightarrow> (int \<Rightarrow> string) \<Rightarrow> bool \<Rightarrow> bool \<Rightarrow> local_embed_policy \<Rightarrow> ('t, push_summary) net" where
  "push_local out fresh include_archived accepts policy =
     seq_net (local_net (rows_for_sync fresh include_archived))
       (\<lambda>rows.
          if rows = [] then
            net_ok \<lparr> ps_attempted = 0, ps_created = 0, ps_skipped = 0, ps_failed = 0, ps_already_synced = 0,
              ps_interrupted = None, ps_embedded_locally = 0, ps_without_local_vector = 0, ps_edges_pushed = 0 \<rparr>
          else
            (let live = filter (\<lambda>r. \<not> sr_archived r \<and> sr_remote_id r = None) rows;
                 already_synced = length (filter (\<lambda>r. \<not> sr_archived r \<and> sr_remote_id r \<noteq> None) rows) in
             seq_net (repair_local_embeddings out live policy)
             (\<lambda>repair. seq_net (push_chunks out accepts (chunks PUSH_BATCH_CHUNK_SIZE live)
                  \<lparr> ty_created = 0, ty_skipped = 0, ty_failed = 0, ty_just_synced = [] \<rparr>)
             (\<lambda>(y, interrupted). seq_net
                (if interrupted = None \<and> include_archived then push_tombstones out rows else net_ok ())
             (\<lambda>_. seq_net
                (if interrupted = None then try_net (push_relates_to_edges out (ty_just_synced y))
                 else net_ok (Inr 0))
             (\<lambda>edges. net_ok
                \<lparr> ps_attempted = length live, ps_created = ty_created y, ps_skipped = ty_skipped y,
                  ps_failed = ty_failed y, ps_already_synced = already_synced, ps_interrupted = interrupted,
                  ps_embedded_locally = rc_embedded repair, ps_without_local_vector = rc_without_vector repair,
                  ps_edges_pushed = (case edges of Inl _ \<Rightarrow> 0 | Inr n \<Rightarrow> n) \<rparr>))))))"

section \<open>A round\<close>

record sync_round_outcome =
  so_pushed :: push_summary
  so_pulled :: nat

definition sync_round_first ::
    "nat \<Rightarrow> 't outside \<Rightarrow> hashing \<Rightarrow> (int \<Rightarrow> string) \<Rightarrow> bool \<Rightarrow> bool \<Rightarrow> local_embed_policy \<Rightarrow>
       ('t, sync_round_outcome) net" where
  "sync_round_first fuel out E fresh include_archived accepts policy =
     seq_net (push_local out fresh include_archived accepts policy)
       (\<lambda>pushed. seq_net (pull_and_apply_since fuel out E None)
          (\<lambda>pulled. net_ok \<lparr> so_pushed = pushed, so_pulled = pulled \<rparr>))"

definition sync_round ::
    "nat \<Rightarrow> 't outside \<Rightarrow> hashing \<Rightarrow> (int \<Rightarrow> string) \<Rightarrow> bool \<Rightarrow> bool \<Rightarrow> local_embed_policy \<Rightarrow>
       ('t, sync_round_outcome) net" where
  "sync_round fuel out E fresh include_archived accepts policy =
     seq_net (local_net max_remote_id)
       (\<lambda>pre_round_cursor.
          if pre_round_cursor = None
          then sync_round_first fuel out E fresh include_archived accepts policy
          else
            seq_net (pull_and_apply_since fuel out E pre_round_cursor)
            (\<lambda>pulled_first. seq_net (push_local out fresh include_archived accepts policy)
            (\<lambda>pushed. seq_net (pull_and_apply_since fuel out E pre_round_cursor)
            (\<lambda>pulled_second. net_ok \<lparr> so_pushed = pushed, so_pulled = pulled_first + pulled_second \<rparr>))))"

end
