(* ===== verification/SyncSpec.thy ===== *)
theory SyncSpec
  imports SyncRound
begin

text \<open>
  What the two-way sync promises: pulling returns and leaves nothing of the backlog out, no step of a
  round loses, rewrites or un-archives a row, and where a round that failed half way leaves the cursor.
\<close>

section \<open>Relations every step keeps\<close>

text \<open>A relation between stores that composes: what each step keeps, a program keeps.\<close>

definition moves :: "(store \<Rightarrow> store \<Rightarrow> bool) \<Rightarrow> ('t, 'a) net \<Rightarrow> bool" where
  "moves R m \<longleftrightarrow> (\<forall>s t. R s (fst (snd (m (s, t)))))"

definition moves_sql :: "(store \<Rightarrow> store \<Rightarrow> bool) \<Rightarrow> 'a sql \<Rightarrow> bool" where
  "moves_sql R m \<longleftrightarrow> (\<forall>s. R s (snd (m s)))"

locale store_order =
  fixes R :: "store \<Rightarrow> store \<Rightarrow> bool"
  assumes R_refl: "R s s"
    and R_trans: "R s t \<Longrightarrow> R t u \<Longrightarrow> R s u"
begin

lemma sql_pure: "moves_sql R (ok x)" "moves_sql R (raise e)" "moves_sql R (query f)"
  by (simp_all add: moves_sql_def sql_run R_refl)

lemma sql_seq: "moves_sql R m \<Longrightarrow> (\<And>x. moves_sql R (f x)) \<Longrightarrow> moves_sql R (seq_sql m f)"
  unfolding moves_sql_def seq_sql_def
  by (auto split: prod.split sum.split) (metis R_trans snd_conv)+

lemma sql_try: "moves_sql R m \<Longrightarrow> moves_sql R (try_sql m)"
  unfolding moves_sql_def try_sql_def by (auto split: prod.split) (metis snd_conv)

lemma net_pure: "moves R (net_ok x)" "moves R (net_fail e)" "moves R (outside_net g)"
  by (auto simp: moves_def net_run outside_net_def R_refl split: prod.split)

lemma net_seq: "moves R m \<Longrightarrow> (\<And>x. moves R (f x)) \<Longrightarrow> moves R (seq_net m f)"
  unfolding moves_def seq_net_def
  by (auto split: prod.split sum.split) (metis R_trans fst_conv snd_conv)+

lemma net_try: "moves R m \<Longrightarrow> moves R (try_net m)"
  unfolding moves_def try_net_def by (auto split: prod.split) (metis fst_conv snd_conv)

lemma net_local: "moves_sql R m \<Longrightarrow> moves R (local_net m)"
  unfolding moves_def moves_sql_def local_net_def
  by (auto split: prod.split sum.split) (metis snd_conv)+

lemma net_http: "moves R (from_http resp f)"
  unfolding from_http_def by (auto intro: net_pure split: sum.split prod.split)

lemma net_client:
  "moves R (pull_since out c)" "moves R (push_batch out is)" "moves R (push_edges out es)"
  "moves R (delete_remote out i)" "moves R (parse_iso_to_secs out x)"
  unfolding pull_since_def push_batch_def push_edges_def delete_remote_def parse_iso_to_secs_def
  by (auto intro!: net_seq net_pure net_http split: option.split)

end

section \<open>Pulling keeps the rows\<close>

definition rows_kept :: "store \<Rightarrow> store \<Rightarrow> bool" where
  "rows_kept s t \<longleftrightarrow> store_inv s \<longrightarrow> store_inv t \<and>
     (\<forall>i r. row_of s i = Some r \<longrightarrow> (\<exists>q. row_of t i = Some q \<and> kept_row r q))"

interpretation kept: store_order rows_kept
proof
  show "rows_kept s s" for s unfolding rows_kept_def using kept_row_refl by blast
  show "rows_kept s u" if "rows_kept s t" "rows_kept t u" for s t u
    using that unfolding rows_kept_def by (meson kept_row_trans)
qed

lemma apply_remote_kept: "moves_sql rows_kept (apply_remote_note E m rid k t b sr ca ar)"
  unfolding moves_sql_def
proof
  fix s
  obtain r s' where run: "apply_remote_note E m rid k t b sr ca ar s = (r, s')" by fastforce
  show "rows_kept s (snd (apply_remote_note E m rid k t b sr ca ar s))"
  proof (cases r)
    case (Inl e)
    with apply_remote_fails [of E m rid k t b sr ca ar s e s'] run show ?thesis by (simp add: kept.R_refl)
  next
    case (Inr v)
    show ?thesis unfolding rows_kept_def
    proof (intro impI conjI)
      assume inv: "store_inv s"
      show "store_inv (snd (apply_remote_note E m rid k t b sr ca ar s))"
        using keepsD [OF keeps_apply_remote_note inv run] run by simp
      show "\<forall>i r. row_of s i = Some r \<longrightarrow>
          (\<exists>q. row_of (snd (apply_remote_note E m rid k t b sr ca ar s)) i = Some q \<and> kept_row r q)"
        using apply_remote_rows(1) [OF inv, of E m rid k t b sr ca ar v s'] run Inr by (metis snd_conv)
    qed
  qed
qed

lemma apply_entry_kept: "moves rows_kept (apply_entry out E e)"
  unfolding apply_entry_def
  by (intro kept.net_seq kept.net_client kept.net_pure kept.net_local apply_remote_kept)

lemma apply_page_kept: "moves rows_kept (apply_page out E es n)"
  by (induction es arbitrary: n) (auto intro!: kept.net_seq kept.net_pure apply_entry_kept)

lemma pull_pages_kept: "moves rows_kept (pull_pages fuel out E c n)"
  by (induction fuel arbitrary: c n)
    (auto intro!: kept.net_seq kept.net_pure kept.net_client apply_page_kept)

section \<open>Pulling leaves nothing out\<close>

text \<open>\<open>e\<close> is on a row, under its remote id or its content, which is archived if \<open>e\<close> is.\<close>

definition taken_in :: "hashing \<Rightarrow> remote_entry \<Rightarrow> store \<Rightarrow> bool" where
  "taken_in E e s \<longleftrightarrow> (\<exists>i r. row_of s i = Some r \<and>
     (r_remote_id r = Some (m_id e) \<or>
      r_entity_id r = Some (entity_id E (m_kind e) (m_title e) (case m_body e of Some b \<Rightarrow> b | None \<Rightarrow> []))) \<and>
     (is_archived e \<longrightarrow> r_status r \<noteq> active))"

lemma taken_in_kept: "taken_in E e s \<Longrightarrow> store_inv s \<Longrightarrow> rows_kept s t \<Longrightarrow> taken_in E e t"
  unfolding taken_in_def rows_kept_def kept_row_def
  by (metis active_not_archived option.distinct(1) prod.inject)

lemma apply_remote_taken:
  assumes inv: "store_inv s"
    and run: "apply_remote_note E m (m_id e) (m_kind e) (m_title e) (case m_body e of Some b \<Rightarrow> b | None \<Rightarrow> [])
      sr ca (is_archived e) s = (Inr v, s')"
  shows "taken_in E e s'"
  using inv run
proof (cases rule: apply_remote_cases)
  case (known q)
  have "row_of s (r_id q) = Some q" using row_of_iff [OF inv] find_SomeE [OF known(1)] by blast
  then have "row_of s' (r_id q) = Some (arch_row (is_archived e) q)"
    unfolding known(3) by (subst row_of_map_rows) auto
  moreover have "r_remote_id q = Some (m_id e)" using find_SomeE [OF known(1)] by simp
  ultimately show ?thesis unfolding taken_in_def
    by (intro exI [of _ "r_id q"] exI [of _ "arch_row (is_archived e) q"]) (simp add: arch_row_status)
next
  case inserted
  let ?r = "pulled_row E m (m_id e) (m_kind e) (m_title e) (case m_body e of Some b \<Rightarrow> b | None \<Rightarrow> []) sr ca (is_archived e) (db_seq s + 1)"
  have "row_of s (db_seq s + 1) = None"
    using store_invD(2) [OF inv] row_of_in [of s "db_seq s + 1"] by (cases "row_of s (db_seq s + 1)") fastforce+
  then have "row_of s' (db_seq s + 1) = Some ?r" by (simp add: inserted(4) row_of_def find_append)
  then show ?thesis unfolding taken_in_def
    by (intro exI [of _ "db_seq s + 1"] exI [of _ ?r]) (simp add: pulled_row_def)
next
  case (adopted q)
  have "row_of s (r_id q) = Some q" using row_of_iff [OF inv] find_SomeE [OF adopted(3)] by blast
  then have "row_of s' (r_id q) = Some (adopted_row (m_id e) (is_archived e) q)"
    unfolding adopted(4) by (subst row_of_map_rows) auto
  with find_SomeE [OF adopted(3)] show ?thesis unfolding taken_in_def
    by (intro exI [of _ "r_id q"] exI [of _ "adopted_row (m_id e) (is_archived e) q"]) (simp add: adopted_row_more)
qed

text \<open>
  A team server that nobody writes to during the pull: \<open>f t\<close> are its entries, in the order of their ids;
  it may answer 404 while it has none, since the project is made by the first write.
\<close>

definition team_serves :: "'t outside \<Rightarrow> ('t \<Rightarrow> remote_entry list) \<Rightarrow> bool" where
  "team_serves out f \<longleftrightarrow>
     (\<forall>c t. o_get_since out c MEMORY_SINCE_PULL_LIMIT t = (Inr (200, Inr (pull_page (f t) c)), t) \<or>
        f t = [] \<and> (\<exists>b. o_get_since out c MEMORY_SINCE_PULL_LIMIT t = (Inr (404, b), t))) \<and>
     (\<forall>t. f (snd (o_uuid out t)) = f t \<and> f (snd (o_now out t)) = f t)"

lemma pull_since_served:
  assumes "team_serves out f"
  shows "pull_since out c (s, t) = (Inr (pull_page (f t) (since_id c)), s, t)"
proof -
  have "o_get_since out (since_id c) MEMORY_SINCE_PULL_LIMIT t = (Inr (200, Inr (pull_page (f t) (since_id c))), t) \<or>
      f t = [] \<and> (\<exists>b. o_get_since out (since_id c) MEMORY_SINCE_PULL_LIMIT t = (Inr (404, b), t))"
    using assms by (simp add: team_serves_def)
  then show ?thesis
    by (elim disjE conjE exE)
       (simp_all add: pull_since_def seq_net_def outside_net_def from_http_def parsed_if_def is_error_status_def
         net_run pull_page_def)
qed

lemma parse_iso_run: "\<exists>secs t'. parse_iso_to_secs out x (s, t) = (Inr secs, s, t') \<and> (t' = t \<or> t' = snd (o_now out t))"
  by (auto simp: parse_iso_to_secs_def net_run outside_net_def split: option.split prod.split)

lemma apply_entry_run:
  assumes team: "team_serves out f" and inv: "store_inv s" and run: "apply_entry out E e (s, t) = (r, s', t')"
  shows "f t' = f t \<and> (case r of Inl x \<Rightarrow> \<exists>d. x = StoreError d | Inr v \<Rightarrow> taken_in E e s')"
proof -
  obtain secs t1 where p: "parse_iso_to_secs out (m_created_at e) (s, t) = (Inr secs, s, t1)"
    and t1: "t1 = t \<or> t1 = snd (o_now out t)"
    using parse_iso_run [of out "m_created_at e" s t] by (elim exE conjE) (rule that)
  obtain m t2 where u: "o_uuid out t1 = (m, t2)" by fastforce
  let ?ap = "apply_remote_note E m (m_id e) (m_kind e) (m_title e)
      (case m_body e of Some b \<Rightarrow> b | None \<Rightarrow> []) (m_source_commit e) secs (is_archived e)"
  obtain q s1 where q: "?ap s = (q, s1)" by fastforce
  have "(r, s', t') = (case q of Inl x \<Rightarrow> (Inl (StoreError x), s1, t2) | Inr v \<Rightarrow> (Inr v, s1, t2))"
    using run p u q by (simp add: apply_entry_def seq_net_def outside_net_def local_net_def)
  moreover have "f t2 = f t" using team t1 u unfolding team_serves_def by (metis snd_conv)
  moreover have "taken_in E e s1" if "q = Inr v" for v
    using apply_remote_taken [OF inv] q that by blast
  ultimately show ?thesis by (auto split: sum.splits)
qed

lemma apply_page_run:
  assumes team: "team_serves out f" and "store_inv s" and "apply_page out E es n (s, t) = (r, s', t')"
  shows "f t' = f t \<and> (case r of Inl x \<Rightarrow> \<exists>d. x = StoreError d | Inr v \<Rightarrow> \<forall>e \<in> set es. taken_in E e s')"
  using assms(2,3)
proof (induction es arbitrary: s t n)
  case Nil
  then show ?case by (auto simp: net_run)
next
  case (Cons e es)
  obtain q s1 t1 where q: "apply_entry out E e (s, t) = (q, s1, t1)" by (metis prod.exhaust)
  note one = apply_entry_run [OF team Cons.prems(1) q]
  show ?case
  proof (cases q)
    case (Inl x)
    with Cons.prems(2) q one show ?thesis by (auto simp: seq_net_def)
  next
    case (Inr v)
    let ?n = "if v then n + 1 else n"
    have rest: "apply_page out E es ?n (s1, t1) = (r, s', t')"
      using Cons.prems(2) q Inr by (simp add: seq_net_def)
    have "rows_kept s s1" using apply_entry_kept [of out E e] q unfolding moves_def by (metis fst_conv snd_conv)
    then have inv1: "store_inv s1" using Cons.prems(1) by (simp add: rows_kept_def)
    have "rows_kept s1 s'" using apply_page_kept [of out E es ?n] rest unfolding moves_def by (metis fst_conv snd_conv)
    with taken_in_kept [OF _ inv1] one Inr have "taken_in E e s'" by simp
    with Cons.IH [OF inv1 rest] one show ?thesis by (cases r) auto
  qed
qed

lemma pages_ahead:
  assumes sorted: "sorted_wrt (<) (map m_id xs)"
    and full: "length (pull_page xs c) = MEMORY_SINCE_PULL_LIMIT"
  shows "filter (\<lambda>e. m_id (last (pull_page xs c)) < m_id e) xs =
    drop MEMORY_SINCE_PULL_LIMIT (filter (\<lambda>e. c < m_id e) xs)"
proof -
  let ?L = MEMORY_SINCE_PULL_LIMIT
  let ?P = "filter (\<lambda>e. c < m_id e) xs"
  have ne: "take ?L ?P \<noteq> []" using full by (auto simp: pull_page_def MEMORY_SINCE_PULL_LIMIT_def)
  then have "last (take ?L ?P) \<in> set ?P" by (meson in_set_takeD last_in_set)
  then have c: "c < m_id (last (take ?L ?P))" by simp
  have w: "sorted_wrt (<) (map m_id ?P)" using sorted by (simp add: sorted_wrt_map sorted_wrt_filter)
  have "filter (\<lambda>e. m_id (last (take ?L ?P)) < m_id e) xs = filter (\<lambda>e. m_id (last (take ?L ?P)) < m_id e) ?P"
    using c by (auto simp: filter_filter intro: filter_cong)
  also have "\<dots> = drop ?L ?P" by (rule after_last [OF w ne])
  finally show ?thesis by (simp add: pull_page_def)
qed

lemma pull_pages_run:
  assumes team: "team_serves out f" and sorted: "sorted_wrt (<) (map m_id xs)"
    and "store_inv s" and "f t = xs"
    and "length (filter (\<lambda>e. since_id c < m_id e) xs) < fuel * MEMORY_SINCE_PULL_LIMIT"
    and "pull_pages fuel out E c n (s, t) = (r, s', t')"
  shows "case r of Inl x \<Rightarrow> \<exists>d. x = StoreError d
    | Inr v \<Rightarrow> \<forall>e \<in> set xs. since_id c < m_id e \<longrightarrow> taken_in E e s'"
  using assms(3-)
proof (induction fuel arbitrary: c n s t)
  case 0
  then show ?case by simp
next
  case (Suc fuel)
  let ?P = "filter (\<lambda>e. since_id c < m_id e) xs"
  let ?es = "pull_page xs (since_id c)"
  obtain q s1 t1 where q: "apply_page out E ?es n (s, t) = (q, s1, t1)" by (metis prod.exhaust)
  have run: "(case q of Inl x \<Rightarrow> (Inl x, s1, t1)
      | Inr v \<Rightarrow> (if length ?es < MEMORY_SINCE_PULL_LIMIT then net_ok v
          else pull_pages fuel out E (if ?es = [] then None else Some (m_id (last ?es))) v) (s1, t1)) = (r, s', t')"
    using Suc.prems(2,4) q by (simp add: seq_net_def pull_since_served [OF team] split: sum.splits)
  note page = apply_page_run [OF team Suc.prems(1) q]
  show ?case
  proof (cases q)
    case (Inl x)
    with run page show ?thesis by auto
  next
    case (Inr v)
    have kept1: "rows_kept s s1" using apply_page_kept [of out E ?es n] q unfolding moves_def by (metis fst_conv snd_conv)
    then have inv1: "store_inv s1" using Suc.prems(1) by (simp add: rows_kept_def)
    show ?thesis
    proof (cases "length ?es < MEMORY_SINCE_PULL_LIMIT")
      case True
      then have "?es = ?P" by (simp add: pull_page_def)
      with run page Inr True show ?thesis by (auto simp: net_run)
    next
      case False
      then have full: "length ?es = MEMORY_SINCE_PULL_LIMIT" by (simp add: pull_page_def)
      then have ne: "?es \<noteq> []" by (auto simp: MEMORY_SINCE_PULL_LIMIT_def)
      let ?c = "Some (m_id (last ?es))"
      have run2: "pull_pages fuel out E ?c v (s1, t1) = (r, s', t')" using run Inr False ne by simp
      have ahead: "filter (\<lambda>e. since_id ?c < m_id e) xs = drop MEMORY_SINCE_PULL_LIMIT ?P"
        using pages_ahead [OF sorted full] by (simp add: since_id_def)
      have "length (filter (\<lambda>e. since_id ?c < m_id e) xs) < fuel * MEMORY_SINCE_PULL_LIMIT"
        unfolding ahead using Suc.prems(3) False by (simp add: pull_page_def)
      moreover have "f t1 = xs" using page Suc.prems(2) by simp
      ultimately have rest: "case r of Inl x \<Rightarrow> \<exists>d. x = StoreError d
          | Inr v \<Rightarrow> \<forall>e \<in> set xs. since_id ?c < m_id e \<longrightarrow> taken_in E e s'"
        using Suc.IH [OF inv1 _ _ run2] by blast
      have "rows_kept s1 s'" using pull_pages_kept [of fuel out E ?c v] run2 unfolding moves_def by (metis fst_conv snd_conv)
      then have first: "\<forall>e \<in> set ?es. taken_in E e s'"
        using page Inr taken_in_kept [OF _ inv1] by simp
      have "e \<in> set ?es \<or> since_id ?c < m_id e" if "e \<in> set xs" "since_id c < m_id e" for e
      proof -
        have "e \<in> set (take MEMORY_SINCE_PULL_LIMIT ?P @ drop MEMORY_SINCE_PULL_LIMIT ?P)" using that by simp
        then show ?thesis unfolding set_append ahead [symmetric] by (auto simp: pull_page_def)
      qed
      with first rest show ?thesis by (cases r) auto
    qed
  qed
qed

lemma backlog_pulled:
  assumes team: "team_serves out f" and sorted: "sorted_wrt (<) (map m_id (f t))" and inv: "store_inv s"
    and fuel: "length (f t) < fuel * MEMORY_SINCE_PULL_LIMIT"
    and run: "pull_and_apply_since fuel out E c (s, t) = (r, s', t')"
  shows "rows_kept s s' \<and> (case r of
      Inl x \<Rightarrow> \<exists>d. x = StoreError d
    | Inr n \<Rightarrow> \<forall>e \<in> set (f t). since_id c < m_id e \<longrightarrow> taken_in E e s')"
proof -
  have "length (filter (\<lambda>e. since_id c < m_id e) (f t)) < fuel * MEMORY_SINCE_PULL_LIMIT"
    using fuel length_filter_le [of _ "f t"] by (rule le_less_trans [rotated])
  moreover have r: "pull_pages fuel out E c 0 (s, t) = (r, s', t')"
    using run by (simp add: pull_and_apply_since_def)
  moreover have "rows_kept s s'"
    using pull_pages_kept [of fuel out E c 0, unfolded moves_def, rule_format, of s t] by (simp add: r)
  ultimately show ?thesis using pull_pages_run [OF team sorted inv refl _ r] by blast
qed

text \<open>C20: a pull from a team server nobody writes to ends within one request more than the full pages; if
  it succeeds, every entry past the cursor is on a row, archived if the entry is, and in any case no
  row was lost or rewritten.\<close>
theorem pull_applies_backlog:
  assumes team: "team_serves out f" and sorted: "sorted_wrt (<) (map m_id (f t))" and inv: "store_inv s"
    and fuel: "length (f t) < fuel * MEMORY_SINCE_PULL_LIMIT"
    and run: "pull_and_apply_since fuel out E c (s, t) = (r, s', t')"
  shows "rows_kept s s' \<and> (case r of
      Inl x \<Rightarrow> \<exists>d. x = StoreError d
    | Inr n \<Rightarrow> \<forall>e \<in> set (f t). since_id c < m_id e \<longrightarrow> taken_in E e s')"
  by (rule backlog_pulled [OF assms])

section \<open>A whole round keeps the rows\<close>

lemma row_of_mapped:
  assumes "row_of s i = Some r" and "\<And>x. r_id (f x) = r_id x"
  shows "row_of (map_rows P f s) i = Some (if P r then f r else r)"
  using assms find_map_same [of "db_notes s" "\<lambda>x. r_id x = i" "\<lambda>x. if P x then f x else x"]
  by (simp add: row_of_def map_rows_simps)

lemma kept_by_update:
  assumes keeps: "keeps m"
    and upd: "\<And>s. snd (m s) = s \<or> (\<exists>P f. snd (m s) = map_rows P f s \<and> (\<forall>x. r_id (f x) = r_id x \<and> (P x \<longrightarrow> kept_row x (f x))))"
  shows "moves_sql rows_kept m"
  unfolding moves_sql_def rows_kept_def
proof (intro allI impI conjI)
  fix s i r assume inv: "store_inv s"
  show "store_inv (snd (m s))" using keeps inv unfolding keeps_def by blast
  show "\<exists>q. row_of (snd (m s)) i = Some q \<and> kept_row r q" if r: "row_of s i = Some r"
    using upd [of s]
  proof (elim disjE exE conjE)
    fix P f assume u: "snd (m s) = map_rows P f s" "\<forall>x. r_id (f x) = r_id x \<and> (P x \<longrightarrow> kept_row x (f x))"
    then show ?thesis unfolding u(1) using row_of_mapped [OF r, of f P] by auto
  qed (use r in auto)
qed

lemma update_unique_rows: "snd (update_unique i P f s) = s \<or> snd (update_unique i P f s) = map_rows (\<lambda>r. r_id r = i \<and> P r) f s"
  by (auto simp: update_unique_def update_notes_def)

lemma kept_set_remote_id: "moves_sql rows_kept (set_remote_id i rid)"
proof (rule kept_by_update [OF keeps_set_remote_id])
  fix s
  let ?f = "\<lambda>r. r\<lparr> r_remote_id := Some rid \<rparr>" and ?P = "\<lambda>r. r_id r = i \<and> r_remote_id r = None"
  have "snd (set_remote_id i rid s) = s \<or> snd (set_remote_id i rid s) = map_rows ?P ?f s"
    using update_unique_rows [of i "\<lambda>r. r_remote_id r = None" ?f s]
    by (auto simp: set_remote_id_def seq_sql_def ok_def split: prod.split sum.split)
  moreover have "\<forall>x :: row. r_id (?f x) = r_id x \<and> (?P x \<longrightarrow> kept_row x (?f x))" by (simp add: kept_row_def)
  ultimately show "snd (set_remote_id i rid s) = s \<or> (\<exists>P f. snd (set_remote_id i rid s) = map_rows P f s \<and>
      (\<forall>x. r_id (f x) = r_id x \<and> (P x \<longrightarrow> kept_row x (f x))))" by blast
qed

lemma kept_ensure_uuid: "moves_sql rows_kept (ensure_uuid m i)"
proof (rule kept_by_update [OF keeps_ensure_uuid])
  fix s
  let ?f = "\<lambda>r. r\<lparr> r_uuid := Some m \<rparr>" and ?P = "\<lambda>r. r_id r = i \<and> r_uuid r = None"
  have "snd (ensure_uuid m i s) = s \<or> snd (ensure_uuid m i s) = map_rows ?P ?f s"
    using update_unique_rows [of i "\<lambda>r. r_uuid r = None" ?f s]
    by (auto simp: ensure_uuid_def uuid_for_def seq_sql_def ok_def query_def split: prod.split sum.split option.split)
  moreover have "\<forall>x :: row. r_id (?f x) = r_id x \<and> (?P x \<longrightarrow> kept_row x (?f x))" by (simp add: kept_row_def)
  ultimately show "snd (ensure_uuid m i s) = s \<or> (\<exists>P f. snd (ensure_uuid m i s) = map_rows P f s \<and>
      (\<forall>x. r_id (f x) = r_id x \<and> (P x \<longrightarrow> kept_row x (f x))))" by blast
qed

lemma same_notes_kept:
  assumes "keeps m" and "\<And>s. db_notes (snd (m s)) = db_notes s"
  shows "moves_sql rows_kept m"
  unfolding moves_sql_def rows_kept_def
  using assms kept_row_refl by (auto simp: keeps_def row_of_def)

lemma kept_insert_embedding: "moves_sql rows_kept (insert_embedding ac i b)"
  by (rule same_notes_kept [OF keeps_insert_embedding])
    (auto simp: insert_embedding_def write_embedding_def in_transaction_def seq_sql_def
      delete_note_embedding_def insert_vec_def split: prod.splits sum.splits if_splits)

lemma kept_sync_rows: "moves_sql rows_kept (sync_rows fresh is out)"
  by (induction "is" arbitrary: out)
    (auto intro!: kept.sql_seq kept.sql_pure kept_ensure_uuid simp: sync_row_of_def)

lemma kept_rows_for_sync: "moves_sql rows_kept (rows_for_sync fresh ia)"
  unfolding rows_for_sync_def by (intro kept.sql_seq kept.sql_pure kept_sync_rows)

lemma kept_push_items: "moves_sql rows_kept (push_items accepts rs)"
  by (induction rs) (auto intro!: kept.sql_seq kept.sql_pure simp: push_item_def get_embedding_def)

lemma kept_missing_vectors: "moves_sql rows_kept (missing_vectors rs)"
  by (induction rs) (auto intro!: kept.sql_seq kept.sql_pure simp: get_embedding_def)

lemma kept_record_results: "moves_sql rows_kept (record_results chunk items y)"
  by (induction items arbitrary: y)
    (auto intro!: kept.sql_seq kept.sql_pure kept_set_remote_id simp: Let_def split: option.split)

lemma kept_embed_missing: "moves rows_kept (embed_missing out rs counts)"
  by (induction rs arbitrary: counts)
    (auto intro!: kept.net_seq kept.net_pure kept.net_local kept_insert_embedding split: sum.split)

lemma kept_repair: "moves rows_kept (repair_local_embeddings out live policy)"
  unfolding repair_local_embeddings_def
  by (auto intro!: kept.net_seq kept.net_pure kept.net_local kept_missing_vectors kept_embed_missing
      split: local_embed_policy.split)

lemma kept_push_chunks: "moves rows_kept (push_chunks out accepts cs y)"
  by (induction cs arbitrary: y)
    (auto intro!: kept.net_seq kept.net_pure kept.net_local kept.net_try kept.net_client kept_push_items
      kept_record_results split: sum.split)

lemma kept_tombstones: "moves rows_kept (push_tombstones out rs)"
  by (induction rs) (auto intro!: kept.net_seq kept.net_pure kept.net_client split: option.split bool.split)

lemma kept_push_edges: "moves rows_kept (push_relates_to_edges out js)"
  unfolding push_relates_to_edges_def Let_def
  by (auto intro!: kept.net_seq kept.net_pure kept.net_client kept.net_local kept.sql_pure
      simp: relates_to_edges_for_sync_def)

lemma kept_push_local: "moves rows_kept (push_local out fresh ia accepts policy)"
  unfolding push_local_def Let_def
  by (auto intro!: kept.net_seq kept.net_pure kept.net_local kept.net_try kept_rows_for_sync kept_repair
      kept_push_chunks kept_tombstones kept_push_edges)

lemma kept_pull: "moves rows_kept (pull_and_apply_since fuel out E c)"
  unfolding pull_and_apply_since_def by (rule pull_pages_kept)

lemma kept_round: "moves rows_kept (sync_round fuel out E fresh ia accepts policy)"
  unfolding sync_round_def sync_round_first_def max_remote_id_def
  by (auto intro!: kept.net_seq kept.net_pure kept.net_local kept.sql_pure kept_push_local kept_pull)

text \<open>C21: whatever the team server, the embedder and the clock do, and whether or not the round succeeds,
  each row of the store is still there with its content, identity, tags and remote id, at most archived.\<close>
theorem sync_round_keeps_rows:
  assumes "store_inv s" and "row_of s i = Some r"
  shows "case sync_round fuel out E fresh include_archived accepts policy (s, t) of
    (_, s', _) \<Rightarrow> store_inv s' \<and> (\<exists>r'. row_of s' i = Some r' \<and> kept_row r r')"
  using kept_round [of fuel out E fresh include_archived accepts policy, unfolded moves_def, rule_format, of s t] assms
  by (auto simp: rows_kept_def split: prod.split)

end
