(* ===== verification/SyncFailures.thy ===== *)
theory SyncFailures
  imports SyncSpec
begin

text \<open>
  A team server that answers as documented, and runs of the sync against it: an ordinary pull, and a
  first sync whose confirmation pull fails after the push landed.
\<close>

definition quiet_outside :: "remote_entry list outside" where
  "quiet_outside =
     \<lparr> o_get_since = (\<lambda>c n es. (Inr (200, Inr (take n (filter (\<lambda>e. c < m_id e) es))), es)),
       o_post_batch = (\<lambda>_ es. (Inr (207, Inr empty_batch_result), es)),
       o_post_edges = (\<lambda>_ t. (Inr (207, Inr []), t)), o_delete = (\<lambda>_ t. (Inr (204, Inr ()), t)),
       o_embedder = (\<lambda>t. (False, t)), o_embed_text = (\<lambda>_ t. (Inl [], t)), o_uuid = (\<lambda>t. (''u'', t)),
       o_now = (\<lambda>t. (0, t)), o_rfc3339 = (\<lambda>_. Some 0) \<rparr>"

lemma quiet_team: "team_serves quiet_outside (\<lambda>es. es)"
  by (simp add: team_serves_def quiet_outside_def pull_page_def)

theorem pull_applies_backlog_witness:
  "\<exists>n s' t'. pull_and_apply_since 1 quiet_outside plain_hashing None (empty_store, [team_entry ''a'']) =
     (Inr n, s', t') \<and> taken_in plain_hashing (team_entry ''a'') s'"
proof -
  let ?run = "pull_and_apply_since 1 quiet_outside plain_hashing None (empty_store, [team_entry ''a''])"
  have ok: "fst ?run = Inr 1" by code_simp
  then obtain s' t' where run: "?run = (Inr 1, s', t')" by (metis prod.collapse)
  have "nil_uuid < ''a''" by code_simp
  then show ?thesis
    using pull_applies_backlog [OF quiet_team _ empty_store_inv _ run] run
    by (auto simp: MEMORY_SINCE_PULL_LIMIT_def team_entry_def since_id_def)
qed


theorem sync_round_keeps_rows_witness:
  "\<exists>x s' t' r'. sync_round 1 quiet_outside plain_hashing (\<lambda>_. ''u'') False False Repair (two_note_store, []) =
     (x, s', t') \<and> row_of s' 1 = Some r' \<and> r_title r' = ''a''"
proof -
  have "map_option r_title (row_of two_note_store 1) = Some ''a''" by code_simp
  then obtain r where "row_of two_note_store 1 = Some r" "r_title r = ''a''" by auto
  with sync_round_keeps_rows [OF two_note_store_inv, of 1 r 1 quiet_outside plain_hashing "\<lambda>_. ''u''" False False Repair "[]"]
  show ?thesis by (auto simp: kept_row_def split: prod.splits)
qed

section \<open>A first sync whose pull fails\<close>

type_synonym demo = "remote_entry list \<times> bool"

definition demo_entry :: "batch_push_item \<Rightarrow> remote_entry" where
  "demo_entry i = \<lparr> m_id = ''b'', m_kind = b_kind i, m_title = b_title i, m_body = b_body i,
     m_source_commit = b_source_commit i, m_archived_at = None, m_created_at = [] \<rparr>"

text \<open>The next pull fails if the flag is set; a push mints the id \<open>b\<close>.\<close>

definition demo_outside :: "demo outside" where
  "demo_outside =
     \<lparr> o_get_since = (\<lambda>c n (es, fails). if fails then (Inl ''timeout'', es, False)
         else (Inr (200, Inr (take n (filter (\<lambda>e. c < m_id e) es))), es, False)),
       o_post_batch = (\<lambda>is (es, fails). (Inr (207, Inr \<lparr> br_created = length is, br_skipped = 0, br_failed = 0,
         br_results = map (\<lambda>i. \<lparr> i_status = created, i_external_id = Some (b_external_id i), i_id = Some ''b'' \<rparr>) is \<rparr>),
         es @ map demo_entry is, fails)),
       o_post_edges = (\<lambda>_ t. (Inr (207, Inr []), t)), o_delete = (\<lambda>_ t. (Inr (204, Inr ()), t)),
       o_embedder = (\<lambda>t. (False, t)), o_embed_text = (\<lambda>_ t. (Inl [], t)), o_uuid = (\<lambda>t. (''u'', t)),
       o_now = (\<lambda>t. (0, t)), o_rfc3339 = (\<lambda>_. Some 0) \<rparr>"

definition lonely_store :: store where
  "lonely_store = empty_store\<lparr> db_notes := [(default_row 0 1)\<lparr> r_uuid := Some ''v'', r_kind := ''n'', r_title := ''c'',
     r_entity_id := Some (entity_id plain_hashing ''n'' ''c'' []) \<rparr>], db_seq := 1 \<rparr>"

definition demo_round :: "store \<times> demo \<Rightarrow> (net_error + sync_round_outcome) \<times> store \<times> demo" where
  "demo_round = sync_round 2 demo_outside plain_hashing (\<lambda>_. ''u'') False False Skip"

definition demo_start :: "store \<times> demo" where
  "demo_start = (lonely_store, [team_entry ''a''], True)"


end
