(* ===== verification/Outbox.thy ===== *)
theory Outbox
  imports SyncFailures
begin

text \<open>
  \<open>spelunk-cli/src/cli/cmd/memory/outbox.rs\<close>: the CLI's side of the relay, composed with the relay's
  registry.  What the loopback requests meet (no relay, a lost answer) is a parameter of each exchange.
\<close>

section \<open>Operations\<close>

definition MAX_NUDGE_ENTRIES :: nat where
  "MAX_NUDGE_ENTRIES = 200"

record config_target =
  cf_mode :: sync_mode
  cf_server_url :: "string option"
  cf_project_id :: "string option"

definition relay_target :: "config_target \<Rightarrow> (string \<times> string) option" where
  "relay_target cfg =
     (if cf_mode cfg \<noteq> LocalFirst then None
      else (case (cf_server_url cfg, cf_project_id cfg) of
              (Some server_url, Some project_id) \<Rightarrow> Some (server_url, project_id)
            | _ \<Rightarrow> None))"

definition relay_entry_of :: "sync_row \<Rightarrow> relay_push_entry" where
  "relay_entry_of r =
     \<lparr> pe_kind = sr_kind r, pe_title = sr_title r,
       pe_body = (if sr_body r = [] then None else Some (sr_body r)),
       pe_external_id = sr_uuid r, pe_source_commit = sr_source_ref r \<rparr>"

text \<open>The request a nudge sends; a store that cannot be read sends none.\<close>

definition register_request ::
    "(int \<Rightarrow> string) \<Rightarrow> string \<Rightarrow> string \<Rightarrow> string option \<Rightarrow> relay_push_request option sql" where
  "register_request fresh server_url project_id bearer =
     seq_sql (try_sql (rows_for_sync fresh False))
       (\<lambda>res. case res of
          Inl _ \<Rightarrow> ok None
        | Inr rows \<Rightarrow>
            seq_sql (try_sql max_remote_id)
              (\<lambda>c. ok (Some
                 \<lparr> rq_server_url = server_url, rq_project_id = project_id, rq_bearer = bearer,
                   rq_since_cursor = (case c of Inl _ \<Rightarrow> None | Inr m \<Rightarrow> m),
                   rq_entries = map relay_entry_of (take MAX_NUDGE_ENTRIES
                     (filter (\<lambda>r. \<not> sr_archived r \<and> sr_remote_id r = None) rows)) \<rparr>)))"

text \<open>The results a poll returned: those stamped on a row, in order.\<close>

fun apply_push_results :: "relay_push_result list \<Rightarrow> string list \<Rightarrow> string list sql" where
  "apply_push_results [] acked = ok acked"
| "apply_push_results (r # rs) acked =
     (if q_status r = created \<or> q_status r = skipped then
        (case q_remote_id r of
           None \<Rightarrow> apply_push_results rs acked
         | Some remote_id \<Rightarrow>
             seq_sql (try_sql (note_id_for_uuid (q_external_id r)))
               (\<lambda>found. case found of
                  Inr (Some local_id) \<Rightarrow>
                    seq_sql (try_sql (set_remote_id local_id remote_id))
                      (\<lambda>res. apply_push_results rs
                         (if is_ok res then acked @ [q_external_id r] else acked))
                | _ \<Rightarrow> apply_push_results rs acked))
      else apply_push_results rs acked)"

definition apply_pulled_entry :: "'t outside \<Rightarrow> hashing \<Rightarrow> relay_pulled_entry \<Rightarrow> ('t, bool) net" where
  "apply_pulled_entry out E e =
     seq_net (parse_iso_to_secs out (u_created_at e))
       (\<lambda>created_secs. seq_net (outside_net (o_uuid out))
          (\<lambda>minted. local_net (apply_remote_note E minted (u_remote_id e) (u_kind e) (u_title e)
             (case u_body e of Some b \<Rightarrow> b | None \<Rightarrow> []) (u_source_commit e) created_secs (u_archived e))))"

fun apply_pulled :: "'t outside \<Rightarrow> hashing \<Rightarrow> relay_pulled_entry list \<Rightarrow> string list \<Rightarrow> ('t, string list) net" where
  "apply_pulled out E [] acked = net_ok acked"
| "apply_pulled out E (e # es) acked =
     seq_net (try_net (apply_pulled_entry out E e))
       (\<lambda>res. apply_pulled out E es (if is_ok res then acked @ [u_remote_id e] else acked))"

definition apply_polled ::
    "'t outside \<Rightarrow> hashing \<Rightarrow> relay_poll_response \<Rightarrow> ('t, string list \<times> string list) net" where
  "apply_polled out E body =
     seq_net (local_net (apply_push_results (p_push_results body) []))
       (\<lambda>pushes. seq_net (apply_pulled out E (p_pulled body) []) (\<lambda>pulls. net_ok (pushes, pulls)))"

text \<open>Which of the three requests of an exchange reached the relay, and whether the poll came back.\<close>

record loopback =
  push_arrives :: bool
  poll_answered :: bool
  ack_arrives :: bool

definition relay_register :: "loopback \<Rightarrow> relay_push_request option \<Rightarrow> registry \<Rightarrow> registry" where
  "relay_register lb req reg =
     (case req of Some q \<Rightarrow> if push_arrives lb then snd (registry_push q reg) else reg | None \<Rightarrow> reg)"

definition relay_confirm ::
    "loopback \<Rightarrow> string \<Rightarrow> string \<Rightarrow> string list \<Rightarrow> string list \<Rightarrow> registry \<Rightarrow> registry" where
  "relay_confirm lb server_url project_id pushes pulls reg =
     (if (pushes \<noteq> [] \<or> pulls \<noteq> []) \<and> ack_arrives lb
      then registry_ack server_url project_id pushes pulls reg else reg)"

definition poll_and_apply ::
    "'t outside \<Rightarrow> hashing \<Rightarrow> (int \<Rightarrow> string) \<Rightarrow> loopback \<Rightarrow> string \<Rightarrow> string \<Rightarrow> string option \<Rightarrow>
       store \<times> 't \<Rightarrow> registry \<Rightarrow> (store \<times> 't) \<times> registry" where
  "poll_and_apply out E fresh lb server_url project_id bearer w reg =
     (case local_net (register_request fresh server_url project_id bearer) w of
        (Inl _, w1) \<Rightarrow> (w1, reg)
      | (Inr req, w1) \<Rightarrow>
          let reg1 = relay_register lb req reg in
          if \<not> poll_answered lb then (w1, reg1)
          else
            (case apply_polled out E (registry_poll server_url project_id reg1) w1 of
               (Inl _, w2) \<Rightarrow> (w2, reg1)
             | (Inr (pushes, pulls), w2) \<Rightarrow>
                 (w2, relay_confirm lb server_url project_id pushes pulls reg1)))"

section \<open>Nothing polled is lost\<close>

definition offered :: "string \<Rightarrow> string \<Rightarrow> registry \<Rightarrow> relay_pulled_entry set" where
  "offered server_url project_id reg = set (p_pulled (registry_poll server_url project_id reg))"

text \<open>The entry of the team server that the buffered one stands for.\<close>

definition unpulled :: "relay_pulled_entry \<Rightarrow> remote_entry" where
  "unpulled u = \<lparr> m_id = u_remote_id u, m_kind = u_kind u, m_title = u_title u, m_body = u_body u,
     m_source_commit = u_source_commit u, m_archived_at = (if u_archived u then Some [] else None),
     m_created_at = u_created_at u \<rparr>"

lemma apply_pulled_entry_eq: "apply_pulled_entry out E u = apply_entry out E (unpulled u)"
  by (simp add: apply_pulled_entry_def apply_entry_def unpulled_def is_archived_def)

definition registry_ok :: "registry \<Rightarrow> bool" where
  "registry_ok reg \<longleftrightarrow> (\<forall>(k, s) \<in> set reg. session_ok s)"

lemma kept_apply_push_results: "moves_sql rows_kept (apply_push_results rs acked)"
  by (induction rs arbitrary: acked)
    (auto intro!: kept.sql_seq kept.sql_pure kept.sql_try kept_set_remote_id simp: note_id_for_uuid_def
      split: option.split sum.split)

lemma kept_apply_pulled: "moves rows_kept (apply_pulled out E es acked)"
  by (induction es arbitrary: acked)
    (auto intro!: kept.net_seq kept.net_pure kept.net_try apply_entry_kept simp: apply_pulled_entry_eq)

lemma kept_register_request: "moves_sql rows_kept (register_request fresh url p b)"
  unfolding register_request_def max_remote_id_def
  by (auto intro!: kept.sql_seq kept.sql_pure kept.sql_try kept_rows_for_sync split: sum.split)

lemma movesD: "moves R m \<Longrightarrow> m (s, t) = (r, s', t') \<Longrightarrow> R s s'"
  unfolding moves_def by (metis fst_conv snd_conv)

lemma apply_entry_taken:
  assumes "store_inv s" and "apply_entry out E e (s, t) = (Inr v, s', t')"
  shows "taken_in E e s'"
proof -
  obtain secs t1 where p: "parse_iso_to_secs out (m_created_at e) (s, t) = (Inr secs, s, t1)"
    using parse_iso_run [of out "m_created_at e" s t] by blast
  obtain m t2 where "o_uuid out t1 = (m, t2)" by fastforce
  with assms(2) p have "apply_remote_note E m (m_id e) (m_kind e) (m_title e)
      (case m_body e of Some b \<Rightarrow> b | None \<Rightarrow> []) (m_source_commit e) secs (is_archived e) s = (Inr v, s')"
    by (auto simp: apply_entry_def seq_net_def outside_net_def local_net_def split: prod.splits sum.splits)
  then show ?thesis by (rule apply_remote_taken [OF assms(1)])
qed

text \<open>What the loop confirms it has applied.\<close>

lemma apply_pulled_confirms:
  assumes "store_inv s" and "apply_pulled out E es acked (s, t) = (Inr pulls, s', t')"
  shows "\<exists>us \<subseteq> set es. set pulls = set acked \<union> u_remote_id ` us \<and> (\<forall>u \<in> us. taken_in E (unpulled u) s')"
  using assms
proof (induction es arbitrary: acked s t)
  case Nil
  then show ?case by (auto simp: net_run)
next
  case (Cons e es)
  obtain q s1 t1 where q: "apply_entry out E (unpulled e) (s, t) = (q, s1, t1)" by (metis prod.exhaust)
  let ?acked = "if is_ok q then acked @ [u_remote_id e] else acked"
  have rest: "apply_pulled out E es ?acked (s1, t1) = (Inr pulls, s', t')"
    using Cons.prems(2) q by (simp add: seq_net_def try_net_def apply_pulled_entry_eq)
  have inv1: "store_inv s1" using movesD [OF apply_entry_kept q] Cons.prems(1) by (simp add: rows_kept_def)
  have k: "rows_kept s1 s'" by (rule movesD [OF kept_apply_pulled rest])
  obtain us where us: "us \<subseteq> set es" "set pulls = set ?acked \<union> u_remote_id ` us" "\<forall>u \<in> us. taken_in E (unpulled u) s'"
    using Cons.IH [OF inv1 rest] by blast
  show ?case
  proof (cases q)
    case (Inl x)
    with us show ?thesis by (intro exI [of _ us]) auto
  next
    case (Inr v)
    with q have "apply_entry out E (unpulled e) (s, t) = (Inr v, s1, t1)" by simp
    from apply_entry_taken [OF Cons.prems(1) this] have "taken_in E (unpulled e) s1" .
    then have "taken_in E (unpulled e) s'" by (rule taken_in_kept [OF _ inv1 k])
    with us Inr show ?thesis by (intro exI [of _ "insert e us"]) auto
  qed
qed

lemma offered_register:
  assumes "\<And>q. req = Some q \<Longrightarrow> rq_server_url q = url \<and> rq_project_id q = p"
    and "registry_ok reg"
  shows "offered url p (relay_register lb req reg) = offered url p reg \<and> registry_ok (relay_register lb req reg)"
proof (cases "req = None \<or> \<not> push_arrives lb")
  case True
  with assms show ?thesis by (auto simp: relay_register_def split: option.split)
next
  case False
  then obtain q where q: "req = Some q" "push_arrives lb" by auto
  let ?k = "relay_key_new url p"
  have key: "relay_key_new (rq_server_url q) (rq_project_id q) = ?k" using assms(1) q by simp
  let ?new = "\<lambda>x. fst (ensure_pull_task ?k (seed_cursor (rq_since_cursor q) (set_bearer (rq_bearer q) x)))"
  have new: "s_pulled (?new x) = s_pulled x \<and> s_push_results (?new x) = s_push_results x" for x
    by (auto simp: ensure_pull_task_def seed_cursor_def set_bearer_def split: option.split)
  then have okn: "session_ok x \<Longrightarrow> session_ok (?new x)" for x by (simp add: session_ok_def)
  have reg': "relay_register lb req reg = reg \<or>
      relay_register lb req reg = (case map_of reg ?k of
         Some x \<Rightarrow> AList.update ?k (?new x) reg
       | None \<Rightarrow> AList.update ?k (?new session_new) (AList.update ?k session_new reg))"
    using q key by (auto simp: relay_register_def registry_push_def get_or_create_def Let_def
        case_prod_beta split: option.split)
  have upd: "registry_ok reg \<Longrightarrow> session_ok x \<Longrightarrow> registry_ok (AList.update k x reg)" for k x reg
    using set_update_subset [of k x reg] by (auto simp: registry_ok_def)
  have old: "session_ok x" if "map_of reg ?k = Some x" for x
    using assms(2) map_of_SomeD [OF that] by (auto simp: registry_ok_def)
  from reg' show ?thesis
  proof
    assume r: "relay_register lb req reg = (case map_of reg ?k of
         Some x \<Rightarrow> AList.update ?k (?new x) reg
       | None \<Rightarrow> AList.update ?k (?new session_new) (AList.update ?k session_new reg))"
    show ?thesis
    proof (cases "map_of reg ?k")
      case None
      with r have "map_of (relay_register lb req reg) ?k = Some (?new session_new)" by (simp add: update_conv')
      then have "offered url p (relay_register lb req reg) = {}" "offered url p reg = {}"
        using None new [of session_new]
        by (simp_all add: offered_def registry_poll_def session_poll_def default_poll_response_def session_new_def)
      with r None upd [OF assms(2) okn [OF session_new_ok]] show ?thesis by simp
    next
      case (Some x)
      with r have "map_of (relay_register lb req reg) ?k = Some (?new x)" by (simp add: update_conv')
      with Some new [of x] have "offered url p (relay_register lb req reg) = offered url p reg"
        by (simp add: offered_def registry_poll_def session_poll_def)
      with r Some upd [OF assms(2) okn [OF old [OF Some]]] show ?thesis by simp
    qed
  qed (use assms in auto)
qed

lemma offered_confirm:
  assumes ok: "registry_ok reg" and u: "u \<in> offered url p reg"
  shows "u \<in> offered url p (relay_confirm lb url p pushes pulls reg) \<or>
    u_remote_id u \<in> set pulls"
proof -
  obtain x where x: "map_of reg (relay_key_new url p) = Some x" "u \<in> set (p_pulled (session_poll x))"
    using u by (auto simp: offered_def registry_poll_def default_poll_response_def split: option.splits)
  have okx: "session_ok x" using ok map_of_SomeD [OF x(1)] by (auto simp: registry_ok_def)
  let ?x = "session_ack pushes pulls x"
  have okx': "session_ok ?x" using session_ok_event [OF okx, of "Acked pushes pulls"] by simp
  have "offers ?x (u_remote_id u) u" if "u_remote_id u \<notin> set pulls"
    using offers_event [of x "u_remote_id u" u "Acked pushes pulls"] that offered_pulled [OF okx] x(2) by simp
  then have "u \<in> set (p_pulled (session_poll ?x)) \<or> u_remote_id u \<in> set pulls"
    using offered_pulled [OF okx'] by blast
  with u x show ?thesis
    by (auto simp: relay_confirm_def registry_ack_def offered_def registry_poll_def update_conv')
qed

lemma offered_same_id:
  assumes "registry_ok reg" and "u \<in> offered url p reg" and "v \<in> offered url p reg" and "u_remote_id u = u_remote_id v"
  shows "u = v"
proof -
  obtain x where x: "map_of reg (relay_key_new url p) = Some x"
    "u \<in> set (p_pulled (session_poll x))" "v \<in> set (p_pulled (session_poll x))"
    using assms(2,3) by (auto simp: offered_def registry_poll_def default_poll_response_def split: option.splits)
  have "session_ok x" using assms(1) map_of_SomeD [OF x(1)] by (auto simp: registry_ok_def)
  then have "map_of (s_pulled x) (u_remote_id u) = Some u" "map_of (s_pulled x) (u_remote_id v) = Some v"
    using x(2,3) offered_pulled [of x] unfolding offers_def by blast+
  then show ?thesis using assms(4) by (metis option.inject)
qed

lemma register_request_target:
  "register_request fresh url p b s = (Inr (Some q), s') \<Longrightarrow> rq_server_url q = url \<and> rq_project_id q = p"
  by (auto simp: register_request_def seq_sql_def try_sql_def ok_def split: prod.splits sum.splits)

lemma apply_polled_confirms:
  assumes inv: "store_inv s" and run: "apply_polled out E body (s, t) = (r, s', t')"
  shows "rows_kept s s' \<and> (\<forall>pushes pulls. r = Inr (pushes, pulls) \<longrightarrow>
    (\<forall>i \<in> set pulls. \<exists>u \<in> set (p_pulled body). u_remote_id u = i \<and> taken_in E (unpulled u) s'))"
proof -
  obtain q s1 t1 where q: "local_net (apply_push_results (p_push_results body) []) (s, t) = (q, s1, t1)"
    by (metis prod.exhaust)
  have k1: "rows_kept s s1" by (rule movesD [OF kept.net_local [OF kept_apply_push_results] q])
  then have inv1: "store_inv s1" using inv by (simp add: rows_kept_def)
  show ?thesis
  proof (cases q)
    case (Inl x)
    with run q k1 show ?thesis by (auto simp: apply_polled_def seq_net_def)
  next
    case (Inr ps)
    obtain z s2 t2 where z: "apply_pulled out E (p_pulled body) [] (s1, t1) = (z, s2, t2)" by (metis prod.exhaust)
    have s': "s' = s2" "r = (case z of Inl x \<Rightarrow> Inl x | Inr pulls \<Rightarrow> Inr (ps, pulls))"
      using run q z Inr by (auto simp: apply_polled_def seq_net_def net_run split: sum.splits)
    have "rows_kept s1 s2" by (rule movesD [OF kept_apply_pulled z])
    with k1 kept.R_trans s' have "rows_kept s s'" by blast
    moreover have "\<exists>u \<in> set (p_pulled body). u_remote_id u = i \<and> taken_in E (unpulled u) s'"
      if zi: "z = Inr pulls" and i: "i \<in> set pulls" for pulls i
    proof -
      obtain us where "us \<subseteq> set (p_pulled body)" "set pulls = u_remote_id ` us" "\<forall>u \<in> us. taken_in E (unpulled u) s2"
        using apply_pulled_confirms [OF inv1 z [unfolded zi]] by auto
      moreover from this i obtain u where "u \<in> us" "i = u_remote_id u" by blast
      ultimately show ?thesis using s'(1) by blast
    qed
    ultimately show ?thesis using s'(2) by (auto split: sum.splits)
  qed
qed

text \<open>C23: whichever of the three requests between the CLI and the relay is lost, an entry that the relay
  offered before is offered after, or is on a row of \<open>memory.db\<close>; and no row was lost.\<close>
theorem poll_and_apply_loses_nothing:
  assumes reg: "registry_ok reg" and inv: "store_inv s" and u: "u \<in> offered server_url project_id reg"
    and run: "poll_and_apply out E fresh lb server_url project_id bearer (s, t) reg = ((s', t'), reg')"
  shows "rows_kept s s' \<and>
    (u \<in> offered server_url project_id reg' \<or> taken_in E (unpulled u) s')"
proof -
  obtain q s1 t1 where q: "local_net (register_request fresh server_url project_id bearer) (s, t) = (q, s1, t1)"
    by (metis prod.exhaust)
  have k1: "rows_kept s s1" by (rule movesD [OF kept.net_local [OF kept_register_request] q])
  then have inv1: "store_inv s1" using inv by (simp add: rows_kept_def)
  show ?thesis
  proof (cases q)
    case (Inl x)
    with run q k1 u show ?thesis by (simp add: poll_and_apply_def)
  next
    case (Inr req)
    let ?reg1 = "relay_register lb req reg"
    have target: "req = Some x \<Longrightarrow> rq_server_url x = server_url \<and> rq_project_id x = project_id" for x
      using q Inr register_request_target [of fresh server_url project_id bearer s x]
      by (auto simp: local_net_def split: prod.splits sum.splits)
    have o1: "offered server_url project_id ?reg1 = offered server_url project_id reg" and ok1: "registry_ok ?reg1"
      using offered_register [OF target reg] by blast+
    show ?thesis
    proof (cases "poll_answered lb")
      case False
      with run q Inr k1 u o1 show ?thesis by (simp add: poll_and_apply_def)
    next
      case True
      let ?body = "registry_poll server_url project_id ?reg1"
      obtain z s2 t2 where z: "apply_polled out E ?body (s1, t1) = (z, s2, t2)" by (metis prod.exhaust)
      note a = apply_polled_confirms [OF inv1 z]
      with k1 kept.R_trans have k: "rows_kept s s2" by blast
      have res: "s' = s2 \<and> reg' = (case z of Inl _ \<Rightarrow> ?reg1
          | Inr (pushes, pulls) \<Rightarrow> relay_confirm lb server_url project_id pushes pulls ?reg1)"
        using run q Inr True z by (auto simp: poll_and_apply_def split: sum.splits)
      show ?thesis
      proof (cases z)
        case (Inl x)
        with res k u o1 show ?thesis by simp
      next
        case z': (Inr acks)
        obtain pushes pulls where acks: "acks = (pushes, pulls)" by fastforce
        have u1: "u \<in> offered server_url project_id ?reg1" using u o1 by simp
        have "taken_in E (unpulled u) s2" if i: "u_remote_id u \<in> set pulls"
        proof -
          obtain v where v: "v \<in> offered server_url project_id ?reg1" "u_remote_id v = u_remote_id u"
            "taken_in E (unpulled v) s2"
            using a z' acks i unfolding offered_def by blast
          with offered_same_id [OF ok1 u1 v(1)] show ?thesis by simp
        qed
        with offered_confirm [OF ok1 u1] res k z' acks show ?thesis by auto
      qed
    qed
  qed
qed

definition demo_pulled :: relay_pulled_entry where
  "demo_pulled = pulled_entry_from (team_entry ''a'')"

definition demo_registry :: registry where
  "demo_registry = [(relay_key_new ''h'' ''p'', session_new\<lparr> s_pulled := [(''a'', demo_pulled)] \<rparr>)]"

definition demo_exchange :: "(store \<times> remote_entry list) \<times> registry" where
  "demo_exchange = poll_and_apply quiet_outside plain_hashing (\<lambda>_. ''u'')
     \<lparr> push_arrives = True, poll_answered = True, ack_arrives = True \<rparr> ''h'' ''p'' None (empty_store, []) demo_registry"

theorem poll_and_apply_loses_nothing_witness:
  "demo_pulled \<in> offered ''h'' ''p'' demo_registry \<and> demo_pulled \<notin> offered ''h'' ''p'' (snd demo_exchange) \<and>
   taken_in plain_hashing (unpulled demo_pulled) (fst (fst demo_exchange))"
proof -
  have u: "demo_pulled \<in> offered ''h'' ''p'' demo_registry"
    by (simp add: offered_def registry_poll_def demo_registry_def session_poll_def)
  have "p_pulled (registry_poll ''h'' ''p'' (snd demo_exchange)) = []" by code_simp
  then have gone: "demo_pulled \<notin> offered ''h'' ''p'' (snd demo_exchange)" by (simp add: offered_def)
  have "registry_ok demo_registry"
    by (simp add: registry_ok_def demo_registry_def session_ok_def session_new_def buffer_ok_def demo_pulled_def
        pulled_entry_from_def team_entry_def MAX_BUFFERED_ITEMS_PER_SESSION_def)
  from poll_and_apply_loses_nothing [OF this empty_store_inv u] gone
  have "taken_in plain_hashing (unpulled demo_pulled) (fst (fst demo_exchange))"
    unfolding demo_exchange_def by (metis prod.collapse)
  with u gone show ?thesis by blast
qed

end
