(* ===== verification/StateError.thy ===== *)
theory StateError
  imports Prelude
begin

text \<open>
  The shape of the server's code: a computation over a state that returns an error or a value and
  leaves a state in both cases, since an error does not undo the statements that ran before it.
  The locale \<open>step_order\<close> is the contract of a relation between the states before and after that a
  computation composed of statements inherits from the statements.
\<close>

type_synonym ('s, 'e, 'a) st = "'s \<Rightarrow> ('e + 'a) \<times> 's"

definition st_ok :: "'a \<Rightarrow> ('s, 'e, 'a) st" where
  "st_ok x = (\<lambda>s. (Inr x, s))"

definition st_err :: "'e \<Rightarrow> ('s, 'e, 'a) st" where
  "st_err e = (\<lambda>s. (Inl e, s))"

definition st_get :: "('s \<Rightarrow> 'a) \<Rightarrow> ('s, 'e, 'a) st" where
  "st_get f = (\<lambda>s. (Inr (f s), s))"

definition st_bind :: "('s, 'e, 'a) st \<Rightarrow> ('a \<Rightarrow> ('s, 'e, 'b) st) \<Rightarrow> ('s, 'e, 'b) st" where
  "st_bind m f = (\<lambda>s. case m s of (Inl e, s') \<Rightarrow> (Inl e, s') | (Inr x, s') \<Rightarrow> f x s')"

text \<open>The conversion of the error that \<open>?\<close> applies, and an error made a value.\<close>

definition st_map_err :: "('e \<Rightarrow> 'f) \<Rightarrow> ('s, 'e, 'a) st \<Rightarrow> ('s, 'f, 'a) st" where
  "st_map_err h m = (\<lambda>s. case m s of (Inl e, s') \<Rightarrow> (Inl (h e), s') | (Inr x, s') \<Rightarrow> (Inr x, s'))"

definition st_try :: "('s, 'e, 'a) st \<Rightarrow> ('s, 'f, 'e + 'a) st" where
  "st_try m = (\<lambda>s. case m s of (r, s') \<Rightarrow> (Inr r, s'))"

definition st_lift :: "'e + 'a \<Rightarrow> ('s, 'e, 'a) st" where
  "st_lift r = (\<lambda>s. (r, s))"

fun st_each :: "('a \<Rightarrow> ('s, 'e, unit) st) \<Rightarrow> 'a list \<Rightarrow> ('s, 'e, unit) st" where
  "st_each f [] = st_ok ()"
| "st_each f (x # xs) = st_bind (f x) (\<lambda>_. st_each f xs)"

named_theorems st_run \<open>running a computation\<close>

lemma st_runs [st_run]:
  "st_ok x s = (Inr x, s)"
  "st_err e s = (Inl e, s)"
  "st_get f s = (Inr (f s), s)"
  "st_lift r s = (r, s)"
  by (simp_all add: st_ok_def st_err_def st_get_def st_lift_def)

lemma st_bind_ok [st_run]: "m s = (Inr x, t) \<Longrightarrow> st_bind m f s = f x t"
  by (simp add: st_bind_def)

lemma st_bind_err [st_run]: "m s = (Inl e, t) \<Longrightarrow> st_bind m f s = (Inl e, t)"
  by (simp add: st_bind_def)

lemma st_bind_iff:
  "st_bind m f s = (r, t) \<longleftrightarrow>
     (\<exists>e. m s = (Inl e, t) \<and> r = Inl e) \<or> (\<exists>x u. m s = (Inr x, u) \<and> f x u = (r, t))"
  by (auto simp: st_bind_def split: prod.splits sum.splits)

lemma st_bind_Inr:
  "st_bind m f s = (Inr y, t) \<longleftrightarrow> (\<exists>x u. m s = (Inr x, u) \<and> f x u = (Inr y, t))"
  by (auto simp: st_bind_iff)

lemma st_map_err_Inr: "st_map_err h m s = (Inr x, t) \<longleftrightarrow> m s = (Inr x, t)"
  by (auto simp: st_map_err_def split: prod.splits sum.splits)

lemma st_map_err_state [simp]: "snd (st_map_err h m s) = snd (m s)"
  by (simp add: st_map_err_def split: prod.splits sum.splits)

lemma st_map_err_ok [st_run]: "m s = (Inr x, t) \<Longrightarrow> st_map_err h m s = (Inr x, t)"
  by (simp add: st_map_err_def)

lemma st_map_err_err [st_run]: "m s = (Inl e, t) \<Longrightarrow> st_map_err h m s = (Inl (h e), t)"
  by (simp add: st_map_err_def)

lemma st_try_run [st_run]: "m s = (r, t) \<Longrightarrow> st_try m s = (Inr r, t)"
  by (simp add: st_try_def)

section \<open>Relations between the state before and the state after\<close>

definition within :: "('s \<Rightarrow> 's \<Rightarrow> bool) \<Rightarrow> ('s, 'e, 'a) st \<Rightarrow> bool" where
  "within R m \<longleftrightarrow> (\<forall>s. R s (snd (m s)))"

lemma withinD: "within R m \<Longrightarrow> m s = (r, t) \<Longrightarrow> R s t"
  by (metis snd_conv within_def)

locale step_order =
  fixes R :: "'s \<Rightarrow> 's \<Rightarrow> bool"
  assumes stays: "R s s"
    and joins: "R s t \<Longrightarrow> R t u \<Longrightarrow> R s u"
begin

lemma reads: "within R (st_ok x)" "within R (st_err e)" "within R (st_get f)" "within R (st_lift r)"
  by (simp_all add: within_def st_runs stays)

lemma unmoved: "(\<And>s. snd (m s) = s) \<Longrightarrow> within R m"
  by (simp add: within_def stays)

lemma binds: "within R m \<Longrightarrow> (\<And>x. within R (f x)) \<Longrightarrow> within R (st_bind m f)"
  unfolding within_def st_bind_def by (auto split: prod.split sum.split intro: joins) (metis joins snd_conv)+

lemma maps_err: "within R m \<Longrightarrow> within R (st_map_err h m)"
  by (simp add: within_def)

lemma tries: "within R m \<Longrightarrow> within R (st_try m)"
  unfolding within_def st_try_def by (simp split: prod.splits) (metis snd_conv)

lemma eaches: "(\<And>x. within R (f x)) \<Longrightarrow> within R (st_each f xs)"
  by (induction xs) (auto intro: reads binds)

lemmas composes = reads binds maps_err tries eaches

end

text \<open>Keeping an invariant is such a relation.\<close>

definition keeping :: "('s \<Rightarrow> bool) \<Rightarrow> 's \<Rightarrow> 's \<Rightarrow> bool" where
  "keeping I s t \<longleftrightarrow> (I s \<longrightarrow> I t)"

interpretation kept_inv: step_order "keeping I"
  by unfold_locales (auto simp: keeping_def)

text \<open>What follows may rely on the value: it is one the first part returned where the invariant held.\<close>

lemma kept_bind:
  assumes "within (keeping I) m"
    and "\<And>s x t. I s \<Longrightarrow> m s = (Inr x, t) \<Longrightarrow> within (keeping I) (f x)"
  shows "within (keeping I) (st_bind m f)"
proof -
  have "I (snd (st_bind m f s))" if "I s" for s
  proof (cases "m s")
    case (Pair r t)
    with assms(1) that have t: "I t" by (metis keeping_def withinD)
    show ?thesis
    proof (cases r)
      case (Inr x)
      from assms(2) [OF that Pair [unfolded Inr]] t have "I (snd (f x t))"
        by (simp add: within_def keeping_def)
      with Pair Inr show ?thesis by (simp add: st_bind_def)
    qed (use Pair t in \<open>simp add: st_bind_def\<close>)
  qed
  then show ?thesis by (simp add: within_def keeping_def)
qed

end
