(* ===== verification/ServerDb.thy ===== *)
theory ServerDb
  imports StateError MemoryEdges
begin

text \<open>
  \<open>spelunk-server/src/db.rs\<close>: the database of the team server, with the tables of
  \<open>migrations/server_001.sql\<close> to \<open>server_007.sql\<close>.  One file holds the entries of many projects.
  Foreign keys are enforced.  Nothing runs in a transaction, so a statement that fails leaves the
  ones before it done.

  A UUID v7 comes from \<open>v_mint\<close> and the second it is minted in from \<open>v_time\<close>, both indexed by the
  tick \<open>v_tick\<close> that counts the ids minted.  The \<open>vec0\<close> table accepts one vector of its dimension per
  rowid.  Ties of an ORDER BY come in rowid order, as SQLite's sorter leaves them.
\<close>

section \<open>Tables\<close>

record project =
  vp_id :: int
  vp_slug :: string
  vp_dim :: nat
  vp_model :: "string option"
  vp_created_at :: int

record server_row =
  vn_id :: int
  vn_project :: int
  vn_kind :: string
  vn_title :: string
  vn_body :: string
  vn_tags :: "string option"
  vn_linked_files :: "string option"
  vn_created_at :: int
  vn_status :: string
  vn_superseded_by :: "int option"
  vn_remote_id :: "string option"
  vn_sync_id :: "string option"

record server_db =
  v_projects :: "project list"
  v_notes :: "server_row list"
  v_edges :: "memory_edge list"
  v_vecs :: "(int \<times> nat list) list"
  v_vec_dim :: nat
  v_meta :: "string \<rightharpoonup> string"
  v_project_seq :: int
  v_note_seq :: int
  v_dim :: nat
  v_model :: string
  v_mint :: "nat \<Rightarrow> string"
  v_time :: "nat \<Rightarrow> int"
  v_tick :: nat

datatype server_error =
    DimensionMismatch string nat nat
  | ModelMismatch string string string
  | InvalidKind string
  | Sqlite db_error
  | VectorRejected
  | OtherError string

type_synonym 'a srv = "(server_db, server_error, 'a) st"

section \<open>Statements\<close>

definition note_ids :: "server_db \<Rightarrow> int set" where
  "note_ids d = vn_id ` set (v_notes d)"

definition project_ids :: "server_db \<Rightarrow> int set" where
  "project_ids d = vp_id ` set (v_projects d)"

definition mint_id :: "string srv" where
  "mint_id = (\<lambda>d. (Inr (v_mint d (v_tick d)), d\<lparr> v_tick := v_tick d + 1 \<rparr>))"

definition now_unix :: "server_db \<Rightarrow> int" where
  "now_unix d = v_time d (v_tick d)"

definition insert_project :: "string \<Rightarrow> nat \<Rightarrow> string \<Rightarrow> int srv" where
  "insert_project slug dim model =
     (\<lambda>d. if slug \<in> vp_slug ` set (v_projects d) then (Inl (Sqlite UniqueViolation), d)
          else (Inr (v_project_seq d + 1),
            d\<lparr> v_projects := v_projects d @
                 [\<lparr> vp_id = v_project_seq d + 1, vp_slug = slug, vp_dim = dim, vp_model = Some model,
                    vp_created_at = now_unix d \<rparr>],
               v_project_seq := v_project_seq d + 1 \<rparr>))"

definition update_projects :: "(project \<Rightarrow> bool) \<Rightarrow> (project \<Rightarrow> project) \<Rightarrow> unit srv" where
  "update_projects p f =
     (\<lambda>d. (Inr (), d\<lparr> v_projects := map (\<lambda>q. if p q then f q else q) (v_projects d) \<rparr>))"

text \<open>The partial unique indexes of migrations 006 and 007.\<close>

definition note_conflict :: "server_row \<Rightarrow> server_db \<Rightarrow> bool" where
  "note_conflict r d \<longleftrightarrow>
     (\<exists>q \<in> set (v_notes d).
        (vn_remote_id r \<noteq> None \<and> vn_remote_id q = vn_remote_id r \<and> vn_project q = vn_project r) \<or>
        (vn_sync_id r \<noteq> None \<and> vn_sync_id q = vn_sync_id r))"

definition insert_server_note :: "(int \<Rightarrow> int \<Rightarrow> server_row) \<Rightarrow> int srv" where
  "insert_server_note mk =
     (\<lambda>d. let i = v_note_seq d + 1; r = mk i (now_unix d) in
        if note_conflict r d then (Inl (Sqlite UniqueViolation), d)
        else if vn_project r \<notin> project_ids d then (Inl (Sqlite ForeignKeyViolation), d)
        else (Inr i, d\<lparr> v_notes := v_notes d @ [r], v_note_seq := i \<rparr>))"

definition insert_note_vec :: "int \<Rightarrow> nat list \<Rightarrow> unit srv" where
  "insert_note_vec i v =
     (\<lambda>d. if length v \<noteq> v_vec_dim d \<or> i \<in> fst ` set (v_vecs d) then (Inl VectorRejected, d)
          else (Inr (), d\<lparr> v_vecs := v_vecs d @ [(i, v)] \<rparr>))"

definition delete_note_vec :: "int \<Rightarrow> unit srv" where
  "delete_note_vec i = (\<lambda>d. (Inr (), d\<lparr> v_vecs := filter (\<lambda>(j, v). j \<noteq> i) (v_vecs d) \<rparr>))"

definition update_server_notes :: "(server_row \<Rightarrow> bool) \<Rightarrow> (server_row \<Rightarrow> server_row) \<Rightarrow> nat srv" where
  "update_server_notes p f =
     (\<lambda>d. (Inr (length (filter p (v_notes d))),
           d\<lparr> v_notes := map (\<lambda>r. if p r then f r else r) (v_notes d) \<rparr>))"

text \<open>\<open>UPDATE notes SET .., superseded_by = target\<close>: the reference is checked if a row changes.\<close>

definition link_server_notes ::
    "(server_row \<Rightarrow> bool) \<Rightarrow> (server_row \<Rightarrow> server_row) \<Rightarrow> int \<Rightarrow> nat srv" where
  "link_server_notes p f target =
     (\<lambda>d. if target \<notin> note_ids d \<and> (\<exists>r \<in> set (v_notes d). p r) then (Inl (Sqlite ForeignKeyViolation), d)
          else update_server_notes p (\<lambda>r. (f r)\<lparr> vn_superseded_by := Some target \<rparr>) d)"

text \<open>\<open>DELETE FROM notes\<close>: refused while another row is superseded by the deleted one; its edges go with it.\<close>

definition delete_server_note :: "(server_row \<Rightarrow> bool) \<Rightarrow> nat srv" where
  "delete_server_note p =
     (\<lambda>d. let gone = vn_id ` set (filter p (v_notes d)) in
        if \<exists>r \<in> set (v_notes d). \<not> p r \<and> vn_superseded_by r \<in> Some ` gone
        then (Inl (Sqlite ForeignKeyViolation), d)
        else (Inr (length (filter p (v_notes d))),
              d\<lparr> v_notes := filter (\<lambda>r. \<not> p r) (v_notes d),
                 v_edges := filter (\<lambda>e. e_from e \<notin> gone \<and> e_to e \<notin> gone) (v_edges d) \<rparr>))"

definition insert_note_edge :: "int \<Rightarrow> int \<Rightarrow> string \<Rightarrow> unit srv" where
  "insert_note_edge from to kind =
     (\<lambda>d. if kind \<notin> set edge_kinds \<or> (from, to, kind) \<in> edge_key ` set (v_edges d) then (Inr (), d)
          else if from \<notin> note_ids d \<or> to \<notin> note_ids d then (Inl (Sqlite ForeignKeyViolation), d)
          else (Inr (), d\<lparr> v_edges := v_edges d @
                  [\<lparr> e_from = from, e_to = to, e_kind = kind, e_created_at = now_unix d \<rparr>] \<rparr>))"

section \<open>Identity and backfill\<close>

definition stamp_sync_id :: "int \<Rightarrow> unit srv" where
  "stamp_sync_id i =
     st_bind mint_id
       (\<lambda>sync_id d.
          if \<exists>q \<in> set (v_notes d). vn_id q \<noteq> i \<and> vn_sync_id q = Some sync_id
          then (Inl (Sqlite UniqueViolation), d)
          else st_bind (update_server_notes (\<lambda>r. vn_id r = i) (\<lambda>r. r\<lparr> vn_sync_id := Some sync_id \<rparr>))
                 (\<lambda>_. st_ok ()) d)"

definition backfill_missing_sync_ids :: "unit srv" where
  "backfill_missing_sync_ids =
     st_bind (st_get (\<lambda>d. sort (map vn_id (filter (\<lambda>r. vn_sync_id r = None) (v_notes d)))))
       (\<lambda>stale_ids. st_each stamp_sync_id stale_ids)"

definition get_or_create_instance_id :: "string srv" where
  "get_or_create_instance_id =
     st_bind mint_id
       (\<lambda>fresh d.
          let d' = (if v_meta d ''instance_id'' = None
                    then d\<lparr> v_meta := (v_meta d)(''instance_id'' \<mapsto> fresh) \<rparr> else d) in
          (case v_meta d' ''instance_id'' of
             Some i \<Rightarrow> (Inr i, d') | None \<Rightarrow> (Inl (Sqlite QueryReturnedNoRows), d')))"

section \<open>Projects\<close>

definition find_project :: "string \<Rightarrow> server_db \<Rightarrow> project option" where
  "find_project slug d = find (\<lambda>p. vp_slug p = slug) (v_projects d)"

definition get_project :: "string \<Rightarrow> project option srv" where
  "get_project slug = st_get (find_project slug)"

definition list_projects :: "project list srv" where
  "list_projects = st_get (\<lambda>d. sort_key vp_slug (v_projects d))"

definition upsert_project :: "string \<Rightarrow> nat \<Rightarrow> string \<Rightarrow> project srv" where
  "upsert_project slug incoming_dim incoming_model =
     st_bind (get_project slug)
       (\<lambda>existing. case existing of
          Some p \<Rightarrow>
            if vp_dim p \<noteq> 0 \<and> vp_dim p \<noteq> incoming_dim
            then st_err (DimensionMismatch slug (vp_dim p) incoming_dim)
            else if vp_model p \<noteq> None \<and> vp_model p \<noteq> Some incoming_model
            then st_err (ModelMismatch slug (the (vp_model p)) incoming_model)
            else
              st_bind (if vp_dim p = 0
                       then update_projects (\<lambda>q. vp_id q = vp_id p) (\<lambda>q. q\<lparr> vp_dim := incoming_dim \<rparr>)
                       else st_ok ())
              (\<lambda>_. st_bind (if vp_model p = None
                       then update_projects (\<lambda>q. vp_id q = vp_id p) (\<lambda>q. q\<lparr> vp_model := Some incoming_model \<rparr>)
                       else st_ok ())
              (\<lambda>_. st_ok (p\<lparr> vp_dim := (if vp_dim p = 0 then incoming_dim else vp_dim p),
                     vp_model := Some incoming_model \<rparr>)))
        | None \<Rightarrow>
            st_bind (insert_project slug incoming_dim incoming_model)
              (\<lambda>i. st_bind (st_get now_unix)
                (\<lambda>now. st_ok \<lparr> vp_id = i, vp_slug = slug, vp_dim = incoming_dim,
                   vp_model = Some incoming_model, vp_created_at = now \<rparr>)))"

section \<open>Entries\<close>

definition server_split_csv :: "string option \<Rightarrow> string list" where
  "server_split_csv col =
     filter (\<lambda>p. p \<noteq> []) (map trim (split_on comma (case col of None \<Rightarrow> [] | Some s \<Rightarrow> s)))"

definition join_csv :: "string list \<Rightarrow> string option" where
  "join_csv xs = (if xs = [] then None else Some (join_with [comma] xs))"

record server_note =
  sv_id :: int
  sv_kind :: string
  sv_title :: string
  sv_body :: string
  sv_tags :: "string list"
  sv_linked_files :: "string list"
  sv_created_at :: int
  sv_status :: string
  sv_superseded_by :: "int option"
  sv_remote_id :: "string option"

definition row_to_server_note :: "server_row \<Rightarrow> server_note" where
  "row_to_server_note r =
     \<lparr> sv_id = vn_id r, sv_kind = vn_kind r, sv_title = vn_title r, sv_body = vn_body r,
       sv_tags = server_split_csv (vn_tags r), sv_linked_files = server_split_csv (vn_linked_files r),
       sv_created_at = vn_created_at r, sv_status = vn_status r, sv_superseded_by = vn_superseded_by r,
       sv_remote_id = vn_remote_id r \<rparr>"

definition new_row ::
    "int \<Rightarrow> string \<Rightarrow> string \<Rightarrow> string \<Rightarrow> string list \<Rightarrow> string list \<Rightarrow> string option \<Rightarrow> string \<Rightarrow> int \<Rightarrow> int \<Rightarrow>
       server_row" where
  "new_row project_id kind title body tags linked_files remote_id sync_id i now =
     \<lparr> vn_id = i, vn_project = project_id, vn_kind = kind, vn_title = title, vn_body = body,
       vn_tags = join_csv tags, vn_linked_files = join_csv linked_files, vn_created_at = now,
       vn_status = active, vn_superseded_by = None, vn_remote_id = remote_id, vn_sync_id = Some sync_id \<rparr>"

definition add_note_srv ::
    "int \<Rightarrow> string \<Rightarrow> string \<Rightarrow> string \<Rightarrow> string list \<Rightarrow> string list \<Rightarrow> nat list option \<Rightarrow> string option \<Rightarrow>
       (int \<times> string) srv" where
  "add_note_srv project_id kind title body tags linked_files embedding remote_id =
     st_bind mint_id
       (\<lambda>sync_id. st_bind
          (insert_server_note (new_row project_id kind title body tags linked_files remote_id sync_id))
       (\<lambda>note_id. st_bind (case embedding of Some v \<Rightarrow> insert_note_vec note_id v | None \<Rightarrow> st_ok ())
       (\<lambda>_. st_ok (note_id, sync_id))))"

definition find_by_remote_ids :: "int \<Rightarrow> string list \<Rightarrow> (string \<rightharpoonup> string) srv" where
  "find_by_remote_ids project_id remote_ids =
     st_get (\<lambda>d. map_of (rev (filter_map
        (\<lambda>r. case (vn_remote_id r, vn_sync_id r) of
               (Some rid, Some sid) \<Rightarrow>
                 if vn_project r = project_id \<and> vn_status r = active \<and> rid \<in> set remote_ids
                 then Some (rid, sid) else None
             | _ \<Rightarrow> None) (v_notes d))))"

definition get_note_srv :: "int \<Rightarrow> int \<Rightarrow> server_note option srv" where
  "get_note_srv project_id note_id =
     st_get (\<lambda>d. map_option row_to_server_note
       (find (\<lambda>r. vn_id r = note_id \<and> vn_project r = project_id) (v_notes d)))"

definition list_notes_srv :: "int \<Rightarrow> string option \<Rightarrow> nat \<Rightarrow> bool \<Rightarrow> server_note list srv" where
  "list_notes_srv project_id kind_filter limit include_archived =
     st_get (\<lambda>d. map row_to_server_note (take (min limit 500) (sort_key (\<lambda>r. - vn_created_at r)
       (filter (\<lambda>r. vn_project r = project_id \<and>
           (case kind_filter of Some k \<Rightarrow> vn_kind r = k | None \<Rightarrow> True) \<and>
           (include_archived \<or> vn_status r = active)) (v_notes d)))))"

definition add_edge_srv :: "int \<Rightarrow> int \<Rightarrow> string \<Rightarrow> unit srv" where
  "add_edge_srv from_id to_id kind =
     (if kind \<notin> {''supersedes'', ''relates_to'', ''contradicts''} then st_err (InvalidKind kind)
      else insert_note_edge from_id to_id kind)"

definition harvested_shas_srv :: "int \<Rightarrow> string list srv" where
  "harvested_shas_srv project_id =
     st_get (\<lambda>d. concat (map (\<lambda>r. case vn_tags r of
          Some tags \<Rightarrow> if like ''%git:%'' tags
                        then filter_map (\<lambda>t. strip_prefix ''git:'' (trim t)) (split_on comma tags) else []
        | None \<Rightarrow> [])
       (filter (\<lambda>r. vn_project r = project_id) (v_notes d))))"

definition archive_note_srv :: "int \<Rightarrow> int \<Rightarrow> bool srv" where
  "archive_note_srv project_id note_id =
     st_bind (update_server_notes
        (\<lambda>r. vn_id r = note_id \<and> vn_project r = project_id \<and> vn_status r = active)
        (\<lambda>r. r\<lparr> vn_status := archived \<rparr>))
       (\<lambda>changed. st_ok (0 < changed))"

definition supersede_note_srv :: "int \<Rightarrow> int \<Rightarrow> int \<Rightarrow> bool srv" where
  "supersede_note_srv project_id old_id new_id =
     st_bind (link_server_notes
        (\<lambda>r. vn_id r = old_id \<and> vn_project r = project_id \<and> vn_status r = active)
        (\<lambda>r. r\<lparr> vn_status := archived \<rparr>) new_id)
       (\<lambda>changed. st_ok (0 < changed))"

definition clamp_limit :: "int \<Rightarrow> nat" where
  "clamp_limit limit = nat (min 500 (max 1 limit))"

definition notes_since :: "int \<Rightarrow> int \<Rightarrow> int \<Rightarrow> server_note list srv" where
  "notes_since project_id since_secs limit =
     st_get (\<lambda>d. map row_to_server_note (take (clamp_limit limit) (sort_key vn_created_at
       (filter (\<lambda>r. vn_project r = project_id \<and> since_secs < vn_created_at r \<and> vn_status r \<noteq> archived)
         (v_notes d)))))"

record since_id_row =
  si_sync_id :: string
  si_kind :: string
  si_title :: string
  si_body :: string
  si_source_commit :: "string option"
  si_created_at :: int

definition source_commit_from_tags :: "string list \<Rightarrow> string option" where
  "source_commit_from_tags tags = find_map (strip_prefix ''git:'') tags"

definition row_to_since_id_row :: "server_row \<Rightarrow> since_id_row" where
  "row_to_since_id_row r =
     \<lparr> si_sync_id = the (vn_sync_id r), si_kind = vn_kind r, si_title = vn_title r, si_body = vn_body r,
       si_source_commit = source_commit_from_tags (server_split_csv (vn_tags r)),
       si_created_at = vn_created_at r \<rparr>"

definition after_cursor :: "int \<Rightarrow> string \<Rightarrow> server_row \<Rightarrow> bool" where
  "after_cursor project_id cursor r \<longleftrightarrow>
     vn_project r = project_id \<and> vn_status r \<noteq> archived \<and>
     (case vn_sync_id r of Some i \<Rightarrow> cursor < i | None \<Rightarrow> False)"

definition notes_since_id :: "int \<Rightarrow> string \<Rightarrow> int \<Rightarrow> since_id_row list srv" where
  "notes_since_id project_id cursor limit =
     st_get (\<lambda>d. map row_to_since_id_row (take (clamp_limit limit)
       (sort_key (\<lambda>r. the (vn_sync_id r)) (filter (after_cursor project_id cursor) (v_notes d)))))"

definition delete_note_srv :: "int \<Rightarrow> int \<Rightarrow> bool srv" where
  "delete_note_srv project_id note_id =
     st_bind (delete_note_vec note_id)
       (\<lambda>_. st_bind (delete_server_note (\<lambda>r. vn_id r = note_id \<and> vn_project r = project_id))
         (\<lambda>changed. st_ok (0 < changed)))"

record project_stats =
  pst_count :: nat
  pst_total :: nat
  pst_embedding_dim :: nat

definition stats_srv :: "int \<Rightarrow> project_stats srv" where
  "stats_srv project_id =
     st_get (\<lambda>d. \<lparr> pst_count = length (filter (\<lambda>r. vn_project r = project_id \<and> vn_status r = active) (v_notes d)),
       pst_total = length (filter (\<lambda>r. vn_project r = project_id) (v_notes d)),
       pst_embedding_dim = v_dim d \<rparr>)"

end
