(* ===== verification/ServerInv.thy ===== *)
theory ServerInv
  imports ServerDb
begin

text \<open>
  What every statement of the team server's database keeps: \<open>server_inv\<close>, the constraints of the
  schema with the provenance of the ids; \<open>elsewhere\<close>, that the rows of the other projects stay as they
  are; and \<open>arrivals\<close>, that ids are minted in the order rows arrive.
\<close>

section \<open>The invariant\<close>

definition minted :: "server_db \<Rightarrow> string \<Rightarrow> bool" where
  "minted d i \<longleftrightarrow> (\<exists>k < v_tick d. i = v_mint d k)"

definition unique_rows :: "(server_row \<Rightarrow> 'k option) \<Rightarrow> server_row list \<Rightarrow> bool" where
  "unique_rows f rs \<longleftrightarrow>
     (\<forall>r \<in> set rs. \<forall>q \<in> set rs. f r \<noteq> None \<and> f r = f q \<longrightarrow> vn_id r = vn_id q)"

definition remote_key :: "server_row \<Rightarrow> (int \<times> string) option" where
  "remote_key r = map_option (Pair (vn_project r)) (vn_remote_id r)"

definition projects_ok :: "server_db \<Rightarrow> bool" where
  "projects_ok d \<longleftrightarrow> distinct (map vp_id (v_projects d)) \<and> distinct (map vp_slug (v_projects d)) \<and>
     (\<forall>p \<in> set (v_projects d). vp_id p \<le> v_project_seq d)"

definition rows_ok :: "server_db \<Rightarrow> bool" where
  "rows_ok d \<longleftrightarrow> sorted_wrt (<) (map vn_id (v_notes d)) \<and>
     (\<forall>r \<in> set (v_notes d). vn_id r \<le> v_note_seq d \<and> vn_project r \<in> project_ids d \<and>
        (\<forall>t. vn_superseded_by r = Some t \<longrightarrow> t \<in> note_ids d) \<and>
        (\<forall>i. vn_sync_id r = Some i \<longrightarrow> minted d i)) \<and>
     unique_rows remote_key (v_notes d) \<and> unique_rows vn_sync_id (v_notes d)"

definition note_edges_ok :: "server_db \<Rightarrow> bool" where
  "note_edges_ok d \<longleftrightarrow> distinct (map edge_key (v_edges d)) \<and>
     (\<forall>e \<in> set (v_edges d). e_kind e \<in> set edge_kinds \<and> e_from e \<in> note_ids d \<and> e_to e \<in> note_ids d)"

definition vectors_ok :: "server_db \<Rightarrow> bool" where
  "vectors_ok d \<longleftrightarrow> distinct (map fst (v_vecs d)) \<and>
     (\<forall>(i, v) \<in> set (v_vecs d). i \<le> v_note_seq d \<and> length v = v_vec_dim d)"

definition server_inv :: "server_db \<Rightarrow> bool" where
  "server_inv d \<longleftrightarrow> strict_mono (v_mint d) \<and> projects_ok d \<and> rows_ok d \<and> note_edges_ok d \<and> vectors_ok d"

abbreviation keeps_server :: "'a srv \<Rightarrow> bool" where
  "keeps_server \<equiv> within (keeping server_inv)"

lemma keeps_serverI: "(\<And>d. server_inv d \<Longrightarrow> server_inv (snd (m d))) \<Longrightarrow> keeps_server m"
  by (simp add: within_def keeping_def)

lemma server_invD:
  assumes "server_inv d"
  shows "strict_mono (v_mint d)" "projects_ok d" "rows_ok d" "note_edges_ok d" "vectors_ok d"
  using assms by (simp_all add: server_inv_def)

lemma minted_later: "minted d i \<Longrightarrow> minted (d\<lparr> v_tick := v_tick d + 1 \<rparr>) i"
  by (auto simp: minted_def intro: less_SucI)

lemma not_minted_next:
  assumes "server_inv d" and "minted d i"
  shows "i < v_mint d (v_tick d)"
  using assms by (auto simp: server_inv_def minted_def strict_mono_def)

lemma unique_rows_append:
  assumes "unique_rows f rs" and "\<And>q. q \<in> set rs \<Longrightarrow> f r \<noteq> None \<Longrightarrow> f q \<noteq> f r"
  shows "unique_rows f (rs @ [r])"
  using assms unfolding unique_rows_def by (auto; metis option.distinct(1))

lemma unique_rows_map:
  assumes "unique_rows f rs" and "\<And>r. r \<in> set rs \<Longrightarrow> f (g r) = f r \<and> vn_id (g r) = vn_id r"
  shows "unique_rows f (map g rs)"
  using assms unfolding unique_rows_def by auto

lemma unique_rows_filter: "unique_rows f rs \<Longrightarrow> unique_rows f (filter p rs)"
  unfolding unique_rows_def by auto

section \<open>Statements keep it\<close>

lemma keeps_mint: "keeps_server mint_id"
proof (rule keeps_serverI)
  fix d assume d: "server_inv d"
  let ?e = "d\<lparr> v_tick := v_tick d + 1 \<rparr>"
  have "rows_ok ?e"
    using server_invD(3) [OF d] minted_later [of d] unfolding rows_ok_def
    by (simp add: project_ids_def note_ids_def)
  with d show "server_inv (snd (mint_id d))"
    by (simp add: server_inv_def projects_ok_def note_edges_ok_def vectors_ok_def mint_id_def note_ids_def)
qed

lemma keeps_insert_project: "keeps_server (insert_project slug dim model)"
proof (rule keeps_serverI)
  fix d assume d: "server_inv d"
  define p where "p = \<lparr> vp_id = v_project_seq d + 1, vp_slug = slug, vp_dim = dim, vp_model = Some model,
    vp_created_at = now_unix d \<rparr>"
  let ?e = "d\<lparr> v_projects := v_projects d @ [p], v_project_seq := v_project_seq d + 1 \<rparr>"
  have p: "vp_id p = v_project_seq d + 1" "vp_slug p = slug" by (simp_all add: p_def)
  have bound: "vp_id q \<le> v_project_seq d" if "q \<in> set (v_projects d)" for q
    using server_invD(2) [OF d] that by (simp add: projects_ok_def)
  have old: "vp_id p \<notin> vp_id ` set (v_projects d)" using bound unfolding p by force
  have le: "vp_id q \<le> v_project_seq d + 1" if "q \<in> set (v_projects d)" for q using bound [OF that] by simp
  show "server_inv (snd (insert_project slug dim model d))"
  proof (cases "slug \<in> vp_slug ` set (v_projects d)")
    case True
    with d show ?thesis by (simp add: insert_project_def)
  next
    case False
    have "projects_ok ?e" using server_invD(2) [OF d] old False p le by (simp add: projects_ok_def)
    moreover have "rows_ok ?e"
      using server_invD(3) [OF d] by (simp add: rows_ok_def project_ids_def note_ids_def minted_def)
    ultimately have "server_inv ?e"
      using d by (simp add: server_inv_def note_edges_ok_def vectors_ok_def note_ids_def)
    with False show ?thesis by (simp add: insert_project_def p_def)
  qed
qed

lemma server_inv_projects:
  assumes d: "server_inv d"
    and qs: "map vp_id qs = map vp_id (v_projects d)" "map vp_slug qs = map vp_slug (v_projects d)"
  shows "server_inv (d\<lparr> v_projects := qs \<rparr>)" (is "server_inv ?e")
proof -
  from qs(1) have ids: "vp_id ` set qs = vp_id ` set (v_projects d)" by (metis set_map)
  have "projects_ok ?e"
    using server_invD(2) [OF d] ids qs unfolding projects_ok_def
    by simp (metis (no_types, lifting) imageE imageI)
  then show ?thesis
    using d ids unfolding server_inv_def rows_ok_def note_edges_ok_def vectors_ok_def
    by (simp add: project_ids_def note_ids_def minted_def)
qed

lemma keeps_update_projects:
  assumes "\<And>p. vp_id (f p) = vp_id p" "\<And>p. vp_slug (f p) = vp_slug p"
  shows "keeps_server (update_projects P f)"
  unfolding update_projects_def using assms
  by (intro keeps_serverI) (simp add: server_inv_projects)

lemma keeps_delete_vec: "keeps_server (delete_note_vec i)"
proof (rule keeps_serverI)
  fix d assume "server_inv d"
  then show "server_inv (snd (delete_note_vec i d))"
    unfolding server_inv_def projects_ok_def rows_ok_def note_edges_ok_def vectors_ok_def delete_note_vec_def
    by (auto simp: project_ids_def note_ids_def minted_def distinct_map_filter)
qed

text \<open>An update of columns that no constraint is on.\<close>

definition plain_update :: "(server_row \<Rightarrow> server_row) \<Rightarrow> bool" where
  "plain_update f \<longleftrightarrow> (\<forall>r. vn_id (f r) = vn_id r \<and> vn_project (f r) = vn_project r \<and>
     vn_remote_id (f r) = vn_remote_id r \<and> vn_sync_id (f r) = vn_sync_id r)"

lemma server_inv_rows:
  assumes d: "server_inv d" and ids: "map vn_id rs = map vn_id (v_notes d)"
    and uniq: "unique_rows remote_key rs" "unique_rows vn_sync_id rs"
    and each: "\<And>r. r \<in> set rs \<Longrightarrow> vn_project r \<in> project_ids d \<and>
      (\<forall>t. vn_superseded_by r = Some t \<longrightarrow> t \<in> note_ids d) \<and> (\<forall>i. vn_sync_id r = Some i \<longrightarrow> minted d i)"
  shows "server_inv (d\<lparr> v_notes := rs \<rparr>)" (is "server_inv ?e")
proof -
  from ids have "vn_id ` set rs = vn_id ` set (v_notes d)" by (metis set_map)
  then have nids: "note_ids ?e = note_ids d" by (simp add: note_ids_def)
  have rows: "rows_ok d" using d by (simp add: server_inv_def)
  have "vn_id r \<le> v_note_seq d" if "r \<in> set rs" for r
  proof -
    from ids that have "vn_id r \<in> vn_id ` set (v_notes d)" by (metis image_eqI set_map)
    then show ?thesis using rows by (auto simp: rows_ok_def)
  qed
  then have "rows_ok ?e"
    using rows uniq each ids unfolding rows_ok_def nids by (simp add: project_ids_def minted_def)
  then show ?thesis
    using d nids unfolding server_inv_def note_edges_ok_def by (simp add: projects_ok_def vectors_ok_def)
qed

lemma keeps_rows_mapped:
  assumes f: "plain_update f" and d: "server_inv d"
    and link: "\<And>r t. r \<in> set (v_notes d) \<Longrightarrow> P r \<Longrightarrow> vn_superseded_by (f r) = Some t \<Longrightarrow> t \<in> note_ids d"
  shows "server_inv (d\<lparr> v_notes := map (\<lambda>r. if P r then f r else r) (v_notes d) \<rparr>)"
proof (rule server_inv_rows [OF d])
  let ?g = "\<lambda>r. if P r then f r else r"
  have g: "vn_id (?g r) = vn_id r" "vn_project (?g r) = vn_project r" "remote_key (?g r) = remote_key r"
    "vn_sync_id (?g r) = vn_sync_id r" for r
    using f by (simp_all add: plain_update_def remote_key_def)
  have rows: "rows_ok d" using d by (simp add: server_inv_def)
  show "map vn_id (map ?g (v_notes d)) = map vn_id (v_notes d)" unfolding map_map using g by (intro map_cong) simp_all
  show "unique_rows remote_key (map ?g (v_notes d))" "unique_rows vn_sync_id (map ?g (v_notes d))"
    using rows unfolding rows_ok_def by (auto intro!: unique_rows_map simp: g)
  fix q assume "q \<in> set (map ?g (v_notes d))"
  then obtain r where r: "r \<in> set (v_notes d)" "q = ?g r" by auto
  show "vn_project q \<in> project_ids d \<and> (\<forall>t. vn_superseded_by q = Some t \<longrightarrow> t \<in> note_ids d) \<and>
      (\<forall>i. vn_sync_id q = Some i \<longrightarrow> minted d i)"
    using rows r(1) link [OF r(1)] unfolding r(2) g rows_ok_def by simp
qed

lemma srv_keeps_update_notes:
  assumes "plain_update f" and "\<And>r. vn_superseded_by (f r) = vn_superseded_by r"
  shows "keeps_server (update_server_notes P f)"
proof (rule keeps_serverI)
  fix d assume d: "server_inv d"
  have "t \<in> note_ids d" if "r \<in> set (v_notes d)" "vn_superseded_by (f r) = Some t" for r t
    using d that assms(2) by (auto simp: server_inv_def rows_ok_def)
  with keeps_rows_mapped [OF assms(1) d] show "server_inv (snd (update_server_notes P f d))"
    by (simp add: update_server_notes_def)
qed

lemma keeps_link_notes:
  assumes "plain_update f"
  shows "keeps_server (link_server_notes P f target)"
proof (rule keeps_serverI)
  fix d assume d: "server_inv d"
  have plain: "plain_update (\<lambda>r. (f r)\<lparr> vn_superseded_by := Some target \<rparr>)"
    using assms by (simp add: plain_update_def)
  show "server_inv (snd (link_server_notes P f target d))"
  proof (cases "target \<notin> note_ids d \<and> (\<exists>r \<in> set (v_notes d). P r)")
    case True
    with d show ?thesis by (simp add: link_server_notes_def)
  next
    case False
    then have "t \<in> note_ids d" if "r \<in> set (v_notes d)" "P r" "Some target = Some t" for r t using that by auto
    then have "server_inv (snd (update_server_notes P (\<lambda>r. (f r)\<lparr> vn_superseded_by := Some target \<rparr>) d))"
      unfolding update_server_notes_def snd_conv by (intro keeps_rows_mapped [OF plain d]) simp
    moreover have "link_server_notes P f target d =
        update_server_notes P (\<lambda>r. (f r)\<lparr> vn_superseded_by := Some target \<rparr>) d"
      unfolding link_server_notes_def by (subst if_not_P [OF False]) (rule refl)
    ultimately show ?thesis by simp
  qed
qed

lemma server_inv_insert_note:
  assumes d: "server_inv d"
    and mk: "\<And>i now. vn_id (mk i now) = i" "\<And>i now. vn_superseded_by (mk i now) = None"
    and sync: "\<And>i now j. vn_sync_id (mk i now) = Some j \<Longrightarrow> minted d j"
  shows "server_inv (snd (insert_server_note mk d))"
proof -
  let ?i = "v_note_seq d + 1"
  define r where "r = mk ?i (now_unix d)"
  let ?e = "d\<lparr> v_notes := v_notes d @ [r], v_note_seq := ?i \<rparr>"
  have r: "vn_id r = ?i" "vn_superseded_by r = None" "\<And>j. vn_sync_id r = Some j \<Longrightarrow> minted d j"
    using mk sync by (simp_all add: r_def)
  have ids: "note_ids ?e = insert ?i (note_ids d)" by (auto simp: note_ids_def r)
  note rows = server_invD(3) [OF d]
  have bound: "vn_id q < ?i" if "q \<in> set (v_notes d)" for q
    using rows that by (fastforce simp: rows_ok_def)
  show ?thesis
  proof (cases "note_conflict r d \<or> vn_project r \<notin> project_ids d")
    case True
    with d show ?thesis by (auto simp: insert_server_note_def Let_def r_def)
  next
    case False
    then have fresh: "remote_key q \<noteq> remote_key r" if "remote_key r \<noteq> None" "q \<in> set (v_notes d)" for q
      using that by (auto simp: note_conflict_def remote_key_def)
    from False have fresh': "vn_sync_id q \<noteq> vn_sync_id r" if "vn_sync_id r \<noteq> None" "q \<in> set (v_notes d)" for q
      using that by (auto simp: note_conflict_def)
    have "unique_rows remote_key (v_notes d @ [r])" "unique_rows vn_sync_id (v_notes d @ [r])"
      using rows fresh fresh' by (auto simp: rows_ok_def intro!: unique_rows_append)
    moreover have "sorted_wrt (<) (map vn_id (v_notes d @ [r]))"
      using rows bound by (simp add: rows_ok_def sorted_wrt_append r)
    moreover have "vn_id q \<le> ?i" if "q \<in> set (v_notes d)" for q using bound [OF that] by simp
    ultimately have "rows_ok ?e"
      using rows r False unfolding rows_ok_def ids by (simp add: project_ids_def minted_def)
    moreover have "note_edges_ok ?e" using server_invD(4) [OF d] by (simp add: note_edges_ok_def ids)
    moreover have "vectors_ok ?e" using server_invD(5) [OF d] by (fastforce simp: vectors_ok_def)
    ultimately have "server_inv ?e" using d by (simp add: server_inv_def projects_ok_def)
    with False show ?thesis by (simp add: insert_server_note_def Let_def r_def)
  qed
qed

lemma insert_note_vec_inv:
  "server_inv d \<Longrightarrow> i \<le> v_note_seq d \<Longrightarrow> server_inv (snd (insert_note_vec i v d))"
  by (auto simp: insert_note_vec_def server_inv_def projects_ok_def rows_ok_def note_edges_ok_def vectors_ok_def
      note_ids_def project_ids_def minted_def)

lemma srv_keeps_insert_edge: "keeps_server (insert_note_edge from to kind)"
proof (rule keeps_serverI)
  fix d assume d: "server_inv d"
  then show "server_inv (snd (insert_note_edge from to kind d))"
    using server_invD(3,4) [OF d]
    by (auto simp: insert_note_edge_def server_inv_def projects_ok_def rows_ok_def note_edges_ok_def vectors_ok_def
        note_ids_def project_ids_def minted_def edge_key_def)
qed

lemma srv_keeps_delete_note: "keeps_server (delete_server_note p)"
proof (rule keeps_serverI)
  fix d assume d: "server_inv d"
  let ?gone = "vn_id ` set (filter p (v_notes d))"
  let ?e = "d\<lparr> v_notes := filter (\<lambda>r. \<not> p r) (v_notes d),
    v_edges := filter (\<lambda>e. e_from e \<notin> ?gone \<and> e_to e \<notin> ?gone) (v_edges d) \<rparr>"
  note rows = server_invD(3) [OF d]
  have ids: "note_ids d - ?gone \<subseteq> note_ids ?e" by (auto simp: note_ids_def)
  show "server_inv (snd (delete_server_note p d))"
  proof (cases "\<exists>r \<in> set (v_notes d). \<not> p r \<and> vn_superseded_by r \<in> Some ` ?gone")
    case True
    then have "delete_server_note p d = (Inl (Sqlite ForeignKeyViolation), d)"
      unfolding delete_server_note_def Let_def by (rule if_P)
    with d show ?thesis by simp
  next
    case False
    then have run: "delete_server_note p d = (Inr (length (filter p (v_notes d))), ?e)"
      unfolding delete_server_note_def Let_def by (rule if_not_P)
    have link: "t \<in> note_ids ?e" if "r \<in> set (v_notes d)" "\<not> p r" "vn_superseded_by r = Some t" for r t
    proof -
      from that False have "t \<notin> ?gone" by blast
      moreover from that rows have "t \<in> note_ids d" by (simp add: rows_ok_def)
      ultimately show ?thesis using ids by blast
    qed
    have each: "vn_id r \<le> v_note_seq d \<and> vn_project r \<in> project_ids d \<and>
        (\<forall>t. vn_superseded_by r = Some t \<longrightarrow> t \<in> note_ids ?e) \<and> (\<forall>i. vn_sync_id r = Some i \<longrightarrow> minted d i)"
      if "r \<in> set (v_notes d)" "\<not> p r" for r
      using rows link [OF that] that(1) by (simp add: rows_ok_def)
    have "sorted_wrt (<) (map vn_id (filter (\<lambda>r. \<not> p r) (v_notes d)))"
      using rows by (simp add: rows_ok_def sorted_wrt_map sorted_wrt_filter)
    moreover have "unique_rows remote_key (filter (\<lambda>r. \<not> p r) (v_notes d))"
      "unique_rows vn_sync_id (filter (\<lambda>r. \<not> p r) (v_notes d))"
      using rows by (simp_all add: rows_ok_def unique_rows_filter)
    moreover have "project_ids ?e = project_ids d" "minted ?e = minted d"
      by (simp_all add: project_ids_def minted_def fun_eq_iff)
    moreover have "\<forall>r \<in> set (filter (\<lambda>r. \<not> p r) (v_notes d)). vn_id r \<le> v_note_seq d \<and>
        vn_project r \<in> project_ids d \<and> (\<forall>t. vn_superseded_by r = Some t \<longrightarrow> t \<in> note_ids ?e) \<and>
        (\<forall>i. vn_sync_id r = Some i \<longrightarrow> minted d i)"
      by (intro ballI each) auto
    ultimately have "rows_ok ?e" unfolding rows_ok_def by simp
    moreover have "e_from e \<in> note_ids ?e \<and> e_to e \<in> note_ids ?e \<and> e_kind e \<in> set edge_kinds" if "e \<in> set (v_edges ?e)" for e
      using server_invD(4) [OF d] ids that by (auto simp: note_edges_ok_def)
    then have "note_edges_ok ?e"
      using server_invD(4) [OF d] by (simp add: note_edges_ok_def distinct_map_filter)
    ultimately have "server_inv ?e" using d by (simp add: server_inv_def projects_ok_def vectors_ok_def)
    then show ?thesis by (simp only: run snd_conv)
  qed
qed

end
