(* ===== verification/ServerHandlers.thy ===== *)
theory ServerHandlers
  imports ServerDb CloudSync
begin

text \<open>
  The memory handlers of the team server (\<open>spelunk-server/src/handlers/mod.rs\<close>, \<open>notes.rs\<close>,
  \<open>batch.rs\<close>, \<open>sync.rs\<close>, \<open>projects.rs\<close>), the errors of \<open>lib.rs\<close> and the injection scan of
  \<open>security.rs\<close>.  A handler runs under the lock of the database.  What surrounds it is the record
  \<open>app_state\<close>: the embedder, a free admission slot or none, the match of each named pattern of the
  regex engine, the distance within which entries conflict (\<open>None\<close> when detection is off), the nearest
  neighbours of the vector table and the RFC 3339 form of a timestamp.  A distance is the bit pattern
  of a non-negative float, which orders like the number; the similarity printed from it is left out.
\<close>

section \<open>Errors\<close>

datatype app_error =
    NotFound
  | BadRequest string
  | ServiceUnavailable string
  | EmbedderWarmingUp bool string
  | EmbedderBusy nat
  | Internal server_error

fun status_of :: "app_error \<Rightarrow> nat" where
  "status_of NotFound = 404"
| "status_of (BadRequest msg) = 400"
| "status_of (ServiceUnavailable msg) = 503"
| "status_of (EmbedderWarmingUp terminal detail) = 503"
| "status_of (EmbedderBusy retry_after_secs) = 429"
| "status_of (Internal (DimensionMismatch slug expected got)) = 400"
| "status_of (Internal (ModelMismatch slug expected got)) = 400"
| "status_of (Internal e) = 500"

datatype embedder_state = Loading | Ready | Unavailable | Disabled

record embedder_slot =
  es_state :: embedder_state
  es_backend :: "(string \<Rightarrow> string + nat list list) option"
  es_detail :: "string option"

record app_state =
  ap_embedder :: embedder_slot
  ap_admits :: bool
  ap_retry_after :: nat
  ap_conflict_distance :: "nat option"
  ap_is_match :: "string \<Rightarrow> string \<Rightarrow> bool"
  ap_nearest :: "(int \<times> nat list) list \<Rightarrow> nat list \<Rightarrow> nat \<Rightarrow> (int \<times> nat) list"
  ap_rfc3339 :: "int \<Rightarrow> string"

type_synonym 'a handler = "(server_db, app_error, 'a) st"

definition db_call :: "'a srv \<Rightarrow> 'a handler" where
  "db_call m = st_map_err Internal m"

text \<open>An answer that is not an error: its status and body, or the refusal of an entry.\<close>

record injection_match =
  im_field :: string
  im_category :: string

datatype 'a reply = Reply nat 'a | Refused "nat option" injection_match

section \<open>Validation\<close>

definition MAX_TITLE_LEN :: nat where "MAX_TITLE_LEN = 500"
definition MAX_BODY_LEN :: nat where "MAX_BODY_LEN = 50000"
definition MAX_SLUG_LEN :: nat where "MAX_SLUG_LEN = 200"
definition MAX_BATCH_ENTRIES :: nat where "MAX_BATCH_ENTRIES = 200"

text \<open>\<open>chars().count()\<close>: the bytes of valid UTF-8 that start a character.\<close>

definition chars_count :: "string \<Rightarrow> nat" where
  "chars_count s = length (filter (\<lambda>c. \<not> cont_byte (byte c)) s)"

definition show_nat :: "nat \<Rightarrow> string" where
  "show_nat n = int_to_string (int n)"

definition validate_title_body :: "string \<Rightarrow> string \<Rightarrow> app_error + unit" where
  "validate_title_body title body =
     (if MAX_TITLE_LEN < chars_count title then
        Inl (BadRequest (''title exceeds maximum length of '' @ show_nat MAX_TITLE_LEN @ '' characters (got '' @
          show_nat (chars_count title) @ '')''))
      else if MAX_BODY_LEN < chars_count body then
        Inl (BadRequest (''body exceeds maximum length of '' @ show_nat MAX_BODY_LEN @ '' characters (got '' @
          show_nat (chars_count body) @ '')''))
      else Inr ())"

definition validate_embedding_dim :: "nat list option \<Rightarrow> nat \<Rightarrow> app_error + unit" where
  "validate_embedding_dim embedding configured_dim =
     (case embedding of
        Some v \<Rightarrow>
          if configured_dim \<noteq> 0 \<and> length v \<noteq> configured_dim
          then Inl (BadRequest (''embedding vector length '' @ show_nat (length v) @
            '' does not match server's configured dimension '' @ show_nat configured_dim))
          else Inr ()
      | None \<Rightarrow> Inr ())"

definition validate_project_slug :: "string \<Rightarrow> app_error + unit" where
  "validate_project_slug slug =
     (if slug = [] then Inl (BadRequest ''project_id must not be empty'')
      else if MAX_SLUG_LEN < length slug then
        Inl (BadRequest (''project_id exceeds maximum length of '' @ show_nat MAX_SLUG_LEN @ '' bytes (got '' @
          show_nat (length slug) @ '')''))
      else Inr ())"

definition require_project :: "string \<Rightarrow> project handler" where
  "require_project slug =
     st_bind (st_lift (validate_project_slug slug))
       (\<lambda>_. st_bind (db_call (get_project slug))
         (\<lambda>p. case p of Some q \<Rightarrow> st_ok q | None \<Rightarrow> st_err NotFound))"

definition require_embedder :: "app_state \<Rightarrow> string \<Rightarrow> app_error + (string \<Rightarrow> string + nat list list)" where
  "require_embedder A disabled_msg =
     (case es_backend (ap_embedder A) of
        Some backend \<Rightarrow> Inr backend
      | None \<Rightarrow>
          (case es_state (ap_embedder A) of
             Loading \<Rightarrow> Inl (EmbedderWarmingUp False
               (case es_detail (ap_embedder A) of Some d \<Rightarrow> d | None \<Rightarrow> ''embedder warming up, retry shortly''))
           | Unavailable \<Rightarrow> Inl (EmbedderWarmingUp True
               (case es_detail (ap_embedder A) of Some d \<Rightarrow> d | None \<Rightarrow> ''embedder failed to load''))
           | _ \<Rightarrow> Inl (BadRequest disabled_msg)))"

definition injection_patterns :: "string list" where
  "injection_patterns =
     [''ignore_instructions'', ''you_are_now'', ''new_persona'', ''disregard'', ''forget'', ''system_prefix'',
      ''role_override'', ''jailbreak_sudo'', ''developer_mode'', ''system_override'', ''reveal_prompt'',
      ''repeat_above'']"

fun first_injection :: "(string \<Rightarrow> string \<Rightarrow> bool) \<Rightarrow> string list \<Rightarrow> string \<Rightarrow> string \<Rightarrow> injection_match option" where
  "first_injection is_match [] title body = None"
| "first_injection is_match (p # ps) title body =
     (if is_match p title then Some \<lparr> im_field = ''title'', im_category = p \<rparr>
      else if is_match p body then Some \<lparr> im_field = ''body'', im_category = p \<rparr>
      else first_injection is_match ps title body)"

definition scan_for_injection :: "app_state \<Rightarrow> string \<Rightarrow> string \<Rightarrow> injection_match option" where
  "scan_for_injection A title body = first_injection (ap_is_match A) injection_patterns title body"

section \<open>Search in the vector table\<close>

definition search_notes_srv :: "app_state \<Rightarrow> int \<Rightarrow> nat list \<Rightarrow> nat \<Rightarrow> (server_note \<times> nat) list srv" where
  "search_notes_srv A project_id query_vec limit =
     st_get (\<lambda>d. sort_key snd (filter_map
        (\<lambda>(i, dist). map_option (\<lambda>r. (row_to_server_note r, dist))
           (find (\<lambda>r. vn_id r = i \<and> vn_project r = project_id \<and> vn_status r = active) (v_notes d)))
        (ap_nearest A (v_vecs d) query_vec (min limit 100))))"

definition search_notes_for_conflicts ::
    "app_state \<Rightarrow> int \<Rightarrow> nat list \<Rightarrow> nat \<Rightarrow> int \<Rightarrow> nat \<Rightarrow> (server_note \<times> nat) list srv" where
  "search_notes_for_conflicts A project_id query_vec max_distance exclude_id limit =
     st_get (\<lambda>d. take (min limit 50) (sort_key snd (filter_map
        (\<lambda>(i, dist). if dist \<le> max_distance \<and> i \<noteq> exclude_id
           then map_option (\<lambda>r. (row_to_server_note r, dist))
             (find (\<lambda>r. vn_id r = i \<and> vn_project r = project_id \<and> vn_status r = active) (v_notes d))
           else None)
        (ap_nearest A (v_vecs d) query_vec (min limit 50 + 1)))))"

section \<open>Memory entries\<close>

record add_note_request =
  aq_kind :: string
  aq_title :: string
  aq_body :: string
  aq_tags :: "string list"
  aq_linked_files :: "string list"
  aq_embedding :: "nat list option"

record add_note_response =
  ar_id :: int
  ar_conflicts :: "(int \<times> string) list"

text \<open>The server embeds an entry that comes without a vector, if its embedder is ready.\<close>

definition embedding_for :: "app_state \<Rightarrow> string \<Rightarrow> string \<Rightarrow> nat list option \<Rightarrow> nat list option" where
  "embedding_for A title body given =
     (case given of
        Some v \<Rightarrow> Some v
      | None \<Rightarrow>
          (case es_backend (ap_embedder A) of
             None \<Rightarrow> None
           | Some run_embed \<Rightarrow>
               (case run_embed (''title: '' @ title @ '' | text: '' @ body) of
                  Inl e \<Rightarrow> None
                | Inr vecs \<Rightarrow> if vecs = [] then None else Some (last vecs))))"

definition record_conflicts :: "app_state \<Rightarrow> int \<Rightarrow> int \<Rightarrow> nat list option \<Rightarrow> (int \<times> string) list handler" where
  "record_conflicts A project_id i embedding =
     (case (embedding, ap_conflict_distance A) of
        (Some v, Some max_distance) \<Rightarrow>
          st_bind (db_call (search_notes_for_conflicts A project_id v max_distance i 5))
            (\<lambda>nearby. st_bind
               (st_each (\<lambda>(n, _). st_bind (st_try (add_edge_srv i (sv_id n) ''contradicts'')) (\<lambda>_. st_ok ())) nearby)
               (\<lambda>_. st_ok (map (\<lambda>(n, _). (sv_id n, sv_title n)) nearby)))
      | _ \<Rightarrow> st_ok [])"

definition add_note_h :: "app_state \<Rightarrow> string \<Rightarrow> add_note_request \<Rightarrow> add_note_response reply handler" where
  "add_note_h A slug req =
     st_bind (st_lift (validate_project_slug slug)) (\<lambda>_.
     st_bind (st_lift (validate_title_body (aq_title req) (aq_body req))) (\<lambda>_.
     st_bind (st_get v_dim) (\<lambda>configured_dim.
     st_bind (st_lift (validate_embedding_dim (aq_embedding req) configured_dim)) (\<lambda>_.
     (case scan_for_injection A (aq_title req) (aq_body req) of
        Some m \<Rightarrow> st_ok (Refused None m)
      | None \<Rightarrow>
          (let embedding = embedding_for A (aq_title req) (aq_body req) (aq_embedding req);
               dim = (case embedding of Some v \<Rightarrow> length v | None \<Rightarrow> 0) in
           st_bind (st_get v_model) (\<lambda>model.
           st_bind (db_call (upsert_project slug dim model)) (\<lambda>project.
           st_bind (db_call (add_note_srv (vp_id project) (aq_kind req) (aq_title req) (aq_body req)
              (aq_tags req) (aq_linked_files req) embedding None)) (\<lambda>(i, _).
           st_bind (record_conflicts A (vp_id project) i embedding) (\<lambda>conflicts.
           st_ok (Reply (if conflicts = [] then 201 else 409) \<lparr> ar_id = i, ar_conflicts = conflicts \<rparr>)))))))))))"

definition list_notes_h :: "string \<Rightarrow> string option \<Rightarrow> nat \<Rightarrow> bool \<Rightarrow> server_note list handler" where
  "list_notes_h slug kind limit include_archived =
     st_bind (require_project slug) (\<lambda>p. db_call (list_notes_srv (vp_id p) kind limit include_archived))"

definition get_note_h :: "string \<Rightarrow> int \<Rightarrow> server_note handler" where
  "get_note_h slug note_id =
     st_bind (require_project slug) (\<lambda>p. st_bind (db_call (get_note_srv (vp_id p) note_id))
       (\<lambda>n. case n of Some note \<Rightarrow> st_ok note | None \<Rightarrow> st_err NotFound))"

definition search_notes_h :: "app_state \<Rightarrow> string \<Rightarrow> string \<Rightarrow> nat \<Rightarrow> (server_note \<times> nat) list handler" where
  "search_notes_h A slug question limit =
     st_bind (st_lift (require_embedder A
        ''This server has no embedder configured. Semantic memory search is unavailable.''))
     (\<lambda>run_embed. st_bind (if ap_admits A then st_ok () else st_err (EmbedderBusy (ap_retry_after A)))
     (\<lambda>_. case run_embed (''Instruct: Given a question, retrieve passages that answer the question'' @ [nl] @
              ''Query: '' @ question) of
        Inl e \<Rightarrow> st_err (Internal (OtherError e))
      | Inr [] \<Rightarrow> st_err (BadRequest ''Embedder returned no vectors'')
      | Inr (v # _) \<Rightarrow>
          st_bind (require_project slug) (\<lambda>p. db_call (search_notes_srv A (vp_id p) v limit))))"

definition delete_note_h :: "string \<Rightarrow> int \<Rightarrow> bool handler" where
  "delete_note_h slug note_id =
     st_bind (require_project slug) (\<lambda>p. db_call (delete_note_srv (vp_id p) note_id))"

definition archive_note_h :: "string \<Rightarrow> int \<Rightarrow> bool handler" where
  "archive_note_h slug note_id =
     st_bind (require_project slug) (\<lambda>p. db_call (archive_note_srv (vp_id p) note_id))"

definition supersede_note_h :: "string \<Rightarrow> int \<Rightarrow> int \<Rightarrow> bool handler" where
  "supersede_note_h slug note_id new_id =
     st_bind (require_project slug) (\<lambda>p. db_call (supersede_note_srv (vp_id p) note_id new_id))"

definition project_stats_h :: "string \<Rightarrow> project_stats handler" where
  "project_stats_h slug = st_bind (require_project slug) (\<lambda>p. db_call (stats_srv (vp_id p)))"

definition harvested_shas_h :: "string \<Rightarrow> string list handler" where
  "harvested_shas_h slug = st_bind (require_project slug) (\<lambda>p. db_call (harvested_shas_srv (vp_id p)))"

definition list_projects_h :: "project list handler" where
  "list_projects_h = db_call list_projects"

section \<open>Pull and stream\<close>

record since_query =
  sq_t :: "int option"
  sq_since_id :: "string option"
  sq_limit :: int

datatype since_reply = SinceEntries "remote_entry list" | SinceNotes "server_note list"

definition since_entry :: "app_state \<Rightarrow> since_id_row \<Rightarrow> remote_entry" where
  "since_entry A r =
     \<lparr> m_id = si_sync_id r, m_kind = si_kind r, m_title = si_title r,
       m_body = (if si_body r = [] then None else Some (si_body r)),
       m_source_commit = si_source_commit r, m_archived_at = None,
       m_created_at = ap_rfc3339 A (si_created_at r) \<rparr>"

definition memory_since :: "app_state \<Rightarrow> string \<Rightarrow> since_query \<Rightarrow> since_reply handler" where
  "memory_since A slug params =
     st_bind (require_project slug)
       (\<lambda>p. case sq_since_id params of
          Some cursor \<Rightarrow>
            st_bind (db_call (notes_since_id (vp_id p) cursor (sq_limit params)))
              (\<lambda>rows. st_ok (SinceEntries (map (since_entry A) rows)))
        | None \<Rightarrow>
            (case sq_t params of
               None \<Rightarrow> st_err (BadRequest ''missing `t` or `since_id` query parameter'')
             | Some t \<Rightarrow>
                 st_bind (db_call (notes_since (vp_id p) t (sq_limit params))) (\<lambda>ns. st_ok (SinceNotes ns))))"

text \<open>One turn of the loop of \<open>memory_stream\<close>, and the events of the turns on a sequence of states.\<close>

definition stream_turn :: "string \<Rightarrow> int \<Rightarrow> server_db \<Rightarrow> server_note list \<times> int" where
  "stream_turn slug last_seen d =
     (case find_project slug d of
        None \<Rightarrow> ([], last_seen)
      | Some p \<Rightarrow>
          (let notes = (case fst (notes_since (vp_id p) last_seen 50 d) of Inr ns \<Rightarrow> ns | Inl _ \<Rightarrow> []) in
           (notes, fold (\<lambda>n seen. if seen < sv_created_at n then sv_created_at n else seen) notes last_seen)))"

fun stream_events :: "string \<Rightarrow> int \<Rightarrow> server_db list \<Rightarrow> server_note list" where
  "stream_events slug last_seen [] = []"
| "stream_events slug last_seen (d # ds) =
     fst (stream_turn slug last_seen d) @ stream_events slug (snd (stream_turn slug last_seen d)) ds"

definition memory_stream :: "string \<Rightarrow> int option \<Rightarrow> int \<Rightarrow> (server_db list \<Rightarrow> server_note list) handler" where
  "memory_stream slug t now =
     st_bind (require_project slug)
       (\<lambda>_. st_ok (stream_events slug (case t of Some secs \<Rightarrow> secs | None \<Rightarrow> now)))"

section \<open>Batch push\<close>

record batch_note_item =
  bn_kind :: string
  bn_title :: string
  bn_body :: "string option"
  bn_external_id :: string
  bn_source_commit :: "string option"
  bn_embedding :: "nat list option"

definition body_text :: "batch_note_item \<Rightarrow> string" where
  "body_text e = (case bn_body e of Some b \<Rightarrow> b | None \<Rightarrow> [])"

definition prefix_batch_error :: "nat \<Rightarrow> app_error \<Rightarrow> app_error" where
  "prefix_batch_error i err =
     (case err of BadRequest msg \<Rightarrow> BadRequest (''entry '' @ show_nat i @ '': '' @ msg) | other \<Rightarrow> other)"

text \<open>The checks of all entries before anything is stored.\<close>

fun validate_batch ::
    "app_state \<Rightarrow> nat \<Rightarrow> nat \<Rightarrow> batch_note_item list \<Rightarrow> app_error + (nat \<times> injection_match) option" where
  "validate_batch A dim i [] = Inr None"
| "validate_batch A dim i (e # es) =
     (case validate_title_body (bn_title e) (body_text e) of
        Inl err \<Rightarrow> Inl (prefix_batch_error i err)
      | Inr _ \<Rightarrow>
          (case validate_embedding_dim (bn_embedding e) dim of
             Inl err \<Rightarrow> Inl (prefix_batch_error i err)
           | Inr _ \<Rightarrow>
               if bn_external_id e = []
               then Inl (BadRequest (''entry '' @ show_nat i @ '': external_id must not be empty''))
               else (case scan_for_injection A (bn_title e) (body_text e) of
                       Some m \<Rightarrow> Inr (Some (i, m))
                     | None \<Rightarrow> validate_batch A dim (i + 1) es)))"

definition item_result :: "string \<Rightarrow> string \<Rightarrow> string \<Rightarrow> batch_item_result" where
  "item_result status external_id sync_id =
     \<lparr> i_status = status, i_external_id = Some external_id, i_id = Some sync_id \<rparr>"

definition commit_tags :: "string option \<Rightarrow> string list" where
  "commit_tags source_commit = (case source_commit of Some sha \<Rightarrow> [''git:'' @ sha] | None \<Rightarrow> [])"

fun store_entries ::
    "app_state \<Rightarrow> int \<Rightarrow> (string \<rightharpoonup> string) \<Rightarrow> batch_note_item list \<Rightarrow> batch_item_result list handler" where
  "store_entries A project_id existing [] = st_ok []"
| "store_entries A project_id existing (e # es) =
     (case existing (bn_external_id e) of
        Some sync_id \<Rightarrow>
          st_bind (store_entries A project_id existing es)
            (\<lambda>rs. st_ok (item_result skipped (bn_external_id e) sync_id # rs))
      | None \<Rightarrow>
          st_bind (db_call (add_note_srv project_id (bn_kind e) (bn_title e) (body_text e)
              (commit_tags (bn_source_commit e)) []
              (embedding_for A (bn_title e) (body_text e) (bn_embedding e)) (Some (bn_external_id e))))
            (\<lambda>(_, sync_id). st_bind (store_entries A project_id (existing(bn_external_id e \<mapsto> sync_id)) es)
               (\<lambda>rs. st_ok (item_result created (bn_external_id e) sync_id # rs))))"

definition push_memory_batch ::
    "app_state \<Rightarrow> string \<Rightarrow> batch_note_item list \<Rightarrow> batch_push_result reply handler" where
  "push_memory_batch A slug entries =
     st_bind (st_lift (validate_project_slug slug)) (\<lambda>_.
     st_bind (if MAX_BATCH_ENTRIES < length entries then
                st_err (BadRequest (''batch_too_large: maximum '' @ show_nat MAX_BATCH_ENTRIES @
                  '' entries per request (got '' @ show_nat (length entries) @ '')''))
              else st_ok ()) (\<lambda>_.
     st_bind (st_get v_dim) (\<lambda>configured_dim.
     st_bind (st_lift (validate_batch A configured_dim 0 entries)) (\<lambda>verdict.
     (case verdict of
        Some (i, m) \<Rightarrow> st_ok (Refused (Some i) m)
      | None \<Rightarrow>
          st_bind (st_get v_model) (\<lambda>model.
          st_bind (db_call (upsert_project slug configured_dim model)) (\<lambda>project.
          st_bind (db_call (find_by_remote_ids (vp_id project) (map bn_external_id entries))) (\<lambda>existing.
          st_bind (store_entries A (vp_id project) existing entries) (\<lambda>results.
          st_ok (Reply 207
            \<lparr> br_created = length (filter (\<lambda>r. i_status r = created) results),
              br_skipped = length (filter (\<lambda>r. i_status r = skipped) results),
              br_failed = 0, br_results = results \<rparr>))))))))))"

end
