(* ===== verification/ServerSpec.thy ===== *)
theory ServerSpec
  imports ServerInv ServerHandlers
begin

text \<open>
  What holds of the team server over any sequence of requests: the invariant of the database, the
  isolation of the projects, and the order in which entries arrive.
\<close>

section \<open>Requests\<close>

datatype server_request =
    AddNote string add_note_request
  | PushBatch string "batch_note_item list"
  | ArchiveNote string int
  | SupersedeNote string int int
  | DeleteNote string int

fun serve :: "app_state \<Rightarrow> server_request \<Rightarrow> server_db \<Rightarrow> server_db" where
  "serve A (AddNote slug req) d = snd (add_note_h A slug req d)"
| "serve A (PushBatch slug entries) d = snd (push_memory_batch A slug entries d)"
| "serve A (ArchiveNote slug i) d = snd (archive_note_h slug i d)"
| "serve A (SupersedeNote slug i j) d = snd (supersede_note_h slug i j d)"
| "serve A (DeleteNote slug i) d = snd (delete_note_h slug i d)"

fun request_project :: "server_request \<Rightarrow> string" where
  "request_project (AddNote slug req) = slug"
| "request_project (PushBatch slug entries) = slug"
| "request_project (ArchiveNote slug i) = slug"
| "request_project (SupersedeNote slug i j) = slug"
| "request_project (DeleteNote slug i) = slug"

definition serve_all :: "app_state \<Rightarrow> server_request list \<Rightarrow> server_db \<Rightarrow> server_db" where
  "serve_all A reqs d = fold (serve A) reqs d"

section \<open>The invariant\<close>

lemma keeps_upsert: "keeps_server (upsert_project slug dim model)"
  unfolding upsert_project_def get_project_def
  by (intro kept_inv.composes allI)
     (auto split: option.split intro!: kept_inv.composes keeps_update_projects keeps_insert_project)

lemma new_row_sel [simp]:
  "vn_id (new_row pid kind title body tags files remote_id sync_id i now) = i"
  "vn_project (new_row pid kind title body tags files remote_id sync_id i now) = pid"
  "vn_kind (new_row pid kind title body tags files remote_id sync_id i now) = kind"
  "vn_title (new_row pid kind title body tags files remote_id sync_id i now) = title"
  "vn_body (new_row pid kind title body tags files remote_id sync_id i now) = body"
  "vn_tags (new_row pid kind title body tags files remote_id sync_id i now) = join_csv tags"
  "vn_linked_files (new_row pid kind title body tags files remote_id sync_id i now) = join_csv files"
  "vn_created_at (new_row pid kind title body tags files remote_id sync_id i now) = now"
  "vn_status (new_row pid kind title body tags files remote_id sync_id i now) = active"
  "vn_superseded_by (new_row pid kind title body tags files remote_id sync_id i now) = None"
  "vn_remote_id (new_row pid kind title body tags files remote_id sync_id i now) = remote_id"
  "vn_sync_id (new_row pid kind title body tags files remote_id sync_id i now) = Some sync_id"
  by (simp_all add: new_row_def)

text \<open>The state in which \<open>add_note\<close> inserts, and the run of the insert and the vector.\<close>

definition ticked :: "server_db \<Rightarrow> server_db" where
  "ticked d = d\<lparr> v_tick := v_tick d + 1 \<rparr>"

definition next_id :: "server_db \<Rightarrow> string" where
  "next_id d = v_mint d (v_tick d)"

lemma mint_run [st_run]: "mint_id d = (Inr (next_id d), ticked d)"
  by (simp add: mint_id_def ticked_def next_id_def)

lemma ticked_inv: "server_inv d \<Longrightarrow> server_inv (ticked d)"
  using withinD [OF keeps_mint mint_run] by (simp add: keeping_def)

lemma minted_ticked: "minted (ticked d) (next_id d)"
  by (auto simp: minted_def ticked_def next_id_def)

lemma keeps_add_note_srv: "keeps_server (add_note_srv pid kind title body tags files embedding remote_id)"
proof (rule keeps_serverI)
  fix d assume d: "server_inv d"
  let ?mk = "new_row pid kind title body tags files remote_id (next_id d)"
  obtain r t where ins: "insert_server_note ?mk (ticked d) = (r, t)" by fastforce
  have "server_inv (snd (insert_server_note ?mk (ticked d)))"
    using minted_ticked [of d] by (intro server_inv_insert_note [OF ticked_inv [OF d]]) auto
  with ins have t: "server_inv t" by simp
  show "server_inv (snd (add_note_srv pid kind title body tags files embedding remote_id d))"
  proof (cases r)
    case Inl
    with ins t show ?thesis by (simp add: add_note_srv_def st_run)
  next
    case (Inr i)
    with ins have "i \<le> v_note_seq t" by (auto simp: insert_server_note_def Let_def split: if_splits)
    show ?thesis
    proof (cases embedding)
      case None
      with ins Inr t show ?thesis by (simp add: add_note_srv_def st_run)
    next
      case (Some v)
      obtain q u where vec: "insert_note_vec i v t = (q, u)" by fastforce
      with insert_note_vec_inv [OF t \<open>i \<le> v_note_seq t\<close>, of v] have "server_inv u" by simp
      with ins Inr Some vec show ?thesis by (cases q) (simp_all add: add_note_srv_def st_run)
    qed
  qed
qed

lemma keeps_store_entries: "within (keeping server_inv) (store_entries A pid existing es)"
  by (induction es arbitrary: existing)
     (auto simp: db_call_def split: option.split prod.split intro!: kept_inv.composes keeps_add_note_srv)

lemma keeps_edges: "within (keeping server_inv) (record_conflicts A pid i embedding)"
  unfolding record_conflicts_def db_call_def search_notes_for_conflicts_def add_edge_srv_def
  by (auto split: option.split prod.split intro!: kept_inv.composes srv_keeps_insert_edge)

lemma keeps_require: "within (keeping server_inv) (require_project slug)"
  unfolding require_project_def db_call_def get_project_def
  by (auto split: option.split intro!: kept_inv.composes)

lemma keeps_add_note_h: "within (keeping server_inv) (add_note_h A slug req)"
  unfolding add_note_h_def db_call_def Let_def
  by (auto split: option.split prod.split
      intro!: kept_inv.composes keeps_upsert keeps_add_note_srv keeps_edges)

lemma keeps_push: "within (keeping server_inv) (push_memory_batch A slug entries)"
  unfolding push_memory_batch_def db_call_def find_by_remote_ids_def
  by (auto split: option.split prod.split intro!: kept_inv.composes keeps_upsert keeps_store_entries)

lemma plain_archive: "plain_update (\<lambda>r. r\<lparr> vn_status := x \<rparr>)"
  by (simp add: plain_update_def)

lemma srv_keeps_archive: "within (keeping server_inv) (archive_note_h slug i)"
  unfolding archive_note_h_def db_call_def archive_note_srv_def
  by (auto intro!: kept_inv.composes keeps_require srv_keeps_update_notes plain_archive)

lemma srv_keeps_supersede: "within (keeping server_inv) (supersede_note_h slug i j)"
  unfolding supersede_note_h_def db_call_def supersede_note_srv_def
  by (auto intro!: kept_inv.composes keeps_require keeps_link_notes plain_archive)

lemma keeps_delete: "within (keeping server_inv) (delete_note_h slug i)"
  unfolding delete_note_h_def db_call_def delete_note_srv_def
  by (auto intro!: kept_inv.composes keeps_require keeps_delete_vec srv_keeps_delete_note)

lemma serve_inv: "server_inv d \<Longrightarrow> server_inv (serve A req d)"
  using keeps_add_note_h keeps_push srv_keeps_archive srv_keeps_supersede keeps_delete
  by (cases req) (simp_all add: within_def keeping_def)


section \<open>Isolation of the projects\<close>

definition rows_of :: "int \<Rightarrow> server_db \<Rightarrow> server_row list" where
  "rows_of pid d = filter (\<lambda>r. vn_project r = pid) (v_notes d)"

text \<open>The rows of the project \<open>p\<close> are \<open>R\<close>, and it is as registered.\<close>

definition apart :: "project \<Rightarrow> server_row list \<Rightarrow> server_db \<Rightarrow> bool" where
  "apart p R d \<longleftrightarrow> server_inv d \<and> p \<in> set (v_projects d) \<and> rows_of (vp_id p) d = R"

lemma apartI:
  assumes "keeps_server m"
    and "\<And>d. server_inv d \<Longrightarrow> p \<in> set (v_projects d) \<Longrightarrow> p \<in> set (v_projects (snd (m d)))"
    and "\<And>d. server_inv d \<Longrightarrow> p \<in> set (v_projects d) \<Longrightarrow> rows_of (vp_id p) (snd (m d)) = rows_of (vp_id p) d"
  shows "within (keeping (apart p R)) m"
  using assms by (auto simp: within_def keeping_def apart_def)

lemma rows_of_update:
  assumes "\<And>r. P r \<Longrightarrow> vn_project r \<noteq> pid \<and> vn_project (f r) \<noteq> pid"
  shows "rows_of pid (snd (update_server_notes P f d)) = rows_of pid d"
proof -
  have "filter (\<lambda>r. vn_project r = pid) (map (\<lambda>r. if P r then f r else r) rs) = filter (\<lambda>r. vn_project r = pid) rs" for rs
    using assms by (induction rs) auto
  then show ?thesis by (simp add: rows_of_def update_server_notes_def)
qed

lemma update_projects_same [simp]: "v_projects (snd (update_server_notes P f d)) = v_projects d"
  by (simp add: update_server_notes_def)

lemma apart_update:
  assumes "keeps_server (update_server_notes P f)" "\<And>r. P r \<Longrightarrow> vn_project r \<noteq> vp_id p \<and> vn_project (f r) \<noteq> vp_id p"
  shows "within (keeping (apart p R)) (update_server_notes P f)"
  using assms by (intro apartI) (simp_all add: rows_of_update)

lemma apart_link:
  assumes "plain_update f" "\<And>r. P r \<Longrightarrow> vn_project r \<noteq> vp_id p"
  shows "within (keeping (apart p R)) (link_server_notes P f j)"
proof (intro apartI keeps_link_notes [OF assms(1)])
  fix d
  let ?g = "\<lambda>r. (f r)\<lparr> vn_superseded_by := Some j \<rparr>"
  have "vn_project r \<noteq> vp_id p \<and> vn_project (?g r) \<noteq> vp_id p" if "P r" for r
    using assms(1) assms(2) [OF that] by (simp add: plain_update_def)
  from rows_of_update [of P "vp_id p" ?g, OF this]
  show "rows_of (vp_id p) (snd (link_server_notes P f j d)) = rows_of (vp_id p) d"
    by (simp add: link_server_notes_def)
  show "p \<in> set (v_projects d) \<Longrightarrow> p \<in> set (v_projects (snd (link_server_notes P f j d)))"
    by (simp add: link_server_notes_def)
qed

lemma apart_delete:
  assumes "\<And>r. P r \<Longrightarrow> vn_project r \<noteq> vp_id p"
  shows "within (keeping (apart p R)) (delete_server_note P)"
proof (intro apartI srv_keeps_delete_note)
  fix d
  have "filter (\<lambda>r. vn_project r = vp_id p) (filter (\<lambda>r. \<not> P r) rs) = filter (\<lambda>r. vn_project r = vp_id p) rs" for rs
    using assms by (induction rs) auto
  then show "rows_of (vp_id p) (snd (delete_server_note P d)) = rows_of (vp_id p) d"
    by (auto simp: rows_of_def delete_server_note_def Let_def)
  show "p \<in> set (v_projects d) \<Longrightarrow> p \<in> set (v_projects (snd (delete_server_note P d)))"
    by (auto simp: delete_server_note_def Let_def)
qed

lemma apart_plain:
  assumes "keeps_server m" "\<And>d. v_notes (snd (m d)) = v_notes d" "\<And>d. v_projects (snd (m d)) = v_projects d"
  shows "within (keeping (apart p R)) m"
  using assms by (intro apartI) (simp_all add: rows_of_def)

lemma apart_add_note:
  assumes "pid \<noteq> vp_id p"
  shows "within (keeping (apart p R)) (add_note_srv pid kind title body tags files embedding remote_id)"
proof (intro apartI keeps_add_note_srv)
  fix d
  let ?m = "add_note_srv pid kind title body tags files embedding remote_id"
  have "rows_of (vp_id p) (snd (?m d)) = rows_of (vp_id p) d \<and> v_projects (snd (?m d)) = v_projects d"
    using assms
    by (auto simp: add_note_srv_def st_run st_bind_def insert_server_note_def insert_note_vec_def Let_def rows_of_def
        ticked_def split: option.split)
  then show "rows_of (vp_id p) (snd (?m d)) = rows_of (vp_id p) d"
    and "p \<in> set (v_projects d) \<Longrightarrow> p \<in> set (v_projects (snd (?m d)))" by simp_all
qed

lemma find_project_in: "find_project slug d = Some q \<Longrightarrow> q \<in> set (v_projects d) \<and> vp_slug q = slug"
  unfolding find_project_def by (rule find_SomeE)

text \<open>A project found or made for another slug has another id.\<close>

lemma other_project:
  assumes "server_inv d" "p \<in> set (v_projects d)" "q \<in> set (v_projects d)" "vp_slug p \<noteq> vp_slug q"
  shows "vp_id q \<noteq> vp_id p"
  using assms server_invD(2) [OF assms(1)] distinct_map_eq [of vp_id "v_projects d" p q] by (auto simp: projects_ok_def)

lemma apart_require: "within (keeping (apart p R)) (require_project slug)"
  unfolding require_project_def db_call_def get_project_def
  by (auto split: option.split intro!: kept_inv.composes)

lemma require_value:
  assumes "require_project slug d = (Inr q, e)"
  shows "e = d \<and> find_project slug d = Some q"
  using assms
  by (auto simp: require_project_def db_call_def get_project_def st_runs st_map_err_def st_bind_iff
      split: option.splits)

lemma apart_after_require:
  assumes "slug \<noteq> vp_slug p" and "\<And>q. vp_id q \<noteq> vp_id p \<Longrightarrow> within (keeping (apart p R)) (f q)"
  shows "within (keeping (apart p R)) (st_bind (require_project slug) f)"
proof (rule kept_bind [OF apart_require])
  fix s x t assume s: "apart p R s" and run: "require_project slug s = (Inr x, t)"
  from require_value [OF run] find_project_in [of slug s x] have "x \<in> set (v_projects s)" "vp_slug x = slug" by auto
  with s assms(1) have "vp_id x \<noteq> vp_id p" using other_project [of s p x] by (auto simp: apart_def)
  then show "within (keeping (apart p R)) (f x)" by (rule assms(2))
qed

text \<open>Finding or making the project of a write.\<close>

definition projects_changed :: "server_db \<Rightarrow> server_db \<Rightarrow> bool" where
  "projects_changed d e \<longleftrightarrow> (\<exists>ps n. e = d\<lparr> v_projects := ps, v_project_seq := n \<rparr>)"

lemma projects_changed_same:
  assumes "projects_changed d e"
  shows "v_notes e = v_notes d" "v_vecs e = v_vecs d" "v_edges e = v_edges d" "v_tick e = v_tick d"
    "v_mint e = v_mint d" "v_note_seq e = v_note_seq d" "v_dim e = v_dim d" "v_model e = v_model d"
    "v_vec_dim e = v_vec_dim d" "v_time e = v_time d"
  using assms by (auto simp: projects_changed_def)

lemma projects_changed_refl: "projects_changed d d"
  unfolding projects_changed_def by (rule exI [of _ "v_projects d"], rule exI [of _ "v_project_seq d"]) simp

lemma projects_changed_update: "projects_changed d (snd (update_projects P f d))"
  unfolding projects_changed_def update_projects_def
  by (rule exI [of _ "map (\<lambda>q. if P q then f q else q) (v_projects d)"], rule exI [of _ "v_project_seq d"]) simp

lemma projects_changed_trans: "projects_changed d e \<Longrightarrow> projects_changed e f \<Longrightarrow> projects_changed d f"
  unfolding projects_changed_def by (elim exE) (rule exI, rule exI, simp)

lemma find_project_update:
  assumes "\<And>q. vp_slug (f q) = vp_slug q"
  shows "find_project slug (snd (update_projects P f d)) =
    map_option (\<lambda>q. if P q then f q else q) (find_project slug d)"
  using find_map_same [of "v_projects d" "\<lambda>q. vp_slug q = slug" "\<lambda>q. if P q then f q else q"] assms
  by (simp add: find_project_def update_projects_def)

lemma update_projects_run: "st_bind (update_projects P f) g d = g () (snd (update_projects P f d))"
  by (simp add: update_projects_def st_bind_def)

lemma upsert_existing:
  assumes "find_project slug d = Some p"
  shows "upsert_project slug dim model d =
    (if vp_dim p \<noteq> 0 \<and> vp_dim p \<noteq> dim then (Inl (DimensionMismatch slug (vp_dim p) dim), d)
     else if vp_model p \<noteq> None \<and> vp_model p \<noteq> Some model
     then (Inl (ModelMismatch slug (the (vp_model p)) model), d)
     else (Inr (p\<lparr> vp_dim := dim, vp_model := Some model \<rparr>),
       (let e = (if vp_dim p = 0
              then snd (update_projects (\<lambda>q. vp_id q = vp_id p) (\<lambda>q. q\<lparr> vp_dim := dim \<rparr>) d) else d) in
        if vp_model p = None
        then snd (update_projects (\<lambda>q. vp_id q = vp_id p) (\<lambda>q. q\<lparr> vp_model := Some model \<rparr>) e) else e)))"
proof -
  have got: "get_project slug d = (Inr (Some p), d)" using assms by (simp add: get_project_def st_run)
  show ?thesis
    unfolding upsert_project_def st_bind_ok [of "get_project slug", OF got]
    by (cases "vp_dim p = 0"; cases "vp_dim p = dim"; cases "vp_model p")
       (auto simp: st_run update_projects_run Let_def)
qed

lemma upsert_new:
  assumes "find_project slug d = None"
  shows "upsert_project slug dim model d =
    (Inr \<lparr> vp_id = v_project_seq d + 1, vp_slug = slug, vp_dim = dim, vp_model = Some model,
           vp_created_at = now_unix d \<rparr>,
     d\<lparr> v_projects := v_projects d @ [\<lparr> vp_id = v_project_seq d + 1, vp_slug = slug, vp_dim = dim,
          vp_model = Some model, vp_created_at = now_unix d \<rparr>],
        v_project_seq := v_project_seq d + 1 \<rparr>)"
proof -
  from assms have "slug \<notin> vp_slug ` set (v_projects d)" by (auto simp: find_project_def find_None_iff)
  with assms show ?thesis
    by (simp add: upsert_project_def get_project_def st_run st_bind_def insert_project_def now_unix_def)
qed

lemma upsert_found:
  assumes "upsert_project slug dim model d = (Inr q, e)"
  shows "find_project slug e = Some q" "vp_dim q = dim" "vp_model q = Some model" "projects_changed d e"
proof -
  have "find_project slug e = Some q \<and> vp_dim q = dim \<and> vp_model q = Some model \<and> projects_changed d e"
  proof (cases "find_project slug d")
    case None
    have "find (\<lambda>p. vp_slug p = slug) (v_projects d) = None" using None by (simp add: find_project_def)
    then show ?thesis
      using assms unfolding upsert_new [OF None] by (auto simp: find_project_def find_append projects_changed_def)
  next
    case (Some p)
    let ?d1 = "if vp_dim p = 0
      then snd (update_projects (\<lambda>q. vp_id q = vp_id p) (\<lambda>q. q\<lparr> vp_dim := dim \<rparr>) d) else d"
    let ?d2 = "if vp_model p = None
      then snd (update_projects (\<lambda>q. vp_id q = vp_id p) (\<lambda>q. q\<lparr> vp_model := Some model \<rparr>) ?d1) else ?d1"
    have e: "e = ?d2" and q: "q = p\<lparr> vp_dim := dim, vp_model := Some model \<rparr>"
      and ok: "vp_dim p = 0 \<or> vp_dim p = dim" "vp_model p = None \<or> vp_model p = Some model"
      using assms by (auto simp: upsert_existing [OF Some] Let_def split: if_splits)
    have 1: "projects_changed d ?d1"
      using projects_changed_refl projects_changed_update by simp
    have "projects_changed ?d1 ?d2"
      using projects_changed_refl projects_changed_update by simp
    with 1 have "projects_changed d e" unfolding e by (rule projects_changed_trans)
    moreover have "find_project slug ?d1 = Some (p\<lparr> vp_dim := dim \<rparr>)"
      using Some ok by (auto simp: find_project_update)
    then have "find_project slug ?d2 = Some q"
      using ok by (auto simp: find_project_update q)
    ultimately show ?thesis by (simp add: e q)
  qed
  then show "find_project slug e = Some q" "vp_dim q = dim" "vp_model q = Some model" "projects_changed d e"
    by simp_all
qed

lemma in_updated: "p \<in> set (v_projects d) \<Longrightarrow> \<not> P p \<Longrightarrow> p \<in> set (v_projects (snd (update_projects P f d)))"
  by (force simp: update_projects_def)

lemma updated_notes: "v_notes (snd (update_projects P f d)) = v_notes d"
  by (simp add: update_projects_def)

lemma apart_upsert:
  assumes "slug \<noteq> vp_slug p"
  shows "within (keeping (apart p R)) (upsert_project slug dim model)"
proof (intro apartI keeps_upsert)
  fix d assume inv: "server_inv d" and p: "p \<in> set (v_projects d)"
  show "rows_of (vp_id p) (snd (upsert_project slug dim model d)) = rows_of (vp_id p) d"
    by (cases "find_project slug d")
       (simp_all add: upsert_new upsert_existing Let_def rows_of_def updated_notes)
  show "p \<in> set (v_projects (snd (upsert_project slug dim model d)))"
  proof (cases "find_project slug d")
    case None
    with p show ?thesis by (simp add: upsert_new)
  next
    case (Some q)
    with find_project_in [OF Some] assms have "vp_id p \<noteq> vp_id q" using other_project [OF inv p] by metis
    with p show ?thesis by (simp add: upsert_existing [OF Some] Let_def in_updated)
  qed
qed

lemma upsert_apart_id:
  assumes "apart p R d" and "slug \<noteq> vp_slug p" and run: "upsert_project slug dim model d = (Inr q, e)"
  shows "vp_id q \<noteq> vp_id p"
proof -
  have e: "apart p R e" using withinD [OF apart_upsert [OF assms(2), of R dim model] run] assms(1) by (simp add: keeping_def)
  from find_project_in [OF upsert_found(1) [OF run]] e assms(2) show ?thesis
    using other_project [of e p q] by (auto simp: apart_def)
qed

lemma apart_store_entries:
  assumes "pid \<noteq> vp_id p"
  shows "within (keeping (apart p R)) (store_entries A pid existing es)"
  using assms
  by (induction es arbitrary: existing)
     (auto simp: db_call_def split: option.split prod.split intro!: kept_inv.composes apart_add_note)

lemma apart_edge: "within (keeping (apart p R)) (insert_note_edge from to kind)"
  by (rule apart_plain [OF srv_keeps_insert_edge]) (simp_all add: insert_note_edge_def)

lemma apart_vec: "within (keeping (apart p R)) (delete_note_vec i)"
  by (rule apart_plain [OF keeps_delete_vec]) (simp_all add: delete_note_vec_def)

lemma apart_conflicts: "within (keeping (apart p R)) (record_conflicts A pid i embedding)"
  unfolding record_conflicts_def db_call_def search_notes_for_conflicts_def add_edge_srv_def
  by (auto split: option.split prod.split intro!: kept_inv.composes apart_edge)

lemmas apart_intros = kept_inv.composes apart_update apart_link apart_delete apart_vec srv_keeps_update_notes
  plain_archive

lemma apart_archive: "slug \<noteq> vp_slug p \<Longrightarrow> within (keeping (apart p R)) (archive_note_h slug i)"
  unfolding archive_note_h_def db_call_def archive_note_srv_def
  by (rule apart_after_require) (auto intro!: apart_intros)

lemma apart_supersede: "slug \<noteq> vp_slug p \<Longrightarrow> within (keeping (apart p R)) (supersede_note_h slug i j)"
  unfolding supersede_note_h_def db_call_def supersede_note_srv_def
  by (rule apart_after_require) (auto intro!: apart_intros)

lemma apart_delete_h: "slug \<noteq> vp_slug p \<Longrightarrow> within (keeping (apart p R)) (delete_note_h slug i)"
  unfolding delete_note_h_def db_call_def delete_note_srv_def
  by (rule apart_after_require) (auto intro!: apart_intros)

lemma apart_after_upsert:
  assumes "slug \<noteq> vp_slug p" and "\<And>q. vp_id q \<noteq> vp_id p \<Longrightarrow> within (keeping (apart p R)) (f q)"
  shows "within (keeping (apart p R)) (st_bind (db_call (upsert_project slug dim model)) f)"
  unfolding db_call_def
proof (rule kept_bind [OF kept_inv.maps_err [OF apart_upsert [OF assms(1)]]])
  fix s x t assume s: "apart p R s" and "st_map_err Internal (upsert_project slug dim model) s = (Inr x, t)"
  then have "upsert_project slug dim model s = (Inr x, t)" by (simp add: st_map_err_Inr)
  from upsert_apart_id [OF s assms(1) this] show "within (keeping (apart p R)) (f x)" by (rule assms(2))
qed

lemma apart_push: "slug \<noteq> vp_slug p \<Longrightarrow> within (keeping (apart p R)) (push_memory_batch A slug entries)"
  unfolding push_memory_batch_def find_by_remote_ids_def
  by (auto simp: db_call_def [of "st_get _"] split: option.split intro!: kept_inv.composes apart_after_upsert apart_store_entries)

lemma apart_add_note_h: "slug \<noteq> vp_slug p \<Longrightarrow> within (keeping (apart p R)) (add_note_h A slug req)"
  unfolding add_note_h_def Let_def
  by (auto simp: db_call_def [of "add_note_srv _ _ _ _ _ _ _ _"] split: option.split
      intro!: kept_inv.composes apart_after_upsert apart_add_note apart_conflicts)

lemma serve_apart: "request_project req \<noteq> vp_slug p \<Longrightarrow> apart p R d \<Longrightarrow> apart p R (serve A req d)"
  using apart_archive apart_supersede apart_delete_h apart_push apart_add_note_h
  by (cases req) (simp_all add: within_def keeping_def)

lemma serve_all_apart:
  assumes "vp_slug p \<notin> request_project ` set reqs" and "apart p R d"
  shows "apart p R (serve_all A reqs d)"
  using assms unfolding serve_all_def
  by (induction reqs arbitrary: d) (auto simp: serve_apart)

text \<open>C11: requests to other projects leave the entries of a project as they are, and its registration.\<close>
theorem projects_are_isolated:
  assumes "server_inv d" and "find_project slug d = Some p" and "slug \<notin> request_project ` set reqs"
  shows "find_project slug (serve_all A reqs d) = Some p \<and>
    rows_of (vp_id p) (serve_all A reqs d) = rows_of (vp_id p) d"
proof -
  from find_project_in [OF assms(2)] assms(1) have "apart p (rows_of (vp_id p) d) d" "vp_slug p = slug"
    by (simp_all add: apart_def)
  with serve_all_apart [of p reqs _ d A] assms(3)
  have e: "apart p (rows_of (vp_id p) d) (serve_all A reqs d)" by simp
  then have "find_project slug (serve_all A reqs d) = Some p"
    unfolding find_project_def apart_def server_inv_def projects_ok_def
    using \<open>vp_slug p = slug\<close> by (intro find_unique) (auto dest: distinct_map_eq [where f = vp_slug])
  with e show ?thesis by (simp add: apart_def)
qed

end
