(* ===== verification/ServerBatch.thy ===== *)
theory ServerBatch
  imports ServerSpec
begin

text \<open>
  The batch push of the team server: what an acknowledgement promises, that a push repeated changes
  nothing and hands out the same ids, and the writes that the server turns away.
\<close>

section \<open>Inserting one entry\<close>

lemma row_unique:
  assumes "server_inv d" "r \<in> set (v_notes d)" "q \<in> set (v_notes d)" "vn_id r = vn_id q"
  shows "r = q"
  using assms strict_sorted_iff [of "map vn_id (v_notes d)"] distinct_map_eq [of vn_id "v_notes d" r q]
  by (auto simp: server_inv_def rows_ok_def)

lemma add_note_srv_stored:
  assumes "add_note_srv pid kind title body tags files embedding remote_id d = (r, t)"
  shows "(\<exists>news. v_notes t = v_notes d @ news) \<and>
    (\<forall>i sid. r = Inr (i, sid) \<longrightarrow> sid = next_id d \<and> i = v_note_seq d + 1 \<and>
       v_notes t = v_notes d @
         [new_row pid kind title body tags files remote_id sid i (now_unix (ticked d))])"
  using assms
  by (auto simp: add_note_srv_def mint_run st_bind_def insert_server_note_def insert_note_vec_def Let_def st_runs
      ticked_def split: if_splits option.splits prod.splits sum.splits)

lemma add_note_srv_env:
  assumes "add_note_srv pid kind title body tags files embedding remote_id d = (r, t)"
  shows "v_projects t = v_projects d" "v_dim t = v_dim d" "v_model t = v_model d"
  using assms
  by (auto simp: add_note_srv_def mint_run st_bind_def insert_server_note_def insert_note_vec_def Let_def st_runs
      ticked_def split: if_splits option.splits prod.splits sum.splits)

section \<open>What a push finds\<close>

definition live :: "server_db \<Rightarrow> int \<Rightarrow> string \<Rightarrow> string \<Rightarrow> bool" where
  "live d pid x sid \<longleftrightarrow> (\<exists>r \<in> set (v_notes d). vn_project r = pid \<and> vn_status r = active \<and>
     vn_remote_id r = Some x \<and> vn_sync_id r = Some sid)"

lemma live_unique:
  assumes "server_inv d" "live d pid x s1" "live d pid x s2"
  shows "s1 = s2"
proof -
  from assms(2,3) obtain r q where r: "r \<in> set (v_notes d)" "remote_key r = Some (pid, x)" "vn_sync_id r = Some s1"
    and q: "q \<in> set (v_notes d)" "remote_key q = Some (pid, x)" "vn_sync_id q = Some s2"
    by (auto simp: live_def remote_key_def)
  have "vn_id r = vn_id q"
    using server_invD(3) [OF assms(1)] r q unfolding rows_ok_def unique_rows_def by (metis option.distinct(1))
  with row_unique [OF assms(1) r(1) q(1)] r q show ?thesis by simp
qed

lemma live_append: "live d pid x sid \<Longrightarrow> v_notes t = v_notes d @ news \<Longrightarrow> live t pid x sid"
  by (auto simp: live_def)

lemma find_by_remote_ids_live:
  assumes "server_inv d"
  obtains M where "find_by_remote_ids pid xs d = (Inr M, d)"
    and "\<And>x sid. M x = Some sid \<longleftrightarrow> x \<in> set xs \<and> live d pid x sid"
proof -
  define f where "f = (\<lambda>r :: server_row. case (vn_remote_id r, vn_sync_id r) of
      (Some rid, Some sid) \<Rightarrow>
        if vn_project r = pid \<and> vn_status r = active \<and> rid \<in> set xs then Some (rid, sid) else None
    | _ \<Rightarrow> None)"
  let ?L = "rev (filter_map f (v_notes d))"
  have mem: "(x, sid) \<in> set ?L \<longleftrightarrow> x \<in> set xs \<and> live d pid x sid" for x sid
    by (auto simp: set_filter_map f_def live_def split: option.splits if_splits)
  have "map_of ?L x = Some sid \<longleftrightarrow> x \<in> set xs \<and> live d pid x sid" for x sid
  proof
    assume "map_of ?L x = Some sid"
    then show "x \<in> set xs \<and> live d pid x sid" using map_of_SomeD mem by metis
  next
    assume r: "x \<in> set xs \<and> live d pid x sid"
    then have "x \<in> fst ` set ?L" using mem by force
    then obtain s where s: "map_of ?L x = Some s" by (metis map_of_eq_None_iff not_None_eq)
    then have "live d pid x s" using map_of_SomeD mem by metis
    with r live_unique [OF assms] have "s = sid" by blast
    with s show "map_of ?L x = Some sid" by simp
  qed
  moreover have "find_by_remote_ids pid xs d = (Inr (map_of ?L), d)"
    by (simp add: find_by_remote_ids_def st_runs f_def)
  ultimately show thesis by (rule that [rotated])
qed

section \<open>Acknowledgements\<close>

text \<open>A result names its entry and the id of a live row of the project that carries its external id; if it
  says created, the row with that id has the entry's content.\<close>

definition acked :: "int \<Rightarrow> server_db \<Rightarrow> batch_note_item \<Rightarrow> batch_item_result \<Rightarrow> bool" where
  "acked pid d e r \<longleftrightarrow> i_external_id r = Some (bn_external_id e) \<and> i_status r \<in> {created, skipped} \<and>
     (\<exists>sid. i_id r = Some sid \<and> live d pid (bn_external_id e) sid) \<and>
     (i_status r = created \<longrightarrow> (\<exists>q \<in> set (v_notes d). vn_sync_id q = i_id r \<and> vn_kind q = bn_kind e \<and>
        vn_title q = bn_title e \<and> vn_body q = body_text e \<and>
        vn_tags q = join_csv (commit_tags (bn_source_commit e))))"

definition news_of :: "int \<Rightarrow> server_db \<Rightarrow> server_db \<Rightarrow> server_row list \<Rightarrow> bool" where
  "news_of pid d t news \<longleftrightarrow> v_notes t = v_notes d @ news \<and> v_projects t = v_projects d \<and>
     v_dim t = v_dim d \<and> v_model t = v_model d \<and> (\<forall>r \<in> set news. vn_project r = pid)"

lemma news_ofD: "news_of pid d t news \<Longrightarrow> v_notes t = v_notes d @ news"
  by (simp add: news_of_def)

lemma news_of_trans: "news_of pid d t xs \<Longrightarrow> news_of pid t u ys \<Longrightarrow> news_of pid d u (xs @ ys)"
  by (auto simp: news_of_def)

lemma add_note_srv_news:
  assumes "add_note_srv pid kind title body tags files embedding remote_id d = (r, t)"
  shows "\<exists>news. news_of pid d t news"
  using assms
  by (auto simp: add_note_srv_def mint_run st_bind_def insert_server_note_def insert_note_vec_def Let_def st_runs
      ticked_def news_of_def split: if_splits option.splits prod.splits sum.splits)

lemma created_skipped [simp]: "created \<noteq> skipped" "skipped \<noteq> created"
  by (simp_all add: created_def skipped_def)

lemma acked_item:
  "live d pid (bn_external_id e) sid \<Longrightarrow>
     new_row pid (bn_kind e) (bn_title e) (body_text e) (commit_tags (bn_source_commit e)) []
       (Some (bn_external_id e)) sid i now \<in> set (v_notes d) \<Longrightarrow>
     acked pid d e (item_result created (bn_external_id e) sid)"
  "live d pid (bn_external_id e) sid \<Longrightarrow> acked pid d e (item_result skipped (bn_external_id e) sid)"
  by (force simp: acked_def item_result_def)+

lemma item_result_status [simp]: "i_status (item_result status x sid) = status"
  by (simp add: item_result_def)

lemma store_entries_run:
  assumes "server_inv d" and "\<And>x sid. existing x = Some sid \<Longrightarrow> live d pid x sid"
    and "store_entries A pid existing es d = (r, t)"
  shows "\<exists>news. news_of pid d t news \<and>
    (\<forall>rs. r = Inr rs \<longrightarrow> list_all2 (acked pid t) es rs \<and>
       length news = length (filter (\<lambda>x. i_status x = created) rs))"
  using assms
proof (induction es arbitrary: existing d r t)
  case Nil
  then show ?case by (auto simp: st_runs news_of_def)
next
  case (Cons e es)
  show ?case
  proof (cases "existing (bn_external_id e)")
    case (Some sid)
    obtain q u where run: "store_entries A pid existing es d = (q, u)" by fastforce
    from Cons.IH [OF Cons.prems(1,2) run] obtain news where news: "news_of pid d u news"
      and ok: "\<And>rs. q = Inr rs \<Longrightarrow> list_all2 (acked pid u) es rs \<and>
        length news = length (filter (\<lambda>x. i_status x = created) rs)" by blast
    have "live u pid (bn_external_id e) sid"
      using Cons.prems(2) [OF Some] live_append [OF _ news_ofD [OF news]] by blast
    with ok news Cons.prems(3) Some run show ?thesis
      by (cases q) (auto simp: st_run acked_item(2) intro!: exI [of _ news])
  next
    case None
    let ?add = "add_note_srv pid (bn_kind e) (bn_title e) (body_text e) (commit_tags (bn_source_commit e)) []
      (embedding_for A (bn_title e) (body_text e) (bn_embedding e)) (Some (bn_external_id e))"
    obtain q u where add: "?add d = (q, u)" by fastforce
    from add_note_srv_news [OF add] obtain news where news: "news_of pid d u news" by blast
    show ?thesis
    proof (cases q)
      case (Inl x)
      with add None Cons.prems(3) news show ?thesis by (auto simp: db_call_def st_run)
    next
      case (Inr z)
      obtain i sid where z: "z = (i, sid)" by fastforce
      let ?row = "new_row pid (bn_kind e) (bn_title e) (body_text e) (commit_tags (bn_source_commit e)) []
        (Some (bn_external_id e)) sid i (now_unix (ticked d))"
      from add_note_srv_stored [OF add] Inr z have rows: "v_notes u = v_notes d @ [?row]" by simp
      with news_ofD [OF news] have "news = [?row]" by simp
      then have one: "length news = 1" by simp
      have inv: "server_inv u" using withinD [OF keeps_add_note_srv add] Cons.prems(1) by (simp add: keeping_def)
      have here: "live u pid (bn_external_id e) sid" using rows by (force simp: live_def)
      have known: "live u pid x s" if "(existing(bn_external_id e \<mapsto> sid)) x = Some s" for x s
        using that here Cons.prems(2) live_append [OF _ rows] by (auto split: if_splits)
      obtain q' v where run: "store_entries A pid (existing(bn_external_id e \<mapsto> sid)) es u = (q', v)" by fastforce
      from Cons.IH [OF inv known run] obtain more where more: "news_of pid u v more"
        and ok: "\<And>rs. q' = Inr rs \<Longrightarrow> list_all2 (acked pid v) es rs \<and>
          length more = length (filter (\<lambda>x. i_status x = created) rs)" by blast
      have "live v pid (bn_external_id e) sid" using live_append [OF here news_ofD [OF more]] .
      moreover have "?row \<in> set (v_notes v)" using rows news_ofD [OF more] by simp
      ultimately have "acked pid v e (item_result created (bn_external_id e) sid)" by (rule acked_item(1))
      with ok one add Inr z None Cons.prems(3) run news_of_trans [OF news more] show ?thesis
        by (cases q') (auto simp: db_call_def st_run intro!: exI [of _ "news @ more"])
    qed
  qed
qed

section \<open>A push\<close>

text \<open>The checks before the first write.\<close>

definition batch_checks :: "app_state \<Rightarrow> string \<Rightarrow> batch_note_item list \<Rightarrow> nat \<Rightarrow> app_error + (nat \<times> injection_match) option" where
  "batch_checks A slug entries dim =
     (case validate_project_slug slug of
        Inl e \<Rightarrow> Inl e
      | Inr _ \<Rightarrow>
          if MAX_BATCH_ENTRIES < length entries then
            Inl (BadRequest (''batch_too_large: maximum '' @ show_nat MAX_BATCH_ENTRIES @
              '' entries per request (got '' @ show_nat (length entries) @ '')''))
          else validate_batch A dim 0 entries)"

definition batch_stores :: "app_state \<Rightarrow> string \<Rightarrow> batch_note_item list \<Rightarrow> (project \<times> batch_item_result list) handler" where
  "batch_stores A slug entries =
     st_bind (st_get (\<lambda>d. (v_dim d, v_model d))) (\<lambda>(dim, model).
     st_bind (db_call (upsert_project slug dim model)) (\<lambda>project.
     st_bind (db_call (find_by_remote_ids (vp_id project) (map bn_external_id entries))) (\<lambda>existing.
     st_bind (store_entries A (vp_id project) existing entries) (\<lambda>results.
     st_ok (project, results)))))"

definition batch_result :: "batch_item_result list \<Rightarrow> batch_push_result" where
  "batch_result rs =
     \<lparr> br_created = length (filter (\<lambda>r. i_status r = created) rs),
       br_skipped = length (filter (\<lambda>r. i_status r = skipped) rs), br_failed = 0, br_results = rs \<rparr>"

lemma batch_result_sel [simp]:
  "br_created (batch_result rs) = length (filter (\<lambda>r. i_status r = created) rs)"
  "br_skipped (batch_result rs) = length (filter (\<lambda>r. i_status r = skipped) rs)"
  "br_results (batch_result rs) = rs"
  by (simp_all add: batch_result_def)

lemma push_memory_batch_eq:
  "push_memory_batch A slug entries d =
     (case batch_checks A slug entries (v_dim d) of
        Inl e \<Rightarrow> (Inl e, d)
      | Inr (Some (i, m)) \<Rightarrow> (Inr (Refused (Some i) m), d)
      | Inr None \<Rightarrow>
          (case batch_stores A slug entries d of
             (Inl e, t) \<Rightarrow> (Inl e, t) | (Inr (p, rs), t) \<Rightarrow> (Inr (Reply 207 (batch_result rs)), t)))"
  by (auto simp: push_memory_batch_def batch_checks_def batch_stores_def batch_result_def st_bind_def st_runs
      split: sum.split option.split prod.split if_splits)

lemma batch_stores_run:
  assumes inv: "server_inv d" and run: "batch_stores A slug entries d = (r, t)"
  shows "(\<exists>news. v_notes t = v_notes d @ news) \<and>
    (\<forall>p rs. r = Inr (p, rs) \<longrightarrow> find_project slug t = Some p \<and> vp_dim p = v_dim t \<and> vp_model p = Some (v_model t) \<and>
       v_dim t = v_dim d \<and>
       list_all2 (acked (vp_id p) t) entries rs \<and>
       (\<exists>news. v_notes t = v_notes d @ news \<and> (\<forall>r \<in> set news. vn_project r = vp_id p) \<and>
          length news = length (filter (\<lambda>x. i_status x = created) rs)))"
proof -
  obtain q u where up: "upsert_project slug (v_dim d) (v_model d) d = (q, u)" by fastforce
  show ?thesis
  proof (cases q)
    case (Inl e)
    have "v_notes u = v_notes d"
      using up by (cases "find_project slug d") (auto simp: upsert_new upsert_existing Inl split: if_splits)
    with up run Inl show ?thesis by (auto simp: batch_stores_def db_call_def st_run)
  next
    case (Inr p)
    note found = upsert_found [OF up [unfolded Inr]]
    have u: "server_inv u" using withinD [OF keeps_upsert up] inv by (simp add: keeping_def)
    obtain M where M: "find_by_remote_ids (vp_id p) (map bn_external_id entries) u = (Inr M, u)"
      and live: "\<And>x sid. M x = Some sid \<longleftrightarrow> x \<in> set (map bn_external_id entries) \<and> live u (vp_id p) x sid"
      using find_by_remote_ids_live [OF u] by blast
    obtain s v where st: "store_entries A (vp_id p) M entries u = (s, v)" by fastforce
    have "\<exists>news. news_of (vp_id p) u v news \<and> (\<forall>rs. s = Inr rs \<longrightarrow>
        list_all2 (acked (vp_id p) v) entries rs \<and> length news = length (filter (\<lambda>x. i_status x = created) rs))"
      using live by (intro store_entries_run [OF u _ st]) blast
    then obtain news where news: "news_of (vp_id p) u v news"
      and ok: "\<And>rs. s = Inr rs \<Longrightarrow> list_all2 (acked (vp_id p) v) entries rs \<and>
        length news = length (filter (\<lambda>x. i_status x = created) rs)" by blast
    have v: "find_project slug v = Some p" "vp_dim p = v_dim v" "vp_model p = Some (v_model v)" "v_dim v = v_dim d"
      "v_notes v = v_notes d @ news" "\<forall>r \<in> set news. vn_project r = vp_id p"
      using found news projects_changed_same [OF found(4)] by (auto simp: news_of_def find_project_def)
    have t: "t = v" using run up Inr M st by (cases s) (auto simp: batch_stores_def db_call_def st_run)
    have "r = map_sum id (Pair p) s"
      using run up Inr M st by (cases s) (auto simp: batch_stores_def db_call_def st_run)
    with v ok t show ?thesis by (cases s) auto
  qed
qed

lemma db_call_iffs:
  "db_call m d = (Inr x, t) \<longleftrightarrow> m d = (Inr x, t)"
  "db_call m d = (Inl e, t) \<longleftrightarrow> (\<exists>y. e = Internal y \<and> m d = (Inl y, t))"
  by (auto simp: db_call_def st_map_err_def split: prod.splits sum.splits)

lemma store_entries_error: "store_entries A pid M es d = (Inl e, t) \<Longrightarrow> \<exists>x. e = Internal x"
  by (induction es arbitrary: M d) (auto simp: st_runs st_bind_iff db_call_iffs split: option.splits)

lemma batch_stores_error: "batch_stores A slug entries d = (Inl e, t) \<Longrightarrow> \<exists>x. e = Internal x"
  by (auto simp: batch_stores_def st_runs st_bind_iff db_call_iffs dest: store_entries_error)

lemma acked_statuses:
  "list_all2 (acked pid d) es rs \<Longrightarrow>
     length (filter (\<lambda>r. i_status r = created) rs) + length (filter (\<lambda>r. i_status r = skipped) rs) = length es"
  by (induction rule: list_all2_induct) (auto simp: acked_def)

text \<open>C7: a batch that is turned away by a check stores nothing, and rows are only ever added, also where
  the batch fails half way.  A batch that is answered acknowledges every entry, in order, with the id
  of a live row of the project that carries its external id; the rows added are those reported created.\<close>
theorem push_batch_acknowledges:
  assumes inv: "server_inv d" and run: "push_memory_batch A slug entries d = (r, t)"
  shows "(case r of
      Inl (BadRequest msg) \<Rightarrow> t = d
    | Inl e \<Rightarrow> \<exists>news. v_notes t = v_notes d @ news
    | Inr (Refused i m) \<Rightarrow> t = d
    | Inr (Reply status res) \<Rightarrow> status = 207 \<and> br_created res + br_skipped res = length entries \<and>
        (\<exists>p. find_project slug t = Some p \<and> list_all2 (acked (vp_id p) t) entries (br_results res) \<and>
          (\<exists>news. v_notes t = v_notes d @ news \<and> length news = br_created res \<and>
             (\<forall>r \<in> set news. vn_project r = vp_id p))))"
proof (cases "batch_checks A slug entries (v_dim d)")
  case (Inl e)
  with run show ?thesis by (auto simp: push_memory_batch_eq split: app_error.split)
next
  case (Inr verdict)
  obtain s u where st: "batch_stores A slug entries d = (s, u)" by fastforce
  note stored = batch_stores_run [OF inv st]
  show ?thesis
  proof (cases verdict)
    case (Some im)
    with run Inr show ?thesis by (cases im) (auto simp: push_memory_batch_eq)
  next
    case None
    note verdict = Inr [unfolded None]
    show ?thesis
    proof (cases s)
      case (Inl e)
      with run verdict st have r: "r = Inl e" "t = u" by (auto simp: push_memory_batch_eq)
      from batch_stores_error [OF st [unfolded Inl]] obtain x where "e = Internal x" by blast
      with r stored show ?thesis by simp
    next
      case (Inr z)
      obtain p rs where z: "z = (p, rs)" by fastforce
      with run verdict st Inr have r: "r = Inr (Reply 207 (batch_result rs))" "t = u"
        by (auto simp: push_memory_batch_eq)
      from stored Inr z have "find_project slug u = Some p" "list_all2 (acked (vp_id p) u) entries rs"
        "\<exists>news. v_notes u = v_notes d @ news \<and> (\<forall>r \<in> set news. vn_project r = vp_id p) \<and>
          length news = length (filter (\<lambda>x. i_status x = created) rs)" by auto
      with acked_statuses [OF this(2)] show ?thesis unfolding r by auto
    qed
  qed
qed

lemma pushed_batch:
  assumes inv: "server_inv d" and run: "push_memory_batch A slug entries d = (Inr (Reply status res), t)"
  shows "\<exists>p. find_project slug t = Some p \<and> list_all2 (acked (vp_id p) t) entries (br_results res)"
proof -
  obtain s u where st: "batch_stores A slug entries d = (s, u)" by fastforce
  with run obtain p rs where "s = Inr (p, rs)" "u = t" "res = batch_result rs"
    by (auto simp: push_memory_batch_eq split: sum.splits option.splits prod.splits)
  with batch_stores_run [OF inv st] show ?thesis by auto
qed

section \<open>Pushing again\<close>

lemma upsert_again:
  assumes inv: "server_inv d" and q: "find_project slug d = Some q" "vp_dim q = dim" "vp_model q = Some model"
  shows "upsert_project slug dim model d = (Inr q, d)"
proof -
  have "map (\<lambda>x. if vp_id x = vp_id q then x\<lparr> vp_dim := dim \<rparr> else x) (v_projects d) = v_projects d"
  proof (intro map_idI)
    fix x assume "x \<in> set (v_projects d)"
    then show "(if vp_id x = vp_id q then x\<lparr> vp_dim := dim \<rparr> else x) = x"
      using find_project_in [OF q(1)] q(2) server_invD(2) [OF inv] distinct_map_eq [of vp_id "v_projects d" x q]
      by (auto simp: projects_ok_def)
  qed
  then have "snd (update_projects (\<lambda>x. vp_id x = vp_id q) (\<lambda>x. x\<lparr> vp_dim := dim \<rparr>) d) = d"
    by (simp add: update_projects_def)
  moreover have "q\<lparr> vp_dim := dim, vp_model := Some model \<rparr> = q" using q by simp
  ultimately show ?thesis using q by (auto simp: upsert_existing [OF q(1)])
qed

lemma store_entries_skips:
  assumes "\<And>e. e \<in> set es \<Longrightarrow> M (bn_external_id e) \<noteq> None"
  shows "store_entries A pid M es d =
    (Inr (map (\<lambda>e. item_result skipped (bn_external_id e) (the (M (bn_external_id e)))) es), d)"
  using assms by (induction es) (fastforce simp: st_run split: option.split)+

lemma acked_ids:
  assumes "list_all2 (acked pid t) es rs" "server_inv t"
    and M: "\<And>x sid. M x = Some sid \<longleftrightarrow> x \<in> X \<and> live t pid x sid" and "bn_external_id ` set es \<subseteq> X"
  shows "(\<forall>e \<in> set es. M (bn_external_id e) \<noteq> None) \<and>
    map (\<lambda>e. Some (the (M (bn_external_id e)))) es = map i_id rs"
  using assms(1,4)
proof (induction rule: list_all2_induct)
  case (Cons e es r rs)
  from Cons.hyps(1) obtain sid where sid: "i_id r = Some sid" "live t pid (bn_external_id e) sid"
    by (auto simp: acked_def)
  with Cons.prems M have "M (bn_external_id e) = Some sid" by simp
  with Cons sid show ?case by simp
qed simp

lemma batch_checks_dim: "push_memory_batch A slug entries d = (Inr (Reply status res), t) \<Longrightarrow>
    batch_checks A slug entries (v_dim d) = Inr None"
  by (auto simp: push_memory_batch_eq split: sum.splits option.splits prod.splits)

text \<open>C8: pushing the same batch again after an acknowledged push changes nothing on the server: every entry
  is skipped, and each is acknowledged with the id it got before.\<close>
theorem push_batch_idempotent:
  assumes inv: "server_inv d" and run: "push_memory_batch A slug entries d = (Inr (Reply status res), t)"
  shows "\<exists>again. push_memory_batch A slug entries t = (Inr (Reply 207 again), t) \<and> br_created again = 0 \<and>
    br_skipped again = length entries \<and> map i_id (br_results again) = map i_id (br_results res)"
proof -
  note checks = batch_checks_dim [OF run]
  obtain s u where st: "batch_stores A slug entries d = (s, u)" by fastforce
  with run checks obtain p rs where s: "s = Inr (p, rs)" and res: "u = t" "res = batch_result rs"
    by (cases s) (auto simp: push_memory_batch_eq)
  from batch_stores_run [OF inv st] s res(1)
  have t: "find_project slug t = Some p" "vp_dim p = v_dim t" "vp_model p = Some (v_model t)" "v_dim t = v_dim d"
    "list_all2 (acked (vp_id p) t) entries rs" by auto
  have invt: "server_inv t" using withinD [OF keeps_push run] inv by (simp add: keeping_def)
  obtain M where M: "find_by_remote_ids (vp_id p) (map bn_external_id entries) t = (Inr M, t)"
    and live: "\<And>x sid. M x = Some sid \<longleftrightarrow> x \<in> set (map bn_external_id entries) \<and> live t (vp_id p) x sid"
    using find_by_remote_ids_live [OF invt] by blast
  have all: "(\<forall>e \<in> set entries. M (bn_external_id e) \<noteq> None) \<and>
      map (\<lambda>e. Some (the (M (bn_external_id e)))) entries = map i_id rs"
    by (rule acked_ids [OF t(5) invt live]) simp
  let ?rs = "map (\<lambda>e. item_result skipped (bn_external_id e) (the (M (bn_external_id e)))) entries"
  have "store_entries A (vp_id p) M entries t = (Inr ?rs, t)"
    using all by (intro store_entries_skips) blast
  then have "batch_stores A slug entries t = (Inr (p, ?rs), t)"
    using M upsert_again [OF invt t(1-3)] by (simp add: batch_stores_def db_call_def st_run)
  then have "push_memory_batch A slug entries t = (Inr (Reply 207 (batch_result ?rs)), t)"
    using checks t(4) by (simp add: push_memory_batch_eq)
  moreover have "map i_id ?rs = map i_id rs" using all by (simp add: item_result_def comp_def)
  ultimately show ?thesis unfolding res
    by (intro exI [of _ "batch_result ?rs"]) (simp add: filter_map_comp comp_def)
qed

section \<open>Writes the server turns away\<close>

lemma store_entries_blocked:
  assumes "e \<in> set es" "M (bn_external_id e) = None" "r \<in> set (v_notes d)" "vn_project r = pid"
    "vn_remote_id r = Some (bn_external_id e)"
  shows "\<exists>x t. store_entries A pid M es d = (Inl (Internal x), t) \<and> r \<in> set (v_notes t)"
  using assms
proof (induction es arbitrary: M d)
  case (Cons f es)
  show ?case
  proof (cases "M (bn_external_id f)")
    case (Some sid)
    with Cons.prems(1,2) have "e \<in> set es" by auto
    from Cons.IH [where M = M and d = d, OF this Cons.prems(2-5)] obtain x t
      where "store_entries A pid M es d = (Inl (Internal x), t)" "r \<in> set (v_notes t)" by blast
    with Some show ?thesis by (auto simp: st_run)
  next
    case None
    let ?add = "add_note_srv pid (bn_kind f) (bn_title f) (body_text f) (commit_tags (bn_source_commit f)) []
      (embedding_for A (bn_title f) (body_text f) (bn_embedding f)) (Some (bn_external_id f))"
    obtain q u where add: "?add d = (q, u)" by fastforce
    from add_note_srv_stored [OF add] Cons.prems(3) have r: "r \<in> set (v_notes u)" by auto
    show ?thesis
    proof (cases q)
      case (Inl x)
      with None add r show ?thesis by (auto simp: db_call_def st_run)
    next
      case (Inr z)
      have "bn_external_id f \<noteq> bn_external_id e"
      proof
        assume "bn_external_id f = bn_external_id e"
        with Cons.prems have "note_conflict (new_row pid (bn_kind f) (bn_title f) (body_text f)
            (commit_tags (bn_source_commit f)) [] (Some (bn_external_id f)) (next_id d) i now) (ticked d)" for i now
          by (force simp: note_conflict_def ticked_def)
        with add Inr show False
          by (simp add: add_note_srv_def mint_run st_bind_def insert_server_note_def Let_def)
      qed
      with Cons.prems(1,2) have es: "e \<in> set es" "(M(bn_external_id f \<mapsto> snd z)) (bn_external_id e) = None" by auto
      from Cons.IH [where M = "M(bn_external_id f \<mapsto> snd z)" and d = u, OF es r Cons.prems(4,5)] obtain x t
        where "store_entries A pid (M(bn_external_id f \<mapsto> snd z)) es u = (Inl (Internal x), t)" "r \<in> set (v_notes t)"
        by blast
      with None add Inr show ?thesis by (cases z) (auto simp: db_call_def st_run)
    qed
  qed
qed simp

text \<open>Once an entry is archived, no batch that carries its external id succeeds again: the lookup does not
  see the archived row, and the insert runs into the index over all rows.\<close>

lemma archived_entry_blocks_push:
  assumes inv: "server_inv d" and p: "find_project slug d = Some p"
    and r: "r \<in> set (v_notes d)" "vn_project r = vp_id p" "vn_status r = archived"
      "vn_remote_id r = Some (bn_external_id e)"
    and e: "e \<in> set entries" and checks: "batch_checks A slug entries (v_dim d) = Inr None"
  shows "\<exists>x t. push_memory_batch A slug entries d = (Inl (Internal x), t) \<and> r \<in> set (v_notes t)"
proof -
  obtain q u where up: "upsert_project slug (v_dim d) (v_model d) d = (q, u)" by fastforce
  have same: "v_notes u = v_notes d"
    using up by (auto simp: upsert_existing [OF p] Let_def updated_notes split: if_splits)
  show ?thesis
  proof (cases q)
    case (Inl x)
    with up checks same r show ?thesis by (auto simp: push_memory_batch_eq batch_stores_def db_call_def st_run)
  next
    case (Inr p')
    have id: "vp_id p' = vp_id p"
      using up Inr by (auto simp: upsert_existing [OF p] split: if_splits)
    have u: "server_inv u" using withinD [OF keeps_upsert up] inv by (simp add: keeping_def)
    obtain M where M: "find_by_remote_ids (vp_id p') (map bn_external_id entries) u = (Inr M, u)"
      and live: "\<And>x sid. M x = Some sid \<longleftrightarrow> x \<in> set (map bn_external_id entries) \<and> live u (vp_id p') x sid"
      using find_by_remote_ids_live [OF u] by blast
    have "M (bn_external_id e) = None"
    proof (rule ccontr)
      assume "M (bn_external_id e) \<noteq> None"
      then obtain sid where "live u (vp_id p') (bn_external_id e) sid" using live by blast
      then obtain q0 where q0: "q0 \<in> set (v_notes u)" "remote_key q0 = remote_key r" "vn_status q0 = active"
        using r id by (auto simp: live_def remote_key_def)
      have "vn_id q0 = vn_id r"
        using server_invD(3) [OF u] q0 r same unfolding rows_ok_def unique_rows_def
        by (metis map_option_is_None option.distinct(1) remote_key_def)
      with row_unique [OF u q0(1), of r] r q0 same show False by simp
    qed
    from store_entries_blocked [where M = M and d = u and r = r and pid = "vp_id p'" and A = A, OF e this] r same id obtain x t
      where "store_entries A (vp_id p') M entries u = (Inl (Internal x), t)" "r \<in> set (v_notes t)" by auto
    with up Inr M checks show ?thesis
      by (auto simp: push_memory_batch_eq batch_stores_def db_call_def st_run)
  qed
qed

text \<open>A project whose dimension is recorded refuses an entry without a vector while no embedder is
  ready, where the handler means to store it as text.\<close>

lemma text_only_add_refused:
  assumes "find_project slug d = Some p" and "vp_dim p \<noteq> 0" and "validate_project_slug slug = Inr ()"
    and "validate_title_body (aq_title req) (aq_body req) = Inr ()"
    and "scan_for_injection A (aq_title req) (aq_body req) = None"
    and "aq_embedding req = None" and "es_backend (ap_embedder A) = None"
  shows "add_note_h A slug req d = (Inl (Internal (DimensionMismatch slug (vp_dim p) 0)), d)"
  using assms
  by (simp add: add_note_h_def st_run st_bind_def validate_embedding_dim_def embedding_for_def Let_def db_call_def
      st_map_err_def upsert_existing)

lemma delete_server_note_none:
  assumes "\<forall>r \<in> set (v_notes d). \<not> P r"
  shows "delete_server_note P d = (Inr 0, d)"
proof -
  have none: "filter P (v_notes d) = []" "filter (\<lambda>r. \<not> P r) (v_notes d) = v_notes d"
    using assms by (simp_all add: filter_empty_conv)
  show ?thesis unfolding delete_server_note_def Let_def none by simp
qed

text \<open>A DELETE of another project's entry answers that nothing was deleted, and removes the entry's
  vector: the vector table is not scoped to a project.\<close>

lemma delete_drops_foreign_vector:
  assumes "find_project slug d = Some p" and "validate_project_slug slug = Inr ()"
    and "\<And>r. r \<in> set (v_notes d) \<Longrightarrow> vn_id r = i \<Longrightarrow> vn_project r \<noteq> vp_id p"
  shows "delete_note_h slug i d = (Inr False, d\<lparr> v_vecs := filter (\<lambda>(j, v). j \<noteq> i) (v_vecs d) \<rparr>)"
proof -
  have "\<forall>r \<in> set (v_notes d). \<not> (vn_id r = i \<and> vn_project r = vp_id p)" using assms(3) by blast
  then show ?thesis
    using assms(1,2)
    by (simp add: delete_note_h_def require_project_def get_project_def delete_note_srv_def delete_note_vec_def
        delete_server_note_none db_call_def st_run st_bind_def st_map_err_def)
qed

end
