(* ===== verification/ServerArrivals.thy ===== *)
theory ServerArrivals
  imports ServerBatch
begin

text \<open>
  The order in which entries arrive.  A pull asks for the entries whose id is past the last one it has,
  so an entry stored later must get a larger id than every entry that was there.  The locale \<open>row_fact\<close>
  is the shape of the argument: a fact of rows that updates keep because they keep ids, and that new
  rows have because of the tick their id is minted at.
\<close>

definition rows_have :: "(server_row \<Rightarrow> bool) \<Rightarrow> (nat \<Rightarrow> string) \<Rightarrow> nat \<Rightarrow> server_db \<Rightarrow> bool" where
  "rows_have J m k t \<longleftrightarrow> server_inv t \<and> v_mint t = m \<and> k \<le> v_tick t \<and> (\<forall>r \<in> set (v_notes t). J r)"

locale row_fact =
  fixes J :: "server_row \<Rightarrow> bool" and m :: "nat \<Rightarrow> string" and k :: nat
  assumes same: "J r \<Longrightarrow> vn_id q = vn_id r \<Longrightarrow> vn_sync_id q = vn_sync_id r \<Longrightarrow> J q"
    and later: "k \<le> j \<Longrightarrow> vn_sync_id q = Some (m j) \<Longrightarrow> J q"
begin

lemma I: "keeps_server c \<Longrightarrow> (\<And>d. rows_have J m k d \<Longrightarrow> rows_have J m k (snd (c d))) \<Longrightarrow>
    within (keeping (rows_have J m k)) c"
  by (simp add: within_def keeping_def)

lemma plain:
  assumes "keeps_server c" "\<And>d. set (v_notes (snd (c d))) \<subseteq> set (v_notes d)"
    "\<And>d. v_mint (snd (c d)) = v_mint d" "\<And>d. v_tick (snd (c d)) = v_tick d"
  shows "within (keeping (rows_have J m k)) c"
proof (rule I [OF assms(1)])
  fix d assume d: "rows_have J m k d"
  then have "server_inv (snd (c d))" using assms(1) by (simp add: within_def keeping_def rows_have_def)
  with d assms(2) [of d] assms(3,4) show "rows_have J m k (snd (c d))" unfolding rows_have_def by auto
qed

lemma edge: "within (keeping (rows_have J m k)) (insert_note_edge from to kind)"
  by (rule plain [OF srv_keeps_insert_edge]) (simp_all add: insert_note_edge_def)

lemma vec: "within (keeping (rows_have J m k)) (delete_note_vec i)"
  by (rule plain [OF keeps_delete_vec]) (simp_all add: delete_note_vec_def)

lemma delete: "within (keeping (rows_have J m k)) (delete_server_note P)"
  by (rule plain [OF srv_keeps_delete_note]) (auto simp: delete_server_note_def Let_def)

lemma mapped:
  assumes "plain_update f" "\<forall>r \<in> set rs. J r"
  shows "\<forall>r \<in> set (map (\<lambda>r. if P r then f r else r) rs). J r"
proof
  fix q assume "q \<in> set (map (\<lambda>r. if P r then f r else r) rs)"
  then obtain r where r: "r \<in> set rs" "q = (if P r then f r else r)" by auto
  with assms same [of r q] show "J q" by (auto simp: plain_update_def)
qed

lemma update:
  assumes "keeps_server (update_server_notes P f)" "plain_update f"
  shows "within (keeping (rows_have J m k)) (update_server_notes P f)"
proof (rule I [OF assms(1)])
  fix d assume d: "rows_have J m k d"
  then have "server_inv (snd (update_server_notes P f d))" using assms(1) by (simp add: within_def keeping_def rows_have_def)
  with d mapped [OF assms(2), of "v_notes d" P] show "rows_have J m k (snd (update_server_notes P f d))"
    by (simp add: rows_have_def update_server_notes_def)
qed

lemma link:
  assumes "plain_update f"
  shows "within (keeping (rows_have J m k)) (link_server_notes P f i)"
proof (rule I [OF keeps_link_notes [OF assms]])
  fix d assume d: "rows_have J m k d"
  then have inv: "server_inv (snd (link_server_notes P f i d))"
    using keeps_link_notes [OF assms, of P i] by (simp add: within_def keeping_def rows_have_def)
  have "plain_update (\<lambda>r. (f r)\<lparr> vn_superseded_by := Some i \<rparr>)" using assms by (simp add: plain_update_def)
  from mapped [OF this, of "v_notes d" P] d
  have "\<forall>r \<in> set (map (\<lambda>r. if P r then (f r)\<lparr> vn_superseded_by := Some i \<rparr> else r) (v_notes d)). J r"
    by (simp add: rows_have_def)
  with d inv show "rows_have J m k (snd (link_server_notes P f i d))"
    unfolding rows_have_def link_server_notes_def update_server_notes_def by (simp split: if_split_asm)
qed

lemma add_note: "within (keeping (rows_have J m k)) (add_note_srv pid kind title body tags files embedding rid)"
proof (rule I [OF keeps_add_note_srv])
  let ?c = "add_note_srv pid kind title body tags files embedding rid"
  fix d assume d: "rows_have J m k d"
  then have inv: "server_inv (snd (?c d))" using keeps_add_note_srv by (simp add: within_def keeping_def rows_have_def)
  have "v_mint (snd (?c d)) = m \<and> k \<le> v_tick (snd (?c d)) \<and>
      (\<forall>r \<in> set (v_notes (snd (?c d))). r \<in> set (v_notes d) \<or> vn_sync_id r = Some (m (v_tick d)))"
    using d
    by (auto simp: add_note_srv_def mint_run st_bind_def insert_server_note_def insert_note_vec_def Let_def
        ticked_def next_id_def rows_have_def st_runs split: option.split)
  with d inv later [of "v_tick d"] show "rows_have J m k (snd (?c d))" by (auto simp: rows_have_def)
qed

lemma upsert: "within (keeping (rows_have J m k)) (upsert_project slug dim model)"
proof (rule plain [OF keeps_upsert])
  fix d
  have "v_notes (snd (upsert_project slug dim model d)) = v_notes d \<and>
      v_mint (snd (upsert_project slug dim model d)) = v_mint d \<and>
      v_tick (snd (upsert_project slug dim model d)) = v_tick d"
    by (cases "find_project slug d") (auto simp: upsert_new upsert_existing Let_def update_projects_def)
  then show "set (v_notes (snd (upsert_project slug dim model d))) \<subseteq> set (v_notes d)"
    "v_mint (snd (upsert_project slug dim model d)) = v_mint d"
    "v_tick (snd (upsert_project slug dim model d)) = v_tick d" by simp_all
qed

lemma store: "within (keeping (rows_have J m k)) (store_entries A pid existing es)"
  by (induction es arbitrary: existing)
     (auto simp: db_call_def split: option.split prod.split intro!: kept_inv.composes add_note)

lemma conflicts: "within (keeping (rows_have J m k)) (record_conflicts A pid i embedding)"
  unfolding record_conflicts_def db_call_def search_notes_for_conflicts_def add_edge_srv_def
  by (auto split: option.split prod.split intro!: kept_inv.composes edge)

lemma require: "within (keeping (rows_have J m k)) (require_project slug)"
  unfolding require_project_def db_call_def get_project_def
  by (auto split: option.split intro!: kept_inv.composes)

lemma serves: "rows_have J m k d \<Longrightarrow> rows_have J m k (serve A req d)"
proof -
  have "within (keeping (rows_have J m k)) (add_note_h A slug a)" for slug a
    unfolding add_note_h_def db_call_def Let_def
    by (auto split: option.split prod.split intro!: kept_inv.composes upsert add_note conflicts)
  moreover have "within (keeping (rows_have J m k)) (push_memory_batch A slug es)" for slug es
    unfolding push_memory_batch_def db_call_def find_by_remote_ids_def
    by (auto split: option.split prod.split intro!: kept_inv.composes upsert store)
  moreover have "within (keeping (rows_have J m k)) (archive_note_h slug i)" for slug i
    unfolding archive_note_h_def db_call_def archive_note_srv_def
    by (auto intro!: kept_inv.composes require update srv_keeps_update_notes plain_archive)
  moreover have "within (keeping (rows_have J m k)) (supersede_note_h slug i j)" for slug i j
    unfolding supersede_note_h_def db_call_def supersede_note_srv_def
    by (auto intro!: kept_inv.composes require link plain_archive)
  moreover have "within (keeping (rows_have J m k)) (delete_note_h slug i)" for slug i
    unfolding delete_note_h_def db_call_def delete_note_srv_def
    by (auto intro!: kept_inv.composes require vec delete)
  ultimately show "rows_have J m k d \<Longrightarrow> rows_have J m k (serve A req d)"
    by (cases req) (simp_all add: within_def keeping_def)
qed

lemma serves_all: "rows_have J m k d \<Longrightarrow> rows_have J m k (serve_all A reqs d)"
  unfolding serve_all_def by (induction reqs arbitrary: d) (simp_all add: serves)

end

text \<open>A row that was there, under the id it had, or one whose id was minted at tick \<open>k\<close> or later.\<close>

definition arrived :: "server_row set \<Rightarrow> (nat \<Rightarrow> string) \<Rightarrow> nat \<Rightarrow> server_row \<Rightarrow> bool" where
  "arrived N m k r \<longleftrightarrow> (\<exists>q \<in> N. vn_id q = vn_id r \<and> vn_sync_id q = vn_sync_id r) \<or>
     (\<exists>j \<ge> k. vn_sync_id r = Some (m j))"

interpretation arrival: row_fact "arrived N m k" m k for N m k
proof
  show "arrived N m k r \<Longrightarrow> vn_id q = vn_id r \<Longrightarrow> vn_sync_id q = vn_sync_id r \<Longrightarrow> arrived N m k q" for r q
    by (simp add: arrived_def)
  show "k \<le> j \<Longrightarrow> vn_sync_id q = Some (m j) \<Longrightarrow> arrived N m k q" for j q
    by (auto simp: arrived_def)
qed

lemma serve_all_mint:
  assumes "server_inv d"
  shows "v_mint (serve_all A reqs d) = v_mint d"
proof -
  have "rows_have (arrived (set (v_notes d)) (v_mint d) (v_tick d)) (v_mint d) (v_tick d) d"
    using assms by (auto simp: rows_have_def arrived_def)
  from arrival.serves_all [OF this, of A reqs] show ?thesis by (simp add: rows_have_def)
qed

text \<open>C10: an entry that is stored later has a larger sync id than every entry there was before, so no cursor
  that a pull could have reached passes it over.\<close>
theorem arrivals_past_every_cursor:
  assumes inv: "server_inv d" and q: "q \<in> set (v_notes d)" "vn_sync_id q = Some c"
    and r: "r \<in> set (v_notes (serve_all A reqs d))" "vn_id r \<notin> note_ids d"
  shows "\<exists>i. vn_sync_id r = Some i \<and> c < i"
proof -
  have "rows_have (arrived (set (v_notes d)) (v_mint d) (v_tick d)) (v_mint d) (v_tick d) d"
    using inv by (auto simp: rows_have_def arrived_def)
  from arrival.serves_all [OF this, of A reqs] r(1)
  have "arrived (set (v_notes d)) (v_mint d) (v_tick d) r" by (simp add: rows_have_def)
  moreover have "\<not> (\<exists>q \<in> set (v_notes d). vn_id q = vn_id r \<and> vn_sync_id q = vn_sync_id r)"
    using r(2) by (auto simp: note_ids_def image_iff)
  ultimately obtain j where j: "v_tick d \<le> j" "vn_sync_id r = Some (v_mint d j)"
    by (auto simp: arrived_def)
  have "minted d c" using server_invD(3) [OF inv] q by (simp add: rows_ok_def)
  then have "c < v_mint d (v_tick d)" by (rule not_minted_next [OF inv])
  also have "\<dots> \<le> v_mint d j" using j(1) server_invD(1) [OF inv] by (simp add: strict_mono_less_eq)
  finally show ?thesis using j(2) by blast
qed

section \<open>The stream\<close>

lemma fold_latest:
  "(seen :: int) \<le> fold (\<lambda>n seen. if seen < f n then f n else seen) ns seen \<and>
   (\<forall>n \<in> set ns. f n \<le> fold (\<lambda>n seen. if seen < f n then f n else seen) ns seen)"
proof (induction ns arbitrary: seen)
  case (Cons n ns)
  from Cons.IH [of "if seen < f n then f n else seen"] show ?case by (auto split: if_splits)
qed simp

lemma stream_turn_later:
  assumes "n \<in> set (fst (stream_turn slug last_seen d))"
  shows "last_seen < sv_created_at n \<and> sv_created_at n \<le> snd (stream_turn slug last_seen d)"
proof
  show "last_seen < sv_created_at n"
    using assms
    by (auto simp: stream_turn_def notes_since_def st_run row_to_server_note_def Let_def split: option.splits
        dest!: in_set_takeD)
  show "sv_created_at n \<le> snd (stream_turn slug last_seen d)"
    using assms fold_latest [of last_seen sv_created_at "fst (stream_turn slug last_seen d)"]
    by (auto simp: stream_turn_def Let_def split: option.splits)
qed

lemma stream_turn_mono: "last_seen \<le> snd (stream_turn slug last_seen d)"
  using fold_latest [of last_seen sv_created_at "fst (stream_turn slug last_seen d)"]
  by (auto simp: stream_turn_def Let_def split: option.split)

lemma stream_events_later: "n \<in> set (stream_events slug last_seen ds) \<Longrightarrow> last_seen < sv_created_at n"
proof (induction ds arbitrary: last_seen)
  case (Cons d ds)
  then show ?case using stream_turn_later [of n slug last_seen d] stream_turn_mono [of last_seen slug d] by force
qed simp

text \<open>The stream keeps a clock of whole seconds and not an id: after a turn that sent \<open>n\<close>, no entry of the same
  second or of an earlier one is sent again, also one that was stored in between or did not fit in a turn.\<close>

lemma stream_passes_over:
  assumes "n \<in> set (fst (stream_turn slug last_seen d))"
    and "m \<in> set (stream_events slug (snd (stream_turn slug last_seen d)) ds)"
  shows "sv_created_at n < sv_created_at m"
  using stream_turn_later [OF assms(1)] stream_events_later [OF assms(2)] by simp

end
