(* ===== verification/ServerSync.thy ===== *)
theory ServerSync
  imports ServerBatch SyncFailures
begin

text \<open>
  The sync client against the team server of this repository: the handlers answer the requests of
  \<open>storage/remote/sync.rs\<close>.  A request line that axum cannot take apart is answered 400; a JSON body
  read with another struct keeps the fields that both have.
\<close>

section \<open>The server behind the client\<close>

definition batch_note_of :: "batch_push_item \<Rightarrow> batch_note_item" where
  "batch_note_of i =
     \<lparr> bn_kind = b_kind i, bn_title = b_title i, bn_body = b_body i, bn_external_id = b_external_id i,
       bn_source_commit = b_source_commit i, bn_embedding = None \<rparr>"

text \<open>\<open>axum\<close> reads \<open>{note_id}\<close> as an \<open>i64\<close>.\<close>

definition delete_route :: "string \<Rightarrow> string \<Rightarrow> server_db \<Rightarrow> (nat \<times> (string + unit)) \<times> server_db" where
  "delete_route slug note_id d =
     (case parse_i64 note_id of
        None \<Rightarrow> ((400, Inl ''Invalid URL''), d)
      | Some i \<Rightarrow>
          (case delete_note_h slug i d of
             (Inl e, d') \<Rightarrow> ((status_of e, Inl []), d') | (Inr changed, d') \<Rightarrow> ((200, Inr ()), d')))"

definition answer_since :: "app_state \<Rightarrow> string \<Rightarrow> string \<Rightarrow> nat \<Rightarrow> server_db \<Rightarrow> (nat \<times> (string + remote_entry list)) \<times> server_db" where
  "answer_since A slug cursor limit d =
     (case memory_since A slug \<lparr> sq_t = None, sq_since_id = Some cursor, sq_limit = int limit \<rparr> d of
        (Inl e, d') \<Rightarrow> ((status_of e, Inl []), d')
      | (Inr (SinceEntries es), d') \<Rightarrow> ((200, Inr es), d')
      | (Inr (SinceNotes ns), d') \<Rightarrow> ((200, Inl []), d'))"

definition answer_batch ::
    "app_state \<Rightarrow> string \<Rightarrow> batch_note_item list \<Rightarrow> server_db \<Rightarrow> (nat \<times> (string + batch_push_result)) \<times> server_db" where
  "answer_batch A slug entries d =
     (case push_memory_batch A slug entries d of
        (Inl e, d') \<Rightarrow> ((status_of e, Inl []), d')
      | (Inr (Refused i m), d') \<Rightarrow> ((422, Inl []), d')
      | (Inr (Reply status res), d') \<Rightarrow> ((status, Inr res), d'))"

text \<open>The body of an edge push has no entries, and its edges are a field the server does not read; its
  answer has no \<open>edges\<close>, which the client reads as none.\<close>

definition answer_edges ::
    "app_state \<Rightarrow> string \<Rightarrow> sync_edge_push list \<Rightarrow> server_db \<Rightarrow> (nat \<times> (string + edge_push_result)) \<times> server_db" where
  "answer_edges A slug edges d =
     (case answer_batch A slug [] d of ((status, body), d') \<Rightarrow> ((status, map_sum id (\<lambda>_. []) body), d'))"

text \<open>The machine of the client draws UUIDs and reads the clock; \<open>k\<close> counts the UUIDs.\<close>

definition server_outside :: "app_state \<Rightarrow> string \<Rightarrow> (nat \<Rightarrow> string) \<Rightarrow> int \<Rightarrow> (string \<Rightarrow> int option) \<Rightarrow> (server_db \<times> nat) outside" where
  "server_outside A slug uuid now rfc3339 =
     \<lparr> o_get_since = (\<lambda>c n (d, k). case answer_since A slug c n d of (x, d') \<Rightarrow> (Inr x, d', k)),
       o_post_batch = (\<lambda>items (d, k). case answer_batch A slug (map batch_note_of items) d of (x, d') \<Rightarrow> (Inr x, d', k)),
       o_post_edges = (\<lambda>edges (d, k). case answer_edges A slug edges d of (x, d') \<Rightarrow> (Inr x, d', k)),
       o_delete = (\<lambda>i (d, k). case delete_route slug i d of (x, d') \<Rightarrow> (Inr x, d', k)),
       o_embedder = (\<lambda>t. (False, t)), o_embed_text = (\<lambda>_ t. (Inl [], t)),
       o_uuid = (\<lambda>(d, k). (uuid k, d, k + 1)), o_now = (\<lambda>t. (now, t)), o_rfc3339 = rfc3339 \<rparr>"

section \<open>What it serves\<close>

text \<open>The entries of a project that a pull can return, in the order of their ids.\<close>

definition pullable :: "int \<Rightarrow> server_row \<Rightarrow> bool" where
  "pullable pid r \<longleftrightarrow> vn_project r = pid \<and> vn_status r \<noteq> archived \<and> vn_sync_id r \<noteq> None"

definition team_rows :: "int \<Rightarrow> server_db \<Rightarrow> server_row list" where
  "team_rows pid d = sort_key (\<lambda>r. the (vn_sync_id r)) (filter (pullable pid) (v_notes d))"

definition wire_entry :: "app_state \<Rightarrow> server_row \<Rightarrow> remote_entry" where
  "wire_entry A r = since_entry A (row_to_since_id_row r)"

definition team_entries :: "app_state \<Rightarrow> string \<Rightarrow> server_db \<Rightarrow> remote_entry list" where
  "team_entries A slug d =
     (case find_project slug d of None \<Rightarrow> [] | Some p \<Rightarrow> map (wire_entry A) (team_rows (vp_id p) d))"

lemma wire_entry_sel [simp]:
  "m_id (wire_entry A r) = the (vn_sync_id r)" "m_kind (wire_entry A r) = vn_kind r"
  "m_title (wire_entry A r) = vn_title r" "m_archived_at (wire_entry A r) = None"
  "m_body (wire_entry A r) = (if vn_body r = [] then None else Some (vn_body r))"
  by (simp_all add: wire_entry_def since_entry_def row_to_since_id_row_def)

lemma set_team_rows: "set (team_rows pid d) = {r \<in> set (v_notes d). pullable pid r}"
  by (auto simp: team_rows_def)

lemma team_rows_after:
  "sort_key (\<lambda>r. the (vn_sync_id r)) (filter (after_cursor pid c) (v_notes d)) =
     filter (\<lambda>r. c < the (vn_sync_id r)) (team_rows pid d)"
proof -
  have "filter (after_cursor pid c) (v_notes d) = filter (\<lambda>r. c < the (vn_sync_id r)) (filter (pullable pid) (v_notes d))"
    by (auto simp: after_cursor_def pullable_def split: option.splits intro!: filter_cong)
  then show ?thesis by (simp add: team_rows_def filter_sort_key flip: filter_filter)
qed

lemma since_serves_page:
  assumes "validate_project_slug slug = Inr ()"
  shows "answer_since A slug c MEMORY_SINCE_PULL_LIMIT d =
    (case find_project slug d of
       None \<Rightarrow> ((404, Inl []), d)
     | Some p \<Rightarrow> ((200, Inr (pull_page (team_entries A slug d) c)), d))"
  using assms
  by (simp add: answer_since_def memory_since_def require_project_def get_project_def notes_since_id_def db_call_def
      st_run st_bind_def st_map_err_def clamp_limit_def MEMORY_SINCE_PULL_LIMIT_def team_rows_after pull_page_def
      team_entries_def filter_map_comp take_map comp_def wire_entry_def [symmetric] split: option.split)

lemma server_serves:
  assumes "validate_project_slug slug = Inr ()"
  shows "team_serves (server_outside A slug uuid now rfc) (\<lambda>(d, k). team_entries A slug d)"
  unfolding team_serves_def
proof (intro conjI allI)
  fix c and t :: "server_db \<times> nat"
  obtain d k where t: "t = (d, k)" by fastforce
  show "o_get_since (server_outside A slug uuid now rfc) c MEMORY_SINCE_PULL_LIMIT t =
      (Inr (200, Inr (pull_page (case t of (d, k) \<Rightarrow> team_entries A slug d) c)), t) \<or>
    (case t of (d, k) \<Rightarrow> team_entries A slug d) = [] \<and>
      (\<exists>b. o_get_since (server_outside A slug uuid now rfc) c MEMORY_SINCE_PULL_LIMIT t = (Inr (404, b), t))"
    by (cases "find_project slug d")
       (simp_all add: t server_outside_def since_serves_page [OF assms] team_entries_def)
qed (simp_all add: server_outside_def split: prod.splits)

lemma team_entries_sorted:
  assumes "server_inv d"
  shows "sorted_wrt (<) (map m_id (team_entries A slug d))"
proof -
  have "distinct (map (\<lambda>r. the (vn_sync_id r)) (team_rows pid d))" for pid
  proof -
    have "distinct (v_notes d)"
      using server_invD(3) [OF assms] strict_sorted_iff [of "map vn_id (v_notes d)"]
      by (auto simp: rows_ok_def distinct_map)
    then have "distinct (team_rows pid d)" by (simp add: team_rows_def)
    moreover have "inj_on (\<lambda>r. the (vn_sync_id r)) (set (team_rows pid d))"
    proof (rule inj_onI)
      fix r q assume r: "r \<in> set (team_rows pid d)" "q \<in> set (team_rows pid d)" and e: "the (vn_sync_id r) = the (vn_sync_id q)"
      then have "vn_sync_id r \<noteq> None" "vn_sync_id r = vn_sync_id q" "r \<in> set (v_notes d)" "q \<in> set (v_notes d)"
        by (auto simp: set_team_rows pullable_def)
      moreover have "vn_id r = vn_id q"
        using server_invD(3) [OF assms] calculation unfolding rows_ok_def unique_rows_def by blast
      ultimately show "r = q" using row_unique [OF assms] by blast
    qed
    ultimately show ?thesis by (simp add: distinct_map)
  qed
  moreover have "sorted (map (\<lambda>r. the (vn_sync_id r)) (team_rows pid d))" for pid
    by (simp add: team_rows_def)
  ultimately show ?thesis
    by (auto simp: team_entries_def comp_def strict_sorted_iff split: option.split)
qed

section \<open>From one machine to another\<close>

text \<open>A pull from the team server returns after finitely many pages, and unless the local store failed every
  entry of the project that is past the cursor and not archived is then on a row; no row was lost.\<close>

lemma pull_from_server:
  assumes slug: "validate_project_slug slug = Inr ()" and inv: "server_inv d" "store_inv s"
    and fuel: "length (team_entries A slug d) < fuel * MEMORY_SINCE_PULL_LIMIT"
    and run: "pull_and_apply_since fuel (server_outside A slug uuid now rfc) E c (s, d, k) = (r, s', t')"
  shows "rows_kept s s' \<and> (case r of
      Inl x \<Rightarrow> \<exists>e. x = StoreError e
    | Inr n \<Rightarrow> \<forall>p q. find_project slug d = Some p \<longrightarrow> q \<in> set (v_notes d) \<longrightarrow> pullable (vp_id p) q \<longrightarrow>
        since_id c < the (vn_sync_id q) \<longrightarrow> taken_in E (wire_entry A q) s')"
proof -
  have "rows_kept s s' \<and> (case r of Inl x \<Rightarrow> \<exists>e. x = StoreError e
      | Inr n \<Rightarrow> \<forall>e \<in> set (team_entries A slug d). since_id c < m_id e \<longrightarrow> taken_in E e s')"
    using backlog_pulled [OF server_serves [OF slug] _ inv(2) _ run] team_entries_sorted [OF inv(1)] fuel
    by (cases r) simp_all
  moreover have "wire_entry A q \<in> set (team_entries A slug d)"
    if "find_project slug d = Some p" "q \<in> set (v_notes d)" "pullable (vp_id p) q" for p q
    using that by (auto simp: team_entries_def set_team_rows)
  ultimately show ?thesis by (auto split: sum.splits)
qed

lemma minted_above_nil:
  assumes "server_inv d" "\<And>j. nil_uuid < v_mint d j" "r \<in> set (v_notes d)" "vn_sync_id r = Some i"
  shows "nil_uuid < i"
proof -
  have "minted d i" using server_invD(3) [OF assms(1)] assms(3,4) by (simp add: rows_ok_def)
  then obtain j where "i = v_mint d j" by (auto simp: minted_def)
  with assms(2) show ?thesis by simp
qed

lemma list_all2_member: "list_all2 P xs ys \<Longrightarrow> x \<in> set xs \<Longrightarrow> \<exists>y \<in> set ys. P x y"
  by (induction rule: list_all2_induct) auto


section \<open>Requests the server does not understand\<close>

text \<open>A tombstone for an entry whose remote id is a UUID is refused, so a push that includes archived
  entries fails at the first of them.\<close>

lemma tombstones_refused:
  assumes "parse_i64 remote_id = None" and "sr_archived r" and "sr_remote_id r = Some remote_id"
  shows "push_tombstones (server_outside A slug uuid now rfc) (r # rs) (s, d, k) = (Inl (NetError ''bad status''), s, d, k)"
  using assms
  by (simp add: delete_remote_def server_outside_def delete_route_def seq_net_def outside_net_def from_http_def
      is_success_def net_run)

text \<open>Relationships are pushed into the void: whatever the edges, the server acknowledges none.\<close>

lemma edges_not_stored:
  assumes "push_edges (server_outside A slug uuid now rfc) edges (s, d, k) = (Inr acks, s', d', k')"
    and "server_inv d"
  shows "acks = [] \<and> v_edges d' = v_edges d \<and> v_notes d' = v_notes d"
proof (cases "edges = []")
  case True
  with assms(1) show ?thesis by (simp add: push_edges_def net_run)
next
  case False
  with assms(1) obtain status body where ans: "answer_edges A slug edges d = ((status, Inr body), d')" and acks: "acks = body"
    by (auto simp: push_edges_def server_outside_def seq_net_def outside_net_def from_http_def parsed_if_def net_run
        split: prod.splits sum.splits if_splits)
  then obtain st res where push: "push_memory_batch A slug [] d = (Inr (Reply st res), d')" and "body = []"
    by (auto simp: answer_edges_def answer_batch_def split: prod.splits sum.splits reply.splits)
  moreover from push have "v_notes d' = v_notes d \<and> v_edges d' = v_edges d"
    using projects_changed_same [OF upsert_found(4)]
    by (auto simp: push_memory_batch_eq batch_stores_def find_by_remote_ids_def st_runs st_bind_iff db_call_iffs
        split: sum.splits option.splits prod.splits)
  ultimately show ?thesis using acks by simp
qed

end
