(* ===== verification/RemoteBackend.thy ===== *)
theory RemoteBackend
  imports ServerSync GitBackend
begin

text \<open>
  \<open>storage/remote/mod.rs\<close>: the memory backend that speaks to a team server (\<open>RemoteMemoryBackend\<close>),
  with the wire structs of \<open>wire_types.rs\<close>, and the server of this repository behind it.  The requests
  are the record \<open>memory_api\<close>; an answer is \<open>Inl\<close> a transport error, or its status with the parsed
  body.  A path segment that the client percent-encodes arrives decoded.
\<close>

section \<open>The wire\<close>

record remote_add_request =
  ra_kind :: string
  ra_title :: string
  ra_body :: string
  ra_tags :: "string list"
  ra_linked_files :: "string list"
  ra_embedding :: "nat list option"
  ra_source_ref :: "string option"
  ra_valid_at :: "int option"

record remote_add_response =
  rr_id :: note_id
  rr_conflicts :: "(note_id \<times> string) list"
  rr_remote_id :: "string option"

record note_response =
  nr_id :: note_id
  nr_kind :: string
  nr_title :: string
  nr_body :: string
  nr_tags :: "string list"
  nr_linked_files :: "string list"
  nr_created_at :: int
  nr_status :: string
  nr_superseded_by :: "note_id option"
  nr_source_ref :: "string option"
  nr_valid_at :: "int option"
  nr_invalid_at :: "int option"
  nr_remote_id :: "string option"
  nr_distance :: "f64_bits option"

definition note_of_response :: "note_response \<Rightarrow> mem_note" where
  "note_of_response r =
     \<lparr> n_id = nr_id r, n_kind = nr_kind r, n_title = nr_title r, n_body = nr_body r, n_tags = nr_tags r,
       n_linked_files = nr_linked_files r, n_created_at = nr_created_at r, n_status = nr_status r,
       n_superseded_by = nr_superseded_by r, n_source_ref = nr_source_ref r, n_valid_at = nr_valid_at r,
       n_invalid_at = nr_invalid_at r, n_distance = nr_distance r, n_score = None, n_source_project = None,
       n_source_project_path = None, n_remote_id = nr_remote_id r \<rparr>"

datatype note_list_payload = Enveloped "note_response list" | Bare "note_response list"

fun into_notes :: "note_list_payload \<Rightarrow> note_response list" where
  "into_notes (Enveloped entries) = entries"
| "into_notes (Bare responses) = responses"

datatype shas_payload = EnvelopedShas "string list" | BareShas "string list"

fun into_shas :: "shas_payload \<Rightarrow> string list" where
  "into_shas (EnvelopedShas shas) = shas"
| "into_shas (BareShas shas) = shas"

text \<open>The query of \<open>GET memory\<close>.\<close>

record list_query =
  lq_limit :: nat
  lq_archived :: bool
  lq_kind :: "string option"
  lq_as_of :: "int option"
  lq_source_ref :: "string option"

record 't memory_api =
  ma_add :: "remote_add_request \<Rightarrow> 't \<Rightarrow> remote_add_response http \<times> 't"
  ma_search :: "string \<Rightarrow> nat \<Rightarrow> 't \<Rightarrow> note_list_payload http \<times> 't"
  ma_list :: "list_query \<Rightarrow> 't \<Rightarrow> note_list_payload http \<times> 't"
  ma_get :: "note_id \<Rightarrow> 't \<Rightarrow> note_response http \<times> 't"
  ma_stats :: "'t \<Rightarrow> nat http \<times> 't"
  ma_archive :: "note_id \<Rightarrow> 't \<Rightarrow> bool http \<times> 't"
  ma_supersede :: "note_id \<Rightarrow> note_id \<Rightarrow> 't \<Rightarrow> bool http \<times> 't"
  ma_shas :: "'t \<Rightarrow> shas_payload http \<times> 't"

section \<open>The backend\<close>

type_synonym ('t, 'a) remote = "('t, string, 'a) st"

definition send :: "('t \<Rightarrow> 'a http \<times> 't) \<Rightarrow> ('t, nat \<times> (string + 'a)) remote" where
  "send request = (\<lambda>t. case request t of (Inl msg, t') \<Rightarrow> (Inl msg, t') | (Inr resp, t') \<Rightarrow> (Inr resp, t'))"

definition error_for_status :: "nat \<times> (string + 'a) \<Rightarrow> string + (string + 'a)" where
  "error_for_status resp = (if is_error_status (fst resp) then Inl ''HTTP error status'' else Inr (snd resp))"

definition fetch :: "('t \<Rightarrow> 'a http \<times> 't) \<Rightarrow> ('t, 'a) remote" where
  "fetch request =
     st_bind (send request) (\<lambda>resp. st_bind (st_lift (error_for_status resp)) (\<lambda>body. st_lift body))"

definition remote_add :: "'t memory_api \<Rightarrow> note_input \<Rightarrow> ('t, note_id \<times> bool) remote" where
  "remote_add api input =
     st_bind (send (ma_add api
         \<lparr> ra_kind = in_kind input, ra_title = in_title input, ra_body = in_body input, ra_tags = in_tags input,
           ra_linked_files = in_linked_files input, ra_embedding = map_option blob_to_vec (in_embedding input),
           ra_source_ref = in_source_ref input, ra_valid_at = in_valid_at input \<rparr>))
       (\<lambda>resp.
          if fst resp = 409 then st_bind (st_lift (snd resp)) (\<lambda>r. st_ok (rr_id r, True))
          else st_bind (st_lift (error_for_status resp))
                 (\<lambda>body. st_bind (st_lift body) (\<lambda>r. st_ok (rr_id r, True))))"

definition remote_search :: "'t memory_api \<Rightarrow> string \<Rightarrow> string \<Rightarrow> nat \<Rightarrow> int option \<Rightarrow> ('t, mem_note list) remote" where
  "remote_search api query_blob question limit as_of =
     st_bind (fetch (ma_search api question limit)) (\<lambda>p. st_ok (map note_of_response (into_notes p)))"

definition remote_search_timeline :: "'t memory_api \<Rightarrow> string \<Rightarrow> string \<Rightarrow> nat \<Rightarrow> ('t, mem_note list) remote" where
  "remote_search_timeline api query_blob question limit = remote_search api query_blob question limit None"

definition remote_search_text :: "string \<Rightarrow> nat \<Rightarrow> int option \<Rightarrow> ('t, mem_note list) remote" where
  "remote_search_text question limit as_of =
     st_err ''BM25 text search is not supported by the remote memory backend.''"

definition remote_search_hybrid :: "'t memory_api \<Rightarrow> string \<Rightarrow> string \<Rightarrow> nat \<Rightarrow> int option \<Rightarrow> ('t, mem_note list) remote" where
  "remote_search_hybrid api query_blob question limit as_of = remote_search api query_blob question limit as_of"

definition remote_list ::
    "'t memory_api \<Rightarrow> string option \<Rightarrow> nat \<Rightarrow> bool \<Rightarrow> int option \<Rightarrow> ('t, mem_note list) remote" where
  "remote_list api kind_filter limit include_archived as_of =
     st_bind (fetch (ma_list api \<lparr> lq_limit = limit, lq_archived = include_archived, lq_kind = kind_filter,
         lq_as_of = as_of, lq_source_ref = None \<rparr>))
       (\<lambda>p. st_ok (map note_of_response (into_notes p)))"

definition remote_get :: "'t memory_api \<Rightarrow> note_id \<Rightarrow> ('t, mem_note option) remote" where
  "remote_get api i =
     st_bind (send (ma_get api i))
       (\<lambda>resp.
          if fst resp = 404 then st_ok None
          else st_bind (st_lift (error_for_status resp))
                 (\<lambda>body. st_bind (st_lift body) (\<lambda>r. st_ok (Some (note_of_response r)))))"

definition remote_count :: "'t memory_api \<Rightarrow> ('t, nat) remote" where
  "remote_count api = fetch (ma_stats api)"

definition remote_archive :: "'t memory_api \<Rightarrow> note_id \<Rightarrow> ('t, bool) remote" where
  "remote_archive api i = fetch (ma_archive api i)"

definition remote_supersede :: "'t memory_api \<Rightarrow> note_id \<Rightarrow> note_id \<Rightarrow> ('t, bool) remote" where
  "remote_supersede api old_id new_id = fetch (ma_supersede api old_id new_id)"

definition remote_list_by_source_ref ::
    "'t memory_api \<Rightarrow> string \<Rightarrow> nat \<Rightarrow> bool \<Rightarrow> int option \<Rightarrow> ('t, mem_note list) remote" where
  "remote_list_by_source_ref api prefix limit include_archived as_of =
     st_bind (fetch (ma_list api \<lparr> lq_limit = limit, lq_archived = include_archived, lq_kind = None,
         lq_as_of = None, lq_source_ref = Some prefix \<rparr>))
       (\<lambda>p. st_ok (map note_of_response (into_notes p)))"

definition remote_harvested_shas :: "'t memory_api \<Rightarrow> ('t, string set) remote" where
  "remote_harvested_shas api = st_bind (fetch (ma_shas api)) (\<lambda>p. st_ok (set (into_shas p)))"

definition remote_has_source_ref :: "'t memory_api \<Rightarrow> string \<Rightarrow> ('t, bool) remote" where
  "remote_has_source_ref api sha =
     st_bind (remote_list_by_source_ref api sha 1 True None) (\<lambda>found. st_ok (found \<noteq> []))"

definition remote_add_edge :: "int \<Rightarrow> int \<Rightarrow> string \<Rightarrow> ('t, unit) remote" where
  "remote_add_edge from_id to_id kind = st_ok ()"

definition remote_get_edges :: "int \<Rightarrow> ('t, memory_edge list \<times> memory_edge list) remote" where
  "remote_get_edges i = st_ok ([], [])"

section \<open>The team server behind it\<close>

definition add_request_of :: "remote_add_request \<Rightarrow> add_note_request" where
  "add_request_of r =
     \<lparr> aq_kind = ra_kind r, aq_title = ra_title r, aq_body = ra_body r, aq_tags = ra_tags r,
       aq_linked_files = ra_linked_files r, aq_embedding = ra_embedding r \<rparr>"

definition response_of :: "server_note \<Rightarrow> note_response" where
  "response_of n =
     \<lparr> nr_id = note_id_from_i64 (sv_id n), nr_kind = sv_kind n, nr_title = sv_title n, nr_body = sv_body n,
       nr_tags = sv_tags n, nr_linked_files = sv_linked_files n, nr_created_at = sv_created_at n,
       nr_status = sv_status n, nr_superseded_by = map_option note_id_from_i64 (sv_superseded_by n),
       nr_source_ref = None, nr_valid_at = None, nr_invalid_at = None, nr_remote_id = sv_remote_id n,
       nr_distance = None \<rparr>"

text \<open>An answer of a handler on the wire, and a request whose path or body has an id that is no \<open>i64\<close>.\<close>

definition answered :: "nat \<Rightarrow> ('a \<Rightarrow> 'b) \<Rightarrow> (app_error + 'a) \<times> server_db \<Rightarrow> 'b http \<times> server_db" where
  "answered status f out =
     (case out of (Inl e, d') \<Rightarrow> (Inr (status_of e, Inl []), d') | (Inr x, d') \<Rightarrow> (Inr (status, Inr (f x)), d'))"

definition with_i64 :: "nat \<Rightarrow> note_id \<Rightarrow> (int \<Rightarrow> server_db \<Rightarrow> 'a http \<times> server_db) \<Rightarrow> server_db \<Rightarrow> 'a http \<times> server_db" where
  "with_i64 refusal i f d = (case as_i64 i of Some n \<Rightarrow> f n d | None \<Rightarrow> (Inr (refusal, Inl []), d))"

definition server_add :: "app_state \<Rightarrow> string \<Rightarrow> remote_add_request \<Rightarrow> server_db \<Rightarrow> remote_add_response http \<times> server_db" where
  "server_add A slug r d =
     (case add_note_h A slug (add_request_of r) d of
        (Inl e, d') \<Rightarrow> (Inr (status_of e, Inl []), d')
      | (Inr (Refused i m), d') \<Rightarrow> (Inr (422, Inl []), d')
      | (Inr (Reply status resp), d') \<Rightarrow>
          (Inr (status, Inr \<lparr> rr_id = note_id_from_i64 (ar_id resp),
             rr_conflicts = map (\<lambda>(i, t). (note_id_from_i64 i, t)) (ar_conflicts resp),
             rr_remote_id = None \<rparr>), d'))"

definition server_api :: "app_state \<Rightarrow> string \<Rightarrow> server_db memory_api" where
  "server_api A slug =
     \<lparr> ma_add = server_add A slug,
       ma_search = (\<lambda>question limit d. answered 200 (\<lambda>ns. Enveloped (map (\<lambda>(n, dist). (response_of n)\<lparr> nr_distance := Some dist \<rparr>) ns))
         (search_notes_h A slug question limit d)),
       ma_list = (\<lambda>q d. answered 200 (\<lambda>ns. Enveloped (map response_of ns))
         (list_notes_h slug (lq_kind q) (lq_limit q) (lq_archived q) d)),
       ma_get = (\<lambda>i. with_i64 400 i (\<lambda>n d. answered 200 response_of (get_note_h slug n d))),
       ma_stats = (\<lambda>d. answered 200 pst_count (project_stats_h slug d)),
       ma_archive = (\<lambda>i. with_i64 400 i (\<lambda>n d. answered 200 id (archive_note_h slug n d))),
       ma_supersede = (\<lambda>i j. with_i64 400 i (\<lambda>n. with_i64 422 j
         (\<lambda>m d. answered 200 id (supersede_note_h slug n m d)))),
       ma_shas = (\<lambda>d. answered 200 EnvelopedShas (harvested_shas_h slug d)) \<rparr>"

section \<open>What the backend can rely on\<close>

lemma server_split_join:
  assumes "\<forall>v \<in> set vs. csv_member v"
  shows "server_split_csv (join_csv vs) = vs"
proof (cases "vs = []")
  case True
  then show ?thesis by (simp add: server_split_csv_def join_csv_def)
next
  case False
  then have "split_on comma (join_with [comma] vs) = vs"
    using assms by (intro split_on_join) (auto simp: csv_member_def)
  moreover have "map trim vs = vs" "filter (\<lambda>p. p \<noteq> []) vs = vs"
    using assms by (simp_all add: csv_member_def map_idI filter_id_conv)
  ultimately show ?thesis using False by (simp add: server_split_csv_def join_csv_def)
qed

definition rows_same :: "server_db \<Rightarrow> server_db \<Rightarrow> bool" where
  "rows_same d t \<longleftrightarrow> v_notes t = v_notes d \<and> v_projects t = v_projects d"

interpretation unchanged: step_order rows_same
  by unfold_locales (auto simp: rows_same_def)

lemma record_conflicts_same: "within rows_same (record_conflicts A pid i embedding)"
proof -
  have "within rows_same (insert_note_edge f g kind)" for f g kind
    by (simp add: within_def rows_same_def insert_note_edge_def)
  then show ?thesis
    unfolding record_conflicts_def db_call_def search_notes_for_conflicts_def add_edge_srv_def
    by (auto split: option.split prod.split intro!: unchanged.composes)
qed

lemma add_note_h_stored:
  assumes inv: "server_inv d" and run: "add_note_h A slug req d = (Inr (Reply st resp), t)"
  shows "validate_project_slug slug = Inr () \<and> server_inv t \<and> ar_id resp = v_note_seq d + 1 \<and>
    (\<exists>p sid now. find_project slug t = Some p \<and>
       v_notes t = v_notes d @ [new_row (vp_id p) (aq_kind req) (aq_title req) (aq_body req) (aq_tags req)
         (aq_linked_files req) None sid (ar_id resp) now])"
proof -
  let ?emb = "embedding_for A (aq_title req) (aq_body req) (aq_embedding req)"
  from run obtain dim p u i sid v w conflicts where
    slug: "validate_project_slug slug = Inr ()" and
    up: "upsert_project slug dim (v_model d) d = (Inr p, u)" and
    add: "add_note_srv (vp_id p) (aq_kind req) (aq_title req) (aq_body req) (aq_tags req) (aq_linked_files req)
      ?emb None u = (Inr (i, sid), v)" and
    conf: "record_conflicts A (vp_id p) i ?emb v = (Inr conflicts, t)" and resp: "ar_id resp = i"
    by (auto simp: add_note_h_def st_runs st_bind_iff db_call_iffs Let_def split: option.splits)
  note found = upsert_found [OF up]
  from add_note_srv_stored [OF add] projects_changed_same [OF found(4)]
  have rows: "v_notes v = v_notes d @ [new_row (vp_id p) (aq_kind req) (aq_title req) (aq_body req) (aq_tags req)
      (aq_linked_files req) None sid i (now_unix (ticked u))]" and i: "i = v_note_seq d + 1" by auto
  from withinD [OF record_conflicts_same conf] have same: "v_notes t = v_notes v" "v_projects t = v_projects v"
    by (simp_all add: rows_same_def)
  have "find_project slug t = Some p"
    using found(1) add_note_srv_env(1) [OF add] same(2) by (simp add: find_project_def)
  moreover have "server_inv t" using withinD [OF keeps_add_note_h run] inv by (simp add: keeping_def)
  ultimately show ?thesis using slug rows i same(1) resp by auto
qed

lemma get_note_h_found:
  assumes inv: "server_inv t" and p: "find_project slug t = Some p" "validate_project_slug slug = Inr ()"
    and r: "r \<in> set (v_notes t)" "vn_project r = vp_id p"
  shows "get_note_h slug (vn_id r) t = (Inr (row_to_server_note r), t)"
proof -
  have "find (\<lambda>q. vn_id q = vn_id r \<and> vn_project q = vp_id p) (v_notes t) = Some r"
    using r row_unique [OF inv _ r(1)] by (intro find_unique) auto
  then show ?thesis
    using p by (simp add: get_note_h_def require_project_def get_project_def get_note_srv_def db_call_def st_run
        st_bind_def st_map_err_def)
qed

text \<open>An entry added through the team server is read back under the returned id with its kind, title, body,
  tags and files, active; its commit reference and its validity are not kept.\<close>

lemma remote_add_then_get:
  assumes inv: "server_inv d" and run: "remote_add (server_api A slug) input d = (Inr (i, fresh), t)"
    and csv: "\<forall>v \<in> set (in_tags input @ in_linked_files input). csv_member v" and id: "in_i64 (v_note_seq d + 1)"
  shows "\<exists>n. remote_get (server_api A slug) i t = (Inr (Some n), t) \<and> n_id n = i \<and> n_kind n = in_kind input \<and>
    n_title n = in_title input \<and> n_body n = in_body input \<and> n_tags n = in_tags input \<and>
    n_linked_files n = in_linked_files input \<and> n_status n = active \<and> n_source_ref n = None \<and> n_valid_at n = None"
proof -
  let ?req = "add_request_of \<lparr> ra_kind = in_kind input, ra_title = in_title input, ra_body = in_body input,
    ra_tags = in_tags input, ra_linked_files = in_linked_files input,
    ra_embedding = map_option blob_to_vec (in_embedding input), ra_source_ref = in_source_ref input,
    ra_valid_at = in_valid_at input \<rparr>"
  from run obtain st resp where add: "add_note_h A slug ?req d = (Inr (Reply st resp), t)"
    and i: "i = note_id_from_i64 (ar_id resp)"
    by (auto simp: remote_add_def server_api_def server_add_def send_def st_bind_def st_runs error_for_status_def
        split: prod.splits sum.splits reply.splits if_splits)
  from add_note_h_stored [OF inv add] obtain p sid now where
    slug: "validate_project_slug slug = Inr ()" and t: "server_inv t" and seq: "ar_id resp = v_note_seq d + 1"
    and p: "find_project slug t = Some p" and rows: "v_notes t = v_notes d @ [new_row (vp_id p) (in_kind input)
      (in_title input) (in_body input) (in_tags input) (in_linked_files input) None sid (ar_id resp) now]"
    by (auto simp: add_request_of_def)
  let ?r = "new_row (vp_id p) (in_kind input) (in_title input) (in_body input) (in_tags input)
    (in_linked_files input) None sid (ar_id resp) now"
  have "get_note_h slug (ar_id resp) t = (Inr (row_to_server_note ?r), t)"
    using get_note_h_found [OF t p slug, of ?r] rows by simp
  moreover have "as_i64 i = Some (ar_id resp)" using id seq by (simp add: i)
  ultimately have "remote_get (server_api A slug) i t = (Inr (Some (note_of_response (response_of (row_to_server_note ?r)))), t)"
    by (simp add: remote_get_def server_api_def with_i64_def answered_def send_def st_bind_def st_runs
        error_for_status_def is_error_status_def)
  then show ?thesis
    using csv by (auto simp: note_of_response_def response_of_def row_to_server_note_def i server_split_join)
qed

text \<open>Whether a commit was harvested is not what the backend learns from a team server: the server does not
  know the filter, so the answer is whether the project has any entry.\<close>

lemma remote_has_source_ref_any:
  assumes "find_project slug d = Some p" and "validate_project_slug slug = Inr ()"
  shows "remote_has_source_ref (server_api A slug) sha d =
    (Inr (\<exists>r \<in> set (v_notes d). vn_project r = vp_id p), d)"
proof -
  let ?rows = "filter (\<lambda>r. vn_project r = vp_id p) (v_notes d)"
  have "take 1 (sort_key (\<lambda>r. - vn_created_at r) ?rows) = [] \<longleftrightarrow> ?rows = []"
    by (metis length_0_conv length_sort take_eq_Nil zero_neq_one)
  moreover have "?rows = [] \<longleftrightarrow> \<not> (\<exists>r \<in> set (v_notes d). vn_project r = vp_id p)"
    by (simp add: filter_empty_conv)
  ultimately show ?thesis
    using assms
    by (simp add: remote_has_source_ref_def remote_list_by_source_ref_def server_api_def list_notes_h_def
        require_project_def get_project_def list_notes_srv_def answered_def fetch_def send_def db_call_def st_run
        st_bind_def st_map_err_def error_for_status_def is_error_status_def)
qed

end
