(* ===== verification/ServerRuns.thy ===== *)
theory ServerRuns
  imports ServerArrivals RemoteBackend
begin

text \<open>
  Runs of a concrete team server: an empty database with vectors of dimension 2, without an embedder,
  to which a batch of one entry is pushed.  At these inputs the properties of the server apply.
\<close>

definition quiet_app :: app_state where
  "quiet_app =
     \<lparr> ap_embedder = \<lparr> es_state = Disabled, es_backend = None, es_detail = None \<rparr>, ap_admits = True,
       ap_retry_after = 1, ap_conflict_distance = None, ap_is_match = (\<lambda>_ _. False),
       ap_nearest = (\<lambda>_ _ _. []), ap_rfc3339 = (\<lambda>_. ''t'') \<rparr>"

definition fresh_server :: server_db where
  "fresh_server =
     \<lparr> v_projects = [], v_notes = [], v_edges = [], v_vecs = [], v_vec_dim = 2, v_meta = (\<lambda>_. None),
       v_project_seq = 0, v_note_seq = 0, v_dim = 2, v_model = ''m'',
       v_mint = (\<lambda>k. replicate (k + 1) CHR ''z''), v_time = int, v_tick = 0 \<rparr>"

lemma replicate_less: "i < j \<Longrightarrow> replicate i c < (replicate j c :: string)"
proof (induction i arbitrary: j)
  case (Suc i)
  then show ?case by (cases j) simp_all
qed (auto simp: gr0_conv_Suc)

lemma fresh_server_inv: "server_inv fresh_server"
  by (auto simp: server_inv_def fresh_server_def strict_mono_def projects_ok_def rows_ok_def note_edges_ok_def
      vectors_ok_def unique_rows_def replicate_less)

definition demo_push_item :: batch_push_item where
  "demo_push_item = \<lparr> b_kind = ''note'', b_title = ''a'', b_body = None, b_external_id = ''x'',
     b_source_commit = None, b_vector = None, b_vector_model = None, b_vector_precision = None \<rparr>"

definition demo_item :: batch_note_item where
  "demo_item = batch_note_of demo_push_item"

definition demo_slug :: string where "demo_slug = ''p''"

lemma demo_checks_of:
  assumes "x \<noteq> []"
  shows "batch_checks quiet_app demo_slug [demo_item\<lparr> bn_external_id := x \<rparr>] 2 = Inr None"
  using assms
  by (simp add: batch_checks_def validate_project_slug_def MAX_SLUG_LEN_def MAX_BATCH_ENTRIES_def
      validate_title_body_def MAX_TITLE_LEN_def MAX_BODY_LEN_def validate_embedding_dim_def scan_for_injection_def
      chars_count_def demo_item_def demo_push_item_def batch_note_of_def demo_slug_def body_text_def quiet_app_def
      injection_patterns_def cont_byte_def byte_def)

lemma demo_checks: "batch_checks quiet_app demo_slug [demo_item] 2 = Inr None"
  using demo_checks_of [of "bn_external_id demo_item"] by (simp add: demo_item_def demo_push_item_def batch_note_of_def)

definition demo_stored :: server_db where
  "demo_stored = snd (batch_stores quiet_app demo_slug [demo_item] fresh_server)"

lemma demo_stores:
  "\<exists>p rs. batch_stores quiet_app demo_slug [demo_item] fresh_server = (Inr (p, rs), demo_stored)"
proof -
  have "(case fst (batch_stores quiet_app demo_slug [demo_item] fresh_server) of Inr _ \<Rightarrow> True | Inl _ \<Rightarrow> False)"
    by code_simp
  then show ?thesis
    by (auto simp: demo_stored_def prod_eq_iff split: sum.splits)
qed

lemma demo_push:
  "\<exists>res. push_memory_batch quiet_app demo_slug [demo_item] fresh_server = (Inr (Reply 207 res), demo_stored)"
  using demo_stores demo_checks by (auto simp: push_memory_batch_eq fresh_server_def)

lemma demo_stored_inv: "server_inv demo_stored"
  using demo_push withinD [OF keeps_push] fresh_server_inv by (fastforce simp: keeping_def)

lemma demo_row:
  "\<exists>r. v_notes demo_stored = [r] \<and> vn_id r = 1 \<and> vn_project r = 1 \<and> vn_status r = active \<and>
     vn_remote_id r = Some ''x'' \<and> vn_sync_id r = Some ''z''"
proof -
  have "map (\<lambda>r. (vn_id r, vn_project r, vn_status r, vn_remote_id r, vn_sync_id r)) (v_notes demo_stored) =
      [(1, 1, active, Some ''x'', Some ''z'')]" by code_simp
  then show ?thesis by auto
qed

lemma demo_project: "\<exists>p. find_project demo_slug demo_stored = Some p \<and> vp_id p = 1 \<and> vp_dim p = 2"
proof -
  have "map_option (\<lambda>p. (vp_id p, vp_dim p)) (find_project demo_slug demo_stored) = Some (1, 2)" by code_simp
  then show ?thesis by auto
qed

section \<open>The properties at these runs\<close>


lemma projects_are_isolated_witness:
  "\<exists>p. find_project demo_slug demo_stored = Some p \<and>
     rows_of (vp_id p) (serve_all quiet_app [PushBatch ''q'' [demo_item]] demo_stored) = rows_of (vp_id p) demo_stored"
  using demo_project projects_are_isolated [OF demo_stored_inv, of demo_slug _ "[PushBatch ''q'' [demo_item]]" quiet_app]
  by (auto simp: demo_slug_def)

lemma push_batch_acknowledges_witness:
  "\<exists>res. push_memory_batch quiet_app demo_slug [demo_item] fresh_server = (Inr (Reply 207 res), demo_stored) \<and>
     br_created res + br_skipped res = 1"
  using demo_push push_batch_acknowledges [OF fresh_server_inv, of quiet_app demo_slug "[demo_item]"]
  by fastforce

lemma push_batch_idempotent_witness:
  "\<exists>again. push_memory_batch quiet_app demo_slug [demo_item] demo_stored = (Inr (Reply 207 again), demo_stored) \<and>
     br_created again = 0"
  using demo_push push_batch_idempotent [OF fresh_server_inv, of quiet_app demo_slug "[demo_item]"]
  by blast

definition demo_archived :: server_db where
  "demo_archived = snd (archive_note_h demo_slug 1 demo_stored)"

lemma demo_archived_inv: "server_inv demo_archived"
  using srv_keeps_archive [of demo_slug 1] demo_stored_inv by (simp add: within_def keeping_def demo_archived_def)

lemma demo_archived_row:
  "\<exists>r. v_notes demo_archived = [r] \<and> vn_project r = 1 \<and> vn_status r = archived \<and> vn_remote_id r = Some ''x''"
proof -
  have "map (\<lambda>r. (vn_project r, vn_status r, vn_remote_id r)) (v_notes demo_archived) = [(1, archived, Some ''x'')]"
    by code_simp
  then show ?thesis by auto
qed

lemma demo_archived_project: "\<exists>p. find_project demo_slug demo_archived = Some p \<and> vp_id p = 1"
proof -
  have "map_option vp_id (find_project demo_slug demo_archived) = Some 1" by code_simp
  then show ?thesis by auto
qed

lemma demo_archived_dim: "v_dim demo_archived = 2"
  by code_simp

lemma archived_entry_blocks_push_witness:
  "\<exists>x t. push_memory_batch quiet_app demo_slug [demo_item] demo_archived = (Inl (Internal x), t)"
proof -
  obtain r where r: "v_notes demo_archived = [r]" "vn_project r = 1" "vn_status r = archived" "vn_remote_id r = Some ''x''"
    using demo_archived_row by blast
  obtain p where p: "find_project demo_slug demo_archived = Some p" "vp_id p = 1"
    using demo_archived_project by blast
  have "bn_external_id demo_item = ''x''" by code_simp
  with archived_entry_blocks_push [OF demo_archived_inv p(1), of r demo_item "[demo_item]" quiet_app] r p(2) demo_checks
  show ?thesis by (auto simp: demo_archived_dim)
qed

definition demo_net :: "(server_db \<times> nat) outside" where
  "demo_net = server_outside quiet_app demo_slug (\<lambda>_. ''u'') 7 (\<lambda>_. Some 7)"

lemma demo_pull:
  "\<exists>s' t'. pull_and_apply_since 2 demo_net plain_hashing None (empty_store, demo_stored, 0) = (Inr 1, s', t')"
proof -
  have "fst (pull_and_apply_since 2 demo_net plain_hashing None (empty_store, demo_stored, 0)) = Inr 1"
    by code_simp
  then show ?thesis by (metis prod.collapse)
qed


definition demo_later :: server_db where
  "demo_later = serve_all quiet_app [PushBatch demo_slug [demo_item\<lparr> bn_external_id := ''y'' \<rparr>]] demo_stored"

lemma arrivals_past_every_cursor_witness:
  "\<exists>r \<in> set (v_notes demo_later). vn_id r = 2 \<and> (\<exists>i. vn_sync_id r = Some i \<and> ''z'' < i)"
proof -
  have "map vn_id (v_notes (snd (batch_stores quiet_app demo_slug [demo_item\<lparr> bn_external_id := ''y'' \<rparr>] demo_stored))) = [1, 2]"
    by code_simp
  moreover have "v_dim demo_stored = 2" by code_simp
  ultimately have "map vn_id (v_notes demo_later) = [1, 2]"
    using demo_checks_of [of "''y''"] by (cases "batch_stores quiet_app demo_slug [demo_item\<lparr> bn_external_id := ''y'' \<rparr>] demo_stored";
        cases "fst (batch_stores quiet_app demo_slug [demo_item\<lparr> bn_external_id := ''y'' \<rparr>] demo_stored)")
      (auto simp: demo_later_def serve_all_def push_memory_batch_eq)
  then obtain r where r: "r \<in> set (v_notes demo_later)" "vn_id r = 2" by (auto simp: map_eq_Cons_conv intro: that)
  obtain q where "v_notes demo_stored = [q]" "vn_id q = 1" "vn_sync_id q = Some ''z''" using demo_row by blast
  with arrivals_past_every_cursor [OF demo_stored_inv, of q "''z''" r quiet_app] r show ?thesis
    by (auto simp: note_ids_def demo_later_def)
qed

definition demo_input :: note_input where
  "demo_input = \<lparr> in_kind = ''note'', in_title = ''a'', in_body = ''b'', in_tags = [''t''], in_linked_files = [],
     in_embedding = None, in_source_ref = Some ''c'', in_valid_at = None, in_supersedes = None \<rparr>"

lemma remote_add_then_get_witness:
  "\<exists>i fresh t n. remote_add (server_api quiet_app demo_slug) demo_input fresh_server = (Inr (i, fresh), t) \<and>
     remote_get (server_api quiet_app demo_slug) i t = (Inr (Some n), t) \<and> n_title n = ''a'' \<and> n_source_ref n = None"
proof -
  have "is_ok (fst (remote_add (server_api quiet_app demo_slug) demo_input fresh_server))"
    by (simp add: remote_add_def server_api_def server_add_def add_note_h_def demo_input_def st_run st_bind_def
        st_runs is_ok_iff add_request_of_def Let_def send_def error_for_status_def is_error_status_def
        validate_project_slug_def MAX_SLUG_LEN_def validate_title_body_def MAX_TITLE_LEN_def MAX_BODY_LEN_def
        validate_embedding_dim_def scan_for_injection_def chars_count_def demo_slug_def quiet_app_def
        injection_patterns_def cont_byte_def byte_def embedding_for_def db_call_def st_map_err_def
        upsert_project_def get_project_def find_project_def fresh_server_def insert_project_def add_note_srv_def
        insert_server_note_def mint_id_def note_conflict_def project_ids_def record_conflicts_def new_row_def) blast
  then obtain i fresh t where run: "remote_add (server_api quiet_app demo_slug) demo_input fresh_server = (Inr (i, fresh), t)"
    by (auto simp: is_ok_iff prod_eq_iff)
  have "\<forall>v \<in> set (in_tags demo_input @ in_linked_files demo_input). csv_member v" "in_i64 (v_note_seq fresh_server + 1)"
    by code_simp+
  from remote_add_then_get [OF fresh_server_inv run this] run show ?thesis by (auto simp: demo_input_def)
qed

lemma remote_has_source_ref_any_witness:
  "fst (remote_has_source_ref (server_api quiet_app demo_slug) ''0123'' demo_stored) = Inr True"
proof -
  obtain p where p: "find_project demo_slug demo_stored = Some p" "vp_id p = 1" using demo_project by blast
  have "validate_project_slug demo_slug = Inr ()" by (simp add: validate_project_slug_def demo_slug_def MAX_SLUG_LEN_def)
  from remote_has_source_ref_any [OF p(1) this, of quiet_app "''0123''"] demo_row p(2) show ?thesis by auto
qed

end
