(* ===== verification/ServerLimits.thy ===== *)
theory ServerLimits
  imports ServerHandlers
begin

text \<open>
  The gate before the handlers: \<open>spelunk-server/src/rate_limiter.rs\<close>, \<open>auth.rs\<close> and the key of a
  request's budget in \<open>handlers/mod.rs\<close>.  An instant is a \<open>nat\<close>, and \<open>duration_since\<close> saturates at 0;
  BLAKE3 is a parameter.
\<close>

section \<open>The rate limiter\<close>

record window_entry =
  we_count :: nat
  we_start :: nat

type_synonym windows = "string \<rightharpoonup> window_entry"

definition check_entry :: "nat \<Rightarrow> nat \<Rightarrow> nat \<Rightarrow> window_entry option \<Rightarrow> bool \<times> window_entry" where
  "check_entry max_requests window now entry =
     (let e = (case entry of Some e \<Rightarrow> e | None \<Rightarrow> \<lparr> we_count = 0, we_start = now \<rparr>);
          e = (if window \<le> now - we_start e then \<lparr> we_count = 0, we_start = now \<rparr> else e)
      in if max_requests \<le> we_count e then (False, e)
         else (True, e\<lparr> we_count := we_count e + 1 \<rparr>))"

definition check_rate :: "nat \<Rightarrow> nat \<Rightarrow> nat \<Rightarrow> string \<Rightarrow> windows \<Rightarrow> bool \<times> windows" where
  "check_rate max_requests window now who w =
     (case check_entry max_requests window now (w who) of (yes, e) \<Rightarrow> (yes, w(who \<mapsto> e)))"

text \<open>The requests that a sequence of checks admits: their instant and principal.\<close>

fun admitted :: "nat \<Rightarrow> nat \<Rightarrow> windows \<Rightarrow> (nat \<times> string) list \<Rightarrow> (nat \<times> string) list" where
  "admitted max_requests window w [] = []"
| "admitted max_requests window w ((now, who) # reqs) =
     (case check_rate max_requests window now who w of
        (yes, w') \<Rightarrow> (if yes then [(now, who)] else []) @ admitted max_requests window w' reqs)"

fun admitted_one :: "nat \<Rightarrow> nat \<Rightarrow> window_entry option \<Rightarrow> nat list \<Rightarrow> nat list" where
  "admitted_one max_requests window e [] = []"
| "admitted_one max_requests window e (now # ts) =
     (case check_entry max_requests window now e of
        (yes, e') \<Rightarrow> (if yes then [now] else []) @ admitted_one max_requests window (Some e') ts)"

lemma admitted_of_principal:
  "map fst (filter (\<lambda>r. snd r = p) (admitted n W w reqs)) =
     admitted_one n W (w p) (map fst (filter (\<lambda>r. snd r = p) reqs))"
  by (induction n W w reqs rule: admitted.induct) (auto simp: check_rate_def split: prod.split)

lemma admitted_one_subset: "set (admitted_one n W e ts) \<subseteq> set ts"
  by (induction ts arbitrary: e) (auto split: prod.splits if_splits)

definition in_span :: "nat \<Rightarrow> nat \<Rightarrow> nat \<Rightarrow> bool" where
  "in_span a W t \<longleftrightarrow> a \<le> t \<and> t < a + W"

lemma none_after:
  assumes "\<forall>t \<in> set ts. a + W \<le> t"
  shows "filter (in_span a W) (admitted_one n W e ts) = []"
  using assms admitted_one_subset [of n W e ts] by (fastforce simp: filter_empty_conv in_span_def)

text \<open>What the budget of a window leaves for the span from \<open>a\<close>: a window that starts in it is the last.\<close>

definition span_budget :: "nat \<Rightarrow> nat \<Rightarrow> window_entry \<Rightarrow> nat list \<Rightarrow> nat" where
  "span_budget n a e ts =
     (if a \<le> we_start e then n - we_count e
      else if \<forall>t \<in> set ts. a \<le> t then 2 * n - we_count e else 2 * n)"

lemma admitted_one_bound:
  assumes "sorted ts" and "\<forall>t \<in> set ts. we_start e \<le> t" and "we_count e \<le> n"
  shows "length (filter (in_span a W) (admitted_one n W (Some e) ts)) \<le> span_budget n a e ts"
  using assms
proof (induction ts arbitrary: e)
  case Nil
  then show ?case by simp
next
  case (Cons t ts)
  let ?reset = "W \<le> t - we_start e"
  let ?f = "if ?reset then \<lparr> we_count = 0, we_start = t \<rparr> else e"
  let ?g = "if n \<le> we_count ?f then ?f else ?f\<lparr> we_count := we_count ?f + 1 \<rparr>"
  have run: "admitted_one n W (Some e) (t # ts) =
      (if n \<le> we_count ?f then [] else [t]) @ admitted_one n W (Some ?g) ts"
    by (simp add: check_entry_def Let_def)
  have g: "we_count ?g \<le> n" "\<forall>u \<in> set ts. we_start ?g \<le> u" and ts: "sorted ts"
    using Cons.prems by (auto split: if_splits)
  note IH = Cons.IH [OF ts g(2,1)]
  have late: "\<forall>u \<in> set ts. t \<le> u" using Cons.prems(1) by simp
  show ?case
  proof (cases "?reset \<and> a \<le> we_start e")
    case True
    moreover have "we_start e \<le> t" using Cons.prems(2) by simp
    ultimately have "a + W \<le> t" by linarith
    then have "filter (in_span a W) (admitted_one n W (Some e) (t # ts)) = []"
      using late by (intro none_after) force
    then show ?thesis by simp
  next
    case False
    have start: "we_start e \<le> t" using Cons.prems(2) by simp
    show ?thesis
    proof (cases "a \<le> t")
      case True
      with late have all: "\<forall>u \<in> set ts. a \<le> u" by force
      show ?thesis using IH False True all start Cons.prems(3) unfolding run
        by (cases "?reset"; cases "n \<le> we_count e"; cases "n = 0")
          (auto simp: span_budget_def split: if_splits)
    next
      case early: False
      with start have "\<not> a \<le> we_start e" by simp
      then have "span_budget n a e (t # ts) = 2 * n" using early by (simp add: span_budget_def)
      moreover have "span_budget n a ?g ts \<le> 2 * n" by (auto simp: span_budget_def)
      ultimately show ?thesis using IH early unfolding run by (simp add: in_span_def)
    qed
  qed
qed

lemma admitted_one_fresh:
  assumes "sorted ts"
  shows "length (filter (in_span a W) (admitted_one n W None ts)) \<le> 2 * n"
proof (cases ts)
  case (Cons t us)
  let ?e = "\<lparr> we_count = 0, we_start = t \<rparr>"
  have "admitted_one n W None ts = admitted_one n W (Some ?e) ts"
    by (simp add: Cons check_entry_def Let_def)
  moreover have "length (filter (in_span a W) (admitted_one n W (Some ?e) ts)) \<le> span_budget n a ?e ts"
    using assms Cons by (intro admitted_one_bound) auto
  moreover have "span_budget n a ?e ts \<le> 2 * n" by (simp add: span_budget_def)
  ultimately show ?thesis by simp
qed simp

text \<open>C30: in every span as long as the window a principal is admitted at most twice the limit, whatever the
  instants of its requests and whatever the other principals do.\<close>
theorem admits_at_most_twice:
  assumes "sorted (map fst reqs)"
  shows "length (filter (\<lambda>(t, p). p = who \<and> a \<le> t \<and> t < a + window)
    (admitted max_requests window Map.empty reqs)) \<le> 2 * max_requests"
proof -
  let ?ts = "map fst (filter (\<lambda>r. snd r = who) reqs)"
  have "sorted ?ts"
    using assms by (simp add: sorted_map sorted_wrt_filter)
  then have "length (filter (in_span a window) (admitted_one max_requests window None ?ts)) \<le> 2 * max_requests"
    by (rule admitted_one_fresh)
  then have "length (filter (in_span a window)
      (map fst (filter (\<lambda>r. snd r = who) (admitted max_requests window Map.empty reqs)))) \<le> 2 * max_requests"
    by (simp only: admitted_of_principal)
  then show ?thesis
    by (simp add: filter_map in_span_def case_prod_unfold comp_def conj_ac)
qed

lemma admits_at_most_twice_witness:
  "length (filter (\<lambda>(t, p). p = ''a'' \<and> 9 \<le> t \<and> t < 9 + 10)
     (admitted 1 10 Map.empty [(0, ''a''), (9, ''b''), (9, ''a''), (10, ''a''), (11, ''a'')])) \<le> 2 * 1 \<and>
   admitted 1 10 Map.empty [(0, ''a''), (9, ''b''), (9, ''a''), (10, ''a''), (11, ''a'')] =
     [(0, ''a''), (9, ''b''), (10, ''a'')]"
  using admits_at_most_twice [of "[(0, ''a''), (9, ''b''), (9, ''a''), (10, ''a''), (11, ''a'')]" "''a''" 9 10 1]
  by (simp add: check_rate_def check_entry_def)

section \<open>Authentication\<close>

datatype caller = ApiKey string | User string

definition api_key_hash :: "(string \<Rightarrow> string) \<Rightarrow> string option \<Rightarrow> string option" where
  "api_key_hash blake3 key = map_option blake3 key"

definition authenticate :: "(string \<Rightarrow> string) \<Rightarrow> string option \<Rightarrow> string option \<Rightarrow> string + caller" where
  "authenticate blake3 key_hash authorization =
     (case key_hash of
        None \<Rightarrow> Inr (ApiKey [])
      | Some expected \<Rightarrow>
          (case Option.bind authorization (strip_prefix ''Bearer '') of
             None \<Rightarrow> Inl ''Unauthorized''
           | Some token \<Rightarrow> if expected = blake3 token then Inr (ApiKey token) else Inl ''Unauthorized''))"

definition client_ip_key :: "string option \<Rightarrow> string option \<Rightarrow> string" where
  "client_ip_key forwarded_for peer =
     (let first = (case forwarded_for of Some xff \<Rightarrow> trim (hd (split_on comma xff)) | None \<Rightarrow> []) in
      if first \<noteq> [] then first else (case peer of Some ip \<Rightarrow> ip | None \<Rightarrow> ''unknown''))"

definition rate_limit_key :: "caller \<Rightarrow> string option \<Rightarrow> string option \<Rightarrow> string" where
  "rate_limit_key who forwarded_for peer =
     (case who of ApiKey k \<Rightarrow> k | User i \<Rightarrow> i) @ ''|'' @ client_ip_key forwarded_for peer"

lemma strip_prefix_iff: "strip_prefix p s = Some t \<longleftrightarrow> s = p @ t"
  by (auto simp: strip_prefix_def starts_with_def split: if_splits) (metis append_take_drop_id)

text \<open>A configured key admits exactly the requests that carry it, if its digest has no other preimage at hand.\<close>

lemma authenticate_iff:
  assumes "\<And>t. blake3 t = blake3 key \<Longrightarrow> t = key"
  shows "is_ok (authenticate blake3 (api_key_hash blake3 (Some key)) authorization) \<longleftrightarrow>
    authorization = Some (''Bearer '' @ key)"
proof (cases "Option.bind authorization (strip_prefix ''Bearer '')")
  case None
  then have "authorization \<noteq> Some (''Bearer '' @ key)"
    using strip_prefix_iff [of "''Bearer ''" "''Bearer '' @ key" key] by auto
  with None show ?thesis by (simp add: authenticate_def api_key_hash_def is_ok_iff)
next
  case (Some token)
  then have "authorization = Some (''Bearer '' @ token)"
    by (cases authorization) (auto simp: strip_prefix_iff)
  moreover have "blake3 key = blake3 token \<longleftrightarrow> token = key" using assms by metis
  ultimately show ?thesis using Some by (auto simp: authenticate_def api_key_hash_def is_ok_iff)
qed

end
