(* ===== verification/Reconcile.thy ===== *)
theory Reconcile
  imports ServerDb EntityIdMigration SyncRound
begin

text \<open>
  \<open>spelunk memory reconcile\<close> (\<open>spelunk-cli/src/cli/cmd/memory/reconcile.rs\<close>): the entries that a local
  daemon's \<open>server.db\<close> has of a project and \<open>memory.db\<close> lacks are imported in one transaction.  Rows
  are matched by the hash of their content.  What the command prints is its summary; an error comes
  with the summary that was printed before it, if one was.
\<close>

section \<open>Candidates\<close>

record candidate =
  c_id :: int
  c_kind :: string
  c_title :: string
  c_body :: string
  c_tags :: string
  c_linked_files :: string
  c_created_at :: int
  c_status :: string
  c_superseded_by :: "int option"

definition cand_entity_id :: "hashing \<Rightarrow> candidate \<Rightarrow> string" where
  "cand_entity_id E c = entity_id E (c_kind c) (c_title c) (c_body c)"

definition split_field :: "string \<Rightarrow> string list" where
  "split_field csv = filter (\<lambda>s. s \<noteq> []) (map trim (split_on comma csv))"

definition coalesce_text :: "string option \<Rightarrow> string" where
  "coalesce_text col = (case col of Some s \<Rightarrow> s | None \<Rightarrow> [])"

definition candidate_of :: "server_row \<Rightarrow> candidate" where
  "candidate_of r =
     \<lparr> c_id = vn_id r, c_kind = vn_kind r, c_title = vn_title r, c_body = vn_body r,
       c_tags = coalesce_text (vn_tags r), c_linked_files = coalesce_text (vn_linked_files r),
       c_created_at = vn_created_at r, c_status = vn_status r, c_superseded_by = vn_superseded_by r \<rparr>"

definition read_server_notes :: "int \<Rightarrow> server_db \<Rightarrow> candidate list" where
  "read_server_notes project_id d =
     map candidate_of (sort_key vn_created_at (filter (\<lambda>r. vn_project r = project_id) (v_notes d)))"

section \<open>Rows of one entity are one entry\<close>

record merged_note =
  mn_entity_id :: string
  mn_kind :: string
  mn_title :: string
  mn_body :: string
  mn_tags :: "string list"
  mn_linked_files :: "string list"
  mn_created_at :: int
  mn_status :: string
  mn_rows :: nat

definition from_server :: "string \<Rightarrow> candidate \<Rightarrow> merged_note" where
  "from_server eid c =
     \<lparr> mn_entity_id = eid, mn_kind = c_kind c, mn_title = c_title c, mn_body = c_body c,
       mn_tags = split_field (c_tags c), mn_linked_files = split_field (c_linked_files c),
       mn_created_at = c_created_at c, mn_status = c_status c, mn_rows = 1 \<rparr>"

definition push_absent :: "string \<Rightarrow> string list \<Rightarrow> string list" where
  "push_absent t ts = (if t \<in> set ts then ts else ts @ [t])"

definition absorb :: "candidate \<Rightarrow> merged_note \<Rightarrow> merged_note" where
  "absorb c m =
     m\<lparr> mn_tags := fold push_absent (split_field (c_tags c)) (mn_tags m),
        mn_linked_files := fold push_absent (split_field (c_linked_files c)) (mn_linked_files m),
        mn_status := (if c_status c = archived then archived else mn_status m),
        mn_created_at := min (mn_created_at m) (c_created_at c),
        mn_rows := mn_rows m + 1 \<rparr>"

definition collapse_one :: "hashing \<Rightarrow> candidate \<Rightarrow> merged_note list \<Rightarrow> merged_note list" where
  "collapse_one E c ms =
     (let eid = cand_entity_id E c in
      if eid \<in> mn_entity_id ` set ms
      then map (\<lambda>m. if mn_entity_id m = eid then absorb c m else m) ms
      else ms @ [from_server eid c])"

definition collapse_candidates :: "hashing \<Rightarrow> candidate list \<Rightarrow> merged_note list" where
  "collapse_candidates E cs = fold (collapse_one E) cs []"

text \<open>The successor of an entity: the first of its rows whose successor is a candidate names it.\<close>

definition build_supersede_edges :: "hashing \<Rightarrow> candidate list \<Rightarrow> (string \<rightharpoonup> string)" where
  "build_supersede_edges E cs =
     map_of (filter_map
       (\<lambda>c. Option.bind (c_superseded_by c)
          (\<lambda>i. map_option (\<lambda>succ. (cand_entity_id E c, cand_entity_id E succ)) (find (\<lambda>q. c_id q = i) cs)))
       cs)"

section \<open>The import\<close>

datatype recon_error =
    SourceUnreadable string
  | StoreFailed db_error
  | ImportFailed db_error

record reconcile_summary =
  rs_slug :: string
  rs_candidates :: nat
  rs_already_present :: nat
  rs_collapsed :: nat
  rs_imported :: nat
  rs_would_import :: nat
  rs_without_embedding :: nat
  rs_unresolved :: nat
  rs_errors :: "(string \<times> recon_error) list"

definition new_summary :: "string \<Rightarrow> reconcile_summary" where
  "new_summary slug =
     \<lparr> rs_slug = slug, rs_candidates = 0, rs_already_present = 0, rs_collapsed = 0, rs_imported = 0,
       rs_would_import = 0, rs_without_embedding = 0, rs_unresolved = 0, rs_errors = [] \<rparr>"

text \<open>The inference client turns a text into a vector or fails; there may be none.\<close>

type_synonym embed_client = "(string \<Rightarrow> string + nat list) option"

definition try_embed :: "embed_client \<Rightarrow> string \<Rightarrow> string option" where
  "try_embed client txt =
     (case client of
        None \<Rightarrow> None
      | Some embed_text \<Rightarrow> (case embed_text txt of Inr v \<Rightarrow> Some (vec_to_blob v) | Inl e \<Rightarrow> None))"

definition entity_index :: "hashing \<Rightarrow> mem_note list \<Rightarrow> (string \<rightharpoonup> int)" where
  "entity_index E ns = map_of (filter_map (\<lambda>n. map_option (\<lambda>i. (note_entity_id E n, i)) (as_i64 (n_id n))) ns)"

definition RECONCILE_SOURCE :: string where
  "RECONCILE_SOURCE = ''reconcile:server.db''"

fun import_entries :: "hashing \<Rightarrow> (merged_note \<times> string option) list \<Rightarrow> int list sql" where
  "import_entries E [] = ok []"
| "import_entries E ((m, embedding) # rest) =
     seq_sql (add_note_with_created_at E (mn_kind m) (mn_title m) (mn_body m) (mn_tags m) (mn_linked_files m)
         (Some RECONCILE_SOURCE) (if mn_status m = archived then archived else active) (mn_created_at m))
       (\<lambda>(i, _). seq_sql (case embedding of Some blob \<Rightarrow> insert_embedding False i blob | None \<Rightarrow> ok ())
          (\<lambda>_. seq_sql (import_entries E rest) (\<lambda>is. ok (i # is))))"

definition import_batch :: "hashing \<Rightarrow> merged_note list \<Rightarrow> string option list \<Rightarrow> int list sql" where
  "import_batch E ms embeddings = in_transaction (import_entries E (zip ms embeddings))"

type_synonym 'a reconciler = "(store, recon_error \<times> reconcile_summary option, 'a) st"

text \<open>What an entry already in the store lacks of tags and files is merged in; a failure is only logged.\<close>

definition merge_present :: "(string \<rightharpoonup> int) \<Rightarrow> merged_note list \<Rightarrow> unit reconciler" where
  "merge_present local_ids =
     st_each (\<lambda>m. case local_ids (mn_entity_id m) of
        None \<Rightarrow> st_ok ()
      | Some i \<Rightarrow>
          st_bind (st_try (union_tags_and_files i (mn_tags m) (mn_linked_files m))) (\<lambda>_. st_ok ()))"

fun resolve_links ::
    "(string \<rightharpoonup> string) \<Rightarrow> (string \<rightharpoonup> int) \<Rightarrow> (merged_note \<times> int) list \<Rightarrow> nat \<Rightarrow> nat reconciler" where
  "resolve_links edges local_ids [] n = st_ok n"
| "resolve_links edges local_ids ((m, i) # rest) n =
     (if mn_status m \<noteq> archived then resolve_links edges local_ids rest n
      else (case edges (mn_entity_id m) of
              None \<Rightarrow> resolve_links edges local_ids rest n
            | Some succ \<Rightarrow>
                (case local_ids succ of
                   None \<Rightarrow> resolve_links edges local_ids rest (n + 1)
                 | Some j \<Rightarrow>
                     if j = i then resolve_links edges local_ids rest n
                     else st_bind (st_try (set_superseded_by i j))
                            (\<lambda>r. resolve_links edges local_ids rest (if is_ok r then n else n + 1)))))"

definition reconcile_import ::
    "hashing \<Rightarrow> embed_client \<Rightarrow> candidate list \<Rightarrow> (string \<rightharpoonup> int) \<Rightarrow> merged_note list \<Rightarrow> reconcile_summary \<Rightarrow>
       reconcile_summary reconciler" where
  "reconcile_import E client candidates local_ids to_import summary =
     (let embeddings = map (\<lambda>m. try_embed client (''title: '' @ mn_title m @ '' | text: '' @ mn_body m)) to_import;
          summary = summary\<lparr> rs_without_embedding := length (filter (\<lambda>b. b = None) embeddings) \<rparr>
      in st_bind (st_try (import_batch E to_import embeddings))
           (\<lambda>res. case res of
              Inl e \<Rightarrow> st_err (ImportFailed e,
                Some (summary\<lparr> rs_errors := [(''import_transaction'', ImportFailed e)] \<rparr>))
            | Inr is \<Rightarrow>
                st_bind (resolve_links (build_supersede_edges E candidates)
                    (fold (\<lambda>(m, i) f. f(mn_entity_id m \<mapsto> i)) (zip to_import is) local_ids)
                    (zip to_import is) 0)
                  (\<lambda>unresolved. st_ok (summary\<lparr> rs_imported := length is, rs_unresolved := unresolved \<rparr>))))"

definition reconcile_entries ::
    "hashing \<Rightarrow> embed_client \<Rightarrow> bool \<Rightarrow> candidate list \<Rightarrow> (string \<rightharpoonup> int) \<Rightarrow> reconcile_summary \<Rightarrow>
       reconcile_summary reconciler" where
  "reconcile_entries E client dry_run candidates local_ids summary =
     (let merged = collapse_candidates E candidates;
          present = filter (\<lambda>m. local_ids (mn_entity_id m) \<noteq> None) merged;
          to_import = sort_key mn_created_at (filter (\<lambda>m. local_ids (mn_entity_id m) = None) merged);
          summary = summary\<lparr> rs_already_present := sum_list (map mn_rows present),
            rs_collapsed := sum_list (map (\<lambda>m. mn_rows m - 1) to_import) \<rparr>
      in if dry_run then st_ok (summary\<lparr> rs_would_import := length to_import \<rparr>)
         else st_bind (merge_present local_ids present)
           (\<lambda>_. if to_import = [] then st_ok summary
                else reconcile_import E client candidates local_ids to_import summary))"

definition reconcile_candidates ::
    "hashing \<Rightarrow> bool \<Rightarrow> embed_client \<Rightarrow> bool \<Rightarrow> candidate list \<Rightarrow> reconcile_summary \<Rightarrow> reconcile_summary reconciler" where
  "reconcile_candidates E dropped client dry_run candidates summary =
     st_bind (st_map_err (\<lambda>e. (StoreFailed e, None)) (open_store E dropped)) (\<lambda>_.
     st_bind (st_map_err (\<lambda>e. (StoreFailed e, None)) all_notes_for_dedup) (\<lambda>existing.
       reconcile_entries E client dry_run candidates (entity_index E existing) summary))"

definition reconcile_project ::
    "hashing \<Rightarrow> bool \<Rightarrow> embed_client \<Rightarrow> (string + server_db) \<Rightarrow> string \<Rightarrow> bool \<Rightarrow> reconcile_summary reconciler" where
  "reconcile_project E dropped client source slug dry_run =
     (case source of
        Inl msg \<Rightarrow> st_err (SourceUnreadable msg,
          Some ((new_summary slug)\<lparr> rs_errors := [(''open_source_db'', SourceUnreadable msg)] \<rparr>))
      | Inr d \<Rightarrow>
          (case find_project slug d of
             None \<Rightarrow> st_ok (new_summary slug)
           | Some p \<Rightarrow>
               (let candidates = read_server_notes (vp_id p) d;
                    summary = (new_summary slug)\<lparr> rs_candidates := length candidates \<rparr>
                in if candidates = [] then st_ok summary
                   else reconcile_candidates E dropped client dry_run candidates summary)))"

fun reconcile_each ::
    "hashing \<Rightarrow> bool \<Rightarrow> embed_client \<Rightarrow> (string + server_db) \<Rightarrow> string list \<Rightarrow> bool \<Rightarrow> reconcile_summary list reconciler" where
  "reconcile_each E dropped client source [] dry_run = st_ok []"
| "reconcile_each E dropped client source (slug # slugs) dry_run =
     st_bind (reconcile_project E dropped client source slug dry_run)
       (\<lambda>s. st_bind (reconcile_each E dropped client source slugs dry_run) (\<lambda>ss. st_ok (s # ss)))"

definition run_all_projects ::
    "hashing \<Rightarrow> bool \<Rightarrow> embed_client \<Rightarrow> (string + server_db) \<Rightarrow> bool \<Rightarrow> reconcile_summary list reconciler" where
  "run_all_projects E dropped client source dry_run =
     (case source of
        Inl msg \<Rightarrow> st_err (SourceUnreadable msg, None)
      | Inr d \<Rightarrow> reconcile_each E dropped client source (map vp_slug (v_projects d)) dry_run)"

section \<open>The nudge\<close>

definition count_reconcilable :: "hashing \<Rightarrow> bool \<Rightarrow> (string + server_db) \<Rightarrow> string \<Rightarrow> store \<Rightarrow> nat option \<times> store" where
  "count_reconcilable E dropped source slug s =
     (case source of
        Inl msg \<Rightarrow> (None, s)
      | Inr d \<Rightarrow>
          (case find_project slug d of
             None \<Rightarrow> (None, s)
           | Some p \<Rightarrow>
               (let candidates = read_server_notes (vp_id p) d in
                if candidates = [] then (None, s)
                else (case seq_sql (open_store E dropped) (\<lambda>_. all_notes_for_dedup) s of
                        (Inl e, t) \<Rightarrow> (None, t)
                      | (Inr existing, t) \<Rightarrow>
                          (let n = length (filter (\<lambda>m. mn_entity_id m \<notin> note_entity_id E ` set existing)
                                     (collapse_candidates E candidates))
                           in (if 0 < n then Some n else None, t))))))"

definition maybe_emit_nudge :: "hashing \<Rightarrow> bool \<Rightarrow> bool \<Rightarrow> (string + server_db) \<Rightarrow> string \<Rightarrow> store \<Rightarrow> nat option \<times> store" where
  "maybe_emit_nudge E dropped silenced source slug s =
     (if silenced then (None, s)
      else (case seq_sql (open_store E dropped) (\<lambda>_. has_source_ref RECONCILE_SOURCE) s of
              (Inr True, t) \<Rightarrow> (None, t)
            | (_, t) \<Rightarrow> count_reconcilable E dropped source slug t))"

end
