(* ===== verification/ReconcileSpec.thy ===== *)
theory ReconcileSpec
  imports Reconcile StateError
begin

text \<open>
  What \<open>memory reconcile\<close> promises: the candidates of an entity are folded into one entry, a run leaves
  every candidate on a row of the store and loses no row, its counts add up, and a second run imports
  nothing.
\<close>

section \<open>Folding the candidates\<close>

lemma set_fold_push_absent: "set (fold push_absent ts xs) = set xs \<union> set ts"
  by (induction ts arbitrary: xs) (auto simp: push_absent_def)

definition same_entity :: "hashing \<Rightarrow> candidate list \<Rightarrow> string \<Rightarrow> candidate set" where
  "same_entity E cs eid = {c \<in> set cs. cand_entity_id E c = eid}"

definition entry_id :: "hashing \<Rightarrow> merged_note \<Rightarrow> string" where
  "entry_id E m = entity_id E (mn_kind m) (mn_title m) (mn_body m)"

text \<open>\<open>m\<close> carries what the candidates in \<open>S\<close> have, and nothing else.\<close>

definition folds_set :: "candidate set \<Rightarrow> merged_note \<Rightarrow> bool" where
  "folds_set S m \<longleftrightarrow>
     set (mn_tags m) = (\<Union>c \<in> S. set (split_field (c_tags c))) \<and>
     set (mn_linked_files m) = (\<Union>c \<in> S. set (split_field (c_linked_files c))) \<and>
     (mn_status m = archived \<longleftrightarrow> (\<exists>c \<in> S. c_status c = archived)) \<and>
     (\<exists>c \<in> S. mn_created_at m = c_created_at c) \<and> (\<forall>c \<in> S. mn_created_at m \<le> c_created_at c)"

definition folds :: "hashing \<Rightarrow> candidate list \<Rightarrow> merged_note \<Rightarrow> bool" where
  "folds E cs m \<longleftrightarrow> entry_id E m = mn_entity_id m \<and> 0 < mn_rows m \<and> folds_set (same_entity E cs (mn_entity_id m)) m"

definition collapsed :: "hashing \<Rightarrow> candidate list \<Rightarrow> merged_note list \<Rightarrow> bool" where
  "collapsed E cs ms \<longleftrightarrow> distinct (map mn_entity_id ms) \<and> mn_entity_id ` set ms = cand_entity_id E ` set cs \<and>
     sum_list (map mn_rows ms) = length cs \<and> (\<forall>m \<in> set ms. folds E cs m)"

lemma same_entity_snoc:
  "same_entity E (cs @ [c]) eid = same_entity E cs eid \<union> (if cand_entity_id E c = eid then {c} else {})"
  by (auto simp: same_entity_def)

lemma absorb_sel [simp]: "mn_entity_id (absorb c m) = mn_entity_id m" "mn_rows (absorb c m) = mn_rows m + 1"
  by (simp_all add: absorb_def)

lemma from_server_sel [simp]: "mn_entity_id (from_server eid c) = eid" "mn_rows (from_server eid c) = 1"
  by (simp_all add: from_server_def)

lemma folds_set_absorb:
  assumes "folds_set S m"
  shows "folds_set (insert c S) (absorb c m)"
proof -
  obtain c0 where c0: "c0 \<in> S" "mn_created_at m = c_created_at c0" "\<forall>x \<in> S. c_created_at c0 \<le> c_created_at x"
    using assms by (auto simp: folds_set_def)
  have "\<exists>x \<in> insert c S. min (c_created_at c0) (c_created_at c) = c_created_at x"
    using c0(1) by (cases "c_created_at c0 \<le> c_created_at c") auto
  moreover have "\<forall>x \<in> insert c S. min (c_created_at c0) (c_created_at c) \<le> c_created_at x"
    using c0(3) by (simp add: min_le_iff_disj)
  ultimately show ?thesis
    using assms c0(2) unfolding folds_set_def absorb_def by (simp add: set_fold_push_absent Un_commute)
qed

lemma absorb_folds:
  assumes "folds E cs m" "mn_entity_id m = cand_entity_id E c"
  shows "folds E (cs @ [c]) (absorb c m)"
proof -
  have "same_entity E (cs @ [c]) (mn_entity_id m) = insert c (same_entity E cs (mn_entity_id m))"
    using assms(2) by (simp add: same_entity_snoc)
  moreover have "entry_id E (absorb c m) = entry_id E m" by (simp add: entry_id_def absorb_def)
  ultimately show ?thesis using assms(1) folds_set_absorb by (simp add: folds_def)
qed

lemma folds_other: "folds E cs m \<Longrightarrow> mn_entity_id m \<noteq> cand_entity_id E c \<Longrightarrow> folds E (cs @ [c]) m"
  by (simp add: folds_def same_entity_snoc)

lemma from_server_folds:
  assumes "cand_entity_id E c \<notin> cand_entity_id E ` set cs"
  shows "folds E (cs @ [c]) (from_server (cand_entity_id E c) c)"
proof -
  have "same_entity E cs (cand_entity_id E c) = {}" using assms by (auto simp: same_entity_def) (metis imageI)
  then have "same_entity E (cs @ [c]) (cand_entity_id E c) = {c}" by (simp add: same_entity_snoc)
  then show ?thesis by (simp add: folds_def folds_set_def entry_id_def from_server_def cand_entity_id_def)
qed

lemma rows_absorbed:
  assumes "distinct (map mn_entity_id ms)" and "eid \<in> mn_entity_id ` set ms"
  shows "sum_list (map mn_rows (map (\<lambda>m. if mn_entity_id m = eid then absorb c m else m) ms)) =
    sum_list (map mn_rows ms) + 1"
  using assms
proof (induction ms)
  case (Cons m ms)
  show ?case
  proof (cases "mn_entity_id m = eid")
    case True
    with Cons.prems(1) have "map (\<lambda>m. if mn_entity_id m = eid then absorb c m else m) ms = ms"
      by (intro map_idI) (auto simp: image_iff)
    with True show ?thesis by simp
  qed (use Cons in auto)
qed simp

lemma collapse_one_collapsed:
  assumes "collapsed E cs ms"
  shows "collapsed E (cs @ [c]) (collapse_one E c ms)"
proof (cases "cand_entity_id E c \<in> mn_entity_id ` set ms")
  case True
  let ?f = "\<lambda>m. if mn_entity_id m = cand_entity_id E c then absorb c m else m"
  have "map mn_entity_id (map ?f ms) = map mn_entity_id ms" by simp
  then have ids: "distinct (map mn_entity_id (map ?f ms))" "mn_entity_id ` set (map ?f ms) = mn_entity_id ` set ms"
    using assms by (simp_all only: collapsed_def flip: set_map)
  have one: "collapse_one E c ms = map ?f ms" using True by (simp add: collapse_one_def Let_def)
  have each: "folds E (cs @ [c]) (?f m)" if "m \<in> set ms" for m
    using assms that absorb_folds folds_other by (simp add: collapsed_def)
  have "\<forall>q \<in> set (map ?f ms). folds E (cs @ [c]) q"
  proof
    fix q assume "q \<in> set (map ?f ms)"
    then obtain m where "m \<in> set ms" "q = ?f m" unfolding set_map by blast
    with each show "folds E (cs @ [c]) q" by simp
  qed
  moreover have "mn_entity_id ` set (map ?f ms) = cand_entity_id E ` set (cs @ [c])"
    using assms True unfolding ids(2) by (auto simp: collapsed_def)
  moreover have "sum_list (map mn_rows (map ?f ms)) = length (cs @ [c])"
    using assms rows_absorbed [OF _ True] by (simp add: collapsed_def del: map_map)
  ultimately show ?thesis using ids(1) unfolding collapsed_def one by blast
next
  case False
  have "folds E (cs @ [c]) m" if "m \<in> set ms" for m
  proof (rule folds_other)
    show "folds E cs m" using assms that by (simp add: collapsed_def)
    show "mn_entity_id m \<noteq> cand_entity_id E c" using False that by (metis imageI)
  qed
  with False assms from_server_folds [of E c cs] show ?thesis
    by (auto simp: collapse_one_def Let_def collapsed_def)
qed

lemma collapse_candidates_collapsed: "collapsed E cs (collapse_candidates E cs)"
proof (induction cs rule: rev_induct)
  case Nil
  then show ?case by (simp add: collapse_candidates_def collapsed_def)
next
  case (snoc c cs)
  then show ?case using collapse_one_collapsed by (simp add: collapse_candidates_def)
qed

lemma split_field_member: "v \<in> set (split_field csv) \<Longrightarrow> csv_member v"
  using set_trim split_on_no_sep unfolding split_field_def csv_member_def by fastforce

lemma folds_members:
  assumes "folds E cs m"
  shows "\<forall>v \<in> set (mn_tags m). csv_member v" "\<forall>v \<in> set (mn_linked_files m). csv_member v"
  using assms split_field_member by (auto simp: folds_def folds_set_def)

section \<open>The store only grows\<close>

text \<open>The hash on a row is that of its content.\<close>

definition honest :: "hashing \<Rightarrow> store \<Rightarrow> bool" where
  "honest E s \<longleftrightarrow> (\<forall>r \<in> set (db_notes s). r_entity_id r = None \<or> r_entity_id r = Some (entity_of E r))"

text \<open>\<open>q\<close> is \<open>r\<close> with tags and files added, perhaps its hash filled in and a successor set.\<close>

definition enriched_row :: "row \<Rightarrow> row \<Rightarrow> bool" where
  "enriched_row r q \<longleftrightarrow> r_id q = r_id r \<and>
     (r_kind q, r_title q, r_body q, r_created_at q, r_status q, r_remote_id q) =
       (r_kind r, r_title r, r_body r, r_created_at r, r_status r, r_remote_id r) \<and>
     set (split_csv (r_tags r)) \<subseteq> set (split_csv (r_tags q)) \<and>
     set (split_csv (r_linked_files r)) \<subseteq> set (split_csv (r_linked_files q))"

definition enriched :: "hashing \<Rightarrow> store \<Rightarrow> store \<Rightarrow> bool" where
  "enriched E s t \<longleftrightarrow> store_inv s \<and> honest E s \<longrightarrow>
     store_inv t \<and> honest E t \<and> (\<forall>r \<in> set (db_notes s). \<exists>q \<in> set (db_notes t). enriched_row r q)"

lemma enriched_row_refl [simp]: "enriched_row r r"
  by (simp add: enriched_row_def)

lemma enriched_row_trans: "enriched_row r q \<Longrightarrow> enriched_row q p \<Longrightarrow> enriched_row r p"
  by (auto simp: enriched_row_def)

interpretation grown: step_order "enriched E" for E
proof
  show "enriched E s s" for s by (auto simp: enriched_def intro: enriched_row_refl)
  show "enriched E s u" if "enriched E s t" "enriched E t u" for s t u
    using that enriched_row_trans unfolding enriched_def by meson
qed

lemma entity_of_enriched: "enriched_row r q \<Longrightarrow> entity_of E q = entity_of E r"
  by (simp add: enriched_row_def entity_of_def)

lemma enriched_map_rows:
  assumes "store_inv (map_rows p f s)" and "\<And>r. enriched_row r (f r) \<and> r_entity_id (f r) = r_entity_id r"
  shows "enriched E s (map_rows p f s)"
proof -
  have "honest E (map_rows p f s)" if "honest E s"
    using that assms(2) entity_of_enriched [of _ _ E] by (auto simp: honest_def map_rows_def) metis+
  moreover have "\<exists>q \<in> set (db_notes (map_rows p f s)). enriched_row r q" if "r \<in> set (db_notes s)" for r
    using that assms(2) by (intro bexI [of _ "if p r then f r else r"]) (auto simp: map_rows_def)
  ultimately show ?thesis using assms(1) by (simp add: enriched_def)
qed

lemma open_store_enriched: "within (enriched E) (open_store E dropped)"
  unfolding within_def
proof
  fix s
  have "enriched E s (snd (open_store E dropped s))" if inv: "store_inv s" and hon: "honest E s"
  proof -
    obtain v t u where u: "open_store E dropped s = (Inr v, u)" "backfilled E s t" "db_notes u = db_notes t" "store_inv u"
      using open_store_run [OF inv] by blast
    have "honest E u"
      using hon u(3) backfilled_in [OF u(2)] by (fastforce simp: honest_def)
    moreover have "enriched_row r (fill_row E r)" for r by (simp add: enriched_row_def fill_row_def)
    then have "\<exists>q \<in> set (db_notes u). enriched_row r q" if "r \<in> set (db_notes s)" for r
      using backfilled_row [OF u(2) that] u(3) by (auto intro: enriched_row_refl)
    ultimately show ?thesis using u by (simp add: enriched_def)
  qed
  then show "enriched E s (snd (open_store E dropped s))" by (auto simp: enriched_def)
qed

lemma merged_row_enriched:
  assumes "\<forall>v \<in> set tags \<union> set files. csv_member v"
  shows "enriched_row r (merged_row tags files r)"
  using assms union_csv_add_wins [of tags "r_tags r"] union_csv_add_wins [of files "r_linked_files r"]
  by (auto simp: enriched_row_def merged_row_def)

lemma union_enriched:
  assumes "\<forall>v \<in> set tags \<union> set files. csv_member v"
  shows "within (enriched E) (union_tags_and_files i tags files)"
  unfolding within_def
proof
  fix s
  have "enriched E s (snd (union_tags_and_files i tags files s))" if inv: "store_inv s"
  proof (cases "row_of s i")
    case None
    then show ?thesis
      by (simp add: union_tags_and_files_def seq_sql_def query_def raise_def grown.stays)
  next
    case (Some r)
    obtain b where run: "union_tags_and_files i tags files s = (Inr b, map_rows (\<lambda>q. r_id q = i) (merged_row tags files) s)"
      using union_tags_and_files_run [OF inv Some] by blast
    then show ?thesis
      using keepsD [OF keeps_union inv run] merged_row_enriched [OF assms] by (simp add: enriched_map_rows)
  qed
  then show "enriched E s (snd (union_tags_and_files i tags files s))" by (auto simp: enriched_def)
qed

lemma set_superseded_enriched: "within (enriched E) (set_superseded_by i j)"
  unfolding within_def
proof
  fix s
  have "enriched E s (snd (set_superseded_by i j s))" if inv: "store_inv s"
  proof (cases "db_fk s \<and> j \<notin> ids s \<and> (\<exists>r \<in> set (db_notes s). r_id r = i)")
    case True
    then show ?thesis by (simp add: set_superseded_by_def seq_sql_def update_superseded_def grown.stays)
  next
    case False
    then have run: "set_superseded_by i j s =
        (Inr (), map_rows (\<lambda>r. r_id r = i \<and> True) (\<lambda>r. r\<lparr> r_superseded_by := Some j \<rparr>) s)"
      by (auto simp: set_superseded_by_def seq_sql_def update_superseded_def update_notes_def ok_def)
    then show ?thesis
      using keepsD [OF keeps_set_superseded_by inv run]
      by (simp add: enriched_map_rows enriched_row_def)
  qed
  then show "enriched E s (snd (set_superseded_by i j s))" by (auto simp: enriched_def)
qed

lemma merge_present_enriched:
  "\<forall>m \<in> set ms. folds E cs m \<Longrightarrow> within (enriched E) (merge_present local_ids ms)"
proof (induction ms)
  case (Cons m ms)
  then have "\<forall>v \<in> set (mn_tags m) \<union> set (mn_linked_files m). csv_member v"
    using folds_members by auto
  with Cons show ?case
    by (auto simp: merge_present_def split: option.split intro!: grown.composes union_enriched)
qed (simp add: merge_present_def grown.reads)

lemma resolve_links_enriched: "within (enriched E) (resolve_links edges local_ids xs n)"
  by (induction xs arbitrary: n)
     (auto split: option.split intro!: grown.composes set_superseded_enriched)

section \<open>The rows an import adds\<close>

definition imported_row :: "hashing \<Rightarrow> merged_note \<Rightarrow> int \<Rightarrow> row" where
  "imported_row E m i = (default_row (mn_created_at m) i)
     \<lparr> r_kind := mn_kind m, r_title := mn_title m, r_body := mn_body m,
       r_tags := Some (join_with [comma] (mn_tags m)), r_linked_files := Some (join_with [comma] (mn_linked_files m)),
       r_source_ref := Some RECONCILE_SOURCE,
       r_status := (if mn_status m = archived then archived else active), r_entity_id := Some (entry_id E m) \<rparr>"

lemma imported_row_sel [simp]:
  "r_id (imported_row E m i) = i" "r_entity_id (imported_row E m i) = Some (entry_id E m)"
  "entity_of E (imported_row E m i) = entry_id E m"
  "r_tags (imported_row E m i) = Some (join_with [comma] (mn_tags m))"
  "r_linked_files (imported_row E m i) = Some (join_with [comma] (mn_linked_files m))"
  "r_status (imported_row E m i) = (if mn_status m = archived then archived else active)"
  "r_created_at (imported_row E m i) = mn_created_at m"
  by (simp_all add: imported_row_def default_row_def entity_of_def entry_id_def)

lemma add_imported:
  assumes inv: "store_inv s" and fresh: "\<forall>r \<in> set (db_notes s). r_entity_id r \<noteq> Some (entry_id E m)"
  shows "add_note_with_created_at E (mn_kind m) (mn_title m) (mn_body m) (mn_tags m) (mn_linked_files m)
      (Some RECONCILE_SOURCE) (if mn_status m = archived then archived else active) (mn_created_at m) s =
    (Inr (db_seq s + 1, True),
     s\<lparr> db_notes := db_notes s @ [imported_row E m (db_seq s + 1)], db_seq := db_seq s + 1 \<rparr>)"
proof -
  have eq: "add_note_with_created_at E (mn_kind m) (mn_title m) (mn_body m) (mn_tags m) (mn_linked_files m)
      (Some RECONCILE_SOURCE) (if mn_status m = archived then archived else active) (mn_created_at m) s =
    seq_sql (try_sql (insert_note (imported_row E m)))
      (\<lambda>res. recover_from_entity_id_collision res (entry_id E m) (mn_tags m) (mn_linked_files m)) s"
    by (simp add: add_note_with_created_at_def Let_def imported_row_def [abs_def] entry_id_def)
  show ?thesis
  proof (rule insert_or_merge [OF inv, of "imported_row E m" "entry_id E m" "mn_tags m" "mn_linked_files m"])
    fix r assume "r \<in> set (db_notes s)" "r_entity_id r = Some (entry_id E m)"
    with fresh show ?thesis by simp
  qed (simp_all only: eq, simp_all add: imported_row_def default_row_def)
qed

lemma insert_embedding_same:
  "insert_embedding False i b s = (r, t) \<Longrightarrow> \<exists>vs. t = s\<lparr> db_vecs := vs \<rparr>"
  unfolding insert_embedding_def write_embedding_def delete_note_embedding_def insert_vec_def
  by (auto simp: seq_sql_def split: if_splits)

lemma import_entries_rows:
  assumes "store_inv s" and "distinct (map (\<lambda>x. entry_id E (fst x)) xs)"
    and "\<forall>x \<in> set xs. \<forall>r \<in> set (db_notes s). r_entity_id r \<noteq> Some (entry_id E (fst x))"
    and "import_entries E xs s = (Inr js, t)"
  shows "length js = length xs \<and> db_notes t = db_notes s @ map2 (\<lambda>x i. imported_row E (fst x) i) xs js \<and> store_inv t"
  using assms
proof (induction xs arbitrary: s js)
  case Nil
  then show ?case by (simp add: sql_run)
next
  case (Cons x xs)
  obtain m b where x: "x = (m, b)" by fastforce
  let ?s1 = "s\<lparr> db_notes := db_notes s @ [imported_row E m (db_seq s + 1)], db_seq := db_seq s + 1 \<rparr>"
  have add: "add_note_with_created_at E (mn_kind m) (mn_title m) (mn_body m) (mn_tags m) (mn_linked_files m)
      (Some RECONCILE_SOURCE) (if mn_status m = archived then archived else active) (mn_created_at m) s =
      (Inr (db_seq s + 1, True), ?s1)"
    using Cons.prems(1,3) x by (intro add_imported) auto
  have inv1: "store_inv ?s1" by (rule keepsD [OF keeps_add_note_with_created_at Cons.prems(1) add])
  let ?embed = "case b of Some blob \<Rightarrow> insert_embedding False (db_seq s + 1) blob | None \<Rightarrow> ok ()"
  from Cons.prems(4) obtain u js' where u: "?embed ?s1 = (Inr (), u)"
    and rest: "import_entries E xs u = (Inr js', t)" and js: "js = (db_seq s + 1) # js'"
    by (auto simp: x seq_sql_def add ok_def split: prod.splits sum.splits)
  have "\<exists>vs. u = ?s1\<lparr> db_vecs := vs \<rparr>"
    using u insert_embedding_same by (cases b) (auto simp: ok_def intro: exI [of _ "db_vecs s"])
  then have rows: "db_notes u = db_notes s @ [imported_row E m (db_seq s + 1)]" by auto
  have "keeps ?embed" by (auto split: option.split intro: keeps_insert_embedding keeps_ok)
  then have inv: "store_inv u" using keepsD [of ?embed ?s1 "Inr ()" u] inv1 u by simp
  have "\<forall>y \<in> set xs. \<forall>r \<in> set (db_notes u). r_entity_id r \<noteq> Some (entry_id E (fst y))"
    using Cons.prems(2,3) by (auto simp: rows x)
  from Cons.IH [OF inv _ this rest] Cons.prems(2) show ?case by (simp add: js x rows)
qed

lemma import_batch_enriched:
  assumes "distinct (map (entry_id E) ms)" and "length bs = length ms"
    and "\<forall>m \<in> set ms. \<forall>r \<in> set (db_notes s). r_entity_id r \<noteq> Some (entry_id E m)"
  shows "enriched E s (snd (import_batch E ms bs s))"
proof (cases "import_entries E (zip ms bs) s")
  case (Pair res t)
  show ?thesis
  proof (cases res)
    case (Inr js)
    have "enriched E s t" if inv: "store_inv s" and hon: "honest E s"
    proof -
      have "map (entry_id E) (map fst (zip ms bs)) = map (entry_id E) ms" using assms(2) by simp
      then have "map (\<lambda>x. entry_id E (fst x)) (zip ms bs) = map (entry_id E) ms" by (simp only: map_map comp_def)
      moreover have "\<forall>x \<in> set (zip ms bs). \<forall>r \<in> set (db_notes s). r_entity_id r \<noteq> Some (entry_id E (fst x))"
        using assms(3) by (auto dest: set_zip_leftD)
      ultimately have "db_notes t = db_notes s @ map2 (\<lambda>x i. imported_row E (fst x) i) (zip ms bs) js" "store_inv t"
        using import_entries_rows [OF inv _ _ Pair [unfolded Inr]] assms(1) by simp_all
      moreover from this hon have "honest E t" by (auto simp: honest_def)
      ultimately show ?thesis by (auto simp: enriched_def intro: enriched_row_refl)
    qed
    with Pair Inr show ?thesis by (auto simp: import_batch_def in_transaction_def enriched_def)
  qed (use Pair in \<open>simp add: import_batch_def in_transaction_def grown.stays\<close>)
qed

section \<open>A run\<close>

text \<open>The rows keep their number, their ids and their content.\<close>

definition row_key :: "row \<Rightarrow> int \<times> string \<times> string \<times> string" where
  "row_key r = (r_id r, r_kind r, r_title r, r_body r)"

definition same_rows :: "store \<Rightarrow> store \<Rightarrow> bool" where
  "same_rows s t \<longleftrightarrow> map row_key (db_notes t) = map row_key (db_notes s)"

interpretation still: step_order same_rows
  by unfold_locales (simp_all add: same_rows_def)

lemma map_rows_same_rows: "(\<And>r. row_key (f r) = row_key r) \<Longrightarrow> same_rows s (map_rows p f s)"
  by (simp add: same_rows_def map_rows_def)

lemma union_same_rows: "within same_rows (union_tags_and_files i tags files)"
  by (auto simp: row_key_def within_def union_tags_and_files_def seq_sql_def query_def raise_def ok_def update_notes_def Let_def
      still.stays intro!: map_rows_same_rows split: option.split)

lemma set_superseded_same_rows: "within same_rows (set_superseded_by i j)"
  by (auto simp: row_key_def within_def set_superseded_by_def seq_sql_def update_superseded_def update_notes_def ok_def
      still.stays intro!: map_rows_same_rows)

lemma merge_present_same_rows: "within same_rows (merge_present local_ids ms)"
  unfolding merge_present_def
  by (intro still.eaches) (auto split: option.split intro!: still.composes union_same_rows)

lemma resolve_links_same_rows: "within same_rows (resolve_links edges local_ids xs n)"
  by (induction xs arbitrary: n)
     (auto split: option.split intro!: still.composes set_superseded_same_rows)

lemma open_store_same_rows: "store_inv s \<Longrightarrow> open_store E dropped s = (r, u) \<Longrightarrow> same_rows s u"
proof -
  assume inv: "store_inv s" and run: "open_store E dropped s = (r, u)"
  obtain t where t: "backfilled E s t" "db_notes u = db_notes t"
    using open_store_run [OF inv, of E dropped] run by auto
  then obtain rs where "db_notes u = rs" "list_all2 (\<lambda>r q. q = r \<or> r_entity_id r = None \<and> q = fill_row E r) (db_notes s) rs"
    by (auto simp: backfilled_def)
  moreover from this(2) have "list_all2 (\<lambda>r q. row_key q = row_key r) (db_notes s) rs"
    by (rule list_all2_mono) (auto simp: row_key_def fill_row_def)
  ultimately show "same_rows s u"
    by (simp add: same_rows_def list_eq_iff_nth_eq list_all2_conv_all_nth)
qed

text \<open>The merging and the links always return.\<close>

lemma merge_present_returns: "\<exists>t. merge_present local_ids ms s = (Inr (), t)"
  by (induction ms arbitrary: s)
     (auto simp: merge_present_def st_bind_def st_try_def st_runs split: option.split prod.split)

lemma resolve_links_returns: "\<exists>k t. resolve_links edges local_ids xs n s = (Inr k, t)"
proof (induction xs arbitrary: n s)
  case (Cons x xs)
  then show ?case
    by (cases x) (auto simp: st_bind_def st_try_def split: option.split prod.split)
qed (simp add: st_runs)

section \<open>What the index of the store finds\<close>

definition i64_ids :: "store \<Rightarrow> bool" where
  "i64_ids s \<longleftrightarrow> (\<forall>i \<in> ids s. in_i64 i)"

lemma i64_ids_same: "same_rows s t \<Longrightarrow> i64_ids s \<Longrightarrow> i64_ids t"
proof -
  assume "same_rows s t" "i64_ids s"
  then have "fst ` set (map row_key (db_notes t)) = fst ` set (map row_key (db_notes s))" by (simp only: same_rows_def)
  then have "ids t = ids s" by (simp add: ids_def image_image row_key_def)
  with \<open>i64_ids s\<close> show ?thesis by (simp add: i64_ids_def)
qed

lemma same_rows_entities:
  assumes "same_rows s t"
  shows "entity_of E ` set (db_notes t) = entity_of E ` set (db_notes s)" "length (db_notes t) = length (db_notes s)"
proof -
  let ?g = "\<lambda>(i, kind, title, body). entity_id E kind title body"
  have "?g ` set (map row_key (db_notes t)) = ?g ` set (map row_key (db_notes s))"
    using assms by (simp only: same_rows_def)
  then show "entity_of E ` set (db_notes t) = entity_of E ` set (db_notes s)"
    by (simp add: image_image row_key_def entity_of_def [abs_def])
  show "length (db_notes t) = length (db_notes s)"
    using assms by (metis length_map same_rows_def)
qed

lemma filter_map_all: "\<forall>x \<in> set xs. f (h x) = Some (g x) \<Longrightarrow> filter_map f (map h xs) = map g xs"
  by (induction xs) auto

lemma entity_index_pairs:
  assumes "i64_ids s"
  shows "filter_map (\<lambda>n. map_option (\<lambda>i. (note_entity_id E n, i)) (as_i64 (n_id n))) (map row_to_note (dedup_rows s)) =
    map (\<lambda>r. (entity_of E r, r_id r)) (dedup_rows s)"
proof -
  have "\<forall>r \<in> set (dedup_rows s). as_i64 (n_id (row_to_note r)) = Some (r_id r)"
    using assms by (auto simp: dedup_rows_def row_to_note_def as_i64_def note_id_from_i64_def i64_ids_def ids_def
        parse_i64_to_string)
  moreover have "note_entity_id E (row_to_note r) = entity_of E r" for r
    by (simp add: note_entity_id_def row_to_note_def entity_of_def)
  ultimately show ?thesis by (intro filter_map_all) simp
qed

lemma entity_index_iff:
  assumes "i64_ids s"
  shows "entity_index E (map row_to_note (dedup_rows s)) x = None \<longleftrightarrow> x \<notin> entity_of E ` set (db_notes s)"
    and "entity_index E (map row_to_note (dedup_rows s)) x = Some i \<Longrightarrow>
      \<exists>r \<in> set (db_notes s). r_id r = i \<and> entity_of E r = x"
proof -
  show "entity_index E (map row_to_note (dedup_rows s)) x = None \<longleftrightarrow> x \<notin> entity_of E ` set (db_notes s)"
    unfolding entity_index_def entity_index_pairs [OF assms]
    by (simp add: map_of_eq_None_iff image_image dedup_rows_def)
  show "entity_index E (map row_to_note (dedup_rows s)) x = Some i \<Longrightarrow>
      \<exists>r \<in> set (db_notes s). r_id r = i \<and> entity_of E r = x"
    unfolding entity_index_def entity_index_pairs [OF assms]
    by (auto dest!: map_of_SomeD simp: dedup_rows_def)
qed

section \<open>What a run leaves\<close>

text \<open>A row of the store has the content of \<open>m\<close> and its tags and files.\<close>

definition carries :: "hashing \<Rightarrow> merged_note \<Rightarrow> store \<Rightarrow> bool" where
  "carries E m s \<longleftrightarrow> (\<exists>q \<in> set (db_notes s). entity_of E q = mn_entity_id m \<and>
     set (mn_tags m) \<subseteq> set (split_csv (r_tags q)) \<and> set (mn_linked_files m) \<subseteq> set (split_csv (r_linked_files q)))"

lemma enrichedD:
  assumes "enriched E s t" "store_inv s" "honest E s"
  shows "store_inv t" "honest E t" "r \<in> set (db_notes s) \<Longrightarrow> \<exists>q \<in> set (db_notes t). enriched_row r q"
  using assms by (auto simp: enriched_def)

lemma carries_enriched:
  assumes "carries E m s" "enriched E s t" "store_inv s" "honest E s"
  shows "carries E m t"
proof -
  from assms(1) obtain q where q: "q \<in> set (db_notes s)" "entity_of E q = mn_entity_id m"
    "set (mn_tags m) \<subseteq> set (split_csv (r_tags q))" "set (mn_linked_files m) \<subseteq> set (split_csv (r_linked_files q))"
    by (auto simp: carries_def)
  from enrichedD(3) [OF assms(2-4) q(1)] obtain p where p: "p \<in> set (db_notes t)" "enriched_row q p" by blast
  then show ?thesis
    using q entity_of_enriched [OF p(2), of E] unfolding carries_def enriched_row_def
    by (intro bexI [of _ p]) auto
qed

lemma merge_present_carries:
  assumes "store_inv s" "honest E s" and "\<forall>m \<in> set ms. folds E cs m"
    and "\<forall>m \<in> set ms. \<exists>r \<in> set (db_notes s). local_ids (mn_entity_id m) = Some (r_id r) \<and> entity_of E r = mn_entity_id m"
    and "merge_present local_ids ms s = (Inr (), t)"
  shows "\<forall>m \<in> set ms. carries E m t"
  using assms
proof (induction ms arbitrary: s)
  case (Cons m ms)
  obtain r where r: "r \<in> set (db_notes s)" "local_ids (mn_entity_id m) = Some (r_id r)" "entity_of E r = mn_entity_id m"
    using Cons.prems(4) by auto
  note members = folds_members [of E cs m]
  let ?f = "merged_row (mn_tags m) (mn_linked_files m)"
  let ?u = "map_rows (\<lambda>q. r_id q = r_id r) ?f s"
  have "row_of s (r_id r) = Some r" using row_of_iff [OF Cons.prems(1)] r(1) by simp
  then obtain b where u: "union_tags_and_files (r_id r) (mn_tags m) (mn_linked_files m) s = (Inr b, ?u)"
    using union_tags_and_files_run [OF Cons.prems(1)] by blast
  have "\<forall>v \<in> set (mn_tags m) \<union> set (mn_linked_files m). csv_member v"
    using members Cons.prems(3) by auto
  note e = withinD [OF union_enriched [OF this, of E "r_id r"] u]
  note inv = enrichedD(1) [OF e Cons.prems(1,2)] and hon = enrichedD(2) [OF e Cons.prems(1,2)]
  have rest: "merge_present local_ids ms ?u = (Inr (), t)"
    using Cons.prems(5) r(2) u by (simp add: merge_present_def st_bind_def st_try_def st_runs)
  have "?f r \<in> set (db_notes ?u)" using r(1) by (force simp: map_rows_def)
  moreover have "set (mn_tags m) \<subseteq> set (split_csv (r_tags (?f r)))"
    "set (mn_linked_files m) \<subseteq> set (split_csv (r_linked_files (?f r)))"
    using members Cons.prems(3) union_csv_add_wins [of "mn_tags m" "r_tags r"]
      union_csv_add_wins [of "mn_linked_files m" "r_linked_files r"] by (auto simp: merged_row_def)
  moreover have "entity_of E (?f r) = mn_entity_id m" using r(3) by (simp add: entity_of_def)
  ultimately have here: "carries E m ?u" unfolding carries_def by blast
  have "\<forall>m \<in> set ms. \<exists>q \<in> set (db_notes ?u). local_ids (mn_entity_id m) = Some (r_id q) \<and> entity_of E q = mn_entity_id m"
  proof
    fix m' assume "m' \<in> set ms"
    with Cons.prems(4) obtain q where q: "q \<in> set (db_notes s)" "local_ids (mn_entity_id m') = Some (r_id q)"
      "entity_of E q = mn_entity_id m'" by auto
    from enrichedD(3) [OF e Cons.prems(1,2) q(1)] obtain p where "p \<in> set (db_notes ?u)" "enriched_row q p" by blast
    then show "\<exists>q \<in> set (db_notes ?u). local_ids (mn_entity_id m') = Some (r_id q) \<and> entity_of E q = mn_entity_id m'"
      using q entity_of_enriched [of q p E] by (intro bexI [of _ p]) (auto simp: enriched_row_def)
  qed
  then have "\<forall>m \<in> set ms. carries E m t"
    using Cons.IH [OF inv hon _ _ rest] Cons.prems(3) by simp
  moreover have "enriched E ?u t"
    using withinD [OF merge_present_enriched [of ms E cs] rest] Cons.prems(3) by simp
  then have "carries E m t" by (rule carries_enriched [OF here _ inv hon])
  ultimately show ?case by simp
qed simp

lemma import_batch_carries:
  assumes "store_inv s" "distinct (map (entry_id E) ms)" "length bs = length ms"
    and "\<forall>m \<in> set ms. \<forall>r \<in> set (db_notes s). r_entity_id r \<noteq> Some (entry_id E m)"
    and "\<forall>m \<in> set ms. folds E cs m" and "import_batch E ms bs s = (Inr js, t)"
  shows "length js = length ms \<and> length (db_notes t) = length (db_notes s) + length ms \<and>
    (\<forall>m \<in> set ms. carries E m t) \<and> (\<exists>news. db_notes t = db_notes s @ news \<and>
      (\<forall>r \<in> set news. \<exists>m \<in> set ms. r = imported_row E m (r_id r)))"
proof -
  have run: "import_entries E (zip ms bs) s = (Inr js, t)"
    using assms(6) by (auto simp: import_batch_def in_transaction_def split: prod.splits sum.splits)
  have "map (entry_id E) (map fst (zip ms bs)) = map (entry_id E) ms" using assms(3) by simp
  then have "map (\<lambda>x. entry_id E (fst x)) (zip ms bs) = map (entry_id E) ms" by (simp only: map_map comp_def)
  moreover have "\<forall>x \<in> set (zip ms bs). \<forall>r \<in> set (db_notes s). r_entity_id r \<noteq> Some (entry_id E (fst x))"
    using assms(4) by (auto dest: set_zip_leftD)
  ultimately have js: "length js = length ms"
    and t: "db_notes t = db_notes s @ map2 (\<lambda>x i. imported_row E (fst x) i) (zip ms bs) js"
    using import_entries_rows [OF assms(1) _ _ run] assms(2,3) by simp_all
  have "carries E m t" if "m \<in> set ms" for m
  proof -
    from that obtain k where k: "k < length ms" "m = ms ! k" unfolding in_set_conv_nth by blast
    let ?q = "imported_row E m (js ! k)"
    have "map2 (\<lambda>x i. imported_row E (fst x) i) (zip ms bs) js ! k = ?q" using k js assms(3) by simp
    moreover have "k < length (map2 (\<lambda>x i. imported_row E (fst x) i) (zip ms bs) js)" using k js assms(3) by simp
    ultimately have "?q \<in> set (db_notes t)" unfolding t by (metis UnCI nth_mem set_append)
    moreover have "entity_of E ?q = mn_entity_id m" using assms(5) that by (simp add: folds_def)
    ultimately show ?thesis
      using folds_members [of E cs m] assms(5) that unfolding carries_def
      by (intro bexI [of _ ?q]) (simp_all add: split_csv_join)
  qed
  moreover have "\<exists>m \<in> set ms. r = imported_row E m (r_id r)"
    if "r \<in> set (map2 (\<lambda>x i. imported_row E (fst x) i) (zip ms bs) js)" for r
    using that by (auto dest!: set_zip_leftD)
  ultimately show ?thesis using js t assms(3) by auto
qed

lemma collapse_parts:
  assumes "collapsed E cs ms"
  shows "length cs = sum_list (map mn_rows (filter P ms)) +
    sum_list (map (\<lambda>m. mn_rows m - 1) (sort_key mn_created_at (filter (\<lambda>m. \<not> P m) ms))) +
    length (filter (\<lambda>m. \<not> P m) ms)"
proof -
  have "sum_list (map mn_rows ms) = sum_list (map mn_rows (filter P ms)) +
      sum_list (map (\<lambda>m. mn_rows m - 1) (filter (\<lambda>m. \<not> P m) ms)) + length (filter (\<lambda>m. \<not> P m) ms)"
    if "\<forall>m \<in> set ms. 0 < mn_rows m"
    using that by (induction ms) auto
  moreover have "\<forall>m \<in> set ms. 0 < mn_rows m" using assms by (simp add: collapsed_def folds_def)
  moreover have "sum_list (map (\<lambda>m. mn_rows m - 1) (sort_key mn_created_at (filter (\<lambda>m. \<not> P m) ms))) =
      sum_list (map (\<lambda>m. mn_rows m - 1) (filter (\<lambda>m. \<not> P m) ms))"
    by (metis (no_types) mset_map mset_sort sum_mset_sum_list)
  moreover have "sum_list (map mn_rows ms) = length cs" using assms by (simp add: collapsed_def)
  ultimately show ?thesis by linarith
qed

text \<open>The import of entries whose content the store does not have.\<close>

lemma reconcile_import_run:
  assumes inv: "store_inv s" and hon: "honest E s" and dis: "distinct (map mn_entity_id ms)"
    and fresh: "\<forall>m \<in> set ms. mn_entity_id m \<notin> entity_of E ` set (db_notes s)"
    and fold: "\<forall>m \<in> set ms. folds E cs m"
    and run: "reconcile_import E client cs local_ids ms sm0 s = (Inr sm, t)"
  shows "enriched E s t \<and> (\<forall>m \<in> set ms. carries E m t) \<and> length (db_notes t) = length (db_notes s) + length ms \<and>
    (\<exists>k n. sm = sm0\<lparr> rs_without_embedding := n, rs_imported := length ms, rs_unresolved := k \<rparr>)"
proof -
  let ?bs = "map (\<lambda>m. try_embed client (''title: '' @ mn_title m @ '' | text: '' @ mn_body m)) ms"
  have ids: "map (entry_id E) ms = map mn_entity_id ms" using fold by (simp add: folds_def)
  have dis': "distinct (map (entry_id E) ms)" using dis by (simp only: ids)
  have new: "\<forall>m \<in> set ms. \<forall>r \<in> set (db_notes s). r_entity_id r \<noteq> Some (entry_id E m)"
  proof (intro ballI notI)
    fix m r assume m: "m \<in> set ms" and r: "r \<in> set (db_notes s)" "r_entity_id r = Some (entry_id E m)"
    with hon have "entity_of E r = entry_id E m" by (auto simp: honest_def)
    moreover have "entry_id E m = mn_entity_id m" using fold m by (simp add: folds_def)
    ultimately have "mn_entity_id m \<in> entity_of E ` set (db_notes s)" using r(1) by (metis imageI)
    with fresh m show False by blast
  qed
  obtain js x where imp: "import_batch E ms ?bs s = (Inr js, x)"
    and links: "\<exists>edges idx k. resolve_links edges idx (zip ms js) 0 x = (Inr k, t) \<and>
      (\<exists>n. sm = sm0\<lparr> rs_without_embedding := n, rs_imported := length js, rs_unresolved := k \<rparr>)"
    using run
    by (auto simp: reconcile_import_def Let_def st_bind_iff st_try_def st_runs split: prod.splits sum.splits)
  from links obtain edges idx k where l: "resolve_links edges idx (zip ms js) 0 x = (Inr k, t)"
    "\<exists>n. sm = sm0\<lparr> rs_without_embedding := n, rs_imported := length js, rs_unresolved := k \<rparr>" by blast
  have x: "length js = length ms" "length (db_notes x) = length (db_notes s) + length ms" "\<forall>m \<in> set ms. carries E m x"
    using import_batch_carries [OF inv dis' _ new fold imp] by simp_all
  have ex: "enriched E s x" using import_batch_enriched [OF dis' _ new, of ?bs] imp by simp
  note et = withinD [OF resolve_links_enriched l(1), of E]
  have "carries E m t" if "m \<in> set ms" for m
    using carries_enriched [OF _ et enrichedD(1,2) [OF ex inv hon]] x(3) that by blast
  moreover have "length (db_notes t) = length (db_notes x)"
    by (rule same_rows_entities(2) [OF withinD [OF resolve_links_same_rows l(1)]])
  ultimately show ?thesis using grown.joins [OF ex et] x l(2) by auto
qed

text \<open>Merging into the entries that are there, then importing the others.\<close>

lemma merge_then_import:
  assumes inv: "store_inv u" and hon: "honest E u" and dis: "distinct (map mn_entity_id new)"
    and fresh: "\<forall>m \<in> set new. mn_entity_id m \<notin> entity_of E ` set (db_notes u)"
    and fold: "\<forall>m \<in> set present \<union> set new. folds E cs m"
    and there: "\<forall>m \<in> set present. \<exists>r \<in> set (db_notes u). idx (mn_entity_id m) = Some (r_id r) \<and> entity_of E r = mn_entity_id m"
    and start: "rs_imported sm1 = 0"
    and run: "st_bind (merge_present idx present)
      (\<lambda>_. if new = [] then st_ok sm1 else reconcile_import E client cs idx new sm1) u = (Inr sm, t)"
  shows "enriched E u t \<and> (\<forall>m \<in> set present \<union> set new. carries E m t) \<and>
    length (db_notes t) = length (db_notes u) + length new \<and> rs_candidates sm = rs_candidates sm1 \<and>
    rs_already_present sm = rs_already_present sm1 \<and> rs_collapsed sm = rs_collapsed sm1 \<and>
    rs_imported sm = length new"
proof -
  obtain w where w: "merge_present idx present u = (Inr (), w)" using merge_present_returns by blast
  have "\<forall>m \<in> set present. folds E cs m" using fold by simp
  note ew = withinD [OF merge_present_enriched [OF this] w]
  note sw = withinD [OF merge_present_same_rows w]
  note invw = enrichedD(1) [OF ew inv hon] and honw = enrichedD(2) [OF ew inv hon]
  have here: "\<forall>m \<in> set present. carries E m w"
    using merge_present_carries [OF inv hon _ there w, of cs] fold by simp
  have rest: "(if new = [] then st_ok sm1 else reconcile_import E client cs idx new sm1) w = (Inr sm, t)"
    using run by (simp add: st_bind_def w)
  show ?thesis
  proof (cases "new = []")
    case True
    with rest have "t = w" "sm = sm1" by (simp_all add: st_runs)
    with True here ew start same_rows_entities(2) [OF sw] show ?thesis by simp
  next
    case False
    then have imp: "reconcile_import E client cs idx new sm1 w = (Inr sm, t)" using rest by simp
    have "\<forall>m \<in> set new. mn_entity_id m \<notin> entity_of E ` set (db_notes w)"
      using fresh by (simp only: same_rows_entities(1) [OF sw])
    from reconcile_import_run [OF invw honw dis this _ imp] fold
    have x: "enriched E w t" "\<forall>m \<in> set new. carries E m t" "length (db_notes t) = length (db_notes w) + length new"
      "\<exists>k n. sm = sm1\<lparr> rs_without_embedding := n, rs_imported := length new, rs_unresolved := k \<rparr>" by simp_all
    have "\<forall>m \<in> set present. carries E m t" using carries_enriched [OF _ x(1) invw honw] here by blast
    with x grown.joins [OF ew x(1)] same_rows_entities(2) [OF sw] show ?thesis by auto
  qed
qed

text \<open>The work on the candidates: what is in the store at the end, and the counts.\<close>

lemma reconcile_candidates_run:
  assumes inv: "store_inv s" and hon: "honest E s" and i64: "i64_ids s"
    and start: "rs_candidates sm0 = length cs" "rs_imported sm0 = 0"
    and run: "reconcile_candidates E dropped client False cs sm0 s = (Inr sm, t)"
  shows "enriched E s t \<and> (\<forall>m \<in> set (collapse_candidates E cs). carries E m t) \<and>
    rs_candidates sm = length cs \<and> rs_already_present sm + rs_collapsed sm + rs_imported sm = length cs \<and>
    length (db_notes t) = length (db_notes s) + rs_imported sm \<and>
    rs_imported sm = length (filter (\<lambda>m. mn_entity_id m \<notin> entity_of E ` set (db_notes s)) (collapse_candidates E cs)) \<and>
    (rs_imported sm = 0 \<longrightarrow> rs_collapsed sm = 0)"
proof -
  obtain v u where u: "open_store E dropped s = (Inr v, u)"
    using open_store_run [OF inv] by blast
  note eu = withinD [OF open_store_enriched u]
  note invu = enrichedD(1) [OF eu inv hon] and honu = enrichedD(2) [OF eu inv hon]
  note su = open_store_same_rows [OF inv u]
  note i64u = i64_ids_same [OF su i64]
  obtain idx ms where idx: "idx = entity_index E (map row_to_note (dedup_rows u))" and ms: "ms = collapse_candidates E cs"
    by simp
  have C: "collapsed E cs ms" unfolding ms by (rule collapse_candidates_collapsed)
  let ?sm = "sm0\<lparr> rs_already_present := sum_list (map mn_rows (filter (\<lambda>m. idx (mn_entity_id m) \<noteq> None) ms)),
      rs_collapsed := sum_list (map (\<lambda>m. mn_rows m - 1) (sort_key mn_created_at (filter (\<lambda>m. idx (mn_entity_id m) = None) ms))) \<rparr>"
  obtain present new where parts: "present = filter (\<lambda>m. idx (mn_entity_id m) \<noteq> None) ms"
    "new = sort_key mn_created_at (filter (\<lambda>m. idx (mn_entity_id m) = None) ms)" by simp
  have unknown: "idx (mn_entity_id m) = None \<longleftrightarrow> mn_entity_id m \<notin> entity_of E ` set (db_notes u)" for m
    using entity_index_iff(1) [OF i64u] by (simp add: idx)
  have there: "\<forall>m \<in> set present. \<exists>r \<in> set (db_notes u). idx (mn_entity_id m) = Some (r_id r) \<and> entity_of E r = mn_entity_id m"
  proof
    fix m assume "m \<in> set present"
    then obtain i where "idx (mn_entity_id m) = Some i" by (auto simp: parts)
    with entity_index_iff(2) [OF i64u] show "\<exists>r \<in> set (db_notes u). idx (mn_entity_id m) = Some (r_id r) \<and> entity_of E r = mn_entity_id m"
      by (fastforce simp: idx)
  qed
  have fold: "\<forall>m \<in> set present \<union> set new. folds E cs m" and all: "set ms = set present \<union> set new"
    using C by (auto simp: parts collapsed_def)
  have dis: "distinct (map mn_entity_id new)"
    using C by (simp add: collapsed_def parts distinct_map inj_on_def)
  have fresh: "\<forall>m \<in> set new. mn_entity_id m \<notin> entity_of E ` set (db_notes u)"
    using unknown by (auto simp: parts)
  have "reconcile_entries E client False cs idx sm0 u = (Inr sm, t)"
    using run u by (simp add: idx reconcile_candidates_def st_bind_def st_map_err_def all_notes_for_dedup_def query_def)
  then have "st_bind (merge_present idx present)
      (\<lambda>_. if new = [] then st_ok ?sm else reconcile_import E client cs idx new ?sm) u = (Inr sm, t)"
    unfolding reconcile_entries_def Let_def if_False parts ms .
  from merge_then_import [OF invu honu dis fresh fold there _ this] start
  have x: "enriched E u t" "\<forall>m \<in> set ms. carries E m t" "length (db_notes t) = length (db_notes u) + length new"
    "rs_candidates sm = length cs" "rs_already_present sm = rs_already_present ?sm" "rs_collapsed sm = rs_collapsed ?sm"
    "rs_imported sm = length new" by (simp_all add: all)
  have "length cs = rs_already_present ?sm + rs_collapsed ?sm + length new"
    using collapse_parts [OF C, of "\<lambda>m. idx (mn_entity_id m) \<noteq> None"] by (simp add: parts)
  moreover have "length new = length (filter (\<lambda>m. mn_entity_id m \<notin> entity_of E ` set (db_notes s)) ms)"
    by (simp add: parts unknown same_rows_entities(1) [OF su])
  moreover have "length new = 0 \<longrightarrow> rs_collapsed ?sm = 0" by (simp add: parts)
  ultimately show ?thesis
    using x grown.joins [OF eu x(1)] same_rows_entities(2) [OF su] by (simp add: ms)
qed

section \<open>The command\<close>

lemma reconcile_project_run:
  assumes p: "find_project slug d = Some p" and cs: "read_server_notes (vp_id p) d = cs" "cs \<noteq> []"
  shows "reconcile_project E dropped client (Inr d) slug dry_run =
    reconcile_candidates E dropped client dry_run cs ((new_summary slug)\<lparr> rs_candidates := length cs \<rparr>)"
  using assms by (simp add: reconcile_project_def Let_def)

lemma carries_candidate:
  assumes "\<forall>m \<in> set (collapse_candidates E cs). carries E m t" and "c \<in> set cs"
  shows "\<exists>q \<in> set (db_notes t). entity_of E q = cand_entity_id E c \<and>
    set (split_field (c_tags c)) \<subseteq> set (split_csv (r_tags q)) \<and>
    set (split_field (c_linked_files c)) \<subseteq> set (split_csv (r_linked_files q))"
proof -
  have C: "collapsed E cs (collapse_candidates E cs)" by (rule collapse_candidates_collapsed)
  then obtain m where m: "m \<in> set (collapse_candidates E cs)" "mn_entity_id m = cand_entity_id E c"
    using assms(2) unfolding collapsed_def by (metis imageE imageI)
  have "folds E cs m" using C m(1) by (simp add: collapsed_def)
  moreover have "c \<in> same_entity E cs (mn_entity_id m)" using assms(2) m(2) by (simp add: same_entity_def)
  ultimately have "set (split_field (c_tags c)) \<subseteq> set (mn_tags m)"
    "set (split_field (c_linked_files c)) \<subseteq> set (mn_linked_files m)" by (auto simp: folds_def folds_set_def)
  moreover obtain q where "q \<in> set (db_notes t)" "entity_of E q = mn_entity_id m"
    "set (mn_tags m) \<subseteq> set (split_csv (r_tags q))" "set (mn_linked_files m) \<subseteq> set (split_csv (r_linked_files q))"
    using assms(1) m(1) unfolding carries_def by blast
  ultimately show ?thesis using m(2) by (intro bexI [of _ q]) auto
qed

lemma note_entities: "note_entity_id E ` set (map row_to_note (dedup_rows s)) = entity_of E ` set (db_notes s)"
  by (simp add: image_image note_entity_id_def row_to_note_def entity_of_def dedup_rows_def)

lemma reconcile_nothing_new:
  assumes inv: "store_inv s" and i64: "i64_ids s" and known: "cand_entity_id E ` set cs \<subseteq> entity_of E ` set (db_notes s)"
  shows "\<exists>sm t. reconcile_candidates E dropped client False cs sm0 s = (Inr sm, t)"
proof -
  obtain v u where u: "open_store E dropped s = (Inr v, u)"
    using open_store_run [OF inv] by blast
  note su = open_store_same_rows [OF inv u]
  let ?idx = "entity_index E (map row_to_note (dedup_rows u))"
  have "?idx (mn_entity_id m) \<noteq> None" if "m \<in> set (collapse_candidates E cs)" for m
  proof -
    have "mn_entity_id m \<in> cand_entity_id E ` set cs"
      using that collapse_candidates_collapsed [of E cs] unfolding collapsed_def by (metis imageI)
    then have "mn_entity_id m \<in> entity_of E ` set (db_notes u)"
      using known same_rows_entities(1) [OF su] by blast
    then show ?thesis using entity_index_iff(1) [OF i64_ids_same [OF su i64]] by blast
  qed
  then have none: "filter (\<lambda>m. ?idx (mn_entity_id m) = None) (collapse_candidates E cs) = []"
    by (simp add: filter_empty_conv)
  let ?present = "filter (\<lambda>m. ?idx (mn_entity_id m) \<noteq> None) (collapse_candidates E cs)"
  obtain w where w: "merge_present ?idx ?present u = (Inr (), w)" using merge_present_returns by blast
  have "\<exists>sm. reconcile_entries E client False cs ?idx sm0 u = (Inr sm, w)"
    unfolding reconcile_entries_def Let_def none sort_key_simps if_False
      st_bind_ok [where m = "merge_present ?idx ?present" and s = u, OF w]
    by (simp add: st_runs)
  with u show ?thesis
    by (auto simp: reconcile_candidates_def st_bind_def st_map_err_def all_notes_for_dedup_def query_def)
qed

text \<open>C24: A run of reconcile that succeeds leaves every candidate on a row of memory.db, with its tags and files,
  keeps every row that was there, and its counts partition the candidates.\<close>
theorem reconcile_imports_all:
  assumes "store_inv s" and "honest E s" and "i64_ids s" and "find_project slug d = Some p"
    and "reconcile_project E dropped client (Inr d) slug False s = (Inr sm, t)"
  shows "rs_candidates sm = length (read_server_notes (vp_id p) d) \<and>
    rs_already_present sm + rs_collapsed sm + rs_imported sm = rs_candidates sm \<and>
    length (db_notes t) = length (db_notes s) + rs_imported sm \<and>
    (\<forall>r \<in> set (db_notes s). \<exists>q \<in> set (db_notes t). enriched_row r q) \<and>
    (\<forall>c \<in> set (read_server_notes (vp_id p) d). \<exists>q \<in> set (db_notes t). entity_of E q = cand_entity_id E c \<and>
       set (split_field (c_tags c)) \<subseteq> set (split_csv (r_tags q)) \<and>
       set (split_field (c_linked_files c)) \<subseteq> set (split_csv (r_linked_files q)))"
proof (cases "read_server_notes (vp_id p) d = []")
  case True
  with assms(4,5) show ?thesis
    by (auto simp: reconcile_project_def Let_def st_runs new_summary_def intro: enriched_row_refl)
next
  case False
  let ?cs = "read_server_notes (vp_id p) d"
  have run: "reconcile_candidates E dropped client False ?cs ((new_summary slug)\<lparr> rs_candidates := length ?cs \<rparr>) s = (Inr sm, t)"
    using assms(5) by (simp add: reconcile_project_run [OF assms(4) refl False])
  from reconcile_candidates_run [OF assms(1-3) _ _ run]
  have x: "enriched E s t" "\<forall>m \<in> set (collapse_candidates E ?cs). carries E m t" "rs_candidates sm = length ?cs"
    "rs_already_present sm + rs_collapsed sm + rs_imported sm = length ?cs"
    "length (db_notes t) = length (db_notes s) + rs_imported sm" by (simp_all add: new_summary_def)
  with enrichedD(3) [OF x(1) assms(1,2)] carries_candidate [OF x(2)] show ?thesis by simp
qed

text \<open>C25: Running reconcile again right after a run that succeeded imports nothing: every candidate counts as
  present, and no row is added.\<close>
theorem reconcile_again:
  assumes "store_inv s" and "honest E s" and "i64_ids s" and "i64_ids t" and "find_project slug d = Some p"
    and "reconcile_project E dropped client (Inr d) slug False s = (Inr sm, t)"
  shows "\<exists>sm' t'. reconcile_project E dropped client (Inr d) slug False t = (Inr sm', t') \<and>
    rs_imported sm' = 0 \<and> rs_already_present sm' = rs_candidates sm' \<and> length (db_notes t') = length (db_notes t)"
proof (cases "read_server_notes (vp_id p) d = []")
  case True
  with assms(5) show ?thesis by (simp add: reconcile_project_def Let_def st_runs new_summary_def)
next
  case False
  let ?cs = "read_server_notes (vp_id p) d"
  let ?sm0 = "(new_summary slug)\<lparr> rs_candidates := length ?cs \<rparr>"
  note eq = reconcile_project_run [OF assms(5) refl False]
  have run: "reconcile_candidates E dropped client False ?cs ?sm0 s = (Inr sm, t)"
    using assms(6) by (simp add: eq)
  from reconcile_candidates_run [OF assms(1-3) _ _ run]
  have x: "enriched E s t" "\<forall>m \<in> set (collapse_candidates E ?cs). carries E m t" by (simp_all add: new_summary_def)
  note inv = enrichedD(1) [OF x(1) assms(1,2)] and hon = enrichedD(2) [OF x(1) assms(1,2)]
  have known: "cand_entity_id E ` set ?cs \<subseteq> entity_of E ` set (db_notes t)"
    using carries_candidate [OF x(2)] by (metis (no_types, lifting) image_eqI image_subsetI)
  obtain sm' t' where again: "reconcile_candidates E dropped client False ?cs ?sm0 t = (Inr sm', t')"
    using reconcile_nothing_new [OF inv assms(4) known] by blast
  have "filter (\<lambda>m. mn_entity_id m \<notin> entity_of E ` set (db_notes t)) (collapse_candidates E ?cs) = []"
    using known collapse_candidates_collapsed [of E ?cs] unfolding collapsed_def filter_empty_conv by blast
  moreover have start: "rs_candidates ?sm0 = length ?cs" "rs_imported ?sm0 = 0" by (simp_all add: new_summary_def)
  note R = reconcile_candidates_run [OF inv hon assms(4) start again]
  ultimately have none: "rs_imported sm' = 0" using R by simp
  moreover have "rs_collapsed sm' = 0" using R none by blast
  moreover have "rs_candidates sm' = length ?cs" "rs_already_present sm' + rs_collapsed sm' + rs_imported sm' = length ?cs"
    "length (db_notes t') = length (db_notes t) + rs_imported sm'" using R by blast+
  ultimately have "rs_already_present sm' = rs_candidates sm'" "length (db_notes t') = length (db_notes t)" by linarith+
  with again none show ?thesis unfolding eq by blast
qed

text \<open>The nudge promises what reconcile delivers: the number it names is the number of entries a run imports.\<close>

lemma nudge_counts_imports:
  assumes "store_inv s" and "honest E s" and "i64_ids s"
    and "count_reconcilable E dropped (Inr d) slug s = (Some n, u)"
    and "reconcile_project E dropped client (Inr d) slug False s = (Inr sm, t)"
  shows "rs_imported sm = n"
proof -
  obtain v w where w: "open_store E dropped s = (Inr v, w)"
    using open_store_run [OF assms(1)] by blast
  note same = same_rows_entities(1) [OF open_store_same_rows [OF assms(1) w]]
  obtain p where p: "find_project slug d = Some p" "read_server_notes (vp_id p) d \<noteq> []"
    using assms(4) by (auto simp: count_reconcilable_def Let_def split: option.splits if_splits)
  let ?cs = "read_server_notes (vp_id p) d"
  have "n = length (filter (\<lambda>m. mn_entity_id m \<notin> entity_of E ` set (db_notes s)) (collapse_candidates E ?cs))"
    using assms(4) w p
    by (simp add: count_reconcilable_def Let_def seq_sql_def all_notes_for_dedup_def query_def note_entities same
        del: set_map split: if_splits)
  moreover have run: "reconcile_candidates E dropped client False ?cs ((new_summary slug)\<lparr> rs_candidates := length ?cs \<rparr>) s = (Inr sm, t)"
    using assms(5) by (simp add: reconcile_project_run [OF p(1) refl p(2)])
  ultimately show ?thesis
    using reconcile_candidates_run [OF assms(1-3) _ _ run] by (simp add: new_summary_def)
qed

end
