(* ===== verification/ReconcileRuns.thy ===== *)
theory ReconcileRuns
  imports ReconcileSpec ServerRuns
begin

text \<open>Runs of \<open>memory reconcile\<close> from a daemon's database with one note into an empty store.\<close>

definition demo_reconcile :: "store \<Rightarrow> (recon_error \<times> reconcile_summary option + reconcile_summary) \<times> store" where
  "demo_reconcile = reconcile_project plain_hashing False None (Inr demo_stored) demo_slug False"

lemma demo_reconcile_once:
  "\<exists>sm t p. demo_reconcile empty_store = (Inr sm, t) \<and> rs_imported sm = 1 \<and> find_project demo_slug demo_stored = Some p"
proof -
  have "(case fst (demo_reconcile empty_store) of Inr sm \<Rightarrow> rs_imported sm = 1 | Inl _ \<Rightarrow> False)"
    by code_simp
  moreover have "find_project demo_slug demo_stored \<noteq> None"
    by code_simp
  ultimately show ?thesis
    by (auto simp: prod_eq_iff split: sum.splits)
qed

lemma empty_i64: "i64_ids empty_store" "honest E empty_store"
  by (simp_all add: i64_ids_def ids_def honest_def empty_store_def)

theorem reconcile_imports_all_witness:
  "\<exists>sm t. reconcile_project plain_hashing False None (Inr demo_stored) demo_slug False empty_store = (Inr sm, t) \<and>
     rs_imported sm = 1 \<and> length (db_notes t) = 1"
proof -
  obtain sm t p where run: "reconcile_project plain_hashing False None (Inr demo_stored) demo_slug False empty_store = (Inr sm, t)"
    "rs_imported sm = 1" "find_project demo_slug demo_stored = Some p"
    using demo_reconcile_once by (auto simp: demo_reconcile_def)
  from reconcile_imports_all [OF empty_store_inv empty_i64(2,1) run(3,1)] run(1,2)
  have "length (db_notes t) = length (db_notes empty_store) + 1" by simp
  with run(1,2) show ?thesis by (auto simp: empty_store_def)
qed

lemma demo_after_i64:
  "i64_ids (snd (demo_reconcile empty_store))"
proof -
  have "list_all (\<lambda>r. - (2 ^ 63) \<le> r_id r \<and> r_id r < 2 ^ 63) (db_notes (snd (demo_reconcile empty_store)))"
    by code_simp
  then show ?thesis by (auto simp: i64_ids_def ids_def in_i64_def i64_min_def i64_max_def list_all_iff)
qed

theorem reconcile_again_witness:
  "\<exists>sm t sm' t'. reconcile_project plain_hashing False None (Inr demo_stored) demo_slug False empty_store = (Inr sm, t) \<and>
     reconcile_project plain_hashing False None (Inr demo_stored) demo_slug False t = (Inr sm', t') \<and>
     rs_imported sm = 1 \<and> rs_imported sm' = 0"
proof -
  obtain sm t p where run: "reconcile_project plain_hashing False None (Inr demo_stored) demo_slug False empty_store = (Inr sm, t)"
    "rs_imported sm = 1" "find_project demo_slug demo_stored = Some p"
    using demo_reconcile_once by (auto simp: demo_reconcile_def)
  from demo_after_i64 run(1) have "i64_ids t" by (simp add: demo_reconcile_def)
  from reconcile_again [OF empty_store_inv empty_i64(2,1) this run(3,1)] run(1,2) show ?thesis by blast
qed

lemma nudge_counts_imports_witness:
  "fst (count_reconcilable plain_hashing False (Inr demo_stored) demo_slug empty_store) = Some 1 \<and>
   (case fst (reconcile_project plain_hashing False None (Inr demo_stored) demo_slug False empty_store) of
      Inr sm \<Rightarrow> rs_imported sm = 1 | Inl _ \<Rightarrow> False)"
proof -
  have n: "fst (count_reconcilable plain_hashing False (Inr demo_stored) demo_slug empty_store) = Some 1"
    by code_simp
  then obtain u where u: "count_reconcilable plain_hashing False (Inr demo_stored) demo_slug empty_store = (Some 1, u)"
    by (cases "count_reconcilable plain_hashing False (Inr demo_stored) demo_slug empty_store") simp
  obtain sm t p where run: "reconcile_project plain_hashing False None (Inr demo_stored) demo_slug False empty_store = (Inr sm, t)"
    using demo_reconcile_once by (auto simp: demo_reconcile_def)
  from nudge_counts_imports [OF empty_store_inv empty_i64(2,1) u run] run n show ?thesis by simp
qed

end
