(* ===== verification/NotesRefs.thy ===== *)
theory NotesRefs
  imports GitLock
begin

text \<open>
  \<open>storage/git_notes/refs.rs\<close>: the object ids of the notes refs, read from the files of the git directory
  without a subprocess.  The file system is the record \<open>fs_view\<close>; a path that ends in no slash is
  assumed where its parent is taken.
\<close>

record fs_view =
  fs_exists :: "string \<Rightarrow> bool"
  fs_is_dir :: "string \<Rightarrow> bool"
  fs_read :: "string \<Rightarrow> string option"

text \<open>\<open>Path::parent\<close> of a Unix path.\<close>

definition path_parent :: "string \<Rightarrow> string option" where
  "path_parent p =
     (if p = [] \<or> p = ''/'' then None
      else let up = rev (tl (dropWhile (\<lambda>c. c \<noteq> CHR ''/'') (rev p)))
           in Some (if up = [] \<and> is_absolute p then ''/'' else up))"

lemma path_parent_shorter: "path_parent p = Some q \<Longrightarrow> length q < length p"
proof -
  assume q: "path_parent p = Some q"
  then have p: "p \<noteq> []" "p \<noteq> ''/''" by (auto simp: path_parent_def split: if_splits)
  obtain d where d: "d = dropWhile (\<lambda>c. c \<noteq> CHR ''/'') (rev p)" by simp
  have "length d \<le> length p" unfolding d by (metis length_dropWhile_le length_rev)
  then have len: "length (rev (tl d)) < length p" using p(1) by (cases d) auto
  show ?thesis
  proof (cases "rev (tl d) = [] \<and> is_absolute p")
    case True
    then have "take 1 p = ''/''" by (simp add: is_absolute_def starts_with_def)
    then have "1 < length p" using p by (cases p; cases "tl p") auto
    moreover from True q p have "q = ''/''" by (simp add: path_parent_def Let_def d)
    ultimately show ?thesis by simp
  next
    case False
    with q p have "q = rev (tl d)" by (auto simp: path_parent_def Let_def d)
    with len show ?thesis by simp
  qed
qed

record notes_refs =
  nf_common_dir :: string
  nf_workdir :: "string option"

text \<open>The walk up to the directory that holds \<open>.git\<close>.\<close>

function find_dot_git :: "fs_view \<Rightarrow> string \<Rightarrow> (string \<times> string) option" where
  "find_dot_git fs dir =
     (if fs_exists fs (path_join dir ''.git'') then Some (path_join dir ''.git'', dir)
      else (case path_parent dir of None \<Rightarrow> None | Some up \<Rightarrow> find_dot_git fs up))"
  by pat_completeness auto
termination by (relation "measure (\<lambda>(fs, dir). length dir)") (auto dest: path_parent_shorter)

definition read_commondir :: "fs_view \<Rightarrow> string \<Rightarrow> string option" where
  "read_commondir fs git_dir =
     Option.bind (fs_read fs (path_join git_dir ''commondir''))
       (\<lambda>content. if trim content = [] then None else Some (path_join git_dir (trim content)))"

definition git_dir_of :: "fs_view \<Rightarrow> string \<Rightarrow> string option" where
  "git_dir_of fs dot_git =
     (if fs_is_dir fs dot_git then Some dot_git
      else Option.bind (fs_read fs dot_git)
        (\<lambda>content. Option.bind (find_map (strip_prefix ''gitdir:'') (str_lines content))
          (\<lambda>rest. if is_absolute (trim rest) then Some (trim rest)
             else map_option (\<lambda>up. path_join up (trim rest)) (path_parent dot_git))))"

definition discover :: "fs_view \<Rightarrow> string option \<Rightarrow> string option \<Rightarrow> notes_refs option" where
  "discover fs cwd start =
     Option.bind (case start of Some p \<Rightarrow> Some p | None \<Rightarrow> cwd)
       (\<lambda>p. Option.bind (find_dot_git fs p)
          (\<lambda>(dot_git, workdir). map_option
             (\<lambda>git_dir. \<lparr> nf_common_dir = (case read_commondir fs git_dir of Some c \<Rightarrow> c | None \<Rightarrow> git_dir),
                nf_workdir = Some workdir \<rparr>)
             (git_dir_of fs dot_git)))"

text \<open>A line of \<open>packed-refs\<close>.\<close>

definition packed_line :: "string \<Rightarrow> string \<Rightarrow> string option" where
  "packed_line refname line0 =
     (let line = trim line0 in
      if line = [] \<or> starts_with ''#'' line \<or> starts_with ''^'' line then None
      else (case split_whitespace line of
              oid # name # _ \<Rightarrow> if name = refname then Some oid else None
            | _ \<Rightarrow> None))"

definition loose_oid :: "string \<Rightarrow> string option" where
  "loose_oid body = (if trim body \<noteq> [] \<and> \<not> starts_with ''ref:'' (trim body) then Some (trim body) else None)"

definition read_ref :: "fs_view \<Rightarrow> notes_refs \<Rightarrow> string \<Rightarrow> string option" where
  "read_ref fs refs refname =
     (case Option.bind (fs_read fs (path_join (nf_common_dir refs) refname)) loose_oid of
        Some oid \<Rightarrow> Some oid
      | None \<Rightarrow>
          Option.bind (fs_read fs (path_join (nf_common_dir refs) ''packed-refs''))
            (\<lambda>content. find_map (packed_line refname) (str_lines content)))"

definition working_oid :: "fs_view \<Rightarrow> notes_refs \<Rightarrow> string option" where
  "working_oid fs refs = read_ref fs refs SPELUNK_NOTES_REF"

definition tracking_oid :: "fs_view \<Rightarrow> notes_refs \<Rightarrow> string option" where
  "tracking_oid fs refs = read_ref fs refs SPELUNK_TRACKING_REF"

declare find_dot_git.simps [simp del]

section \<open>What is read\<close>

text \<open>A loose ref shadows the packed one.\<close>

lemma loose_ref_wins:
  assumes "fs_read fs (path_join (nf_common_dir refs) refname) = Some body"
    and "trim body \<noteq> []" "\<not> starts_with ''ref:'' (trim body)"
  shows "read_ref fs refs refname = Some (trim body)"
  using assms by (simp add: read_ref_def loose_oid_def)

text \<open>The work directory is the nearest one, going up, that has a \<open>.git\<close>.\<close>

lemma find_dot_git_found:
  "find_dot_git fs dir = Some (g, w) \<Longrightarrow> g = path_join w ''.git'' \<and> fs_exists fs g \<and> length w \<le> length dir"
proof (induction fs dir rule: find_dot_git.induct)
  case (1 fs dir)
  show ?case
  proof (cases "fs_exists fs (path_join dir ''.git'')")
    case True
    with 1(2) show ?thesis by (auto simp: find_dot_git.simps [of fs dir])
  next
    case False
    with 1(2) obtain up where up: "path_parent dir = Some up" "find_dot_git fs up = Some (g, w)"
      by (auto simp: find_dot_git.simps [of fs dir] split: option.splits)
    from 1(1) [OF False up] path_parent_shorter [OF up(1)] show ?thesis by auto
  qed
qed

end
