(* ===== verification/NotesImport.thy ===== *)
theory NotesImport
  imports NotesRefs GitBackend MemorySync EntityIdMigration SyncRound
begin

text \<open>
  The notes of the carrier folded into \<open>memory.db\<close>
  (\<open>import_git_notes_into_memory\<close> and \<open>refresh_read_path_from_git_notes\<close> of
  \<open>spelunk-cli/src/cli/cmd/memory/reconcile.rs\<close>).  Beside the carrier's state there is the store,
  \<open>None\<close> while no \<open>memory.db\<close> exists; opening it makes one.  \<open>view\<close> is the file system as a
  state of the carrier shows it.
\<close>

definition INIT_GIT_NOTES_SOURCE :: string where
  "INIT_GIT_NOTES_SOURCE = ''init:git-notes''"

definition GIT_NOTES_IMPORT_LIMIT :: nat where
  "GIT_NOTES_IMPORT_LIMIT = 500"

datatype import_error = ListFailed notes_error | ImportStoreFailed db_error

section \<open>The import\<close>

text \<open>The notes whose entity is not known, the first of each entity.\<close>

fun unknown_notes :: "hashing \<Rightarrow> string set \<Rightarrow> mem_note list \<Rightarrow> mem_note list" where
  "unknown_notes E known [] = []"
| "unknown_notes E known (n # ns) =
     (if note_entity_id E n \<in> known then unknown_notes E known ns
      else n # unknown_notes E (insert (note_entity_id E n) known) ns)"

fun add_imported_notes :: "hashing \<Rightarrow> mem_note list \<Rightarrow> unit sql" where
  "add_imported_notes E [] = ok ()"
| "add_imported_notes E (n # ns) =
     seq_sql (add_note_with_created_at E (n_kind n) (n_title n) (n_body n) (n_tags n) (n_linked_files n)
         (Some INIT_GIT_NOTES_SOURCE) (if n_status n = archived then archived else active) (n_created_at n))
       (\<lambda>_. add_imported_notes E ns)"

definition import_unknown :: "hashing \<Rightarrow> string option \<Rightarrow> mem_note list \<Rightarrow> nat sql" where
  "import_unknown E oid to_import =
     in_transaction (seq_sql (add_imported_notes E to_import)
       (\<lambda>_. seq_sql (set_notes_imported_working_oid oid) (\<lambda>_. ok (length to_import))))"

definition import_listed :: "hashing \<Rightarrow> bool \<Rightarrow> string option \<Rightarrow> mem_note list \<Rightarrow> nat sql" where
  "import_listed E dropped oid notes =
     seq_sql (open_store E dropped) (\<lambda>_. seq_sql all_notes_for_dedup
       (\<lambda>existing. case unknown_notes E (note_entity_id E ` set existing) notes of
          [] \<Rightarrow> seq_sql (try_sql (set_notes_imported_working_oid oid)) (\<lambda>_. ok 0)
        | n # ns \<Rightarrow> import_unknown E oid (n # ns)))"

definition open_or_create :: "store option \<Rightarrow> store" where
  "open_or_create mem = (case mem of Some s \<Rightarrow> s | None \<Rightarrow> empty_store)"

text \<open>An empty carrier only stamps a store that exists.\<close>

definition stamp_existing :: "hashing \<Rightarrow> bool \<Rightarrow> unit sql \<Rightarrow> store option \<Rightarrow> store option" where
  "stamp_existing E dropped stamp mem =
     map_option (\<lambda>s. snd (seq_sql (open_store E dropped) (\<lambda>_. stamp) s)) mem"

definition import_into_store ::
    "hashing \<Rightarrow> bool \<Rightarrow> string option \<Rightarrow> mem_note list \<Rightarrow> store option \<Rightarrow> (import_error + nat) \<times> store option" where
  "import_into_store E dropped oid notes mem =
     (if notes = [] then (Inr 0, stamp_existing E dropped (set_notes_imported_working_oid oid) mem)
      else (case import_listed E dropped oid notes (open_or_create mem) of
              (Inl e, t) \<Rightarrow> (Inl (ImportStoreFailed e), Some t)
            | (Inr n, t) \<Rightarrow> (Inr n, Some t)))"

definition import_git_notes_into_memory ::
    "'g world \<Rightarrow> 'v serde \<Rightarrow> hashing \<Rightarrow> ('g \<Rightarrow> fs_view) \<Rightarrow> bool \<Rightarrow> string \<Rightarrow> 'g \<times> store option \<Rightarrow>
       ((import_error + nat) \<times> 'g \<times> store option) option" where
  "import_git_notes_into_memory W S E view dropped git_root st =
     (case st of (g, mem) \<Rightarrow>
       (case git_list W S E None GIT_NOTES_IMPORT_LIMIT True None g of
          None \<Rightarrow> None
        | Some (Inl e, g1) \<Rightarrow> Some (Inl (ListFailed e), g1, mem)
        | Some (Inr notes, g1) \<Rightarrow>
            (let oid = Option.bind (discover (view g1) None (Some git_root)) (working_oid (view g1))
             in (case import_into_store E dropped oid notes mem of (r, mem1) \<Rightarrow> Some (r, g1, mem1)))))"

section \<open>On the read path\<close>

text \<open>The markers, as far as they can be read.\<close>

definition read_marker :: "hashing \<Rightarrow> bool \<Rightarrow> store option \<Rightarrow> notes_import_marker \<times> store option" where
  "read_marker E dropped mem =
     (case mem of
        None \<Rightarrow> (default_marker, None)
      | Some s \<Rightarrow>
          (case seq_sql (open_store E dropped) (\<lambda>_. notes_import_state) s of
             (Inr m, t) \<Rightarrow> (m, Some t)
           | (Inl e, t) \<Rightarrow> (default_marker, Some t)))"

text \<open>The merge is asked for when the tracking ref is not the one last merged; its outcome is not looked at.\<close>

definition merge_if_moved ::
    "'g world \<Rightarrow> ('g \<Rightarrow> fs_view) \<Rightarrow> notes_refs \<Rightarrow> bool \<Rightarrow> string option \<Rightarrow> ('g, string option) act" where
  "merge_if_moved W view refs moved working =
     (if moved
      then seq_act (merge_tracking_notes W (nf_workdir refs)) (\<lambda>_. observe (\<lambda>g. working_oid (view g) refs))
      else ret working)"

definition import_if_moved ::
    "'g world \<Rightarrow> 'v serde \<Rightarrow> hashing \<Rightarrow> ('g \<Rightarrow> fs_view) \<Rightarrow> bool \<Rightarrow> notes_refs \<Rightarrow> bool \<Rightarrow> 'g \<times> store option \<Rightarrow>
       ('g \<times> store option) option" where
  "import_if_moved W S E view dropped refs moved st =
     (case nf_workdir refs of
        Some git_root \<Rightarrow>
          if moved then map_option snd (import_git_notes_into_memory W S E view dropped git_root st) else Some st
      | None \<Rightarrow> Some st)"

definition mark_merged :: "hashing \<Rightarrow> bool \<Rightarrow> string option \<Rightarrow> store option \<Rightarrow> store option" where
  "mark_merged E dropped tracking mem =
     Some (snd (seq_sql (open_store E dropped) (\<lambda>_. set_notes_merged_tracking_oid tracking) (open_or_create mem)))"

definition refresh_local ::
    "'g world \<Rightarrow> 'v serde \<Rightarrow> hashing \<Rightarrow> ('g \<Rightarrow> fs_view) \<Rightarrow> bool \<Rightarrow> notes_refs \<Rightarrow> 'g \<times> store option \<Rightarrow>
       ('g \<times> store option) option" where
  "refresh_local W S E view dropped refs st =
     (case st of (g, mem) \<Rightarrow>
       (let tracking = tracking_oid (view g) refs; working = working_oid (view g) refs
        in if tracking = None \<and> working = None then Some (g, mem)
           else (case read_marker E dropped mem of (marker, mem1) \<Rightarrow>
             (let moved = (tracking \<noteq> last_merged_tracking_oid marker)
              in (case merge_if_moved W view refs moved working g of
                    None \<Rightarrow> None
                  | Some (Inl e, g1) \<Rightarrow> Some (g1, mem1)
                  | Some (Inr working1, g1) \<Rightarrow>
                      map_option (\<lambda>(g2, mem2). (g2, if moved then mark_merged E dropped tracking mem2 else mem2))
                        (import_if_moved W S E view dropped refs
                           (working1 \<noteq> last_imported_working_oid marker) (g1, mem1)))))))"

definition refresh_read_path_from_git_notes ::
    "'g world \<Rightarrow> 'v serde \<Rightarrow> hashing \<Rightarrow> ('g \<Rightarrow> fs_view) \<Rightarrow> bool \<Rightarrow> string option \<Rightarrow> sync_mode \<Rightarrow> string option \<Rightarrow>
       string option \<Rightarrow> 'g \<times> store option \<Rightarrow> ('g \<times> store option) option" where
  "refresh_read_path_from_git_notes W S E view dropped cwd mode server_url backend_override st =
     (case st of (g, mem) \<Rightarrow>
       if backend_override = Some ''git-notes''
       then map_option (\<lambda>(_, g1). (g1, mem)) (merge_tracking_notes W None g)
       else if mode = CloudFirst \<and> server_url \<noteq> None then Some (g, mem)
       else (case discover (view g) cwd None of
               None \<Rightarrow> Some (g, mem)
             | Some refs \<Rightarrow> refresh_local W S E view dropped refs (g, mem)))"

end
