(* ===== verification/NotesImportSpec.thy ===== *)
theory NotesImportSpec
  imports ReconcileSpec NotesImport GitCarrier
begin

text \<open>
  What an import from the carrier leaves in \<open>memory.db\<close>, and what the two markers of the read path
  let later reads skip.
\<close>

section \<open>The entries an import picks\<close>

lemma unknown_notes_sub: "set (unknown_notes E known ns) \<subseteq> set ns"
  by (induction E known ns rule: unknown_notes.induct) auto

lemma unknown_notes_new: "n \<in> set (unknown_notes E known ns) \<Longrightarrow> note_entity_id E n \<notin> known"
  by (induction E known ns rule: unknown_notes.induct) (auto split: if_splits)

lemma unknown_notes_distinct: "distinct (map (note_entity_id E) (unknown_notes E known ns))"
  by (induction E known ns rule: unknown_notes.induct) (auto dest: unknown_notes_new)

lemma unknown_notes_cover:
  "n \<in> set ns \<Longrightarrow> note_entity_id E n \<in> known \<union> note_entity_id E ` set (unknown_notes E known ns)"
  by (induction E known ns rule: unknown_notes.induct) auto

section \<open>The rows\<close>

definition noted_row :: "hashing \<Rightarrow> mem_note \<Rightarrow> int \<Rightarrow> row" where
  "noted_row E n i = (default_row (n_created_at n) i)
     \<lparr> r_kind := n_kind n, r_title := n_title n, r_body := n_body n,
       r_tags := Some (join_with [comma] (n_tags n)), r_linked_files := Some (join_with [comma] (n_linked_files n)),
       r_source_ref := Some INIT_GIT_NOTES_SOURCE,
       r_status := (if n_status n = archived then archived else active), r_entity_id := Some (note_entity_id E n) \<rparr>"

lemma noted_row_sel [simp]:
  "r_id (noted_row E n i) = i" "r_entity_id (noted_row E n i) = Some (note_entity_id E n)"
  "entity_of E (noted_row E n i) = note_entity_id E n"
  "r_kind (noted_row E n i) = n_kind n" "r_title (noted_row E n i) = n_title n" "r_body (noted_row E n i) = n_body n"
  "r_status (noted_row E n i) = (if n_status n = archived then archived else active)"
  "r_created_at (noted_row E n i) = n_created_at n"
  by (simp_all add: noted_row_def default_row_def entity_of_def note_entity_id_def)

definition with_row :: "row \<Rightarrow> store \<Rightarrow> store" where
  "with_row r s = s\<lparr> db_notes := db_notes s @ [r], db_seq := db_seq s + 1 \<rparr>"

lemma with_row_sel [simp]:
  "db_notes (with_row r s) = db_notes s @ [r]" "db_import (with_row r s) = db_import s"
  by (simp_all add: with_row_def)

lemma add_noted:
  assumes inv: "store_inv s" and fresh: "\<forall>r \<in> set (db_notes s). r_entity_id r \<noteq> Some (note_entity_id E n)"
  shows "add_note_with_created_at E (n_kind n) (n_title n) (n_body n) (n_tags n) (n_linked_files n)
      (Some INIT_GIT_NOTES_SOURCE) (if n_status n = archived then archived else active) (n_created_at n) s =
    (Inr (db_seq s + 1, True), with_row (noted_row E n (db_seq s + 1)) s)"
proof -
  have eq: "add_note_with_created_at E (n_kind n) (n_title n) (n_body n) (n_tags n) (n_linked_files n)
      (Some INIT_GIT_NOTES_SOURCE) (if n_status n = archived then archived else active) (n_created_at n) s =
    seq_sql (try_sql (insert_note (noted_row E n)))
      (\<lambda>res. recover_from_entity_id_collision res (note_entity_id E n) (n_tags n) (n_linked_files n)) s"
    by (simp add: add_note_with_created_at_def Let_def noted_row_def [abs_def] note_entity_id_def)
  show ?thesis
  proof (rule insert_or_merge [OF inv, of "noted_row E n" "note_entity_id E n" "n_tags n" "n_linked_files n"])
    fix r assume "r \<in> set (db_notes s)" "r_entity_id r = Some (note_entity_id E n)"
    with fresh show ?thesis by simp
  qed (simp_all only: eq, simp_all add: with_row_def noted_row_def default_row_def)
qed

lemma add_imported_run:
  assumes "store_inv s" and "distinct (map (note_entity_id E) ns)"
    and "\<forall>n \<in> set ns. \<forall>r \<in> set (db_notes s). r_entity_id r \<noteq> Some (note_entity_id E n)"
  shows "\<exists>js t. add_imported_notes E ns s = (Inr (), t) \<and> store_inv t \<and> db_import t = db_import s \<and>
    length js = length ns \<and> db_notes t = db_notes s @ map2 (noted_row E) ns js"
  using assms
proof (induction ns arbitrary: s)
  case Nil
  then show ?case by (simp add: sql_run)
next
  case (Cons n ns)
  let ?s1 = "with_row (noted_row E n (db_seq s + 1)) s"
  have add: "add_note_with_created_at E (n_kind n) (n_title n) (n_body n) (n_tags n) (n_linked_files n)
      (Some INIT_GIT_NOTES_SOURCE) (if n_status n = archived then archived else active) (n_created_at n) s =
      (Inr (db_seq s + 1, True), ?s1)"
    using Cons.prems by (intro add_noted) auto
  have inv: "store_inv ?s1" by (rule keepsD [OF keeps_add_note_with_created_at Cons.prems(1) add])
  have "\<forall>m \<in> set ns. \<forall>r \<in> set (db_notes ?s1). r_entity_id r \<noteq> Some (note_entity_id E m)"
    using Cons.prems(2,3) by auto
  from Cons.IH [OF inv _ this] Cons.prems(2) obtain js t where
    t: "add_imported_notes E ns ?s1 = (Inr (), t)" "store_inv t" "db_import t = db_import s"
      "length js = length ns" "db_notes t = db_notes ?s1 @ map2 (noted_row E) ns js" by auto
  then show ?case using add
    by (intro exI [of _ "(db_seq s + 1) # js"] exI [of _ t]) (simp add: seq_sql_def)
qed


section \<open>An import\<close>

definition marker_of :: "store \<Rightarrow> notes_import_marker" where
  "marker_of s = (case db_import s of Some m \<Rightarrow> m | None \<Rightarrow> default_marker)"

definition stamped :: "string option \<Rightarrow> store \<Rightarrow> store" where
  "stamped oid s = s\<lparr> db_import := Some ((marker_of s)\<lparr> last_imported_working_oid := oid \<rparr>) \<rparr>"

lemma stamped_sel [simp]:
  "db_notes (stamped oid s) = db_notes s" "marker_of (stamped oid s) = (marker_of s)\<lparr> last_imported_working_oid := oid \<rparr>"
  by (simp_all add: stamped_def marker_of_def)

lemma set_imported_run: "set_notes_imported_working_oid oid s = (Inr (), stamped oid s)"
  by (simp add: set_notes_imported_working_oid_def stamped_def marker_of_def split: option.split)

lemma stamped_inv: "store_inv s \<Longrightarrow> store_inv (stamped oid s)"
  by (rule keepsD [OF keeps_set_import_state(2) _ set_imported_run])

lemma open_store_enrichedD:
  assumes "store_inv s" and "honest E s"
  shows "\<exists>v u. open_store E dropped s = (Inr v, u) \<and> store_inv u \<and> honest E u \<and> db_import u = db_import s \<and>
    same_rows s u \<and> (\<forall>r \<in> set (db_notes s). \<exists>q \<in> set (db_notes u). enriched_row r q)"
proof -
  obtain v u where u: "open_store E dropped s = (Inr v, u)" "db_import u = db_import s"
    using open_store_run [OF assms(1), of E dropped] by blast
  with enrichedD [OF withinD [OF open_store_enriched u(1)] assms] open_store_same_rows [OF assms(1) u(1)] show ?thesis
    by blast
qed

lemma import_unknown_run:
  assumes inv: "store_inv s" and hon: "honest E s"
    and ns: "ns = unknown_notes E (entity_of E ` set (db_notes s)) notes"
  shows "\<exists>t js. import_unknown E oid ns s = (Inr (length ns), t) \<and> store_inv t \<and> honest E t \<and>
    marker_of t = (marker_of s)\<lparr> last_imported_working_oid := oid \<rparr> \<and>
    length js = length ns \<and> db_notes t = db_notes s @ map2 (noted_row E) ns js"
proof -
  have "distinct (map (note_entity_id E) ns)" by (simp add: ns unknown_notes_distinct)
  moreover have "\<forall>n \<in> set ns. \<forall>r \<in> set (db_notes s). r_entity_id r \<noteq> Some (note_entity_id E n)"
  proof (intro ballI notI)
    fix n r assume "n \<in> set ns" and r: "r \<in> set (db_notes s)" "r_entity_id r = Some (note_entity_id E n)"
    then have "note_entity_id E n \<notin> entity_of E ` set (db_notes s)" unfolding ns by (intro unknown_notes_new)
    moreover have "note_entity_id E n = entity_of E r" using hon r by (auto simp: honest_def)
    ultimately show False using r(1) by simp
  qed
  ultimately obtain js t where t: "add_imported_notes E ns s = (Inr (), t)" "store_inv t" "db_import t = db_import s"
    "length js = length ns" "db_notes t = db_notes s @ map2 (noted_row E) ns js"
    using add_imported_run [OF inv] by blast
  have "honest E (stamped oid t)" using hon by (auto simp: honest_def t(5))
  moreover have "import_unknown E oid ns s = (Inr (length ns), stamped oid t)"
    using t(1) by (simp add: import_unknown_def in_transaction_def seq_sql_def set_imported_run ok_def)
  moreover have "marker_of t = marker_of s" using t(3) by (simp add: marker_of_def)
  ultimately show ?thesis
    using t stamped_inv by (intro exI [of _ "stamped oid t"] exI [of _ js]) simp
qed

lemma map2_noted:
  assumes "length js = length ns"
  shows "entity_of E ` set (map2 (noted_row E) ns js) = note_entity_id E ` set ns"
    and "\<forall>q \<in> set (map2 (noted_row E) ns js). \<exists>n \<in> set ns. q = noted_row E n (r_id q)"
proof -
  have "map (entity_of E) (map2 (noted_row E) ns js) = map (note_entity_id E) ns"
    using assms by (induction ns js rule: list_induct2') auto
  then show "entity_of E ` set (map2 (noted_row E) ns js) = note_entity_id E ` set ns"
    by (metis list.set_map)
qed (auto dest: set_zip_leftD)


section \<open>A refresh\<close>

definition on_local_path :: "sync_mode \<Rightarrow> string option \<Rightarrow> string option \<Rightarrow> bool" where
  "on_local_path mode server_url backend_override \<longleftrightarrow>
     backend_override \<noteq> Some ''git-notes'' \<and> \<not> (mode = CloudFirst \<and> server_url \<noteq> None)"

lemma refresh_is_local:
  assumes "on_local_path mode server_url backend_override" and "discover (view g) cwd None = Some refs"
  shows "refresh_read_path_from_git_notes W S E view dropped cwd mode server_url backend_override (g, mem) =
    refresh_local W S E view dropped refs (g, mem)"
  using assms by (auto simp: on_local_path_def refresh_read_path_from_git_notes_def)

lemma read_marker_run:
  assumes "store_inv s" and "honest E s"
  shows "\<exists>u. read_marker E dropped (Some s) = (marker_of s, Some u) \<and> store_inv u \<and> honest E u \<and>
    db_import u = db_import s \<and> same_rows s u"
proof -
  obtain v u where u: "open_store E dropped s = (Inr v, u)" "store_inv u" "honest E u" "db_import u = db_import s"
    "same_rows s u" using open_store_enrichedD [OF assms] by blast
  moreover have "notes_import_state u = (Inr (marker_of s), u)"
    using u(4) by (simp add: notes_import_state_def query_def marker_of_def)
  ultimately show ?thesis
    by (intro exI [of _ u]) (simp add: read_marker_def seq_sql_def)
qed

lemma mark_merged_run:
  assumes "store_inv s" and "honest E s"
  shows "\<exists>t. mark_merged E dropped oid (Some s) = Some t \<and> store_inv t \<and> honest E t \<and>
    marker_of t = (marker_of s)\<lparr> last_merged_tracking_oid := oid \<rparr> \<and> same_rows s t"
proof -
  obtain v u where u: "open_store E dropped s = (Inr v, u)" "store_inv u" "honest E u" "db_import u = db_import s"
    "same_rows s u" using open_store_enrichedD [OF assms] by blast
  obtain t where t: "set_notes_merged_tracking_oid oid u = (Inr (), t)" "db_notes t = db_notes u"
    "marker_of t = (marker_of u)\<lparr> last_merged_tracking_oid := oid \<rparr>"
    by (simp add: set_notes_merged_tracking_oid_def marker_of_def split: option.split)
  have "store_inv t" by (rule keepsD [OF keeps_set_import_state(1) u(2) t(1)])
  moreover have "honest E t" "same_rows s t" using u(3,5) t(2) by (simp_all add: honest_def same_rows_def)
  moreover have "marker_of u = marker_of s" using u(4) by (simp add: marker_of_def)
  ultimately show ?thesis
    using u(1) t by (intro exI [of _ t]) (simp add: mark_merged_def seq_sql_def open_or_create_def)
qed

lemma steady_local:
  assumes "store_inv s" and "honest E s"
    and "tracking_oid (view g) refs = last_merged_tracking_oid (marker_of s)"
    and "working_oid (view g) refs = last_imported_working_oid (marker_of s)"
  shows "\<exists>t. refresh_local W S E view dropped refs (g, Some s) = Some (g, Some t) \<and>
    same_rows s t \<and> marker_of t = marker_of s"
proof (cases "tracking_oid (view g) refs = None \<and> working_oid (view g) refs = None")
  case True
  then show ?thesis by (intro exI [of _ s]) (simp add: refresh_local_def Let_def same_rows_def)
next
  case False
  obtain u where u: "read_marker E dropped (Some s) = (marker_of s, Some u)" "db_import u = db_import s" "same_rows s u"
    using read_marker_run [OF assms(1,2)] by blast
  have quiet: "import_if_moved W S E view dropped refs False (g, Some u) = Some (g, Some u)"
    by (simp add: import_if_moved_def split: option.split)
  have "refresh_local W S E view dropped refs (g, Some s) = Some (g, Some u)"
    using False u(1) assms(3,4)
    by (auto simp: refresh_local_def Let_def merge_if_moved_def ret_def quiet)
  with u show ?thesis by (simp add: marker_of_def)
qed

text \<open>In the steady state a read is free: while neither notes ref differs from its marker, refreshing runs no git command
  (the carrier's state is untouched, whatever git would do), adds no row, and leaves the markers.\<close>

lemma refresh_steady:
  assumes "store_inv s" and "honest E s" and "discover (view g) cwd None = Some refs"
    and "tracking_oid (view g) refs = last_merged_tracking_oid (marker_of s)"
    and "working_oid (view g) refs = last_imported_working_oid (marker_of s)"
    and "on_local_path mode server_url backend_override"
  shows "\<exists>t. refresh_read_path_from_git_notes W S E view dropped cwd mode server_url backend_override (g, Some s) =
      Some (g, Some t) \<and> same_rows s t \<and> marker_of t = marker_of s"
  unfolding refresh_is_local [where view = view and g = g, OF assms(6,3)] by (rule steady_local [where view = view and g = g, OF assms(1,2,4,5)])

text \<open>A merge that another writer's lock kept from running is not retried: the refresh marks the fetched ref as merged all
  the same, so the next read, with the refs where they were, runs no merge either.\<close>

lemma contended_merge_is_forgotten:
  assumes "store_inv s" and "honest E s" and "discover (view g) cwd None = Some refs" and "discover (view g1) cwd None = Some refs"
    and "merge_tracking_notes W (nf_workdir refs) g = Some (Inr LockUnavailable, g1)"
    and "tracking_oid (view g) refs = Some toid" and "last_merged_tracking_oid (marker_of s) \<noteq> Some toid"
    and "tracking_oid (view g1) refs = Some toid"
    and "working_oid (view g1) refs = last_imported_working_oid (marker_of s)"
    and "on_local_path mode server_url backend_override"
  shows "\<exists>t u. refresh_read_path_from_git_notes W S E view dropped cwd mode server_url backend_override (g, Some s) =
      Some (g1, Some t) \<and> same_rows s t \<and> last_merged_tracking_oid (marker_of t) = Some toid \<and>
    refresh_read_path_from_git_notes W S E view dropped cwd mode server_url backend_override (g1, Some t) =
      Some (g1, Some u) \<and> same_rows t u"
proof -
  obtain u where u: "read_marker E dropped (Some s) = (marker_of s, Some u)" "store_inv u" "honest E u"
    "db_import u = db_import s" "same_rows s u"
    using read_marker_run [OF assms(1,2)] by blast
  obtain t where t: "mark_merged E dropped (Some toid) (Some u) = Some t" "store_inv t" "honest E t"
    "marker_of t = (marker_of u)\<lparr> last_merged_tracking_oid := Some toid \<rparr>" "same_rows u t"
    using mark_merged_run [OF u(2,3)] by blast
  have mu: "marker_of u = marker_of s" using u(4) by (simp add: marker_of_def)
  have quiet: "import_if_moved W S E view dropped refs False (g1, Some u) = Some (g1, Some u)"
    by (simp add: import_if_moved_def split: option.split)
  have merged: "merge_if_moved W view refs True w g = Some (Inr (working_oid (view g1) refs), g1)" for w
    using assms(5) by (simp add: merge_if_moved_def seq_act_def observe_def)
  have first: "refresh_local W S E view dropped refs (g, Some s) = Some (g1, Some t)"
    using assms(6,7,9) not_sym [OF assms(7)] u(1) t(1) merged quiet
    by (simp add: refresh_local_def Let_def)
  have "same_rows s t" using u(5) t(5) still.joins by blast
  moreover obtain x where "refresh_local W S E view dropped refs (g1, Some t) = Some (g1, Some x)" "same_rows t x"
    using steady_local [OF t(2,3), of view g1 refs W S dropped] assms(8,9) t(4) mu by auto
  ultimately show ?thesis
    using first t(4) unfolding refresh_is_local [where view = view and g = g, OF assms(10,3)]
      refresh_is_local [where view = view and g = g1, OF assms(10,4)]
    by (intro exI [of _ t] exI [of _ x]) simp
qed

section \<open>Runs\<close>

definition demo_fs :: fs_view where
  "demo_fs =
     \<lparr> fs_exists = (\<lambda>p. p = ''/r/.git''), fs_is_dir = (\<lambda>p. p = ''/r/.git''),
       fs_read = (\<lambda>p. if p = ''/r/.git/'' @ SPELUNK_TRACKING_REF then Some (''aa'' @ [nl]) else None) \<rparr>"

definition demo_refs :: notes_refs where
  "demo_refs = \<lparr> nf_common_dir = ''/r/.git'', nf_workdir = Some ''/r'' \<rparr>"

lemma demo_discover: "discover demo_fs (Some ''/r/src'') None = Some demo_refs"
  by code_simp

lemma demo_oids: "tracking_oid demo_fs demo_refs = Some ''aa''" "working_oid demo_fs demo_refs = None"
  by code_simp+

text \<open>A store that merged the tracking ref.\<close>

definition merged_store :: store where
  "merged_store = snd (set_notes_merged_tracking_oid (Some ''aa'') empty_store)"

lemma marked_stores:
  "store_inv merged_store" "honest E merged_store" "honest E empty_store"
  "marker_of merged_store = default_marker\<lparr> last_merged_tracking_oid := Some ''aa'' \<rparr>"
  "marker_of empty_store = default_marker"
  by (simp_all add: merged_store_def set_notes_merged_tracking_oid_def empty_store_def marker_of_def honest_def
      store_inv_def unique_index_def edges_ok_def references_ok_def)

definition demo_noted :: mem_note where
  "demo_noted = record_to_note (example_copy 1 1 archived [''x''] None)"


lemma refresh_steady_witness:
  "\<exists>t. refresh_read_path_from_git_notes mini_world (example_serde (example_copy 1 1 active [] None)) plain_hashing
      (\<lambda>g. demo_fs) False (Some ''/r/src'') LocalFirst None None
      (\<lparr> mini_note = None, mini_locked = False, mini_clock = 0 \<rparr>, Some merged_store) =
    Some (\<lparr> mini_note = None, mini_locked = False, mini_clock = 0 \<rparr>, Some t) \<and> db_notes t = []"
proof -
  have "on_local_path LocalFirst None None" by (simp add: on_local_path_def)
  moreover have "db_notes t = []" if "same_rows merged_store t" for t
    using that by (simp add: same_rows_def merged_store_def set_notes_merged_tracking_oid_def empty_store_def)
  ultimately show ?thesis
    using refresh_steady [OF marked_stores(1,2), where view = "\<lambda>g :: mini. demo_fs" and cwd = "Some ''/r/src''"
        and refs = demo_refs and mode = LocalFirst and server_url = None and backend_override = None and W = mini_world
        and g = "\<lparr> mini_note = None, mini_locked = False, mini_clock = 0 \<rparr>" and dropped = False and E = plain_hashing
        and S = "example_serde (example_copy 1 1 active [] None)"]
    by (auto simp: demo_discover demo_oids marked_stores default_marker_def)
qed

text \<open>A clock that ticks five seconds at each poll, so that waiting for the lock is over soon.\<close>

definition slow_world :: "mini world" where
  "slow_world = mini_world\<lparr> sleep_ms := (\<lambda>n s. s\<lparr> mini_clock := mini_clock s + n + 5000 \<rparr>) \<rparr>"

lemma slow_contended:
  "merge_tracking_notes slow_world (Some ''/r'') \<lparr> mini_note = None, mini_locked = True, mini_clock = 0 \<rparr> =
     Some (Inr LockUnavailable, \<lparr> mini_note = None, mini_locked = True, mini_clock = 5010 \<rparr>)"
  by code_simp

lemma contended_merge_is_forgotten_witness:
  "\<exists>g t. refresh_read_path_from_git_notes slow_world (example_serde (example_copy 1 1 active [] None)) plain_hashing
      (\<lambda>g. demo_fs) False (Some ''/r/src'') LocalFirst None None
      (\<lparr> mini_note = None, mini_locked = True, mini_clock = 0 \<rparr>, Some empty_store) = Some (g, Some t) \<and>
    last_merged_tracking_oid (marker_of t) = Some ''aa''"
proof -
  have "merge_tracking_notes slow_world (nf_workdir demo_refs) \<lparr> mini_note = None, mini_locked = True, mini_clock = 0 \<rparr> =
     Some (Inr LockUnavailable, \<lparr> mini_note = None, mini_locked = True, mini_clock = 5010 \<rparr>)"
    using slow_contended by (simp add: demo_refs_def)
  moreover have "on_local_path LocalFirst None None" by (simp add: on_local_path_def)
  ultimately show ?thesis
    using contended_merge_is_forgotten [OF empty_store_inv marked_stores(3), where view = "\<lambda>g :: mini. demo_fs"
        and cwd = "Some ''/r/src''" and refs = demo_refs and mode = LocalFirst and server_url = None
        and backend_override = None and W = slow_world and toid = "''aa''" and E = plain_hashing and dropped = False
        and S = "example_serde (example_copy 1 1 active [] None)"]
    by (fastforce simp: demo_discover demo_oids marked_stores default_marker_def)
qed

end
