(* ===== verification/Registry.thy ===== *)
theory Registry
  imports NotesRefs StateError
begin

text \<open>
  The global registry of projects (\<open>spelunk-core/src/registry.rs\<close>), the walks up the directories that
  find a project (\<open>config/paths.rs\<close>, \<open>utils/mod.rs\<close>), and the commands that link projects
  (\<open>spelunk-cli/src/cli/cmd/link.rs\<close>).  \<open>gix\<close> is a parameter of the view of the file system.
\<close>

section \<open>Walking up\<close>

text \<open>The loops that try a directory, then what \<open>pop\<close> leaves of it.\<close>

function walk_up :: "(string \<Rightarrow> 'a option) \<Rightarrow> string \<Rightarrow> 'a option" where
  "walk_up f dir =
     (case f dir of
        Some x \<Rightarrow> Some x
      | None \<Rightarrow> (case path_parent dir of None \<Rightarrow> None | Some up \<Rightarrow> walk_up f up))"
  by pat_completeness auto
termination by (relation "measure (\<lambda>(f, dir). length dir)") (auto dest: path_parent_shorter)

declare walk_up.simps [simp del]

definition path_file_name :: "string \<Rightarrow> string option" where
  "path_file_name p =
     (let n = rev (takeWhile (\<lambda>c. c \<noteq> CHR ''/'') (rev p))
      in if n = [] \<or> n = ''.'' \<or> n = ''..'' then None else Some n)"

record worktree_view = fs_view +
  fs_is_file :: "string \<Rightarrow> bool"
  gix_git_dir :: "string \<Rightarrow> string option"

text \<open>The main worktree of a git directory \<open>main/.git/worktrees/name\<close>.\<close>

definition main_of_git_dir :: "string \<Rightarrow> string option" where
  "main_of_git_dir git_dir =
     Option.bind (path_parent git_dir)
       (\<lambda>parent. if path_file_name parent = Some ''worktrees''
          then Option.bind (path_parent parent) path_parent else None)"

definition git_file_main :: "worktree_view \<Rightarrow> string \<Rightarrow> string option" where
  "git_file_main fs root =
     (if \<not> fs_is_file fs (path_join root ''.git'') then None
      else Option.bind (fs_read fs (path_join root ''.git''))
        (\<lambda>content. Option.bind (strip_prefix ''gitdir:'' content) (\<lambda>g. main_of_git_dir (trim g))))"

definition resolve_main_worktree_root :: "worktree_view \<Rightarrow> string \<Rightarrow> string" where
  "resolve_main_worktree_root fs root =
     (case (case gix_git_dir fs root of Some git_dir \<Rightarrow> main_of_git_dir git_dir | None \<Rightarrow> git_file_main fs root) of
        Some main_root \<Rightarrow> if main_root \<noteq> root then main_root else root
      | None \<Rightarrow> root)"

definition index_db_in :: "worktree_view \<Rightarrow> string \<Rightarrow> string option" where
  "index_db_in fs dir =
     (let candidate = path_join (path_join dir ''.spelunk'') ''index.db''
      in if fs_exists fs candidate then Some candidate else None)"

definition find_project_db :: "worktree_view \<Rightarrow> string \<Rightarrow> string option" where
  "find_project_db fs start = walk_up (index_db_in fs) (resolve_main_worktree_root fs start)"

definition find_project_dir :: "worktree_view \<Rightarrow> string \<Rightarrow> string option" where
  "find_project_dir fs start =
     walk_up (\<lambda>dir. let candidate = path_join dir ''.spelunk'' in if fs_is_dir fs candidate then Some candidate else None)
       (resolve_main_worktree_root fs start)"

definition find_project_config :: "worktree_view \<Rightarrow> string \<Rightarrow> string option" where
  "find_project_config fs start =
     walk_up (\<lambda>dir. let candidate = path_join (path_join dir ''.spelunk'') ''config.toml''
                    in if fs_exists fs candidate then Some candidate else None) start"

definition require_project_db_at :: "worktree_view \<Rightarrow> string \<Rightarrow> string \<Rightarrow> bool \<Rightarrow> string option" where
  "require_project_db_at fs start cfg_default allow_global =
     (case find_project_dir fs start of
        Some spelunk_dir \<Rightarrow> Some (path_join spelunk_dir ''index.db'')
      | None \<Rightarrow> if allow_global then Some cfg_default else None)"

definition resolve_db :: "worktree_view \<Rightarrow> string option \<Rightarrow> string option \<Rightarrow> string \<Rightarrow> string" where
  "resolve_db fs cwd explicit cfg_default =
     (case explicit of
        Some p \<Rightarrow> p
      | None \<Rightarrow> (case Option.bind cwd (find_project_db fs) of Some p \<Rightarrow> p | None \<Rightarrow> cfg_default))"

section \<open>The registry\<close>

record registry_project =
  pj_id :: int
  pj_root :: string
  pj_db :: string
  pj_registered_at :: int

text \<open>\<open>rg_burns\<close>: whether an \<open>INSERT\<close> that ends in its \<open>ON CONFLICT\<close> clause uses up a rowid.\<close>

record registry_db =
  rg_projects :: "registry_project list"
  rg_deps :: "(int \<times> int) list"
  rg_seq :: int
  rg_now :: int
  rg_burns :: bool

datatype reg_error =
    RegForeignKey
  | RemoveFailed string
  | NotIndexed string
  | SelfDependency
  | NotRegistered string

type_synonym 'a reg = "(registry_db, reg_error, 'a) st"

definition register :: "string \<Rightarrow> string \<Rightarrow> int reg" where
  "register root db =
     (\<lambda>R. case find (\<lambda>p. pj_root p = root) (rg_projects R) of
        Some p \<Rightarrow>
          (Inr (pj_id p), R\<lparr> rg_projects := map (\<lambda>q. if pj_root q = root then q\<lparr> pj_db := db \<rparr> else q) (rg_projects R),
             rg_seq := (if rg_burns R then rg_seq R + 1 else rg_seq R) \<rparr>)
      | None \<Rightarrow>
          (Inr (rg_seq R + 1), R\<lparr> rg_projects := rg_projects R @
             [\<lparr> pj_id = rg_seq R + 1, pj_root = root, pj_db = db, pj_registered_at = rg_now R \<rparr>],
             rg_seq := rg_seq R + 1 \<rparr>))"

definition find_by_root :: "string \<Rightarrow> registry_project option reg" where
  "find_by_root root = st_get (\<lambda>R. find (\<lambda>p. pj_root p = root) (rg_projects R))"

definition nearest_registered :: "registry_db \<Rightarrow> string \<Rightarrow> registry_project option" where
  "nearest_registered R = walk_up (\<lambda>dir. find (\<lambda>p. pj_root p = dir) (rg_projects R))"

definition find_project_for_path :: "worktree_view \<Rightarrow> string \<Rightarrow> registry_project option reg" where
  "find_project_for_path fs start =
     (let search_root = resolve_main_worktree_root fs start
      in st_bind (st_get (\<lambda>R. nearest_registered R search_root))
        (\<lambda>hit. case hit of
           Some p \<Rightarrow> st_ok (Some p)
         | None \<Rightarrow>
             (case walk_up (\<lambda>dir. map_option (Pair dir) (index_db_in fs dir)) search_root of
                Some (dir, candidate) \<Rightarrow>
                  st_bind (register dir candidate)
                    (\<lambda>i. st_ok (Some \<lparr> pj_id = i, pj_root = dir, pj_db = candidate, pj_registered_at = 0 \<rparr>))
              | None \<Rightarrow> st_ok None)))"

text \<open>The rows of the join, in some order.\<close>

definition get_deps :: "int \<Rightarrow> registry_project list reg" where
  "get_deps project_id =
     st_get (\<lambda>R. filter_map (\<lambda>(a, b). if a = project_id then find (\<lambda>p. pj_id p = b) (rg_projects R) else None) (rg_deps R))"

definition projects_depending_on :: "int \<Rightarrow> registry_project list reg" where
  "projects_depending_on project_id =
     st_get (\<lambda>R. filter_map (\<lambda>(a, b). if b = project_id then find (\<lambda>p. pj_id p = a) (rg_projects R) else None) (rg_deps R))"

text \<open>\<open>INSERT OR IGNORE\<close> ignores a row that is there, not a reference to no row.\<close>

definition add_dep :: "int \<Rightarrow> int \<Rightarrow> unit reg" where
  "add_dep from_id dep_id =
     (\<lambda>R. if (from_id, dep_id) \<in> set (rg_deps R) then (Inr (), R)
          else if from_id \<notin> pj_id ` set (rg_projects R) \<or> dep_id \<notin> pj_id ` set (rg_projects R)
          then (Inl RegForeignKey, R)
          else (Inr (), R\<lparr> rg_deps := rg_deps R @ [(from_id, dep_id)] \<rparr>))"

definition remove_dep :: "int \<Rightarrow> int \<Rightarrow> unit reg" where
  "remove_dep from_id dep_id =
     (\<lambda>R. (Inr (), R\<lparr> rg_deps := filter (\<lambda>e. e \<noteq> (from_id, dep_id)) (rg_deps R) \<rparr>))"

definition all_projects :: "registry_db \<Rightarrow> registry_project list" where
  "all_projects R = sort_key pj_root (rg_projects R)"

text \<open>Deleting a project deletes the links from and to it.\<close>

definition delete_registered :: "int \<Rightarrow> registry_db \<Rightarrow> registry_db" where
  "delete_registered i R =
     R\<lparr> rg_projects := filter (\<lambda>p. pj_id p \<noteq> i) (rg_projects R),
        rg_deps := filter (\<lambda>(a, b). a \<noteq> i \<and> b \<noteq> i) (rg_deps R) \<rparr>"

section \<open>Cleaning up\<close>

text \<open>
  The disk: a directory's entries (an entry that cannot be read is \<open>None\<close>), whether a path itself is a
  symbolic link, and the two removals; removing a tree may fail with a message.
\<close>

record 'f disk =
  dk_exists :: "string \<Rightarrow> 'f \<Rightarrow> bool"
  dk_entries :: "string \<Rightarrow> 'f \<Rightarrow> string option list option"
  dk_symlink :: "string \<Rightarrow> 'f \<Rightarrow> bool option"
  dk_remove_all :: "string \<Rightarrow> 'f \<Rightarrow> string option \<times> 'f"
  dk_remove_dir :: "string \<Rightarrow> 'f \<Rightarrow> 'f"

definition spelunk_only_remnant :: "'f disk \<Rightarrow> string \<Rightarrow> 'f \<Rightarrow> bool" where
  "spelunk_only_remnant D path f = (dk_entries D path f = Some [Some ''.spelunk''])"

definition clean_project ::
    "'f disk \<Rightarrow> registry_project \<Rightarrow> (registry_db \<times> 'f, reg_error, string list) st" where
  "clean_project D p =
     (\<lambda>(R, f).
        let spelunk_dir = path_join (pj_root p) ''.spelunk'';
            dropped = delete_registered (pj_id p) R
        in if \<not> dk_exists D (pj_root p) f then (Inr [pj_root p], (dropped, f))
           else if spelunk_only_remnant D (pj_root p) f then
             (case dk_symlink D spelunk_dir f of
                Some True \<Rightarrow> (Inr [], (R, f))
              | Some False \<Rightarrow>
                  (case dk_remove_all D spelunk_dir f of
                     (Some e, f1) \<Rightarrow> (Inl (RemoveFailed e), (R, f1))
                   | (None, f1) \<Rightarrow> (Inr [pj_root p], (dropped, dk_remove_dir D (pj_root p) f1)))
              | None \<Rightarrow> (Inr [pj_root p], (dropped, f)))
           else (Inr [], (R, f)))"

fun clean_projects :: "'f disk \<Rightarrow> registry_project list \<Rightarrow> (registry_db \<times> 'f, reg_error, string list) st" where
  "clean_projects D [] = st_ok []"
| "clean_projects D (p # ps) =
     st_bind (clean_project D p) (\<lambda>rs. st_bind (clean_projects D ps) (\<lambda>rest. st_ok (rs @ rest)))"

definition autoclean :: "'f disk \<Rightarrow> (registry_db \<times> 'f, reg_error, string list) st" where
  "autoclean D = st_bind (st_get (\<lambda>(R, f). all_projects R)) (clean_projects D)"

section \<open>The project of a command\<close>

record resolved_project =
  rv_project :: "registry_project option"
  rv_db_path :: string
  rv_deps :: "registry_project list"

definition unresolved :: "string \<Rightarrow> resolved_project" where
  "unresolved db_path = \<lparr> rv_project = None, rv_db_path = db_path, rv_deps = [] \<rparr>"

text \<open>\<open>None\<close> for a registry that cannot be opened.\<close>

definition resolve_project_context ::
    "worktree_view \<Rightarrow> string option \<Rightarrow> string option \<Rightarrow> string \<Rightarrow> registry_db option \<Rightarrow> resolved_project \<times> registry_db option" where
  "resolve_project_context fs cwd explicit_db cfg_default_db reg =
     (let fallback = unresolved (resolve_db fs cwd None cfg_default_db)
      in case explicit_db of
        Some p \<Rightarrow> (unresolved p, reg)
      | None \<Rightarrow>
          (case (reg, cwd) of
             (Some R, Some dir) \<Rightarrow>
               (case find_project_for_path fs dir R of
                  (Inr (Some project), R1) \<Rightarrow>
                    if fs_exists fs (pj_db project)
                    then (\<lparr> rv_project = Some project, rv_db_path = pj_db project,
                            rv_deps = (case fst (get_deps (pj_id project) R1) of
                               Inr deps \<Rightarrow> filter (\<lambda>d. fs_exists fs (pj_db d)) deps | Inl e \<Rightarrow> []) \<rparr>, Some R1)
                    else (fallback, Some R1)
                | (_, R1) \<Rightarrow> (fallback, Some R1))
           | _ \<Rightarrow> (fallback, reg)))"

section \<open>Linking projects\<close>

definition project_here :: "worktree_view \<Rightarrow> string \<Rightarrow> registry_project reg" where
  "project_here fs path =
     st_bind (find_project_for_path fs path)
       (\<lambda>p. case p of Some q \<Rightarrow> st_ok q | None \<Rightarrow> st_err (NotIndexed path))"

text \<open>\<open>canon\<close> resolves a path's links and dots.\<close>

definition link :: "worktree_view \<Rightarrow> (string \<Rightarrow> string) \<Rightarrow> string \<Rightarrow> string \<Rightarrow> (registry_project \<times> registry_project) reg" where
  "link fs canon cwd path =
     st_bind (project_here fs cwd) (\<lambda>primary.
       let target = canon (path_join cwd path)
       in if target = pj_root primary then st_err SelfDependency
          else st_bind (project_here fs target) (\<lambda>dep.
            st_bind (add_dep (pj_id primary) (pj_id dep)) (\<lambda>_. st_ok (primary, dep))))"

definition unlink :: "worktree_view \<Rightarrow> (string \<Rightarrow> string) \<Rightarrow> string \<Rightarrow> string \<Rightarrow> (registry_project \<times> registry_project) reg" where
  "unlink fs canon cwd path =
     st_bind (project_here fs cwd) (\<lambda>primary.
       let target = canon (path_join cwd path)
       in st_bind (find_by_root target) (\<lambda>found. case found of
            None \<Rightarrow> st_err (NotRegistered target)
          | Some dep \<Rightarrow>
              st_bind (remove_dep (pj_id primary) (pj_id dep)) (\<lambda>_. st_ok (primary, dep))))"

end
