(* ===== verification/RegistrySpec.thy ===== *)
theory RegistrySpec
  imports Registry
begin

text \<open>
  The registry keeps its constraints, a lookup finds the nearest project, and cleaning up spares
  what is in use.
\<close>

section \<open>Ancestors\<close>

function ancestors :: "string \<Rightarrow> string list" where
  "ancestors dir = dir # (case path_parent dir of None \<Rightarrow> [] | Some up \<Rightarrow> ancestors up)"
  by pat_completeness auto
termination by (relation "measure length") (auto dest: path_parent_shorter)

declare ancestors.simps [simp del]

lemma walk_up_ancestors: "walk_up f dir = find_map f (ancestors dir)"
proof (induction f dir rule: walk_up.induct)
  case (1 f dir)
  then show ?case
    by (simp add: walk_up.simps [of f dir] ancestors.simps [of dir] split: option.split)
qed

lemma ancestors_shorter: "sorted_wrt (\<lambda>a b. length b < length a) (ancestors dir)"
proof (induction dir rule: ancestors.induct)
  case (1 dir)
  show ?case
  proof (cases "path_parent dir")
    case None
    then show ?thesis by (simp add: ancestors.simps [of dir])
  next
    case (Some up)
    have "length d \<le> length up" if "d \<in> set (ancestors up)" for d
      using 1 [OF Some] that by (subst (asm) (1 2) ancestors.simps) (auto split: option.splits)
    with 1 [OF Some] path_parent_shorter [OF Some] Some show ?thesis
      by (subst ancestors.simps) fastforce
  qed
qed

lemma self_ancestor [simp]: "dir \<in> set (ancestors dir)"
  by (simp add: ancestors.simps [of dir])

text \<open>The first hit of a list is before every other.\<close>

lemma find_map_first:
  assumes "find_map f xs = Some y"
  shows "\<exists>x \<in> set xs. f x = Some y \<and> (\<forall>P. sorted_wrt P xs \<longrightarrow> (\<forall>z \<in> set xs. f z \<noteq> None \<longrightarrow> z = x \<or> P x z))"
  using assms
proof (induction xs)
  case (Cons a xs)
  show ?case
  proof (cases "f a")
    case None
    with Cons obtain x where "x \<in> set xs" "f x = Some y"
      "\<forall>P. sorted_wrt P xs \<longrightarrow> (\<forall>z \<in> set xs. f z \<noteq> None \<longrightarrow> z = x \<or> P x z)" by auto
    with None show ?thesis by (intro bexI [of _ x]) auto
  next
    case (Some b)
    with Cons show ?thesis by (intro bexI [of _ a]) auto
  qed
qed simp

section \<open>Constraints\<close>

definition registry_inv :: "registry_db \<Rightarrow> bool" where
  "registry_inv R \<longleftrightarrow>
     sorted_wrt (<) (map pj_id (rg_projects R)) \<and> (\<forall>i \<in> set (map pj_id (rg_projects R)). i \<le> rg_seq R) \<and>
     distinct (map pj_root (rg_projects R)) \<and> distinct (rg_deps R) \<and>
     (\<forall>e \<in> set (rg_deps R). fst e \<in> set (map pj_id (rg_projects R)) \<and> snd e \<in> set (map pj_id (rg_projects R)))"

lemma registry_inv_same:
  assumes "registry_inv R" and "map pj_id (rg_projects S) = map pj_id (rg_projects R)"
    and "map pj_root (rg_projects S) = map pj_root (rg_projects R)" and "rg_deps S = rg_deps R" and "rg_seq R \<le> rg_seq S"
  shows "registry_inv S"
  using assms(1,5) order_trans unfolding registry_inv_def assms(2-4) by blast

lemma register_keeps: "within (keeping registry_inv) (register root db)"
proof -
  have "registry_inv (snd (register root db R))" if inv: "registry_inv R" for R
  proof (cases "find (\<lambda>p. pj_root p = root) (rg_projects R)")
    case None
    then have new: "\<forall>p \<in> set (rg_projects R). pj_root p \<noteq> root" by (auto simp: find_None_iff)
    have "\<forall>p \<in> set (rg_projects R). pj_id p < rg_seq R + 1" using inv by (auto simp: registry_inv_def)
    with inv new None show ?thesis
      by (auto simp: register_def registry_inv_def sorted_wrt_append)
  next
    case (Some p)
    have "map pj_id (map (\<lambda>q. if pj_root q = root then q\<lparr> pj_db := db \<rparr> else q) ps) = map pj_id ps"
      "map pj_root (map (\<lambda>q. if pj_root q = root then q\<lparr> pj_db := db \<rparr> else q) ps) = map pj_root ps" for ps
      by (induction ps) simp_all
    with Some show ?thesis by (intro registry_inv_same [OF inv]) (simp_all add: register_def)
  qed
  then show ?thesis by (simp add: within_def keeping_def)
qed

lemma find_keeps: "within (keeping registry_inv) (find_project_for_path fs start)"
  unfolding find_project_for_path_def Let_def
  by (auto intro!: kept_inv.composes register_keeps split: option.split)

lemma project_here_keeps: "within (keeping registry_inv) (project_here fs start)"
  unfolding project_here_def by (auto intro!: kept_inv.composes find_keeps split: option.split)

lemma add_dep_keeps: "within (keeping registry_inv) (add_dep a b)"
  by (force simp: within_def keeping_def add_dep_def registry_inv_def)

lemma remove_dep_keeps: "within (keeping registry_inv) (remove_dep a b)"
  by (auto simp: within_def keeping_def remove_dep_def registry_inv_def)

lemma link_keeps: "within (keeping registry_inv) (link fs canon cwd path)"
  unfolding link_def Let_def by (auto intro!: kept_inv.composes project_here_keeps add_dep_keeps)

lemma unlink_keeps: "within (keeping registry_inv) (unlink fs canon cwd path)"
  unfolding unlink_def Let_def find_by_root_def
  by (auto intro!: kept_inv.composes project_here_keeps remove_dep_keeps split: option.split)

lemma delete_keeps: "registry_inv R \<Longrightarrow> registry_inv (delete_registered i R)"
  by (auto simp: registry_inv_def delete_registered_def distinct_map_filter sorted_wrt_map sorted_wrt_filter)

text \<open>Cleaning up deletes projects: what is left is what was there without some roots.\<close>

definition without :: "int set \<Rightarrow> registry_db \<Rightarrow> registry_db" where
  "without gone R = R\<lparr> rg_projects := filter (\<lambda>p. pj_id p \<notin> gone) (rg_projects R),
     rg_deps := filter (\<lambda>(a, b). a \<notin> gone \<and> b \<notin> gone) (rg_deps R) \<rparr>"

lemma without_none [simp]: "without {} R = R"
  by (simp add: without_def case_prod_unfold)

lemma delete_without: "delete_registered i (without gone R) = without (insert i gone) R"
  by (auto simp: delete_registered_def without_def case_prod_unfold conj_ac intro!: filter_cong arg_cong2 [of _ _ _ _ "\<lambda>a b. R\<lparr> rg_projects := a, rg_deps := b \<rparr>"])

lemma without_sub: "set (rg_projects (without gone R)) \<subseteq> set (rg_projects R)"
  by (auto simp: without_def)

text \<open>What cleaning up does to the disk: only below a registered root that has one entry, a real \<open>.spelunk\<close>.\<close>

inductive cleanup_step :: "'f disk \<Rightarrow> string set \<Rightarrow> 'f \<Rightarrow> 'f \<Rightarrow> bool" for D roots where
  tree: "root \<in> roots \<Longrightarrow> spelunk_only_remnant D root f \<Longrightarrow> dk_symlink D (path_join root ''.spelunk'') f = Some False \<Longrightarrow>
    dk_remove_all D (path_join root ''.spelunk'') f = (e, g) \<Longrightarrow> cleanup_step D roots f g"
| root: "root \<in> roots \<Longrightarrow> spelunk_only_remnant D root f \<Longrightarrow> dk_symlink D (path_join root ''.spelunk'') f = Some False \<Longrightarrow>
    dk_remove_all D (path_join root ''.spelunk'') f = (None, g) \<Longrightarrow> cleanup_step D roots f (dk_remove_dir D root g)"

lemma clean_project_run:
  assumes "clean_project D p (without gone R, f) = (r, (R', f'))" and "pj_root p \<in> roots"
  shows "(f' = f \<or> cleanup_step D roots f f') \<and>
    (R' = without gone R \<and> (\<forall>rs. r = Inr rs \<longrightarrow> rs = []) \<or>
     R' = without (insert (pj_id p) gone) R \<and> r = Inr [pj_root p] \<and>
       (dk_exists D (pj_root p) f \<longrightarrow> spelunk_only_remnant D (pj_root p) f))"
  using assms
  by (auto simp: clean_project_def Let_def delete_without split: if_splits option.splits bool.splits prod.splits
      intro: cleanup_step.intros)

lemma clean_projects_run:
  assumes "clean_projects D ps (without gone R, f) = (r, (R', f'))" and "pj_root ` set ps \<subseteq> roots"
    and "P f" and "\<And>g h. P g \<Longrightarrow> cleanup_step D roots g h \<Longrightarrow> P h"
    and "\<And>g. P g \<Longrightarrow> dk_exists D used g \<and> \<not> spelunk_only_remnant D used g"
  shows "P f' \<and> (\<exists>new \<subseteq> set ps. R' = without (pj_id ` new \<union> gone) R \<and> (\<forall>p \<in> new. pj_root p \<noteq> used) \<and>
    (\<forall>rs. r = Inr rs \<longrightarrow> set rs = pj_root ` new))"
  using assms(1-3)
proof (induction ps arbitrary: gone f r)
  case Nil
  then show ?case by (auto simp: st_runs)
next
  case (Cons p ps)
  obtain r1 R1 f1 where one: "clean_project D p (without gone R, f) = (r1, (R1, f1))" by (metis prod_cases3)
  note c = clean_project_run [OF one, of roots]
  have root: "pj_root p \<in> roots" "pj_root ` set ps \<subseteq> roots" using Cons.prems(2) by auto
  have f1: "P f1" using c [OF root(1)] Cons.prems(3) assms(4) by auto
  obtain new1 where new1: "new1 \<subseteq> {p}" "R1 = without (pj_id ` new1 \<union> gone) R" "\<forall>p \<in> new1. pj_root p \<noteq> used"
    "\<forall>rs. r1 = Inr rs \<longrightarrow> rs = (if new1 = {} then [] else [pj_root p])"
  proof (cases "R1 = without gone R \<and> (\<forall>rs. r1 = Inr rs \<longrightarrow> rs = [])")
    case True
    then show thesis by (intro that [of "{}"]) auto
  next
    case False
    with c [OF root(1)] assms(5) [OF Cons.prems(3)] show thesis by (intro that [of "{p}"]) auto
  qed
  show ?case
  proof (cases r1)
    case (Inl e)
    with Cons.prems(1) one have "r = Inl e" "R' = R1" "f' = f1" by (simp_all add: st_bind_def)
    with new1 f1 show ?thesis by (intro conjI exI [of _ new1]) auto
  next
    case (Inr rs1)
    obtain r2 where rest: "clean_projects D ps (R1, f1) = (r2, (R', f'))"
      "\<forall>rs. r = Inr rs \<longrightarrow> (\<exists>rs2. r2 = Inr rs2 \<and> rs = rs1 @ rs2)"
      using Cons.prems(1) one Inr by (auto simp: st_bind_def st_runs split: prod.splits sum.splits)
    from Cons.IH [OF rest(1) [unfolded new1(2)] root(2) f1] obtain new2 where new2: "P f'" "new2 \<subseteq> set ps"
      "R' = without (pj_id ` new2 \<union> (pj_id ` new1 \<union> gone)) R" "\<forall>p \<in> new2. pj_root p \<noteq> used"
      "\<forall>rs. r2 = Inr rs \<longrightarrow> set rs = pj_root ` new2" by blast
    have "set rs1 = pj_root ` new1" using new1(1,4) Inr by auto
    then have "\<forall>rs. r = Inr rs \<longrightarrow> set rs = pj_root ` (new1 \<union> new2)" using rest(2) new2(5) by auto
    moreover have "R' = without (pj_id ` (new1 \<union> new2) \<union> gone) R"
      using new2(3) by (simp add: image_Un Un_ac)
    ultimately show ?thesis using new1 new2 by (intro conjI exI [of _ "new1 \<union> new2"]) auto
  qed
qed

text \<open>C28: Cleaning up spares what is in use: it touches the disk only below registered roots that hold nothing but a real
  \<open>.spelunk\<close> directory, so whatever such removals preserve holds afterwards; a root that in every such state
  exists with something else in it keeps its row; the rows that go are those reported, with their links.\<close>
theorem autoclean_spares:
  assumes "autoclean D (R, f) = (r, (R', f'))" and "P f"
    and "\<And>g h. P g \<Longrightarrow> cleanup_step D (pj_root ` set (rg_projects R)) g h \<Longrightarrow> P h"
    and "\<And>g. P g \<Longrightarrow> dk_exists D used g \<and> \<not> spelunk_only_remnant D used g"
  shows "P f' \<and> (\<exists>new \<subseteq> set (rg_projects R). R' = without (pj_id ` new) R \<and> (\<forall>p \<in> new. pj_root p \<noteq> used) \<and>
    (\<forall>removed. r = Inr removed \<longrightarrow> set removed = pj_root ` new))"
proof -
  have "clean_projects D (all_projects R) (without {} R, f) = (r, (R', f'))"
    using assms(1) by (simp add: autoclean_def st_bind_def st_runs)
  moreover have "set (all_projects R) = set (rg_projects R)" by (simp add: all_projects_def)
  ultimately show ?thesis
    using clean_projects_run [where P = P and roots = "pj_root ` set (rg_projects R)", OF _ _ assms(2-4), of "all_projects R" "{}" R r R' f'] by simp
qed

text \<open>A directory that exists and holds nothing but \<open>.spelunk\<close>, a project with only a memory, is removed with it.\<close>

lemma autoclean_removes_existing:
  assumes "rg_projects R = [p]" and "dk_exists D (pj_root p) f" and "spelunk_only_remnant D (pj_root p) f"
    and "dk_symlink D (path_join (pj_root p) ''.spelunk'') f = Some False"
    and "dk_remove_all D (path_join (pj_root p) ''.spelunk'') f = (None, g)"
  shows "autoclean D (R, f) = (Inr [pj_root p], (delete_registered (pj_id p) R, dk_remove_dir D (pj_root p) g))"
  using assms by (simp add: autoclean_def all_projects_def clean_project_def Let_def st_bind_def st_runs)

section \<open>The nearest project\<close>

lemma ancestor_order:
  assumes "x \<in> set (ancestors dir)" and "find_map f (ancestors dir) = Some y" and "f x \<noteq> None"
  shows "\<exists>z \<in> set (ancestors dir). f z = Some y \<and> length x \<le> length z"
proof -
  from find_map_first [OF assms(2)] obtain z where z: "z \<in> set (ancestors dir)" "f z = Some y"
    "\<forall>P. sorted_wrt P (ancestors dir) \<longrightarrow> (\<forall>u \<in> set (ancestors dir). f u \<noteq> None \<longrightarrow> u = z \<or> P z u)" by blast
  with ancestors_shorter assms have "x = z \<or> length x < length z" by blast
  with z show ?thesis by auto
qed

lemma nearest_registered_some:
  assumes "nearest_registered R s = Some p"
  shows "p \<in> set (rg_projects R) \<and> pj_root p \<in> set (ancestors s) \<and>
    (\<forall>q \<in> set (rg_projects R). pj_root q \<in> set (ancestors s) \<longrightarrow> length (pj_root q) \<le> length (pj_root p))"
proof -
  let ?f = "\<lambda>dir. find (\<lambda>p. pj_root p = dir) (rg_projects R)"
  have hit: "find_map ?f (ancestors s) = Some p" using assms by (simp add: nearest_registered_def walk_up_ancestors)
  have "length (pj_root q) \<le> length (pj_root p)" if q: "q \<in> set (rg_projects R)" "pj_root q \<in> set (ancestors s)" for q
  proof -
    have "?f (pj_root q) \<noteq> None" using q(1) by (auto simp: find_None_iff)
    from ancestor_order [OF q(2) hit this] show ?thesis by (auto simp: find_Some_iff)
  qed
  moreover from find_map_first [OF hit] have "p \<in> set (rg_projects R) \<and> pj_root p \<in> set (ancestors s)"
    by (auto simp: find_Some_iff)
  ultimately show ?thesis by blast
qed

lemma find_map_none: "find_map f xs = None \<Longrightarrow> x \<in> set xs \<Longrightarrow> f x = None"
  by (induction xs) (auto split: option.splits)

lemma nearest_registered_none:
  "nearest_registered R s = None \<Longrightarrow> d \<in> set (ancestors s) \<Longrightarrow> q \<in> set (rg_projects R) \<Longrightarrow> pj_root q \<noteq> d"
  unfolding nearest_registered_def walk_up_ancestors
  using find_map_none by (fastforce simp: find_None_iff)

definition dirs_above :: "worktree_view \<Rightarrow> string \<Rightarrow> string set" where
  "dirs_above fs start = set (ancestors (resolve_main_worktree_root fs start))"

text \<open>A lookup finds the project whose root is the nearest directory above the (main) worktree; where none is
  registered, the nearest directory with an index is registered under a fresh id; it fails to find one
  only where there is neither.\<close>

lemma find_project_nearest:
  "\<exists>r R'. find_project_for_path fs start R = (Inr r, R') \<and>
    (r = None \<longrightarrow> R' = R \<and> (\<forall>d \<in> dirs_above fs start. index_db_in fs d = None \<and> d \<notin> pj_root ` set (rg_projects R))) \<and>
    (\<forall>p. r = Some p \<longrightarrow> pj_root p \<in> dirs_above fs start \<and>
      (p \<in> set (rg_projects R) \<and> R' = R \<and>
         (\<forall>q \<in> set (rg_projects R). pj_root q \<in> dirs_above fs start \<longrightarrow> length (pj_root q) \<le> length (pj_root p)) \<or>
       dirs_above fs start \<inter> pj_root ` set (rg_projects R) = {} \<and> index_db_in fs (pj_root p) = Some (pj_db p) \<and>
         (\<forall>d \<in> dirs_above fs start. index_db_in fs d \<noteq> None \<longrightarrow> length d \<le> length (pj_root p)) \<and> pj_id p = rg_seq R + 1 \<and>
         rg_projects R' = rg_projects R @ [p\<lparr> pj_registered_at := rg_now R \<rparr>]))"
proof -
  obtain s where s: "s = resolve_main_worktree_root fs start" by simp
  let ?g = "\<lambda>dir. map_option (Pair dir) (index_db_in fs dir)"
  show ?thesis
  proof (cases "nearest_registered R s")
    case (Some p)
    with nearest_registered_some [OF Some] show ?thesis
      unfolding dirs_above_def s [symmetric]
      by (intro exI [of _ "Some p"] exI [of _ R])
         (simp add: find_project_for_path_def s [symmetric] Let_def st_bind_def st_runs)
  next
    case None
    note unreg = nearest_registered_none [OF None]
    show ?thesis
    proof (cases "walk_up ?g s")
      case None': None
      with \<open>nearest_registered R s = None\<close> have "find_project_for_path fs start R = (Inr None, R)"
        by (simp add: find_project_for_path_def s [symmetric] Let_def st_bind_def st_runs)
      moreover have "index_db_in fs d = None" if "d \<in> set (ancestors s)" for d
        using find_map_none [OF None' [unfolded walk_up_ancestors] that] by simp
      ultimately show ?thesis
        unfolding dirs_above_def s [symmetric] using unreg by (intro exI [of _ None] exI [of _ R]) auto
    next
      case (Some x)
      obtain dir candidate where x: "x = (dir, candidate)" by fastforce
      have hit: "find_map ?g (ancestors s) = Some (dir, candidate)" using Some x by (simp add: walk_up_ancestors)
      from find_map_first [OF hit] have dir: "dir \<in> set (ancestors s)" "index_db_in fs dir = Some candidate" by auto
      have near: "length d \<le> length dir" if "d \<in> set (ancestors s)" "index_db_in fs d \<noteq> None" for d
        using ancestor_order [OF that(1) hit] that(2) by auto
      have "find (\<lambda>p. pj_root p = dir) (rg_projects R) = None" using unreg [OF dir(1)] by (auto simp: find_None_iff)
      then have "find_project_for_path fs start R =
          (Inr (Some \<lparr> pj_id = rg_seq R + 1, pj_root = dir, pj_db = candidate, pj_registered_at = 0 \<rparr>),
           R\<lparr> rg_projects := rg_projects R @
             [\<lparr> pj_id = rg_seq R + 1, pj_root = dir, pj_db = candidate, pj_registered_at = rg_now R \<rparr>], rg_seq := rg_seq R + 1 \<rparr>)"
        using None Some x
        by (simp add: find_project_for_path_def s [symmetric] Let_def st_bind_def st_runs register_def)
      then show ?thesis
        unfolding dirs_above_def s [symmetric] using dir near unreg by auto
    qed
  qed
qed

lemma find_registered:
  assumes "p \<in> set (rg_projects R)" and "pj_root p \<in> dirs_above fs start"
    and "\<And>u. u \<in> set (rg_projects R) \<Longrightarrow> pj_root u \<in> dirs_above fs start \<Longrightarrow> u = p"
  shows "find_project_for_path fs start R = (Inr (Some p), R)"
proof (cases "nearest_registered R (resolve_main_worktree_root fs start)")
  case None
  with nearest_registered_none [OF None] assms(1,2) show ?thesis by (auto simp: dirs_above_def)
next
  case (Some u)
  with nearest_registered_some [OF Some] assms(3) have "u = p" by (auto simp: dirs_above_def)
  with Some show ?thesis by (simp add: find_project_for_path_def Let_def st_bind_def st_runs)
qed

section \<open>Links\<close>

text \<open>The guard against a link to itself compares the given path with the root, but the link goes to the
  project that a lookup finds for the path: a subdirectory of a project links the project to itself.\<close>

lemma link_to_itself:
  assumes "p \<in> set (rg_projects R)" and "find_project_for_path fs cwd R = (Inr (Some p), R)"
    and "find_project_for_path fs (canon (path_join cwd path)) R = (Inr (Some p), R)"
    and "canon (path_join cwd path) \<noteq> pj_root p" and "(pj_id p, pj_id p) \<notin> set (rg_deps R)"
  shows "link fs canon cwd path R = (Inr (p, p), R\<lparr> rg_deps := rg_deps R @ [(pj_id p, pj_id p)] \<rparr>)"
  using assms
  by (simp add: link_def project_here_def Let_def st_bind_def st_runs add_dep_def)

text \<open>The link that was made so cannot be undone with the same path: unlinking wants the root itself.\<close>

lemma unlink_wants_the_root:
  assumes "find_project_for_path fs cwd R = (Inr (Some p), R)"
    and "canon (path_join cwd path) \<notin> pj_root ` set (rg_projects R)"
  shows "unlink fs canon cwd path R = (Inl (NotRegistered (canon (path_join cwd path))), R)"
proof -
  have "find (\<lambda>q. pj_root q = canon (path_join cwd path)) (rg_projects R) = None"
    using assms(2) by (auto simp: find_None_iff intro: rev_image_eqI)
  with assms(1) show ?thesis
    by (simp add: unlink_def project_here_def Let_def st_bind_def st_runs find_by_root_def)
qed


text \<open>Every command keeps the registry's constraints: ids ascend and are not reused, a root is registered once, a link
  is recorded once and between registered projects.\<close>

lemma registry_stays_well_formed:
  "within (keeping registry_inv) (register root db) \<and> within (keeping registry_inv) (find_project_for_path fs start) \<and>
   within (keeping registry_inv) (link fs canon cwd path) \<and> within (keeping registry_inv) (unlink fs canon cwd path) \<and>
   within (keeping (\<lambda>(R, f). registry_inv R)) (autoclean D)"
proof -
  have "within (keeping (\<lambda>(R, f). registry_inv R)) (clean_project D p)" for p
    by (auto simp: within_def keeping_def clean_project_def Let_def delete_keeps split: option.split bool.split prod.split)
  then have "within (keeping (\<lambda>(R, f). registry_inv R)) (clean_projects D ps)" for ps
    by (induction ps) (auto intro: kept_inv.composes)
  then have "within (keeping (\<lambda>(R, f). registry_inv R)) (autoclean D)"
    by (auto simp: autoclean_def intro!: kept_inv.composes)
  then show ?thesis by (simp add: register_keeps find_keeps link_keeps unlink_keeps)
qed

end
