(* ===== verification/CrossProject.thy ===== *)
theory CrossProject
  imports Registry EntityIdMigration
begin

text \<open>
  What a project sees of the memories of the projects it is linked to
  (\<open>spelunk-cli/src/cli/cmd/memory/cross_project.rs\<close>).  The memories are a map from the path of a
  \<open>memory.db\<close> to its store, since opening a store may write to it.
\<close>

definition CROSS_CUTTING_KINDS :: "string list" where
  "CROSS_CUTTING_KINDS = [''decision'', ''requirement'']"

definition CROSS_PROJECT_TAGS :: "string list" where
  "CROSS_PROJECT_TAGS = [''locked'', ''cross-project'']"

definition is_cross_cutting :: "string list \<Rightarrow> bool" where
  "is_cross_cutting tags = list_ex (\<lambda>t. list_ex (\<lambda>ct. t = ct) CROSS_PROJECT_TAGS) tags"

text \<open>\<open>None\<close> for a registry that cannot be opened.\<close>

definition resolve_dep_projects ::
    "worktree_view \<Rightarrow> string \<Rightarrow> registry_db option \<Rightarrow> registry_project list \<times> registry_db option" where
  "resolve_dep_projects fs index_db_path reg =
     (case reg of
        None \<Rightarrow> ([], None)
      | Some R \<Rightarrow>
          (let project_root = (case Option.bind (path_parent index_db_path) path_parent of
                 Some p \<Rightarrow> p | None \<Rightarrow> index_db_path)
           in (case find_project_for_path fs project_root R of
                 (Inr (Some project), R1) \<Rightarrow>
                   (case fst (get_deps (pj_id project) R1) of Inr deps \<Rightarrow> (deps, Some R1) | Inl e \<Rightarrow> ([], Some R1))
               | (_, R1) \<Rightarrow> ([], Some R1))))"

definition with_file_name :: "string \<Rightarrow> string \<Rightarrow> string" where
  "with_file_name p name =
     (case path_file_name p of
        None \<Rightarrow> path_join p name
      | Some old \<Rightarrow> (case path_parent p of Some up \<Rightarrow> path_join up name | None \<Rightarrow> name))"

definition project_display_name :: "string \<Rightarrow> string" where
  "project_display_name path = (case path_file_name path of Some n \<Rightarrow> n | None \<Rightarrow> path)"

definition sourced :: "registry_project \<Rightarrow> mem_note \<Rightarrow> mem_note" where
  "sourced dep n = n\<lparr> n_source_project := Some (project_display_name (pj_root dep)),
                      n_source_project_path := Some (pj_root dep) \<rparr>"

fun cross_cutting_of :: "registry_project \<Rightarrow> string list \<Rightarrow> mem_note list sql" where
  "cross_cutting_of dep [] = ok []"
| "cross_cutting_of dep (kind # kinds) =
     seq_sql (try_sql (list_filtered (Some kind) None 500 False None))
       (\<lambda>listed. seq_sql (cross_cutting_of dep kinds)
          (\<lambda>rest. ok ((case listed of
              Inl e \<Rightarrow> []
            | Inr ns \<Rightarrow> map (sourced dep) (filter (\<lambda>n. is_cross_cutting (n_tags n)) ns)) @ rest)))"

definition query_dep_cross_cutting ::
    "hashing \<Rightarrow> bool \<Rightarrow> registry_project \<Rightarrow> (string \<rightharpoonup> store) \<Rightarrow> mem_note list \<times> (string \<rightharpoonup> store)" where
  "query_dep_cross_cutting E dropped dep mems =
     (let mem_db_path = with_file_name (pj_db dep) ''memory.db''
      in case mems mem_db_path of
           None \<Rightarrow> ([], mems)
         | Some s \<Rightarrow>
             (case seq_sql (open_store E dropped) (\<lambda>_. cross_cutting_of dep CROSS_CUTTING_KINDS) s of
                (Inl e, t) \<Rightarrow> ([], mems(mem_db_path \<mapsto> t))
              | (Inr ns, t) \<Rightarrow> (ns, mems(mem_db_path \<mapsto> t))))"

text \<open>The notes that \<open>seen.insert\<close> takes, in order.\<close>

fun take_unseen :: "string \<Rightarrow> (string \<times> note_id) set \<Rightarrow> mem_note list \<Rightarrow> mem_note list \<times> (string \<times> note_id) set" where
  "take_unseen root seen [] = ([], seen)"
| "take_unseen root seen (n # ns) =
     (if (root, n_id n) \<in> seen then take_unseen root seen ns
      else (case take_unseen root (insert (root, n_id n) seen) ns of (rest, seen1) \<Rightarrow> (n # rest, seen1)))"

fun collect_each ::
    "hashing \<Rightarrow> bool \<Rightarrow> registry_project list \<Rightarrow> (string \<times> note_id) set \<Rightarrow> (string \<rightharpoonup> store) \<Rightarrow>
       mem_note list \<times> (string \<times> note_id) set \<times> (string \<rightharpoonup> store)" where
  "collect_each E dropped [] seen mems = ([], seen, mems)"
| "collect_each E dropped (dep # deps) seen mems =
     (case query_dep_cross_cutting E dropped dep mems of (ns, mems1) \<Rightarrow>
       (case take_unseen (pj_root dep) seen ns of (unseen, seen1) \<Rightarrow>
         (case collect_each E dropped deps seen1 mems1 of (rest, seen2, mems2) \<Rightarrow> (unseen @ rest, seen2, mems2))))"

definition collect_dep_cross_cutting ::
    "worktree_view \<Rightarrow> hashing \<Rightarrow> bool \<Rightarrow> string \<Rightarrow> (string \<times> note_id) set \<Rightarrow> registry_db option \<Rightarrow> (string \<rightharpoonup> store) \<Rightarrow>
       mem_note list \<times> (string \<times> note_id) set \<times> (string \<rightharpoonup> store) \<times> registry_db option" where
  "collect_dep_cross_cutting fs E dropped index_db_path seen reg mems =
     (case resolve_dep_projects fs index_db_path reg of (deps, reg1) \<Rightarrow>
       (case collect_each E dropped deps seen mems of (ns, seen1, mems1) \<Rightarrow> (ns, seen1, mems1, reg1)))"

section \<open>What is shown\<close>

definition notes_of :: "store \<Rightarrow> mem_note list" where
  "notes_of s = map row_to_note (db_notes s)"

text \<open>A note that its project offers to others.\<close>

definition offered_note :: "mem_note \<Rightarrow> bool" where
  "offered_note n \<longleftrightarrow> n_status n = active \<and> n_kind n \<in> {''decision'', ''requirement''} \<and>
     (''locked'' \<in> set (n_tags n) \<or> ''cross-project'' \<in> set (n_tags n))"

lemma is_cross_cutting_iff: "is_cross_cutting tags \<longleftrightarrow> ''locked'' \<in> set tags \<or> ''cross-project'' \<in> set tags"
  by (auto simp: is_cross_cutting_def CROSS_PROJECT_TAGS_def list_ex_iff)

definition active_of_kind :: "string \<Rightarrow> mem_note \<Rightarrow> bool" where
  "active_of_kind kind n \<longleftrightarrow> n_status n = active \<and> n_kind n = kind"

lemma row_to_note_sel [simp]: "n_status (row_to_note r) = r_status r" "n_kind (row_to_note r) = r_kind r"
  by (simp_all add: row_to_note_def)

definition newest_of_kind :: "string \<Rightarrow> store \<Rightarrow> mem_note list" where
  "newest_of_kind kind s = map row_to_note (select_newest (\<lambda>r. active_of_kind kind (row_to_note r)) 500 s)"

lemma list_kind_run: "list_filtered (Some kind) None 500 False None s = (Inr (newest_of_kind kind s), s)"
  by (simp add: list_filtered_def query_def status_clause_def as_of_window_def active_of_kind_def newest_of_kind_def)

definition shown_of :: "registry_project \<Rightarrow> store \<Rightarrow> mem_note list" where
  "shown_of dep s = concat (map (\<lambda>kind. map (sourced dep) (filter (\<lambda>n. is_cross_cutting (n_tags n))
     (newest_of_kind kind s))) CROSS_CUTTING_KINDS)"

lemma cross_cutting_run: "cross_cutting_of dep CROSS_CUTTING_KINDS s = (Inr (shown_of dep s), s)"
proof -
  have "cross_cutting_of dep kinds s = (Inr (concat (map (\<lambda>kind. map (sourced dep)
      (filter (\<lambda>n. is_cross_cutting (n_tags n)) (newest_of_kind kind s))) kinds)), s)" for kinds
    by (induction kinds) (simp_all add: seq_sql_def try_sql_def list_kind_run ok_def)
  then show ?thesis by (simp add: shown_of_def)
qed

lemma newest_of_kind_sub: "set (newest_of_kind kind s) \<subseteq> {n \<in> set (notes_of s). active_of_kind kind n}"
  unfolding newest_of_kind_def select_newest_def notes_of_def by (auto dest: in_set_takeD)

lemma newest_of_kind_all:
  assumes "length (filter (active_of_kind kind) (notes_of s)) \<le> 500" and "n \<in> set (notes_of s)" and "active_of_kind kind n"
  shows "n \<in> set (newest_of_kind kind s)"
  using assms by (auto simp: newest_of_kind_def select_newest_def notes_of_def filter_map o_def)

lemma shown_of_sound:
  assumes "n \<in> set (shown_of dep s)"
  shows "\<exists>m \<in> set (notes_of s). offered_note m \<and> n = sourced dep m"
proof -
  from assms obtain kind m where "kind \<in> set CROSS_CUTTING_KINDS" "m \<in> set (newest_of_kind kind s)"
    "is_cross_cutting (n_tags m)" "n = sourced dep m" by (auto simp: shown_of_def)
  then show ?thesis
    using newest_of_kind_sub [of kind s]
    by (intro bexI [of _ m]) (auto simp: offered_note_def active_of_kind_def CROSS_CUTTING_KINDS_def is_cross_cutting_iff)
qed

lemma shown_of_complete:
  assumes "m \<in> set (notes_of s)" and "offered_note m" and "length (filter (active_of_kind (n_kind m)) (notes_of s)) \<le> 500"
  shows "sourced dep m \<in> set (shown_of dep s)"
proof -
  have "m \<in> set (newest_of_kind (n_kind m) s)"
    using assms by (intro newest_of_kind_all) (auto simp: active_of_kind_def offered_note_def)
  moreover have "n_kind m \<in> set CROSS_CUTTING_KINDS" "is_cross_cutting (n_tags m)"
    using assms(2) by (auto simp: offered_note_def CROSS_CUTTING_KINDS_def is_cross_cutting_iff)
  ultimately show ?thesis by (auto simp: shown_of_def)
qed

text \<open>Opening a memory does not change what its notes say.\<close>

definition memories_same :: "(string \<rightharpoonup> store) \<Rightarrow> (string \<rightharpoonup> store) \<Rightarrow> bool" where
  "memories_same mems mems1 \<longleftrightarrow>
     (\<forall>p. map_option notes_of (mems1 p) = map_option notes_of (mems p) \<and> (\<forall>s. mems1 p = Some s \<longrightarrow> store_inv s))"

lemma open_store_notes:
  assumes "store_inv s"
  shows "\<exists>v u. open_store E dropped s = (Inr v, u) \<and> store_inv u \<and> notes_of u = notes_of s"
proof -
  obtain v t u where u: "open_store E dropped s = (Inr v, u)" "backfilled E s t" "db_notes u = db_notes t" "store_inv u"
    using open_store_run [OF assms, of E dropped] by blast
  have same: "row_to_note (fill_row E r) = row_to_note r" for r by (simp add: row_to_note_def fill_row_def)
  from u(2,3) have "list_all2 (\<lambda>r q. q = r \<or> r_entity_id r = None \<and> q = fill_row E r) (db_notes s) (db_notes u)"
    by (auto simp: backfilled_def)
  then have "list_all2 (\<lambda>r q. row_to_note q = row_to_note r) (db_notes s) (db_notes u)"
    by (rule list_all2_mono) (auto simp: same)
  then have "notes_of u = notes_of s"
    by (simp add: notes_of_def list_all2_conv_all_nth list_eq_iff_nth_eq)
  with u show ?thesis by blast
qed

lemma newest_of_kind_members: "notes_of t = notes_of s \<Longrightarrow> filter P (notes_of t) = filter P (notes_of s)"
  by simp

lemma query_dep_run:
  assumes "memories_same mems0 mems" and "query_dep_cross_cutting E dropped dep mems = (ns, mems1)"
  shows "memories_same mems0 mems1 \<and>
    (\<forall>n \<in> set ns. \<exists>s m. mems0 (with_file_name (pj_db dep) ''memory.db'') = Some s \<and> m \<in> set (notes_of s) \<and>
       offered_note m \<and> n = sourced dep m) \<and>
    (\<forall>s m. mems0 (with_file_name (pj_db dep) ''memory.db'') = Some s \<and> m \<in> set (notes_of s) \<and> offered_note m \<and>
       length (filter (active_of_kind (n_kind m)) (notes_of s)) \<le> 500 \<longrightarrow> sourced dep m \<in> set ns)"
proof -
  let ?p = "with_file_name (pj_db dep) ''memory.db''"
  show ?thesis
  proof (cases "mems ?p")
    case None
    then have "mems0 ?p = None" using assms(1) unfolding memories_same_def by (metis map_option_is_None)
    with None assms show ?thesis by (simp add: query_dep_cross_cutting_def)
  next
    case (Some s)
    have inv: "store_inv s" using assms(1) Some by (simp add: memories_same_def)
    have "map_option notes_of (mems ?p) = map_option notes_of (mems0 ?p)"
      using assms(1) unfolding memories_same_def by blast
    then have "map_option notes_of (mems0 ?p) = Some (notes_of s)" by (simp add: Some)
    then obtain s0 where s0: "mems0 ?p = Some s0" "notes_of s0 = notes_of s" by auto
    obtain v u where u: "open_store E dropped s = (Inr v, u)" "store_inv u" "notes_of u = notes_of s"
      using open_store_notes [OF inv] by blast
    have q: "ns = shown_of dep u" "mems1 = mems(?p \<mapsto> u)"
      using assms(2) Some u(1) by (simp_all add: query_dep_cross_cutting_def seq_sql_def cross_cutting_run)
    have "memories_same mems0 mems1"
      using assms(1) s0 u(2,3) unfolding memories_same_def q(2) by simp
    moreover have "\<exists>s m. mems0 ?p = Some s \<and> m \<in> set (notes_of s) \<and> offered_note m \<and> n = sourced dep m"
      if "n \<in> set ns" for n
      using shown_of_sound [of n dep u] that s0 u(3) by (auto simp: q(1))
    moreover have "sourced dep m \<in> set ns"
      if "mems0 ?p = Some s1" "m \<in> set (notes_of s1)" "offered_note m"
        "length (filter (active_of_kind (n_kind m)) (notes_of s1)) \<le> 500" for s1 m
    proof -
      have "s1 = s0" using that(1) s0(1) by simp
      then have eq: "notes_of u = notes_of s1" using s0(2) u(3) by simp
      show ?thesis unfolding q(1) using that(2-4) by (intro shown_of_complete) (simp_all only: eq)
    qed
    ultimately show ?thesis by blast
  qed
qed

lemma take_unseen_run:
  assumes "take_unseen root seen ns = (xs, seen1)"
  shows "set xs \<subseteq> set ns \<and> distinct (map n_id xs) \<and> (\<forall>n \<in> set xs. (root, n_id n) \<notin> seen) \<and>
    seen1 = seen \<union> (\<lambda>n. (root, n_id n)) ` set xs \<and> (\<forall>n \<in> set ns. (root, n_id n) \<in> seen1)"
  using assms
proof (induction root seen ns arbitrary: xs rule: take_unseen.induct)
  case (2 root seen n ns)
  show ?case
  proof (cases "(root, n_id n) \<in> seen")
    case True
    with 2 show ?thesis by auto
  next
    case False
    then obtain rest where "take_unseen root (insert (root, n_id n) seen) ns = (rest, seen1)" "xs = n # rest"
      using 2(3) by (auto split: prod.splits)
    with 2(2) [OF False this(1)] False show ?thesis by auto
  qed
qed simp

definition shown_key :: "mem_note \<Rightarrow> string option \<times> note_id" where
  "shown_key n = (n_source_project_path n, n_id n)"

lemma sourced_sel [simp]: "n_id (sourced dep n) = n_id n" "n_source_project_path (sourced dep n) = Some (pj_root dep)"
  by (simp_all add: sourced_def)

lemma collect_each_run:
  assumes "memories_same mems0 mems" and "collect_each E dropped deps seen mems = (ns, seen1, mems1)"
  shows "(\<forall>n \<in> set ns. \<exists>dep \<in> set deps. \<exists>s m. mems0 (with_file_name (pj_db dep) ''memory.db'') = Some s \<and>
       m \<in> set (notes_of s) \<and> offered_note m \<and> n = sourced dep m) \<and>
    distinct (map shown_key ns) \<and>
    seen1 = seen \<union> (\<lambda>n. (the (n_source_project_path n), n_id n)) ` set ns \<and>
    (\<forall>n \<in> set ns. (the (n_source_project_path n), n_id n) \<notin> seen) \<and>
    (\<forall>dep \<in> set deps. \<forall>s m. mems0 (with_file_name (pj_db dep) ''memory.db'') = Some s \<and> m \<in> set (notes_of s) \<and>
       offered_note m \<and> length (filter (active_of_kind (n_kind m)) (notes_of s)) \<le> 500 \<longrightarrow> (pj_root dep, n_id m) \<in> seen1)"
  using assms
proof (induction deps arbitrary: seen mems ns)
  case (Cons dep deps)
  obtain qs mems' where q: "query_dep_cross_cutting E dropped dep mems = (qs, mems')" by fastforce
  obtain xs seen' where t: "take_unseen (pj_root dep) seen qs = (xs, seen')" by fastforce
  obtain rest where r: "collect_each E dropped deps seen' mems' = (rest, seen1, mems1)" "ns = xs @ rest"
    using Cons.prems(2) by (auto simp: q t split: prod.splits)
  note Q = query_dep_run [OF Cons.prems(1) q] and T = take_unseen_run [OF t]
  note R = Cons.IH [OF conjunct1 [OF Q] r(1)]
  have xs: "n_source_project_path n = Some (pj_root dep)" if "n \<in> set xs" for n
  proof -
    have "n \<in> set qs" using that T by blast
    then obtain m where "n = sourced dep m" using Q by blast
    then show ?thesis by simp
  qed
  have keys: "(\<lambda>n. (the (n_source_project_path n), n_id n)) ` set xs = (\<lambda>n. (pj_root dep, n_id n)) ` set xs"
    using xs by (intro image_cong) auto
  have "map shown_key xs = map (Pair (Some (pj_root dep))) (map n_id xs)"
    using xs by (simp add: shown_key_def)
  then have dx: "distinct (map shown_key xs)" using T by (simp add: distinct_map inj_on_def)
  have "shown_key n \<noteq> shown_key u" if "n \<in> set xs" "u \<in> set rest" for n u
  proof
    assume k: "shown_key n = shown_key u"
    have "(pj_root dep, n_id n) \<in> seen'" using T that(1) by auto
    moreover have "(the (n_source_project_path u), n_id u) \<notin> seen'" using R that(2) by blast
    ultimately show False using k xs [OF that(1)] unfolding shown_key_def by (metis option.sel prod.inject)
  qed
  then have "shown_key ` set xs \<inter> shown_key ` set rest = {}" by blast
  then have dist: "distinct (map shown_key ns)" using dx conjunct1 [OF conjunct2 [OF R]] by (simp add: r(2))
  have seen: "seen1 = seen \<union> (\<lambda>n. (the (n_source_project_path n), n_id n)) ` set ns"
    using R T keys by (auto simp: r(2) image_Un)
  have new: "(the (n_source_project_path n), n_id n) \<notin> seen" if "n \<in> set ns" for n
    using that R T xs by (auto simp: r(2))
  have sub: "seen' \<subseteq> seen1" using R by blast
  have here: "(pj_root dep, n_id m) \<in> seen1"
    if "mems0 (with_file_name (pj_db dep) ''memory.db'') = Some s" "m \<in> set (notes_of s)" "offered_note m"
      "length (filter (active_of_kind (n_kind m)) (notes_of s)) \<le> 500" for s m
  proof -
    have "sourced dep m \<in> set qs" using Q that by blast
    then have "(pj_root dep, n_id (sourced dep m)) \<in> seen'" using T by blast
    then show ?thesis using sub by auto
  qed
  have sound: "\<exists>d \<in> set (dep # deps). \<exists>s m. mems0 (with_file_name (pj_db d) ''memory.db'') = Some s \<and>
      m \<in> set (notes_of s) \<and> offered_note m \<and> n = sourced d m" if "n \<in> set ns" for n
  proof (cases "n \<in> set xs")
    case True
    then have "n \<in> set qs" using T by blast
    with Q show ?thesis by auto
  next
    case False
    with that have "n \<in> set rest" by (simp add: r(2))
    with R show ?thesis by auto
  qed
  have all: "\<forall>d \<in> set (dep # deps). \<forall>s m. mems0 (with_file_name (pj_db d) ''memory.db'') = Some s \<and> m \<in> set (notes_of s) \<and>
      offered_note m \<and> length (filter (active_of_kind (n_kind m)) (notes_of s)) \<le> 500 \<longrightarrow> (pj_root d, n_id m) \<in> seen1"
  proof
    fix d assume "d \<in> set (dep # deps)"
    then consider "d = dep" | "d \<in> set deps" by fastforce
    then show "\<forall>s m. mems0 (with_file_name (pj_db d) ''memory.db'') = Some s \<and> m \<in> set (notes_of s) \<and>
      offered_note m \<and> length (filter (active_of_kind (n_kind m)) (notes_of s)) \<le> 500 \<longrightarrow> (pj_root d, n_id m) \<in> seen1"
    proof cases
      case 1
      then show ?thesis using here by blast
    next
      case 2
      with R show ?thesis by blast
    qed
  qed
  show ?case by (intro conjI ballI all dist seen) (rule sound new, assumption)+
qed simp

text \<open>C27: A linked project shows nothing but what it offers: what a project sees of the others are active decisions and
  requirements tagged locked or cross-project of the projects it is linked to, labelled with where they come
  from, each once; and it sees all of these where no kind has more than 500 active entries.\<close>
theorem cross_project_shows_only_offered:
  assumes "\<forall>p s. mems p = Some s \<longrightarrow> store_inv s"
    and "collect_dep_cross_cutting fs E dropped index_db_path seen reg mems = (ns, seen1, mems1, reg1)"
  shows "(\<forall>n \<in> set ns. \<exists>dep \<in> set (fst (resolve_dep_projects fs index_db_path reg)). \<exists>s m.
       mems (with_file_name (pj_db dep) ''memory.db'') = Some s \<and> m \<in> set (notes_of s) \<and> offered_note m \<and> n = sourced dep m) \<and>
    distinct (map shown_key ns) \<and>
    (\<forall>dep \<in> set (fst (resolve_dep_projects fs index_db_path reg)). \<forall>s m.
       mems (with_file_name (pj_db dep) ''memory.db'') = Some s \<and> m \<in> set (notes_of s) \<and> offered_note m \<and>
       length (filter (active_of_kind (n_kind m)) (notes_of s)) \<le> 500 \<longrightarrow>
       (pj_root dep, n_id m) \<in> seen \<union> (\<lambda>n. (the (n_source_project_path n), n_id n)) ` set ns)"
proof -
  obtain deps where deps: "fst (resolve_dep_projects fs index_db_path reg) = deps"
    "collect_each E dropped deps seen mems = (ns, seen1, mems1)"
    using assms(2) by (auto simp: collect_dep_cross_cutting_def split: prod.splits)
  have "memories_same mems mems" using assms(1) by (simp add: memories_same_def)
  note R = collect_each_run [OF this deps(2)]
  have seen1: "seen1 = seen \<union> (\<lambda>n. (the (n_source_project_path n), n_id n)) ` set ns"
    by (rule conjunct1 [OF conjunct2 [OF conjunct2 [OF R]]])
  show ?thesis
    unfolding deps(1) using R [unfolded seen1] by (elim conjE) (intro conjI, assumption+)
qed

end
