(* ===== verification/RegistryRuns.thy ===== *)
theory RegistryRuns
  imports RegistrySpec CrossProject
begin

text \<open>Runs over a registry of two projects, \<open>/r\<close> and \<open>/q\<close>.\<close>

definition demo_tree :: worktree_view where
  "demo_tree =
     \<lparr> fs_exists = (\<lambda>p. p = ''/q/.spelunk/index.db'' \<or> p = ''/r/.spelunk/index.db''),
       fs_is_dir = (\<lambda>p. False), fs_read = (\<lambda>p. None), fs_is_file = (\<lambda>p. False), gix_git_dir = (\<lambda>p. None) \<rparr>"

definition demo_r :: registry_project where
  "demo_r = \<lparr> pj_id = 1, pj_root = ''/r'', pj_db = ''/r/.spelunk/index.db'', pj_registered_at = 5 \<rparr>"

definition demo_q :: registry_project where
  "demo_q = \<lparr> pj_id = 2, pj_root = ''/q'', pj_db = ''/q/.spelunk/index.db'', pj_registered_at = 5 \<rparr>"

definition demo_projects :: registry_db where
  "demo_projects = \<lparr> rg_projects = [demo_r, demo_q], rg_deps = [], rg_seq = 2, rg_now = 7, rg_burns = False \<rparr>"

lemma demo_projects_inv: "registry_inv demo_projects"
  by (simp add: registry_inv_def demo_projects_def demo_r_def demo_q_def)

lemma demo_above: "ancestors ''/r/src'' = [''/r/src'', ''/r'', ''/'']" "ancestors ''/r'' = [''/r'', ''/'']"
  by code_simp+

lemma demo_main: "resolve_main_worktree_root demo_tree p = p"
  by (simp add: resolve_main_worktree_root_def demo_tree_def git_file_main_def)

lemma find_project_nearest_witness:
  "\<exists>R'. find_project_for_path demo_tree ''/r/src'' (demo_projects\<lparr> rg_projects := [] \<rparr>) =
     (Inr (Some (demo_r\<lparr> pj_id := 3, pj_registered_at := 0 \<rparr>)), R') \<and> pj_id ` set (rg_projects R') = {3}"
proof -
  let ?R = "demo_projects\<lparr> rg_projects := [] \<rparr>"
  obtain r R' where f: "find_project_for_path demo_tree ''/r/src'' ?R = (Inr r, R')"
    "\<forall>p. r = Some p \<longrightarrow> rg_projects R' = rg_projects ?R @ [p\<lparr> pj_registered_at := rg_now ?R \<rparr>]"
    using find_project_nearest [of demo_tree "''/r/src''" ?R] by (auto simp: demo_projects_def)
  have "fst (find_project_for_path demo_tree ''/r/src'' ?R) = Inr (Some (demo_r\<lparr> pj_id := 3, pj_registered_at := 0 \<rparr>))"
    by code_simp
  with f(1) have r: "r = Some (demo_r\<lparr> pj_id := 3, pj_registered_at := 0 \<rparr>)" by simp
  with f(2) have "pj_id ` set (rg_projects R') = {3}" by (simp add: demo_projects_def)
  with f(1) r show ?thesis by simp
qed


text \<open>Linking a subdirectory of \<open>/r\<close> links \<open>/r\<close> to itself.\<close>

lemma link_subdirectory:
  "link demo_tree id ''/r'' ''src'' demo_projects = (Inr (demo_r, demo_r), demo_projects\<lparr> rg_deps := [(1, 1)] \<rparr>)"
proof -
  have "find_project_for_path demo_tree ''/r'' demo_projects = (Inr (Some demo_r), demo_projects)"
    "find_project_for_path demo_tree ''/r/src'' demo_projects = (Inr (Some demo_r), demo_projects)"
    by (simp_all add: find_project_for_path_def demo_main nearest_registered_def Let_def st_bind_def st_runs
        walk_up_ancestors demo_above demo_projects_def demo_r_def demo_q_def)
  moreover have "path_join ''/r'' ''src'' = ''/r/src''" by code_simp
  ultimately show ?thesis
    using link_to_itself [of demo_r demo_projects demo_tree "''/r''" id "''src''"]
    by (simp add: demo_projects_def demo_r_def)
qed

text \<open>A disk as the list of its paths.\<close>

definition demo_disk :: "string list disk" where
  "demo_disk =
     \<lparr> dk_exists = (\<lambda>p f. p \<in> set f),
       dk_entries = (\<lambda>p f. if p \<in> set f then Some (map path_file_name (filter (\<lambda>q. path_parent q = Some p) f)) else None),
       dk_symlink = (\<lambda>p f. if p \<in> set f then Some False else None),
       dk_remove_all = (\<lambda>p f. (None, filter (\<lambda>q. q \<noteq> p \<and> \<not> starts_with (p @ ''/'') q) f)),
       dk_remove_dir = (\<lambda>p f. filter (\<lambda>q. q \<noteq> p) f) \<rparr>"

definition demo_files :: "string list" where
  "demo_files = [''/r'', ''/r/.spelunk'', ''/r/src'']"

theorem autoclean_spares_witness:
  "\<exists>R'. autoclean demo_disk (demo_projects, demo_files) = (Inr [''/q''], (R', demo_files)) \<and>
     rg_projects R' = [demo_r]"
proof -
  obtain r R' f' where run: "autoclean demo_disk (demo_projects, demo_files) = (r, (R', f'))" by (metis prod_cases3)
  have steps: "\<not> spelunk_only_remnant demo_disk root demo_files" if "root \<in> pj_root ` set (rg_projects demo_projects)" for root
  proof -
    have "\<not> spelunk_only_remnant demo_disk ''/r'' demo_files" "\<not> spelunk_only_remnant demo_disk ''/q'' demo_files"
      by code_simp+
    with that show ?thesis by (auto simp: demo_projects_def demo_r_def demo_q_def)
  qed
  have fst: "fst (autoclean demo_disk (demo_projects, demo_files)) = Inr [''/q'']" by code_simp
  have still: "\<not> cleanup_step demo_disk (pj_root ` set (rg_projects demo_projects)) demo_files h" for h
    using steps by (auto elim!: cleanup_step.cases)
  have used: "dk_exists demo_disk ''/r'' demo_files \<and> \<not> spelunk_only_remnant demo_disk ''/r'' demo_files"
    using steps [of "''/r''"] by (simp add: demo_disk_def demo_files_def demo_projects_def demo_r_def)
  from run fst have r: "r = Inr [''/q'']" by simp
  have "f' = demo_files \<and> (\<exists>new \<subseteq> set (rg_projects demo_projects). R' = without (pj_id ` new) demo_projects \<and>
      (\<forall>p \<in> new. pj_root p \<noteq> ''/r'') \<and> (\<forall>removed. r = Inr removed \<longrightarrow> set removed = pj_root ` new))"
  proof (rule autoclean_spares [where P = "\<lambda>g. g = demo_files", OF run refl])
    show "h = demo_files" if "g = demo_files" "cleanup_step demo_disk (pj_root ` set (rg_projects demo_projects)) g h" for g h
      using that still [of h] by simp
    show "dk_exists demo_disk ''/r'' g \<and> \<not> spelunk_only_remnant demo_disk ''/r'' g" if "g = demo_files" for g
      using that used by simp
  qed
  then obtain new where new: "f' = demo_files" "new \<subseteq> set (rg_projects demo_projects)" "R' = without (pj_id ` new) demo_projects"
    "\<forall>p \<in> new. pj_root p \<noteq> ''/r''" "\<forall>removed. r = Inr removed \<longrightarrow> set removed = pj_root ` new" by blast
  have "new \<subseteq> {demo_r, demo_q}" using new(2) by (simp add: demo_projects_def)
  moreover have "demo_r \<notin> new" using new(4) by (auto simp: demo_r_def)
  moreover have "new \<noteq> {}" using new(5) unfolding r by auto
  ultimately have "new = {demo_q}" by blast
  then have "rg_projects R' = [demo_r]"
    unfolding new(3) by (simp add: without_def demo_projects_def demo_r_def demo_q_def)
  with run r new(1) show ?thesis by blast
qed

text \<open>What \<open>/r\<close> sees of a locked decision of \<open>/q\<close>.\<close>

definition locked_store :: store where
  "locked_store = snd (add_note plain_hashing 9 ''decision'' ''a'' ''b'' [''locked''] [] None None empty_store)"

lemma locked_store_inv: "store_inv locked_store"
proof -
  obtain r t where run: "add_note plain_hashing 9 ''decision'' ''a'' ''b'' [''locked''] [] None None empty_store = (r, t)"
    by fastforce
  from keepsD [OF keeps_add_note empty_store_inv run] run show ?thesis by (simp add: locked_store_def)
qed

definition demo_memories :: "string \<rightharpoonup> store" where
  "demo_memories = [''/q/.spelunk/memory.db'' \<mapsto> locked_store]"

theorem cross_project_shows_only_offered_witness:
  "\<exists>n seen mems reg. collect_dep_cross_cutting demo_tree plain_hashing False ''/r/.spelunk/index.db'' {}
       (Some (demo_projects\<lparr> rg_deps := [(1, 2)] \<rparr>)) demo_memories = ([n], seen, mems, reg) \<and>
     n_source_project_path n = Some ''/q'' \<and> n_status n = active"
proof -
  let ?run = "collect_dep_cross_cutting demo_tree plain_hashing False ''/r/.spelunk/index.db'' {}
       (Some (demo_projects\<lparr> rg_deps := [(1, 2)] \<rparr>)) demo_memories"
  have "length (fst ?run) = 1" by code_simp
  then obtain n seen mems reg where run: "?run = ([n], seen, mems, reg)"
    by (cases ?run) (auto simp: length_Suc_conv)
  have "\<forall>p s. demo_memories p = Some s \<longrightarrow> store_inv s" by (simp add: demo_memories_def locked_store_inv)
  from cross_project_shows_only_offered [OF this run] obtain dep m where
    "dep \<in> set (fst (resolve_dep_projects demo_tree ''/r/.spelunk/index.db'' (Some (demo_projects\<lparr> rg_deps := [(1, 2)] \<rparr>))))"
    "offered_note m" "n = sourced dep m" by auto
  moreover have "fst (resolve_dep_projects demo_tree ''/r/.spelunk/index.db'' (Some (demo_projects\<lparr> rg_deps := [(1, 2)] \<rparr>))) = [demo_q]"
    by code_simp
  ultimately show ?thesis using run by (auto simp: offered_note_def sourced_def demo_q_def)
qed

end
