(* ===== verification/Chunker.thy ===== *)
theory Chunker
  imports RustText
begin

text \<open>
  The unit of the code index (\<open>spelunk-core/src/indexer/chunker.rs\<close>, \<open>search/tokens.rs\<close>): a chunk of
  source, the text that is embedded for it, and the sliding window that cuts a text into chunks of a
  bounded number of tokens.
\<close>

section \<open>Chunks\<close>

datatype chunk_kind =
    Ck_Function | Ck_Method | Ck_Struct | Ck_Class | Ck_Enum | Ck_Interface | Ck_Impl | Ck_Trait
  | Ck_Module | Ck_Constant | Ck_TypeAlias | Ck_Rule | Ck_Section | Ck_Verbatim

fun kind_text :: "chunk_kind \<Rightarrow> string" where
  "kind_text Ck_Function = ''function''"
| "kind_text Ck_Method = ''method''"
| "kind_text Ck_Struct = ''struct''"
| "kind_text Ck_Class = ''class''"
| "kind_text Ck_Enum = ''enum''"
| "kind_text Ck_Interface = ''interface''"
| "kind_text Ck_Impl = ''impl''"
| "kind_text Ck_Trait = ''trait''"
| "kind_text Ck_Module = ''module''"
| "kind_text Ck_Constant = ''constant''"
| "kind_text Ck_TypeAlias = ''type_alias''"
| "kind_text Ck_Rule = ''rule''"
| "kind_text Ck_Section = ''section''"
| "kind_text Ck_Verbatim = ''verbatim''"

record chunk =
  ch_file_path :: string
  ch_language :: string
  ch_kind :: chunk_kind
  ch_name :: "string option"
  ch_start_line :: nat
  ch_end_line :: nat
  ch_content :: string
  ch_docstring :: "string option"
  ch_parent_scope :: "string option"
  ch_summary :: "string option"

text \<open>The text of an embedding from its parts.\<close>

definition document_text :: "string option \<Rightarrow> string option \<Rightarrow> string option \<Rightarrow> string \<Rightarrow> string" where
  "document_text name docstring summary content =
     (let title = (case name of Some n \<Rightarrow> n | None \<Rightarrow> ''none'');
          body = (case docstring of Some doc \<Rightarrow> doc @ [nl] @ content | None \<Rightarrow> content)
      in case summary of
           Some s \<Rightarrow> ''title: '' @ title @ '' | summary: '' @ s @ '' | text: '' @ body
         | None \<Rightarrow> ''title: '' @ title @ '' | text: '' @ body)"

definition embedding_text :: "chunk \<Rightarrow> string" where
  "embedding_text c = document_text (ch_name c) (ch_docstring c) (ch_summary c) (ch_content c)"

definition char_count :: "string \<Rightarrow> nat" where
  "char_count s = length (filter (\<lambda>c. \<not> cont_byte (byte c)) s)"

definition estimate_tokens :: "string \<Rightarrow> nat" where
  "estimate_tokens text = max (char_count text div 4) 1"

definition MAX_CHUNK_TOKENS :: nat where
  "MAX_CHUNK_TOKENS = 512"

definition chunker_config_id :: "nat \<Rightarrow> string" where
  "chunker_config_id cap = ''max_chunk_tokens='' @ nat_digits cap"

section \<open>The sliding window\<close>

text \<open>The end of the window at \<open>start\<close>, and the start of the next: both loops, on the lines' lengths.\<close>

function grow_window :: "nat \<Rightarrow> nat list \<Rightarrow> nat \<Rightarrow> nat \<Rightarrow> nat \<Rightarrow> nat" where
  "grow_window budget lens start stop acc =
     (if stop < length lens
      then (let add = lens ! stop + (if start < stop then 1 else 0)
            in if start < stop \<and> budget < acc + add then stop
               else grow_window budget lens start (stop + 1) (acc + add))
      else stop)"
  by pat_completeness auto
termination by (relation "measure (\<lambda>(budget, lens, start, stop, acc). length lens - stop)") auto

function retreat :: "nat \<Rightarrow> nat list \<Rightarrow> nat \<Rightarrow> nat \<Rightarrow> nat \<Rightarrow> nat" where
  "retreat overlap_chars lens start next_start overlap =
     (if start + 1 < next_start
      then (let candidate = lens ! (next_start - 1) + 1
            in if overlap_chars < overlap + candidate then next_start
               else retreat overlap_chars lens start (next_start - 1) (overlap + candidate))
      else next_start)"
  by pat_completeness auto
termination by (relation "measure (\<lambda>(overlap_chars, lens, start, next_start, overlap). next_start)") auto

declare grow_window.simps [simp del] retreat.simps [simp del]

lemma grow_window_bounds:
  "stop \<le> length lens \<Longrightarrow> stop \<le> grow_window budget lens start stop acc \<and> grow_window budget lens start stop acc \<le> length lens"
proof (induction budget lens start stop acc rule: grow_window.induct)
  case (1 budget lens start stop acc)
  then show ?case
    by (subst (1 2) grow_window.simps) (auto simp: Let_def dest: Suc_leI)
qed

lemma grow_window_progress:
  assumes "start < length lens"
  shows "start < grow_window budget lens start start acc"
proof -
  have "grow_window budget lens start start acc = grow_window budget lens start (start + 1) (acc + lens ! start)"
    using assms by (subst grow_window.simps) (simp add: Let_def)
  moreover have "start + 1 \<le> length lens" using assms by simp
  ultimately show ?thesis using grow_window_bounds [of "start + 1" lens] by (metis Suc_eq_plus1 Suc_le_eq)
qed

lemma retreat_bounds:
  "start < next_start \<Longrightarrow> start < retreat overlap_chars lens start next_start overlap \<and>
     retreat overlap_chars lens start next_start overlap \<le> next_start"
proof (induction overlap_chars lens start next_start overlap rule: retreat.induct)
  case (1 overlap_chars lens start next_start overlap)
  show ?case
  proof (cases "start + 1 < next_start \<and> \<not> overlap_chars < overlap + (lens ! (next_start - 1) + 1)")
    case True
    then have e: "retreat overlap_chars lens start next_start overlap =
        retreat overlap_chars lens start (next_start - 1) (overlap + (lens ! (next_start - 1) + 1))"
      by (subst retreat.simps) (simp add: Let_def)
    have "start < next_start - 1" using True by linarith
    with 1(1) True have "start < retreat overlap_chars lens start (next_start - 1) (overlap + (lens ! (next_start - 1) + 1)) \<and>
        retreat overlap_chars lens start (next_start - 1) (overlap + (lens ! (next_start - 1) + 1)) \<le> next_start - 1"
      by (simp add: Let_def)
    with e show ?thesis by linarith
  next
    case False
    with 1(2) show ?thesis by (subst (1 2) retreat.simps) (auto simp: Let_def)
  qed
qed

text \<open>The windows from line \<open>start\<close> on: the lines from \<open>fst\<close> up to but not including \<open>snd\<close>.\<close>

function windows_from :: "nat \<Rightarrow> nat \<Rightarrow> nat list \<Rightarrow> nat \<Rightarrow> (nat \<times> nat) list" where
  "windows_from budget overlap_chars lens start =
     (if start < length lens
      then (let stop = grow_window budget lens start start 0
            in (start, stop) #
               (if length lens \<le> stop then []
                else windows_from budget overlap_chars lens (retreat overlap_chars lens start stop 0)))
      else [])"
  by pat_completeness auto
termination
proof (relation "measure (\<lambda>(budget, overlap_chars, lens, start). length lens - start)")
  fix budget overlap_chars start stop :: nat and lens :: "nat list"
  assume "start < length lens" and "stop = grow_window budget lens start start 0"
  then have "start < stop" by (simp add: grow_window_progress)
  then have "start < retreat overlap_chars lens start stop 0" using retreat_bounds by blast
  with \<open>start < length lens\<close>
  show "((budget, overlap_chars, lens, retreat overlap_chars lens start stop 0), (budget, overlap_chars, lens, start)) \<in>
      measure (\<lambda>(budget, overlap_chars, lens, start). length lens - start)"
    by simp
qed simp

declare windows_from.simps [simp del]

definition window_chunk ::
    "string list \<Rightarrow> string \<Rightarrow> string \<Rightarrow> string option \<Rightarrow> string option \<Rightarrow> string option \<Rightarrow> nat \<times> nat \<Rightarrow> chunk" where
  "window_chunk ls file_path language name docstring parent_scope w =
     \<lparr> ch_file_path = file_path, ch_language = language, ch_kind = Ck_Verbatim, ch_name = name,
       ch_start_line = fst w + 1, ch_end_line = snd w,
       ch_content = join_with [nl] (take (snd w - fst w) (drop (fst w) ls)),
       ch_docstring = docstring, ch_parent_scope = parent_scope, ch_summary = None \<rparr>"

definition sliding_window ::
    "nat \<Rightarrow> string \<Rightarrow> string \<Rightarrow> string \<Rightarrow> string option \<Rightarrow> string option \<Rightarrow> string option \<Rightarrow> chunk list" where
  "sliding_window cap source file_path language name docstring parent_scope =
     (let ls = str_lines source; budget_chars = cap * 4; overlap_chars = budget_chars div 8
      in map (window_chunk ls file_path language name docstring parent_scope)
           (windows_from budget_chars overlap_chars (map char_count ls) 0))"

section \<open>What the windows are\<close>

text \<open>The length of the lines of a window once joined.\<close>

definition span_chars :: "nat list \<Rightarrow> nat \<Rightarrow> nat \<Rightarrow> nat" where
  "span_chars lens a b = sum_list (take (b - a) (drop a lens)) + (b - a - 1)"

lemma span_one: "a < length lens \<Longrightarrow> span_chars lens a (Suc a) = lens ! a"
  by (simp add: span_chars_def Cons_nth_drop_Suc [symmetric])

lemma span_more: "a < b \<Longrightarrow> b < length lens \<Longrightarrow> span_chars lens a (Suc b) = span_chars lens a b + lens ! b + 1"
proof -
  assume ab: "a < b" "b < length lens"
  then have "take (Suc b - a) (drop a lens) = take (b - a) (drop a lens) @ [lens ! b]"
    by (simp add: Suc_diff_le take_Suc_conv_app_nth)
  with ab show ?thesis by (simp add: span_chars_def)
qed

lemma grow_window_fits:
  assumes "start < stop" and "stop \<le> length lens" and "acc = span_chars lens start stop"
    and "stop = Suc start \<or> acc \<le> budget"
  shows "grow_window budget lens start stop acc = Suc start \<or>
    span_chars lens start (grow_window budget lens start stop acc) \<le> budget"
  using assms
proof (induction budget lens start stop acc rule: grow_window.induct)
  case (1 budget lens start stop acc)
  show ?case
  proof (cases "stop < length lens \<and> \<not> budget < acc + (lens ! stop + 1)")
    case True
    then have e: "grow_window budget lens start stop acc = grow_window budget lens start (stop + 1) (acc + (lens ! stop + 1))"
      using 1(2) by (subst grow_window.simps) (simp add: Let_def)
    have s: "acc + (lens ! stop + 1) = span_chars lens start (stop + 1)"
      using True 1(2,4) span_more [of start stop lens] by simp
    have "grow_window budget lens start (stop + 1) (acc + (lens ! stop + 1)) = Suc start \<or>
        span_chars lens start (grow_window budget lens start (stop + 1) (acc + (lens ! stop + 1))) \<le> budget"
      using 1(1) [OF _ refl] True 1(2,3) s by (simp add: Let_def)
    with e show ?thesis by simp
  next
    case False
    then have "grow_window budget lens start stop acc = stop"
      using 1(2) by (subst grow_window.simps) (auto simp: Let_def)
    with 1(4,5) show ?thesis by auto
  qed
qed

lemma window_fits:
  assumes "start < length lens"
  shows "grow_window budget lens start start 0 = Suc start \<or>
    span_chars lens start (grow_window budget lens start start 0) \<le> budget"
proof -
  have e: "grow_window budget lens start start 0 = grow_window budget lens start (Suc start) (lens ! start)"
    using assms by (subst grow_window.simps) (simp add: Let_def)
  show ?thesis
    unfolding e by (rule grow_window_fits) (use assms in \<open>auto simp: span_one\<close>)
qed

text \<open>Windows that follow each other without a gap and move forward, from \<open>a\<close> to \<open>n\<close>.\<close>

fun chained :: "nat \<Rightarrow> nat \<Rightarrow> (nat \<times> nat) list \<Rightarrow> bool" where
  "chained a n [] \<longleftrightarrow> False"
| "chained a n [(s, e)] \<longleftrightarrow> s = a \<and> s < e \<and> e = n"
| "chained a n ((s, e) # (s', e') # ws) \<longleftrightarrow> s = a \<and> s < s' \<and> s' \<le> e \<and> e < n \<and> chained s' n ((s', e') # ws)"

lemma windows_chained: "start < length lens \<Longrightarrow> chained start (length lens) (windows_from budget overlap_chars lens start)"
proof (induction budget overlap_chars lens start rule: windows_from.induct)
  case (1 budget overlap_chars lens start)
  let ?e = "grow_window budget lens start start 0"
  have p: "start < ?e" "?e \<le> length lens"
    using grow_window_progress [OF 1(2)] grow_window_bounds [of start lens] 1(2) by auto
  show ?case
  proof (cases "length lens \<le> ?e")
    case True
    with p 1(2) show ?thesis by (subst windows_from.simps) (simp add: Let_def)
  next
    case False
    let ?n = "retreat overlap_chars lens start ?e 0"
    have n: "start < ?n" "?n \<le> ?e" using retreat_bounds [OF p(1)] by auto
    with False p have "?n < length lens" by simp
    with 1 False have ch: "chained ?n (length lens) (windows_from budget overlap_chars lens ?n)"
      by (simp add: Let_def)
    have e: "windows_from budget overlap_chars lens start = (start, ?e) # windows_from budget overlap_chars lens ?n"
      using 1(2) False by (subst windows_from.simps) (simp add: Let_def)
    obtain e' ws where w: "windows_from budget overlap_chars lens ?n = (?n, e') # ws"
      using \<open>?n < length lens\<close> by (subst (asm) windows_from.simps) (auto simp: Let_def)
    show ?thesis using ch n False unfolding e w by simp
  qed
qed

lemma windows_fit:
  "w \<in> set (windows_from budget overlap_chars lens start) \<Longrightarrow>
     fst w < snd w \<and> snd w \<le> length lens \<and> (snd w = Suc (fst w) \<or> span_chars lens (fst w) (snd w) \<le> budget)"
proof (induction budget overlap_chars lens start rule: windows_from.induct)
  case (1 budget overlap_chars lens start)
  let ?e = "grow_window budget lens start start 0"
  show ?case
  proof (cases "start < length lens")
    case True
    have p: "start < ?e" "?e \<le> length lens"
      using grow_window_progress [OF True] grow_window_bounds [of start lens] True by auto
    from 1(2) True have "w = (start, ?e) \<or> (\<not> length lens \<le> ?e \<and>
        w \<in> set (windows_from budget overlap_chars lens (retreat overlap_chars lens start ?e 0)))"
      by (subst (asm) windows_from.simps) (auto simp: Let_def split: if_splits)
    then show ?thesis
    proof
      assume "w = (start, ?e)"
      with p window_fits [OF True] show ?thesis by simp
    qed (use 1(1) [OF True refl] in blast)
  next
    case False
    with 1(2) show ?thesis by (subst (asm) windows_from.simps) simp
  qed
qed

lemma char_count_append: "char_count (s @ t) = char_count s + char_count t"
  by (simp add: char_count_def)

lemma char_count_nl: "char_count [nl] = 1"
  by (simp add: char_count_def nl_def cont_byte_def byte_def)

lemma char_count_join:
  "ws \<noteq> [] \<Longrightarrow> char_count (join_with [nl] ws) = sum_list (map char_count ws) + (length ws - 1)"
proof (induction ws)
  case (Cons w ws)
  show ?case
  proof (cases ws)
    case (Cons v vs)
    then have "join_with [nl] (w # ws) = w @ [nl] @ join_with [nl] ws" by simp
    with Cons Cons.IH show ?thesis by (simp only: char_count_append char_count_nl) simp
  qed simp
qed simp

lemma chained_hd: "chained a n ws \<Longrightarrow> ws \<noteq> [] \<and> fst (hd ws) = a \<and> snd (last ws) = n"
  by (induction a n ws rule: chained.induct) auto

lemma chained_covers: "chained a n ws \<Longrightarrow> a \<le> i \<Longrightarrow> i < n \<Longrightarrow> \<exists>w \<in> set ws. fst w \<le> i \<and> i < snd w"
proof (induction a n ws rule: chained.induct)
  case (3 a n s e s' e' ws)
  show ?case
  proof (cases "i < e")
    case True
    with 3 show ?thesis by auto
  next
    case False
    with 3 have "s' \<le> i" by simp
    with 3 show ?thesis by auto
  qed
qed auto

lemma window_content_chars:
  assumes "a < b" and "b \<le> length ls"
  shows "char_count (join_with [nl] (take (b - a) (drop a ls))) = span_chars (map char_count ls) a b"
proof -
  from assms have "take (b - a) (drop a ls) \<noteq> []" by simp
  with assms show ?thesis
    by (simp add: char_count_join span_chars_def take_map drop_map)
qed

text \<open>C36: Cutting a text into windows returns, loses no line and keeps to the budget: every line of the text is in a
  window, windows come in order and each starts after the one before it started and no later than it ended, and
  a window of more than one line has at most \<open>4 * cap\<close> characters.\<close>
theorem sliding_window_covers:
  fixes source :: string
  shows "let ls = str_lines source; cs = sliding_window cap source file_path language name docstring parent_scope
    in (\<forall>i < length ls. \<exists>c \<in> set cs. ch_start_line c \<le> i + 1 \<and> i + 1 \<le> ch_end_line c) \<and>
       (\<forall>c \<in> set cs. ch_start_line c \<le> ch_end_line c \<and> ch_end_line c \<le> length ls \<and>
          ch_content c = join_with [nl] (take (ch_end_line c + 1 - ch_start_line c) (drop (ch_start_line c - 1) ls)) \<and>
          (ch_start_line c < ch_end_line c \<longrightarrow> char_count (ch_content c) \<le> 4 * cap)) \<and>
       (\<forall>k. Suc k < length cs \<longrightarrow> ch_start_line (cs ! k) < ch_start_line (cs ! Suc k) \<and>
          ch_start_line (cs ! Suc k) \<le> ch_end_line (cs ! k) + 1)"
proof -
  let ?ls = "str_lines source" and ?cs = "sliding_window cap source file_path language name docstring parent_scope"
  let ?lens = "map char_count ?ls"
  let ?ws = "windows_from (cap * 4) (cap * 4 div 8) ?lens 0"
  have cs: "?cs = map (window_chunk ?ls file_path language name docstring parent_scope) ?ws"
    by (simp add: sliding_window_def Let_def)
  have ch: "chained 0 (length ?ls) ?ws" if "0 < length ?ls"
    using windows_chained [of 0 ?lens] that by simp
  have empty: "?ws = []" if "length ?ls = 0" using that by (subst windows_from.simps) simp
  have a: "\<exists>c \<in> set ?cs. ch_start_line c \<le> i + 1 \<and> i + 1 \<le> ch_end_line c" if "i < length ?ls" for i
  proof -
    have "chained 0 (length ?ls) ?ws" by (rule ch) (use that in auto)
    from chained_covers [OF this _ that] obtain w where "w \<in> set ?ws" "fst w \<le> i" "i < snd w" by auto
    then show ?thesis unfolding cs by (auto simp: window_chunk_def)
  qed
  have b: "ch_start_line c \<le> ch_end_line c \<and> ch_end_line c \<le> length ?ls \<and>
      ch_content c = join_with [nl] (take (ch_end_line c + 1 - ch_start_line c) (drop (ch_start_line c - 1) ?ls)) \<and>
      (ch_start_line c < ch_end_line c \<longrightarrow> char_count (ch_content c) \<le> 4 * cap)" if "c \<in> set ?cs" for c
  proof -
    from that obtain w where w: "w \<in> set ?ws" "c = window_chunk ?ls file_path language name docstring parent_scope w"
      unfolding cs by auto
    from windows_fit [OF w(1)] have f: "fst w < snd w" "snd w \<le> length ?ls"
      "snd w = Suc (fst w) \<or> span_chars ?lens (fst w) (snd w) \<le> cap * 4" by simp_all
    with window_content_chars [OF f(1,2)] w(2) show ?thesis by (auto simp: window_chunk_def mult.commute)
  qed
  have step: "chained a n ws \<Longrightarrow> Suc k < length ws \<Longrightarrow> fst (ws ! k) < fst (ws ! Suc k) \<and> fst (ws ! Suc k) \<le> snd (ws ! k)" for a n ws k
  proof (induction a n ws arbitrary: k rule: chained.induct)
    case (3 a n s e s' e' ws)
    then show ?case by (cases k) auto
  qed auto
  have c: "ch_start_line (?cs ! k) < ch_start_line (?cs ! Suc k) \<and> ch_start_line (?cs ! Suc k) \<le> ch_end_line (?cs ! k) + 1"
    if k: "Suc k < length ?cs" for k
  proof -
    from k empty have "0 < length ?ls" unfolding cs by (cases "length ?ls") auto
    from step [OF ch [OF this]] k show ?thesis unfolding cs by (simp add: window_chunk_def)
  qed
  from a b c show ?thesis unfolding Let_def by blast
qed

end
