(* ===== verification/CodeIndex.thy ===== *)
theory CodeIndex
  imports Chunker StateError
begin

text \<open>
  The code index \<open>index.db\<close>: its tables and the methods of \<open>spelunk-core/src/storage/\<close> (\<open>files.rs\<close>,
  \<open>chunks.rs\<close>, \<open>graph.rs\<close>, \<open>specs.rs\<close>, the provenance and the vectors of \<open>db.rs\<close>).  The process may be killed
  after any statement: \<open>ir_budget\<close> is the number of writing statements it still gets to run, without
  limit where it is absent.  A transaction is one statement.
\<close>

section \<open>LIKE\<close>

definition escape_like :: "string \<Rightarrow> string" where
  "escape_like s = concat (map (\<lambda>c. if c = CHR 0x5C \<or> c = CHR ''%'' \<or> c = CHR ''_'' then [CHR 0x5C, c] else [c]) s)"

text \<open>SQLite's \<open>LIKE .. ESCAPE '\'\<close>: the case of ASCII letters does not matter.\<close>

definition fold_case :: "char \<Rightarrow> char" where
  "fold_case c = (if 65 \<le> byte c \<and> byte c \<le> 90 then char_of (byte c + 32) else c)"

definition drop_char :: "string \<Rightarrow> string" where
  "drop_char s = dropWhile (\<lambda>c. cont_byte (byte c)) (tl s)"

function like_match :: "string \<Rightarrow> string \<Rightarrow> bool" where
  "like_match [] t \<longleftrightarrow> t = []"
| "like_match (c # p) t \<longleftrightarrow>
     (if c = CHR 0x5C then
        (case p of [] \<Rightarrow> False | d # q \<Rightarrow> (case t of [] \<Rightarrow> False | x # u \<Rightarrow> fold_case x = fold_case d \<and> like_match q u))
      else if c = CHR ''%'' then like_match p t \<or> (case t of [] \<Rightarrow> False | x # u \<Rightarrow> like_match (c # p) u)
      else if c = CHR ''_'' then t \<noteq> [] \<and> like_match p (drop_char t)
      else (case t of [] \<Rightarrow> False | x # u \<Rightarrow> fold_case x = fold_case c \<and> like_match p u))"
  by pat_completeness auto
termination by (relation "measures [\<lambda>(p, t). length p, \<lambda>(p, t). length t]") auto

section \<open>The tables\<close>

record index_file =
  fi_id :: int
  fi_path :: string
  fi_language :: "string option"
  fi_hash :: string
  fi_indexed_at :: int
  fi_mtime :: int

text \<open>A rank is a non-negative \<open>f32\<close>: its bits, which order as the numbers do.\<close>

record index_chunk =
  ck_id :: int
  ck_file_id :: int
  ck_node_type :: string
  ck_name :: "string option"
  ck_start_line :: nat
  ck_end_line :: nat
  ck_content :: string
  ck_metadata :: "string option"
  ck_token_count :: nat
  ck_graph_rank :: int
  ck_summary :: "string option"

record graph_edge =
  ge_source_file :: string
  ge_source_name :: "string option"
  ge_target_name :: string
  ge_kind :: string
  ge_line :: nat

record spec_record =
  sp_id :: int
  sp_path :: string
  sp_title :: string
  sp_is_auto :: bool

text \<open>\<open>xd_burns\<close>: whether an \<open>INSERT\<close> that ends in its \<open>ON CONFLICT\<close> clause uses up a rowid.\<close>

record index_db =
  xd_files :: "index_file list"
  xd_chunks :: "index_chunk list"
  xd_vectors :: "(int \<times> string) list"
  xd_edges :: "graph_edge list"
  xd_specs :: "spec_record list"
  xd_links :: "(int \<times> string) list"
  xd_meta :: "(string \<times> string) list"
  xd_file_seq :: int
  xd_chunk_seq :: int
  xd_spec_seq :: int
  xd_now :: int
  xd_burns :: bool

record index_run =
  ir_db :: index_db
  ir_budget :: "nat option"

datatype ix_error =
    IxKilled
  | IxForeignKey
  | IxDimension
  | IxNullLanguage
  | IxModelMismatch string string
  | IxPanic

type_synonym 'a ix = "(index_run, ix_error, 'a) st"

definition ix_write :: "(index_db \<Rightarrow> ix_error + 'a \<times> index_db) \<Rightarrow> 'a ix" where
  "ix_write f =
     (\<lambda>m. case ir_budget m of
          Some 0 \<Rightarrow> (Inl IxKilled, m)
        | b \<Rightarrow>
            (case f (ir_db m) of
               Inl e \<Rightarrow> (Inl e, m)
             | Inr (x, d) \<Rightarrow> (Inr x, m\<lparr> ir_db := d, ir_budget := map_option (\<lambda>n. n - 1) b \<rparr>)))"

definition ix_exec :: "(index_db \<Rightarrow> index_db) \<Rightarrow> unit ix" where
  "ix_exec f = ix_write (\<lambda>d. Inr ((), f d))"

definition ix_read :: "(index_db \<Rightarrow> 'a) \<Rightarrow> 'a ix" where
  "ix_read f = st_get (\<lambda>m. f (ir_db m))"

section \<open>Files\<close>

definition file_at :: "index_db \<Rightarrow> string \<Rightarrow> index_file option" where
  "file_at d path = find (\<lambda>f. fi_path f = path) (xd_files d)"

definition put_file :: "string \<Rightarrow> string option \<Rightarrow> string \<Rightarrow> int \<Rightarrow> index_db \<Rightarrow> index_db" where
  "put_file path language h mtime d =
     (case file_at d path of
        Some old \<Rightarrow>
          d\<lparr> xd_files := map (\<lambda>f. if fi_path f = path
                 then f\<lparr> fi_language := language, fi_hash := h, fi_indexed_at := xd_now d, fi_mtime := mtime \<rparr> else f) (xd_files d),
             xd_file_seq := (if xd_burns d then xd_file_seq d + 1 else xd_file_seq d) \<rparr>
      | None \<Rightarrow>
          d\<lparr> xd_files := xd_files d @ [\<lparr> fi_id = xd_file_seq d + 1, fi_path = path, fi_language = language, fi_hash = h,
                 fi_indexed_at = xd_now d, fi_mtime = mtime \<rparr>],
             xd_file_seq := xd_file_seq d + 1 \<rparr>)"

definition file_id_for_path :: "string \<Rightarrow> int option ix" where
  "file_id_for_path path = ix_read (\<lambda>d. map_option fi_id (file_at d path))"

definition upsert_file :: "string \<Rightarrow> string option \<Rightarrow> string \<Rightarrow> int \<Rightarrow> int ix" where
  "upsert_file path language h mtime =
     st_bind (ix_exec (put_file path language h mtime))
       (\<lambda>_. ix_read (\<lambda>d. case file_at d path of Some f \<Rightarrow> fi_id f | None \<Rightarrow> 0))"

definition file_hash :: "string \<Rightarrow> string option ix" where
  "file_hash path = ix_read (\<lambda>d. map_option fi_hash (file_at d path))"

definition file_mtime :: "string \<Rightarrow> int option ix" where
  "file_mtime path = ix_read (\<lambda>d. map_option fi_mtime (file_at d path))"

definition chunks_of :: "index_db \<Rightarrow> int \<Rightarrow> index_chunk list" where
  "chunks_of d file_id = filter (\<lambda>c. ck_file_id c = file_id) (xd_chunks d)"

definition file_has_chunks :: "string \<Rightarrow> bool ix" where
  "file_has_chunks path =
     ix_read (\<lambda>d. list_ex (\<lambda>f. fi_path f = path \<and> chunks_of d (fi_id f) \<noteq> []) (xd_files d))"

definition chunks_content_for_file_id :: "int \<Rightarrow> (int \<times> string) list ix" where
  "chunks_content_for_file_id file_id =
     ix_read (\<lambda>d. map (\<lambda>c. (ck_id c, ck_content c)) (sort_key ck_id (chunks_of d file_id)))"

definition file_records_under :: "string \<Rightarrow> index_file list ix" where
  "file_records_under top_dir = ix_read (\<lambda>d. filter (\<lambda>f. like_match (escape_like top_dir @ ''%'') (fi_path f)) (xd_files d))"

definition file_paths_under :: "string \<Rightarrow> (int \<times> string) list ix" where
  "file_paths_under top_dir =
     ix_read (\<lambda>d. map (\<lambda>f. (fi_id f, fi_path f))
       (filter (\<lambda>f. like_match (escape_like top_dir @ ''%'') (fi_path f)) (xd_files d)))"

definition drop_vectors_of :: "int \<Rightarrow> index_db \<Rightarrow> index_db" where
  "drop_vectors_of file_id d = d\<lparr> xd_vectors := filter (\<lambda>(i, v). i \<notin> ck_id ` set (chunks_of d file_id)) (xd_vectors d) \<rparr>"

definition drop_chunks_of :: "int \<Rightarrow> index_db \<Rightarrow> index_db" where
  "drop_chunks_of file_id d = d\<lparr> xd_chunks := filter (\<lambda>c. ck_file_id c \<noteq> file_id) (xd_chunks d) \<rparr>"

definition drop_edges_of :: "string \<Rightarrow> index_db \<Rightarrow> index_db" where
  "drop_edges_of path d = d\<lparr> xd_edges := filter (\<lambda>e. ge_source_file e \<noteq> path) (xd_edges d) \<rparr>"

text \<open>Deleting the record of a file deletes its chunks.\<close>

definition drop_file :: "int \<Rightarrow> index_db \<Rightarrow> index_db" where
  "drop_file file_id d = drop_chunks_of file_id (d\<lparr> xd_files := filter (\<lambda>f. fi_id f \<noteq> file_id) (xd_files d) \<rparr>)"

definition delete_embeddings_for_file :: "int \<Rightarrow> unit ix" where
  "delete_embeddings_for_file file_id = ix_exec (drop_vectors_of file_id)"

definition delete_chunks_for_file :: "int \<Rightarrow> unit ix" where
  "delete_chunks_for_file file_id = ix_exec (drop_chunks_of file_id)"

definition delete_file :: "int \<Rightarrow> string \<Rightarrow> unit ix" where
  "delete_file file_id file_path =
     st_bind (ix_exec (drop_vectors_of file_id))
       (\<lambda>_. st_bind (ix_exec (drop_chunks_of file_id))
         (\<lambda>_. st_bind (ix_exec (drop_edges_of file_path)) (\<lambda>_. ix_exec (drop_file file_id))))"

section \<open>Chunks\<close>

definition insert_chunk ::
    "int \<Rightarrow> string \<Rightarrow> string option \<Rightarrow> nat \<Rightarrow> nat \<Rightarrow> string \<Rightarrow> string option \<Rightarrow> nat \<Rightarrow> int ix" where
  "insert_chunk file_id node_type name start_line end_line content metadata token_count =
     ix_write (\<lambda>d.
       if file_id \<notin> fi_id ` set (xd_files d) then Inl IxForeignKey
       else Inr (xd_chunk_seq d + 1,
         d\<lparr> xd_chunks := xd_chunks d @
              [\<lparr> ck_id = xd_chunk_seq d + 1, ck_file_id = file_id, ck_node_type = node_type, ck_name = name,
                 ck_start_line = start_line, ck_end_line = end_line, ck_content = content, ck_metadata = metadata,
                 ck_token_count = token_count, ck_graph_rank = 0, ck_summary = None \<rparr>],
            xd_chunk_seq := xd_chunk_seq d + 1 \<rparr>))"

definition on_chunk :: "int \<Rightarrow> (index_chunk \<Rightarrow> index_chunk) \<Rightarrow> index_db \<Rightarrow> index_db" where
  "on_chunk i f d = d\<lparr> xd_chunks := map (\<lambda>c. if ck_id c = i then f c else c) (xd_chunks d) \<rparr>"

definition backfill_token_counts :: "nat ix" where
  "backfill_token_counts =
     st_bind (ix_read (\<lambda>d. map (\<lambda>c. (ck_id c, ck_content c)) (filter (\<lambda>c. ck_token_count c = 0) (xd_chunks d))))
       (\<lambda>pairs. st_bind
          (st_each (\<lambda>(i, content). let tc = estimate_tokens content
             in if 0 < tc then ix_exec (on_chunk i (\<lambda>c. c\<lparr> ck_token_count := tc \<rparr>)) else st_ok ()) pairs)
          (\<lambda>_. st_ok (length pairs)))"

definition file_of :: "index_db \<Rightarrow> index_chunk \<Rightarrow> index_file option" where
  "file_of d c = find (\<lambda>f. fi_id f = ck_file_id c) (xd_files d)"

definition mtime_of :: "index_db \<Rightarrow> index_chunk \<Rightarrow> int" where
  "mtime_of d c = (case file_of d c of Some f \<Rightarrow> fi_mtime f | None \<Rightarrow> 0)"

definition unembedded :: "index_db \<Rightarrow> index_chunk list" where
  "unembedded d = filter (\<lambda>c. ck_id c \<notin> fst ` set (xd_vectors d) \<and> file_of d c \<noteq> None) (xd_chunks d)"

definition chunks_missing_embeddings :: "index_chunk list ix" where
  "chunks_missing_embeddings =
     ix_read (\<lambda>d. sort_key (\<lambda>c. (- ck_graph_rank c, - mtime_of d c, ck_id c)) (unembedded d))"

record search_result =
  sr_chunk_id :: int
  sr_node_type :: string
  sr_name :: "string option"
  sr_start_line :: nat
  sr_end_line :: nat
  sr_content :: string
  sr_file_path :: string
  sr_language :: string
  sr_token_count :: nat

definition to_result :: "index_db \<Rightarrow> index_chunk \<Rightarrow> (ix_error + search_result) option" where
  "to_result d c =
     map_option (\<lambda>f. case fi_language f of
          None \<Rightarrow> Inl IxNullLanguage
        | Some lang \<Rightarrow> Inr \<lparr> sr_chunk_id = ck_id c, sr_node_type = ck_node_type c, sr_name = ck_name c,
            sr_start_line = ck_start_line c, sr_end_line = ck_end_line c, sr_content = ck_content c,
            sr_file_path = fi_path f, sr_language = lang, sr_token_count = ck_token_count c \<rparr>)
       (file_of d c)"

fun collect_results :: "(ix_error + 'a) list \<Rightarrow> ix_error + 'a list" where
  "collect_results [] = Inr []"
| "collect_results (r # rs) = bind_res r (\<lambda>x. bind_res (collect_results rs) (\<lambda>xs. Inr (x # xs)))"

definition SQLITE_MAX_BIND :: nat where
  "SQLITE_MAX_BIND = 30000"

text \<open>\<open>slice::chunks\<close>.\<close>

function slices :: "nat \<Rightarrow> 'a list \<Rightarrow> 'a list list" where
  "slices n xs = (if xs = [] \<or> n = 0 then [] else take n xs # slices n (drop n xs))"
  by pat_completeness auto
termination by (relation "measure (\<lambda>(n, xs). length xs)") auto

declare slices.simps [simp del]

definition chunks_by_ids :: "int list \<Rightarrow> search_result list ix" where
  "chunks_by_ids ids =
     st_bind (st_get ir_db) (\<lambda>d. st_lift (collect_results
       (concat (map (\<lambda>ids. filter_map (to_result d) (filter (\<lambda>c. ck_id c \<in> set ids) (xd_chunks d)))
          (slices SQLITE_MAX_BIND ids)))))"

definition chunks_for_file :: "string \<Rightarrow> search_result list ix" where
  "chunks_for_file path =
     (let hit = \<lambda>f. fi_path f = path \<or> like_match (''%'' @ escape_like path) (fi_path f)
      in st_bind (st_get ir_db) (\<lambda>d. st_lift (collect_results (filter_map (to_result d)
           (sort_key ck_start_line (filter (\<lambda>c. \<exists>f \<in> set (xd_files d). fi_id f = ck_file_id c \<and> hit f) (xd_chunks d)))))))"

definition chunks_without_summaries :: "nat \<Rightarrow> (int \<times> string \<times> string \<times> string) list ix" where
  "chunks_without_summaries limit =
     ix_read (\<lambda>d. map (\<lambda>c. (ck_id c, (case ck_name c of Some n \<Rightarrow> n | None \<Rightarrow> []), ck_node_type c, ck_content c))
       (take limit (sort_key ck_id (filter (\<lambda>c. ck_summary c = None) (xd_chunks d)))))"

definition update_chunk_summary :: "int \<Rightarrow> string \<Rightarrow> unit ix" where
  "update_chunk_summary chunk_id summary = ix_exec (on_chunk chunk_id (\<lambda>c. c\<lparr> ck_summary := Some summary \<rparr>))"

definition chunks_with_names :: "(int \<times> string option) list ix" where
  "chunks_with_names = ix_read (\<lambda>d. map (\<lambda>c. (ck_id c, ck_name c)) (filter (\<lambda>c. ck_name c \<noteq> None) (xd_chunks d)))"

definition update_graph_rank :: "int \<Rightarrow> int \<Rightarrow> unit ix" where
  "update_graph_rank chunk_id score = ix_exec (on_chunk chunk_id (\<lambda>c. c\<lparr> ck_graph_rank := score \<rparr>))"

definition update_graph_ranks :: "(int \<times> int) list \<Rightarrow> unit ix" where
  "update_graph_ranks scores =
     ix_exec (fold (\<lambda>(i, score). on_chunk i (\<lambda>c. c\<lparr> ck_graph_rank := score \<rparr>)) scores)"

section \<open>Vectors and provenance\<close>

text \<open>A vector is the list of its \<open>f32\<close> components, each its four bytes; \<open>quantise\<close> is the \<open>int8\<close> byte of one.\<close>

definition INDEX_DIM :: nat where
  "INDEX_DIM = 896"

definition vec_to_int8_blob :: "(string \<Rightarrow> char) \<Rightarrow> string list \<Rightarrow> string" where
  "vec_to_int8_blob quantise v = map quantise v"

definition put_vector :: "(string \<Rightarrow> char) \<Rightarrow> int \<times> string list \<Rightarrow> index_db \<Rightarrow> ix_error + index_db" where
  "put_vector quantise row d =
     (case row of (chunk_id, vector) \<Rightarrow>
        let blob = vec_to_int8_blob quantise vector
        in if length blob \<noteq> INDEX_DIM then Inl IxDimension
           else Inr (d\<lparr> xd_vectors := filter (\<lambda>(i, v). i \<noteq> chunk_id) (xd_vectors d) @ [(chunk_id, blob)] \<rparr>))"

fun put_vectors :: "(string \<Rightarrow> char) \<Rightarrow> (int \<times> string list) list \<Rightarrow> index_db \<Rightarrow> ix_error + index_db" where
  "put_vectors quantise [] d = Inr d"
| "put_vectors quantise (row # rows) d = bind_res (put_vector quantise row d) (put_vectors quantise rows)"

definition insert_chunk_vector :: "(string \<Rightarrow> char) \<Rightarrow> int \<Rightarrow> string list \<Rightarrow> unit ix" where
  "insert_chunk_vector quantise chunk_id vector =
     ix_write (\<lambda>d. bind_res (put_vector quantise (chunk_id, vector) d) (\<lambda>d'. Inr ((), d')))"

definition insert_embeddings :: "(string \<Rightarrow> char) \<Rightarrow> (int \<times> string list) list \<Rightarrow> unit ix" where
  "insert_embeddings quantise rows = ix_write (\<lambda>d. bind_res (put_vectors quantise rows d) (\<lambda>d'. Inr ((), d')))"

definition put_meta :: "string \<Rightarrow> string \<Rightarrow> index_db \<Rightarrow> index_db" where
  "put_meta k v d = d\<lparr> xd_meta := filter (\<lambda>(k', v'). k' \<noteq> k) (xd_meta d) @ [(k, v)] \<rparr>"

definition embedding_model :: "string option ix" where
  "embedding_model = ix_read (\<lambda>d. map_of (xd_meta d) ''embedding_model'')"

definition ensure_embedding_model :: "string \<Rightarrow> unit ix" where
  "ensure_embedding_model model_id =
     st_bind embedding_model (\<lambda>found. case found of
        Some recorded \<Rightarrow> if recorded = model_id then st_ok () else st_err (IxModelMismatch recorded model_id)
      | None \<Rightarrow> ix_exec (\<lambda>d. put_meta ''embedding_dim'' (nat_digits INDEX_DIM) (put_meta ''embedding_model'' model_id d)))"

definition chunker_config :: "string option ix" where
  "chunker_config = ix_read (\<lambda>d. map_of (xd_meta d) ''chunker_config'')"

definition stamp_chunker_config :: "string \<Rightarrow> unit ix" where
  "stamp_chunker_config config = ix_exec (put_meta ''chunker_config'' config)"

definition ensure_chunker_config :: "string \<Rightarrow> string option ix" where
  "ensure_chunker_config config =
     st_bind chunker_config (\<lambda>found. case found of
        Some recorded \<Rightarrow> if recorded = config then st_ok None else st_ok (Some recorded)
      | None \<Rightarrow> st_bind (stamp_chunker_config config) (\<lambda>_. st_ok None))"

end
