(* ===== verification/CodeGraph.thy ===== *)
theory CodeGraph
  imports CodeIndex
begin

text \<open>
  The graph edges and the specs of the code index (\<open>storage/graph.rs\<close>, \<open>storage/specs.rs\<close>,
  \<open>indexer/graph/mod.rs\<close>).
\<close>

section \<open>Edges\<close>

datatype edge_kind = Ek_Imports | Ek_Calls | Ek_Extends | Ek_Implements | Ek_Mentions

fun edge_kind_text :: "edge_kind \<Rightarrow> string" where
  "edge_kind_text Ek_Imports = ''imports''"
| "edge_kind_text Ek_Calls = ''calls''"
| "edge_kind_text Ek_Extends = ''extends''"
| "edge_kind_text Ek_Implements = ''implements''"
| "edge_kind_text Ek_Mentions = ''mentions''"

definition parse_edge_kind :: "string \<Rightarrow> edge_kind" where
  "parse_edge_kind s =
     (if s = ''calls'' then Ek_Calls else if s = ''extends'' then Ek_Extends
      else if s = ''implements'' then Ek_Implements else if s = ''mentions'' then Ek_Mentions else Ek_Imports)"

record code_edge =
  ed_source_file :: string
  ed_source_name :: "string option"
  ed_target_name :: string
  ed_kind :: edge_kind
  ed_line :: nat

definition stored_edge :: "code_edge \<Rightarrow> graph_edge" where
  "stored_edge e =
     \<lparr> ge_source_file = ed_source_file e, ge_source_name = ed_source_name e, ge_target_name = ed_target_name e,
       ge_kind = edge_kind_text (ed_kind e), ge_line = ed_line e \<rparr>"

definition mention_edge :: "string \<Rightarrow> string option \<times> string \<Rightarrow> graph_edge" where
  "mention_edge file_path m =
     \<lparr> ge_source_file = file_path, ge_source_name = fst m, ge_target_name = snd m, ge_kind = ''mentions'', ge_line = 0 \<rparr>"

definition add_edge_row :: "graph_edge \<Rightarrow> index_db \<Rightarrow> index_db" where
  "add_edge_row e d = d\<lparr> xd_edges := xd_edges d @ [e] \<rparr>"

definition replace_edges :: "string \<Rightarrow> code_edge list \<Rightarrow> unit ix" where
  "replace_edges file_path edges =
     st_bind (ix_exec (drop_edges_of file_path)) (\<lambda>_. st_each (\<lambda>e. ix_exec (add_edge_row (stored_edge e))) edges)"

definition append_mention_edges :: "string \<Rightarrow> (string option \<times> string) list \<Rightarrow> unit ix" where
  "append_mention_edges file_path edges = st_each (\<lambda>m. ix_exec (add_edge_row (mention_edge file_path m))) edges"

text \<open>A row as the queries return it: an unknown kind reads as \<open>imports\<close>.\<close>

definition row_to_edge :: "graph_edge \<Rightarrow> graph_edge" where
  "row_to_edge e = e\<lparr> ge_kind := edge_kind_text (parse_edge_kind (ge_kind e)) \<rparr>"

definition by_kind_and_target :: "graph_edge list \<Rightarrow> graph_edge list" where
  "by_kind_and_target es = map row_to_edge (sort_key (\<lambda>e. (ge_kind e, ge_target_name e)) es)"

definition edges_for_symbol :: "string \<Rightarrow> graph_edge list ix" where
  "edges_for_symbol name =
     ix_read (\<lambda>d. by_kind_and_target (filter (\<lambda>e. ge_source_name e = Some name \<or> ge_target_name e = name) (xd_edges d)))"

definition has_any_graph_edges :: "bool ix" where
  "has_any_graph_edges = ix_read (\<lambda>d. xd_edges d \<noteq> [])"

definition edges_for_file :: "string \<Rightarrow> graph_edge list ix" where
  "edges_for_file file_path = ix_read (\<lambda>d. by_kind_and_target (filter (\<lambda>e. ge_source_file e = file_path) (xd_edges d)))"

text \<open>The names that call or are called by one of \<open>names\<close>.\<close>

definition call_names :: "index_db \<Rightarrow> string list \<Rightarrow> string list" where
  "call_names d names =
     map ge_target_name (filter (\<lambda>e. ge_kind e = ''calls'' \<and> list_ex (\<lambda>n. ge_source_name e = Some n) names) (xd_edges d)) @
     filter_map ge_source_name (filter (\<lambda>e. ge_kind e = ''calls'' \<and> list_ex (\<lambda>n. ge_target_name e = n) names) (xd_edges d))"

definition neighbours_of :: "index_db \<Rightarrow> string list \<Rightarrow> int list" where
  "neighbours_of d names =
     map ck_id (filter (\<lambda>c. case ck_name c of Some n \<Rightarrow> n \<in> set (call_names d names) | None \<Rightarrow> False) (xd_chunks d))"

text \<open>The ids that \<open>seen.insert\<close> takes, in order.\<close>

fun push_unseen :: "int list \<Rightarrow> int list \<Rightarrow> int list" where
  "push_unseen out [] = out"
| "push_unseen out (i # is) = push_unseen (if i \<in> set out then out else out @ [i]) is"

definition graph_neighbor_chunks :: "string list \<Rightarrow> int list ix" where
  "graph_neighbor_chunks names =
     ix_read (\<lambda>d. fold (\<lambda>part out. push_unseen out (neighbours_of d part)) (slices (SQLITE_MAX_BIND div 2) names) [])"

definition graph_edges_all :: "(string \<times> string) list ix" where
  "graph_edges_all =
     ix_read (\<lambda>d. filter_map (\<lambda>e. if ge_kind e \<noteq> ''mentions'' then map_option (\<lambda>s. (s, ge_target_name e)) (ge_source_name e) else None)
       (xd_edges d))"

definition mention_or_call :: "graph_edge \<Rightarrow> bool" where
  "mention_or_call e \<longleftrightarrow> ge_kind e = ''mentions'' \<or> ge_kind e = ''calls''"

definition edge_of_chunk :: "index_db \<Rightarrow> index_chunk \<Rightarrow> graph_edge \<Rightarrow> bool" where
  "edge_of_chunk d c e \<longleftrightarrow>
     mention_or_call e \<and> ck_name c \<noteq> None \<and> ge_source_name e = ck_name c \<and>
     (case file_of d c of Some f \<Rightarrow> fi_path f = ge_source_file e | None \<Rightarrow> False)"

definition mentions_in :: "index_db \<Rightarrow> int list \<Rightarrow> (int \<times> string) list" where
  "mentions_in d ids =
     concat (map (\<lambda>c. map (\<lambda>e. (ck_id c, ge_target_name e)) (filter (edge_of_chunk d c) (xd_edges d)))
       (filter (\<lambda>c. ck_id c \<in> set ids) (xd_chunks d)))"

definition mention_edges_for_chunks :: "int list \<Rightarrow> (int \<times> string list) list ix" where
  "mention_edges_for_chunks chunk_ids =
     ix_read (\<lambda>d. map (\<lambda>(i, ps). (i, map snd ps)) (group_by fst (concat (map (mentions_in d) (slices SQLITE_MAX_BIND chunk_ids)))))"

definition mentioners_in :: "index_db \<Rightarrow> string list \<Rightarrow> (string \<times> int) list" where
  "mentioners_in d symbols =
     concat (map (\<lambda>e. map (\<lambda>c. (ge_target_name e, ck_id c)) (filter (\<lambda>c. edge_of_chunk d c e) (xd_chunks d)))
       (filter (\<lambda>e. ge_target_name e \<in> set symbols) (xd_edges d)))"

definition chunks_mentioning_symbols :: "string list \<Rightarrow> (string \<times> int list) list ix" where
  "chunks_mentioning_symbols symbols =
     ix_read (\<lambda>d. map (\<lambda>(s, ps). (s, map snd ps)) (group_by fst (concat (map (mentioners_in d) (slices SQLITE_MAX_BIND symbols)))))"

section \<open>Specs\<close>

definition spec_at :: "index_db \<Rightarrow> string \<Rightarrow> spec_record option" where
  "spec_at d path = find (\<lambda>s. sp_path s = path) (xd_specs d)"

definition put_spec :: "string \<Rightarrow> string \<Rightarrow> bool \<Rightarrow> index_db \<Rightarrow> index_db" where
  "put_spec path title is_auto d =
     (case spec_at d path of
        Some old \<Rightarrow> d\<lparr> xd_specs := map (\<lambda>s. if sp_path s = path then s\<lparr> sp_title := title, sp_is_auto := is_auto \<rparr> else s) (xd_specs d),
                      xd_spec_seq := (if xd_burns d then xd_spec_seq d + 1 else xd_spec_seq d) \<rparr>
      | None \<Rightarrow> d\<lparr> xd_specs := xd_specs d @
                     [\<lparr> sp_id = xd_spec_seq d + 1, sp_path = path, sp_title = title, sp_is_auto = is_auto \<rparr>],
                   xd_spec_seq := xd_spec_seq d + 1 \<rparr>)"

definition upsert_spec :: "string \<Rightarrow> string \<Rightarrow> bool \<Rightarrow> int ix" where
  "upsert_spec path title is_auto =
     st_bind (ix_exec (put_spec path title is_auto))
       (\<lambda>_. ix_read (\<lambda>d. case spec_at d path of Some s \<Rightarrow> sp_id s | None \<Rightarrow> 0))"

definition spec_by_path :: "string \<Rightarrow> spec_record option ix" where
  "spec_by_path path = ix_read (\<lambda>d. spec_at d path)"

definition all_specs :: "spec_record list ix" where
  "all_specs = ix_read (\<lambda>d. sort_key sp_path (xd_specs d))"

definition spec_links :: "int \<Rightarrow> string list ix" where
  "spec_links spec_id = ix_read (\<lambda>d. sort (map snd (filter (\<lambda>l. fst l = spec_id) (xd_links d))))"

definition add_spec_link :: "int \<Rightarrow> string \<Rightarrow> unit ix" where
  "add_spec_link spec_id linked_path =
     ix_write (\<lambda>d.
       if (spec_id, linked_path) \<in> set (xd_links d) then Inr ((), d)
       else if spec_id \<notin> sp_id ` set (xd_specs d) then Inl IxForeignKey
       else Inr ((), d\<lparr> xd_links := xd_links d @ [(spec_id, linked_path)] \<rparr>))"

definition remove_spec_link :: "int \<Rightarrow> string \<Rightarrow> unit ix" where
  "remove_spec_link spec_id linked_path =
     ix_exec (\<lambda>d. d\<lparr> xd_links := filter (\<lambda>l. l \<noteq> (spec_id, linked_path)) (xd_links d) \<rparr>)"

definition delete_spec :: "int \<Rightarrow> unit ix" where
  "delete_spec spec_id =
     ix_exec (\<lambda>d. d\<lparr> xd_specs := filter (\<lambda>s. sp_id s \<noteq> spec_id) (xd_specs d),
                      xd_links := filter (\<lambda>l. fst l \<noteq> spec_id) (xd_links d) \<rparr>)"

text \<open>The links with the spec they belong to.\<close>

definition linked_specs :: "index_db \<Rightarrow> (spec_record \<times> string) list" where
  "linked_specs d =
     filter_map (\<lambda>(i, p). map_option (\<lambda>s. (s, p)) (find (\<lambda>s. sp_id s = i) (xd_specs d))) (xd_links d)"

fun governing :: "string list \<Rightarrow> (spec_record \<times> string) list \<Rightarrow> (string \<times> string) list \<Rightarrow> (string \<times> string) list" where
  "governing file_paths [] out = out"
| "governing file_paths ((s, linked_path) # rest) out =
     governing file_paths rest
       (if list_ex (\<lambda>fp. starts_with linked_path fp \<or> fp = linked_path) file_paths \<and> sp_path s \<notin> fst ` set out
        then out @ [(sp_path s, sp_title s)] else out)"

definition specs_for_files :: "string list \<Rightarrow> (string \<times> string) list ix" where
  "specs_for_files file_paths =
     (if file_paths = [] then st_ok [] else ix_read (\<lambda>d. governing file_paths (linked_specs d) []))"

definition replace_char :: "char \<Rightarrow> string \<Rightarrow> string \<Rightarrow> string" where
  "replace_char c r s = concat (map (\<lambda>x. if x = c then r else [x]) s)"

record stale_spec =
  ss_spec_id :: int
  ss_spec_path :: string
  ss_title :: string
  ss_linked_path :: string
  ss_spec_indexed_at :: int
  ss_code_indexed_at :: int

definition stale_of :: "index_db \<Rightarrow> spec_record \<times> string \<Rightarrow> stale_spec list" where
  "stale_of d sl =
     (case sl of (s, linked_path) \<Rightarrow>
        let pattern = replace_char (CHR ''_'') [CHR 0x5C, CHR ''_''] (replace_char (CHR ''%'') [CHR 0x5C, CHR ''%'']
              (replace_char (CHR 0x5C) [CHR 0x5C, CHR 0x5C] linked_path)) @ ''%''
        in concat (map (\<lambda>sf. map (\<lambda>lf. \<lparr> ss_spec_id = sp_id s, ss_spec_path = sp_path s, ss_title = sp_title s,
               ss_linked_path = linked_path, ss_spec_indexed_at = fi_indexed_at sf, ss_code_indexed_at = fi_indexed_at lf \<rparr>)
             (filter (\<lambda>lf. (fi_path lf = linked_path \<or> like_match pattern (fi_path lf)) \<and> fi_indexed_at sf < fi_indexed_at lf) (xd_files d)))
           (filter (\<lambda>sf. fi_path sf = sp_path s) (xd_files d))))"

definition stale_specs :: "stale_spec list ix" where
  "stale_specs = ix_read (\<lambda>d. sort_key ss_spec_path (remdups (concat (map (stale_of d) (linked_specs d)))))"

end
