(* ===== verification/IndexRun.thy ===== *)
theory IndexRun
  imports CodeGraph
begin

text \<open>
  The parse phase of \<open>spelunk index\<close> (\<open>spelunk-cli/src/cli/cmd/index/parse_phase.rs\<close>): which files are
  indexed, how each is stored, the removal of stale records and the queue of texts to embed.  The
  parsers, the hash and the scan for secrets are the parameters of an \<open>indexer\<close>; the files are a \<open>source_tree\<close>.
\<close>

record indexer =
  xr_language :: "string \<Rightarrow> string option"
  xr_text_language :: "string \<Rightarrow> string option"
  xr_doc_language :: "string \<Rightarrow> string option"
  xr_hash :: "string \<Rightarrow> string"
  xr_parse :: "string \<Rightarrow> string \<Rightarrow> string \<Rightarrow> chunk list option"
  xr_parse_doc :: "string \<Rightarrow> string \<Rightarrow> string \<Rightarrow> chunk list"
  xr_edges :: "string \<Rightarrow> string \<Rightarrow> string \<Rightarrow> code_edge list option"
  xr_mentions :: "string \<Rightarrow> string \<Rightarrow> string list"
  xr_secret :: "string \<Rightarrow> bool"
  xr_metadata :: "string option \<Rightarrow> string option \<Rightarrow> string"
  xr_docstring :: "string \<Rightarrow> string option"

text \<open>What a run finds on the disk: the file system, and the text of a PDF, which is read from its path.\<close>

record source_tree =
  dv_size :: "string \<Rightarrow> nat option"
  dv_modified :: "string \<Rightarrow> int option"
  dv_read :: "string \<Rightarrow> string option"
  dv_binary :: "string \<Rightarrow> bool"
  dv_pdf_pages :: "string \<Rightarrow> (nat \<times> string) list option"

definition MAX_FILE_BYTES :: nat where
  "MAX_FILE_BYTES = 64 * 1024 * 1024"

definition is_file_too_large :: "source_tree \<Rightarrow> string \<Rightarrow> bool" where
  "is_file_too_large D path = (case dv_size D path of Some n \<Rightarrow> MAX_FILE_BYTES < n | None \<Rightarrow> False)"

definition stat_mtime :: "source_tree \<Rightarrow> string \<Rightarrow> int" where
  "stat_mtime D path = (case dv_modified D path of Some t \<Rightarrow> t | None \<Rightarrow> 0)"

definition normalize_index_path :: "string \<Rightarrow> string" where
  "normalize_index_path path = map (\<lambda>c. if c = CHR 0x5C then CHR ''/'' else c) path"

text \<open>A path of the walk relative to its start.\<close>

definition relative_to :: "string \<Rightarrow> string \<Rightarrow> string" where
  "relative_to base_dir path =
     (if path = base_dir then [] else case strip_prefix (base_dir @ ''/'') path of Some rel \<Rightarrow> rel | None \<Rightarrow> path)"

definition path_key :: "string \<Rightarrow> string \<Rightarrow> string" where
  "path_key base_dir path = normalize_index_path (relative_to base_dir path)"

record parse_acc =
  pa_queue :: "(int \<times> string \<times> nat) list"
  pa_indexed :: nat
  pa_skipped :: nat

section \<open>Storing the chunks of a file\<close>

definition stored_metadata :: "indexer \<Rightarrow> chunk \<Rightarrow> string" where
  "stored_metadata X c = xr_metadata X (ch_docstring c) (ch_parent_scope c)"

fun store_chunks :: "indexer \<Rightarrow> int \<Rightarrow> chunk list \<Rightarrow> parse_acc \<Rightarrow> parse_acc ix" where
  "store_chunks X file_id [] acc = st_ok acc"
| "store_chunks X file_id (c # cs) acc =
     (if xr_secret X (embedding_text c) then store_chunks X file_id cs acc
      else let tc = estimate_tokens (ch_content c)
        in st_bind (insert_chunk file_id (kind_text (ch_kind c)) (ch_name c) (ch_start_line c) (ch_end_line c) (ch_content c)
              (Some (stored_metadata X c)) tc)
          (\<lambda>chunk_id. store_chunks X file_id cs
             (acc\<lparr> pa_queue := pa_queue acc @ [(chunk_id, embedding_text c, max tc 1)] \<rparr>)))"

text \<open>An error that is only logged; a killed process does not go on.\<close>

definition warned :: "unit ix \<Rightarrow> unit ix" where
  "warned m = (\<lambda>s. case m s of (Inl IxKilled, t) \<Rightarrow> (Inl IxKilled, t) | (_, t) \<Rightarrow> (Inr (), t))"

definition mention_pairs :: "indexer \<Rightarrow> string \<Rightarrow> chunk list \<Rightarrow> (string option \<times> string) list" where
  "mention_pairs X language cs =
     concat (map (\<lambda>c. case ch_name c of
          Some name \<Rightarrow> map (\<lambda>sym. (Some name, sym)) (xr_mentions X (ch_content c) language)
        | None \<Rightarrow> []) cs)"

definition hash_current :: "string \<Rightarrow> string \<Rightarrow> bool ix" where
  "hash_current path_str h = st_bind (file_hash path_str) (\<lambda>existing. st_ok (existing = Some h))"

definition count_skipped :: "parse_acc \<Rightarrow> parse_acc" where
  "count_skipped acc = acc\<lparr> pa_skipped := pa_skipped acc + 1 \<rparr>"

definition count_indexed :: "parse_acc \<Rightarrow> parse_acc" where
  "count_indexed acc = acc\<lparr> pa_indexed := pa_indexed acc + 1 \<rparr>"

text \<open>The record of the file, and its old vectors and chunks gone.\<close>

definition renew_file :: "source_tree \<Rightarrow> string \<Rightarrow> string \<Rightarrow> string \<Rightarrow> string \<Rightarrow> int ix" where
  "renew_file D path path_str language h =
     st_bind (upsert_file path_str (Some language) h (stat_mtime D path))
       (\<lambda>file_id. st_bind (delete_embeddings_for_file file_id)
         (\<lambda>_. st_bind (delete_chunks_for_file file_id) (\<lambda>_. st_ok file_id)))"

definition process_doc_file :: "indexer \<Rightarrow> source_tree \<Rightarrow> bool \<Rightarrow> string \<Rightarrow> string \<Rightarrow> string \<Rightarrow> parse_acc \<Rightarrow> parse_acc ix" where
  "process_doc_file X D force path path_str doc_lang acc =
     (if is_file_too_large D path then st_ok (count_skipped acc)
      else case dv_read D path of
        None \<Rightarrow> st_ok acc
      | Some bytes \<Rightarrow>
          st_bind (hash_current path_str (xr_hash X bytes))
            (\<lambda>current. if \<not> force \<and> current then st_ok (count_skipped acc)
             else st_bind (renew_file D path path_str doc_lang (xr_hash X bytes))
               (\<lambda>file_id. st_bind (store_chunks X file_id (xr_parse_doc X bytes path_str doc_lang) acc)
                  (\<lambda>acc. st_ok (count_indexed acc)))))"

definition pages_to_chunks :: "(nat \<times> string) list \<Rightarrow> string \<Rightarrow> chunk list" where
  "pages_to_chunks pages path_str =
     map (\<lambda>(page_num, text).
       \<lparr> ch_file_path = path_str, ch_language = ''pdf'', ch_kind = Ck_Section, ch_name = Some (''page '' @ nat_digits page_num),
         ch_start_line = page_num, ch_end_line = page_num, ch_content = text, ch_docstring = None,
         ch_parent_scope = None, ch_summary = None \<rparr>) pages"

definition process_pdf_file :: "indexer \<Rightarrow> source_tree \<Rightarrow> bool \<Rightarrow> string \<Rightarrow> string \<Rightarrow> parse_acc \<Rightarrow> parse_acc ix" where
  "process_pdf_file X D force path path_str acc =
     (if is_file_too_large D path then st_ok (count_skipped acc)
      else case dv_read D path of
        None \<Rightarrow> st_ok acc
      | Some bytes \<Rightarrow>
          st_bind (hash_current path_str (xr_hash X bytes))
            (\<lambda>current. if \<not> force \<and> current then st_ok acc
             else case dv_pdf_pages D path of
               None \<Rightarrow> st_ok acc
             | Some pages \<Rightarrow>
                 st_bind (renew_file D path path_str ''pdf'' (xr_hash X bytes))
                   (\<lambda>file_id. st_bind (store_chunks X file_id (pages_to_chunks pages path_str) acc)
                      (\<lambda>acc. st_ok (count_indexed acc)))))"

text \<open>\<open>read_to_string\<close> wants UTF-8.\<close>

definition process_text_file :: "indexer \<Rightarrow> source_tree \<Rightarrow> bool \<Rightarrow> string \<Rightarrow> string \<Rightarrow> string \<Rightarrow> parse_acc \<Rightarrow> parse_acc ix" where
  "process_text_file X D force path path_str language acc =
     (if (language = ''text'' \<or> language = ''markdown'') \<and> dv_binary D path then st_ok acc
      else if is_file_too_large D path then st_ok (count_skipped acc)
      else case dv_read D path of
        None \<Rightarrow> st_ok acc
      | Some source \<Rightarrow>
          if \<not> utf8_valid source then st_ok acc
          else st_bind (hash_current path_str (xr_hash X source))
            (\<lambda>current. st_bind (if \<not> force \<and> current then file_has_chunks path_str else st_ok False)
               (\<lambda>skip. if skip then st_ok (count_skipped acc)
                else case xr_parse X source path_str language of
                  None \<Rightarrow> st_ok acc
                | Some chunks \<Rightarrow>
                    st_bind (renew_file D path path_str language (xr_hash X source))
                      (\<lambda>file_id. st_bind (case xr_edges X source path_str language of
                            Some edges \<Rightarrow> warned (replace_edges path_str edges) | None \<Rightarrow> st_ok ())
                        (\<lambda>_. st_bind (warned (append_mention_edges path_str (mention_pairs X language chunks)))
                          (\<lambda>_. st_bind (store_chunks X file_id chunks acc)
                            (\<lambda>acc. st_ok (count_indexed acc))))))))"

section \<open>The files of a run\<close>

datatype filter_decision = Exclude | ForceInclude | Keep

text \<open>The files among the entries of the walk, and how many the index filter dropped.  The filter's decision
  and its marker of a generated file are parameters.\<close>

fun collect_files ::
    "indexer \<Rightarrow> (string \<Rightarrow> filter_decision) \<Rightarrow> (string \<Rightarrow> bool) \<Rightarrow> string \<Rightarrow> (string \<times> bool) list \<Rightarrow> string list \<times> nat" where
  "collect_files X decide generated base_dir [] = ([], 0)"
| "collect_files X decide generated base_dir ((p, is_file) # entries) =
     (case collect_files X decide generated base_dir entries of (files, filtered) \<Rightarrow>
        if \<not> is_file \<or> (xr_language X p = None \<and> xr_text_language X p = None \<and> xr_doc_language X p = None) then (files, filtered)
        else case decide (relative_to base_dir p) of
          Exclude \<Rightarrow> (files, filtered + 1)
        | ForceInclude \<Rightarrow> (p # files, filtered)
        | Keep \<Rightarrow> if generated p then (files, filtered + 1) else (p # files, filtered))"

definition text_language_of :: "indexer \<Rightarrow> string \<Rightarrow> string option" where
  "text_language_of X path = (case xr_language X path of Some l \<Rightarrow> Some l | None \<Rightarrow> xr_text_language X path)"

text \<open>A path without a language does not come out of \<open>collect_files\<close>; the source panics on one.\<close>

definition process_file :: "indexer \<Rightarrow> source_tree \<Rightarrow> bool \<Rightarrow> string \<Rightarrow> string \<Rightarrow> parse_acc \<Rightarrow> parse_acc ix" where
  "process_file X D force base_dir path acc =
     (let path_str = path_key base_dir path
      in case xr_doc_language X path of
        Some doc_lang \<Rightarrow> process_doc_file X D force path path_str doc_lang acc
      | None \<Rightarrow>
          if xr_language X path = Some ''pdf'' then process_pdf_file X D force path path_str acc
          else case text_language_of X path of
            Some language \<Rightarrow> process_text_file X D force path path_str language acc
          | None \<Rightarrow> st_err IxPanic)"

fun process_files :: "indexer \<Rightarrow> source_tree \<Rightarrow> bool \<Rightarrow> string \<Rightarrow> string list \<Rightarrow> parse_acc \<Rightarrow> parse_acc ix" where
  "process_files X D force base_dir [] acc = st_ok acc"
| "process_files X D force base_dir (p # ps) acc = st_bind (process_file X D force base_dir p acc) (process_files X D force base_dir ps)"

fun delete_unvisited :: "string set \<Rightarrow> (int \<times> string) list \<Rightarrow> nat ix" where
  "delete_unvisited visited [] = st_ok 0"
| "delete_unvisited visited ((i, path) # rest) =
     (if path \<in> visited then delete_unvisited visited rest
      else st_bind (delete_file i path) (\<lambda>_. st_bind (delete_unvisited visited rest) (\<lambda>n. st_ok (n + 1))))"

definition cleanup_stale :: "string list \<Rightarrow> string \<Rightarrow> nat ix" where
  "cleanup_stale files base_dir = st_bind (file_paths_under []) (delete_unvisited (path_key base_dir ` set files))"

section \<open>The queue\<close>

definition effective_token_count :: "nat \<Rightarrow> string \<Rightarrow> nat" where
  "effective_token_count stored content = max (if stored = 0 then estimate_tokens content else stored) 1"

definition reconstruct_embedding_text :: "indexer \<Rightarrow> string option \<Rightarrow> string option \<Rightarrow> string option \<Rightarrow> string \<Rightarrow> string" where
  "reconstruct_embedding_text X name metadata summary content =
     document_text name (Option.bind metadata (xr_docstring X)) summary content"

definition queue_entry :: "indexer \<Rightarrow> index_chunk \<Rightarrow> int \<times> string \<times> nat" where
  "queue_entry X c =
     (ck_id c, reconstruct_embedding_text X (ck_name c) (ck_metadata c) (ck_summary c) (ck_content c),
      effective_token_count (ck_token_count c) (ck_content c))"

definition missing_embedding_texts :: "indexer \<Rightarrow> (int \<times> string \<times> nat) list ix" where
  "missing_embedding_texts X = st_bind chunks_missing_embeddings (\<lambda>cs. st_ok (map (queue_entry X) cs))"

section \<open>The phase\<close>

record parse_result =
  pr_queue :: "(int \<times> string \<times> nat) list"
  pr_indexed :: nat
  pr_removed :: nat
  pr_filtered :: nat

definition run_parse_phase :: "indexer \<Rightarrow> source_tree \<Rightarrow> bool \<Rightarrow> string \<Rightarrow> string \<Rightarrow> string list \<Rightarrow> nat \<Rightarrow> parse_result ix" where
  "run_parse_phase X D force config base_dir files filtered =
     (if files = [] then st_ok \<lparr> pr_queue = [], pr_indexed = 0, pr_removed = 0, pr_filtered = filtered \<rparr>
      else st_bind (process_files X D force base_dir files \<lparr> pa_queue = [], pa_indexed = 0, pa_skipped = 0 \<rparr>)
        (\<lambda>acc. st_bind (cleanup_stale files base_dir)
          (\<lambda>removed. st_bind chunks_missing_embeddings
            (\<lambda>missing. let queue = pa_queue acc @
                  map (queue_entry X) (filter (\<lambda>c. ck_id c \<notin> fst ` set (pa_queue acc)) missing)
              in st_bind (if force then stamp_chunker_config config else st_ok ())
                (\<lambda>_. st_ok \<lparr> pr_queue = queue, pr_indexed = pa_indexed acc, pr_removed = removed, pr_filtered = filtered \<rparr>)))))"

end
