(* ===== verification/IndexInv.thy ===== *)
theory IndexInv
  imports IndexRun
begin

text \<open>
  The constraints of the code index, kept by every statement and so by a run that is killed anywhere;
  and that no vector is left without its chunk, which the order of the deletions keeps.
\<close>

definition files_ok :: "index_db \<Rightarrow> bool" where
  "files_ok d \<longleftrightarrow> distinct (map fi_id (xd_files d)) \<and> distinct (map fi_path (xd_files d)) \<and> (\<forall>f \<in> set (xd_files d). fi_id f \<le> xd_file_seq d)"

definition chunks_ok :: "index_db \<Rightarrow> bool" where
  "chunks_ok d \<longleftrightarrow> distinct (map ck_id (xd_chunks d)) \<and>
     (\<forall>c \<in> set (xd_chunks d). ck_id c \<le> xd_chunk_seq d \<and> ck_file_id c \<in> fi_id ` set (xd_files d))"

definition vectors_ok :: "index_db \<Rightarrow> bool" where
  "vectors_ok d \<longleftrightarrow> distinct (map fst (xd_vectors d)) \<and> (\<forall>(i, v) \<in> set (xd_vectors d). length v = INDEX_DIM) \<and> distinct (map fst (xd_meta d))"

definition specs_ok :: "index_db \<Rightarrow> bool" where
  "specs_ok d \<longleftrightarrow> distinct (map sp_id (xd_specs d)) \<and> distinct (map sp_path (xd_specs d)) \<and> (\<forall>s \<in> set (xd_specs d). sp_id s \<le> xd_spec_seq d) \<and>
     distinct (xd_links d) \<and> (\<forall>(i, p) \<in> set (xd_links d). i \<in> sp_id ` set (xd_specs d))"

definition index_inv :: "index_db \<Rightarrow> bool" where
  "index_inv d \<longleftrightarrow> files_ok d \<and> chunks_ok d \<and> vectors_ok d \<and> specs_ok d"

definition vectors_owned :: "index_db \<Rightarrow> bool" where
  "vectors_owned d \<longleftrightarrow> (\<forall>i v. (i, v) \<in> set (xd_vectors d) \<longrightarrow> (\<exists>c \<in> set (xd_chunks d). ck_id c = i))"

abbreviation keeps_ix :: "'a ix \<Rightarrow> bool" where
  "keeps_ix m \<equiv> within (keeping (\<lambda>m. index_inv (ir_db m))) m"

section \<open>Statements\<close>

lemma ix_write_cases:
  "ix_write f m = (Inl IxKilled, m) \<or> (\<exists>e. f (ir_db m) = Inl e \<and> ix_write f m = (Inl e, m)) \<or>
   (\<exists>x d. f (ir_db m) = Inr (x, d) \<and> (\<exists>b. ix_write f m = (Inr x, m\<lparr> ir_db := d, ir_budget := b \<rparr>)))"
  by (auto simp: ix_write_def split: option.split nat.split sum.split)

lemma ix_write_within:
  assumes "\<And>d x d'. I d \<Longrightarrow> f d = Inr (x, d') \<Longrightarrow> I d'"
  shows "within (keeping (\<lambda>m. I (ir_db m))) (ix_write f)"
proof -
  have "I (ir_db (snd (ix_write f m)))" if "I (ir_db m)" for m
    using ix_write_cases [of f m] assms [OF that] that by auto
  then show ?thesis by (simp add: within_def keeping_def)
qed

lemma ix_exec_within: "(\<And>d. I d \<Longrightarrow> I (f d)) \<Longrightarrow> within (keeping (\<lambda>m. I (ir_db m))) (ix_exec f)"
  unfolding ix_exec_def by (rule ix_write_within) auto

lemma ix_read_within: "within (keeping (\<lambda>m. I (ir_db m))) (ix_read f)"
  by (simp add: ix_read_def kept_inv.reads)

lemma file_at_Some: "file_at d path = Some f \<Longrightarrow> f \<in> set (xd_files d) \<and> fi_path f = path"
  unfolding file_at_def by (drule find_SomeE) simp

lemma file_at_None: "file_at d path = None \<longleftrightarrow> path \<notin> fi_path ` set (xd_files d)"
  by (auto simp: file_at_def find_None_iff)

lemma put_file_inv: "index_inv d \<Longrightarrow> index_inv (put_file path language h mtime d)"
proof (cases "file_at d path")
  case None
  assume d: "index_inv d"
  have n: "path \<notin> fi_path ` set (xd_files d)" using None by (simp add: file_at_None)
  show ?thesis
    unfolding put_file_def None option.case using d n
    by (auto simp: index_inv_def files_ok_def chunks_ok_def vectors_ok_def specs_ok_def)
next
  case (Some old)
  let ?g = "\<lambda>f. if fi_path f = path then f\<lparr> fi_language := language, fi_hash := h, fi_indexed_at := xd_now d, fi_mtime := mtime \<rparr> else f"
  have m: "map fi_id (map ?g fs) = map fi_id fs" "map fi_path (map ?g fs) = map fi_path fs" "fi_id ` set (map ?g fs) = fi_id ` set fs" for fs
    by (induction fs) auto
  assume "index_inv d"
  with Some show ?thesis
    unfolding index_inv_def put_file_def files_ok_def chunks_ok_def vectors_ok_def specs_ok_def
    by (simp add: m del: map_map set_map) (auto intro: order_trans)
qed

lemma drop_vectors_inv: "index_inv d \<Longrightarrow> index_inv (drop_vectors_of i d)"
  by (auto simp: index_inv_def drop_vectors_of_def files_ok_def chunks_ok_def vectors_ok_def specs_ok_def intro: distinct_map_filter)

lemma drop_chunks_inv: "index_inv d \<Longrightarrow> index_inv (drop_chunks_of i d)"
  by (auto simp: index_inv_def drop_chunks_of_def files_ok_def chunks_ok_def vectors_ok_def specs_ok_def intro: distinct_map_filter)

lemma drop_edges_inv: "index_inv d \<Longrightarrow> index_inv (drop_edges_of k d)"
  by (auto simp: index_inv_def drop_edges_of_def files_ok_def chunks_ok_def vectors_ok_def specs_ok_def)

lemma add_edge_inv: "index_inv d \<Longrightarrow> index_inv (add_edge_row e d)"
  by (auto simp: index_inv_def add_edge_row_def files_ok_def chunks_ok_def vectors_ok_def specs_ok_def)

lemma drop_file_inv: "index_inv d \<Longrightarrow> index_inv (drop_file i d)"
  by (auto simp: index_inv_def drop_file_def drop_chunks_of_def files_ok_def chunks_ok_def vectors_ok_def specs_ok_def intro: distinct_map_filter)

lemma on_chunk_inv:
  assumes "\<And>c. ck_id (f c) = ck_id c" and "\<And>c. ck_file_id (f c) = ck_file_id c" and "index_inv d"
  shows "index_inv (on_chunk i f d)"
proof -
  let ?g = "\<lambda>c. if ck_id c = i then f c else c"
  have m: "map ck_id (map ?g cs) = map ck_id cs" for cs by (induction cs) (auto simp: assms)
  from assms(3) show ?thesis
    unfolding index_inv_def on_chunk_def files_ok_def chunks_ok_def vectors_ok_def specs_ok_def
    by (simp add: m del: map_map) (auto simp: assms(1,2))
qed

lemma put_meta_inv: "index_inv d \<Longrightarrow> index_inv (put_meta k v d)"
  by (auto simp: index_inv_def put_meta_def files_ok_def chunks_ok_def vectors_ok_def specs_ok_def intro: distinct_map_filter)

lemma vectors_inv:
  "index_inv (d\<lparr> xd_vectors := vs \<rparr>) \<longleftrightarrow> files_ok d \<and> chunks_ok d \<and> specs_ok d \<and> vectors_ok (d\<lparr> xd_vectors := vs \<rparr>)"
  by (auto simp: index_inv_def files_ok_def chunks_ok_def specs_ok_def)

lemma put_vector_inv: "index_inv d \<Longrightarrow> put_vector q row d = Inr d' \<Longrightarrow> index_inv d'"
  by (auto simp: vectors_inv put_vector_def vectors_ok_def Let_def index_inv_def [of d]
      intro: distinct_map_filter split: prod.splits if_splits)

lemma put_vectors_inv: "index_inv d \<Longrightarrow> put_vectors q rows d = Inr d' \<Longrightarrow> index_inv d'"
  by (induction q rows d rule: put_vectors.induct) (auto simp: bind_res_Inr_iff dest: put_vector_inv)

lemma put_spec_inv: "index_inv d \<Longrightarrow> index_inv (put_spec path title is_auto d)"
proof (cases "spec_at d path")
  case None
  assume d: "index_inv d"
  have n: "path \<notin> sp_path ` set (xd_specs d)" using None by (auto simp: spec_at_def find_None_iff)
  show ?thesis
    unfolding put_spec_def None option.case using d n
    by (auto simp: index_inv_def files_ok_def chunks_ok_def vectors_ok_def specs_ok_def)
next
  case (Some old)
  let ?g = "\<lambda>s. if sp_path s = path then s\<lparr> sp_title := title, sp_is_auto := is_auto \<rparr> else s"
  have m: "map sp_id (map ?g fs) = map sp_id fs" "map sp_path (map ?g fs) = map sp_path fs" "sp_id ` set (map ?g fs) = sp_id ` set fs" for fs
    by (induction fs) auto
  assume "index_inv d"
  with Some show ?thesis
    unfolding index_inv_def put_spec_def files_ok_def chunks_ok_def vectors_ok_def specs_ok_def
    by (simp add: m del: map_map set_map) (auto intro: order_trans)
qed

section \<open>Methods\<close>

lemma upsert_file_keeps: "keeps_ix (upsert_file path language h mtime)"
  unfolding upsert_file_def by (intro kept_inv.binds ix_exec_within ix_read_within put_file_inv)

lemma delete_file_keeps: "keeps_ix (delete_file i path)"
  unfolding delete_file_def
  by (intro kept_inv.binds ix_exec_within drop_vectors_inv drop_chunks_inv drop_edges_inv drop_file_inv)

lemma delete_vectors_keeps: "keeps_ix (delete_embeddings_for_file i)"
  unfolding delete_embeddings_for_file_def by (intro ix_exec_within drop_vectors_inv)

lemma delete_chunks_keeps: "keeps_ix (delete_chunks_for_file i)"
  unfolding delete_chunks_for_file_def by (intro ix_exec_within drop_chunks_inv)

lemma insert_chunk_keeps: "keeps_ix (insert_chunk i node_type name start_line end_line content metadata token_count)"
  unfolding insert_chunk_def
  by (rule ix_write_within)
    (auto simp: index_inv_def files_ok_def chunks_ok_def vectors_ok_def specs_ok_def split: if_splits)

lemma replace_edges_keeps: "keeps_ix (replace_edges path edges)"
  unfolding replace_edges_def by (intro kept_inv.binds kept_inv.eaches ix_exec_within drop_edges_inv add_edge_inv)

lemma append_mention_keeps: "keeps_ix (append_mention_edges path ms)"
  unfolding append_mention_edges_def by (intro kept_inv.eaches ix_exec_within add_edge_inv)

lemma update_ranks_keeps: "keeps_ix (update_graph_ranks scores)"
proof -
  have "index_inv d \<Longrightarrow> index_inv (fold (\<lambda>(i, score). on_chunk i (\<lambda>c. c\<lparr> ck_graph_rank := score \<rparr>)) scores d)" for d
  proof (induction scores arbitrary: d)
    case (Cons a scores)
    then show ?case by (cases a) (simp add: on_chunk_inv)
  qed simp
  then show ?thesis unfolding update_graph_ranks_def by (rule ix_exec_within)
qed

lemma update_summary_keeps: "keeps_ix (update_chunk_summary i summary)"
  unfolding update_chunk_summary_def by (intro ix_exec_within on_chunk_inv) auto

lemma backfill_keeps: "keeps_ix backfill_token_counts"
  unfolding backfill_token_counts_def
  by (intro kept_inv.binds kept_inv.reads kept_inv.eaches ix_read_within)
    (auto simp: Let_def split: prod.split intro!: ix_exec_within on_chunk_inv kept_inv.reads)

lemma insert_embeddings_keeps: "keeps_ix (insert_embeddings q rows)"
  unfolding insert_embeddings_def
  by (rule ix_write_within) (auto simp: bind_res_Inr_iff dest: put_vectors_inv)

lemma stamp_keeps: "keeps_ix (stamp_chunker_config config)"
  unfolding stamp_chunker_config_def by (intro ix_exec_within put_meta_inv)

lemma ensure_model_keeps: "keeps_ix (ensure_embedding_model model_id)"
  unfolding ensure_embedding_model_def embedding_model_def
  by (intro kept_inv.binds ix_read_within) (auto split: option.split intro!: kept_inv.reads ix_exec_within put_meta_inv)

lemma ensure_config_keeps: "keeps_ix (ensure_chunker_config config)"
  unfolding ensure_chunker_config_def chunker_config_def
  by (intro kept_inv.binds ix_read_within) (auto split: option.split intro!: kept_inv.reads kept_inv.binds stamp_keeps)

lemma upsert_spec_keeps: "keeps_ix (upsert_spec path title is_auto)"
  unfolding upsert_spec_def by (intro kept_inv.binds ix_exec_within ix_read_within put_spec_inv)

lemma add_link_keeps: "keeps_ix (add_spec_link i p)"
  unfolding add_spec_link_def
  by (rule ix_write_within)
    (auto simp: index_inv_def files_ok_def chunks_ok_def vectors_ok_def specs_ok_def split: if_splits)

lemma remove_link_keeps: "keeps_ix (remove_spec_link i p)"
  unfolding remove_spec_link_def
  by (rule ix_exec_within) (auto simp: index_inv_def files_ok_def chunks_ok_def vectors_ok_def specs_ok_def)

lemma delete_spec_keeps: "keeps_ix (delete_spec i)"
  unfolding delete_spec_def
  by (rule ix_exec_within)
    (auto simp: index_inv_def files_ok_def chunks_ok_def vectors_ok_def specs_ok_def intro: distinct_map_filter)

section \<open>A run\<close>

lemma warned_within: "within R m \<Longrightarrow> within R (warned m)"
proof -
  have "snd (warned m s) = snd (m s)" for s
    unfolding warned_def by (cases "m s") (auto split: sum.split ix_error.split)
  then show "within R m \<Longrightarrow> within R (warned m)" by (simp add: within_def)
qed

lemma store_chunks_keeps: "keeps_ix (store_chunks X i cs acc)"
  by (induction X i cs acc rule: store_chunks.induct)
    (auto simp: Let_def intro!: kept_inv.reads kept_inv.binds insert_chunk_keeps)

lemma hash_current_keeps: "keeps_ix (hash_current path h)"
  unfolding hash_current_def file_hash_def by (intro kept_inv.binds kept_inv.reads ix_read_within)

lemma renew_file_keeps: "keeps_ix (renew_file D path path_str language h)"
  unfolding renew_file_def
  by (intro kept_inv.binds kept_inv.reads upsert_file_keeps delete_vectors_keeps delete_chunks_keeps)

lemmas run_keeps = kept_inv.reads kept_inv.binds hash_current_keeps renew_file_keeps store_chunks_keeps warned_within
  replace_edges_keeps append_mention_keeps ix_read_within

lemma process_doc_keeps: "keeps_ix (process_doc_file X D force path path_str l acc)"
  unfolding process_doc_file_def by (auto split: option.split intro!: run_keeps)

lemma process_pdf_keeps: "keeps_ix (process_pdf_file X D force path path_str acc)"
  unfolding process_pdf_file_def by (auto split: option.split intro!: run_keeps)

lemma process_text_keeps: "keeps_ix (process_text_file X D force path path_str l acc)"
  unfolding process_text_file_def file_has_chunks_def by (auto split: option.split intro!: run_keeps)

lemma process_file_keeps: "keeps_ix (process_file X D force base_dir path acc)"
  unfolding process_file_def Let_def
  by (auto split: option.split intro!: process_doc_keeps process_pdf_keeps process_text_keeps kept_inv.reads)

lemma process_files_keeps: "keeps_ix (process_files X D force base_dir ps acc)"
  by (induction ps arbitrary: acc) (auto intro!: kept_inv.reads kept_inv.binds process_file_keeps)

lemma delete_unvisited_keeps: "keeps_ix (delete_unvisited visited rows)"
  by (induction visited rows rule: delete_unvisited.induct) (auto intro!: kept_inv.reads kept_inv.binds delete_file_keeps)

lemma run_parse_phase_keeps: "keeps_ix (run_parse_phase X D force config base_dir files filtered)"
  unfolding run_parse_phase_def cleanup_stale_def file_paths_under_def chunks_missing_embeddings_def Let_def
  by (auto intro!: kept_inv.reads kept_inv.binds process_files_keeps delete_unvisited_keeps ix_read_within stamp_keeps)

section \<open>No vector without its chunk\<close>

definition owned_inv :: "index_db \<Rightarrow> bool" where
  "owned_inv d \<longleftrightarrow> index_inv d \<and> vectors_owned d"

abbreviation keeps_owned :: "'a ix \<Rightarrow> bool" where
  "keeps_owned m \<equiv> within (keeping (\<lambda>m. owned_inv (ir_db m))) m"

text \<open>What holds once the vectors of a file are gone.\<close>

definition bare_file :: "int \<Rightarrow> index_db \<Rightarrow> bool" where
  "bare_file i d \<longleftrightarrow> owned_inv d \<and> (\<forall>j v. (j, v) \<in> set (xd_vectors d) \<longrightarrow> (\<forall>c \<in> set (xd_chunks d). ck_file_id c = i \<longrightarrow> ck_id c \<noteq> j))"

lemma bare_vectors: "owned_inv d \<Longrightarrow> bare_file i (drop_vectors_of i d)"
proof -
  assume d: "owned_inv d"
  then have "index_inv (drop_vectors_of i d)" by (simp add: owned_inv_def drop_vectors_inv)
  with d show ?thesis
    by (auto simp: bare_file_def owned_inv_def vectors_owned_def drop_vectors_of_def chunks_of_def)
qed

lemma bare_chunks: "bare_file i d \<Longrightarrow> bare_file i (drop_chunks_of i d)"
proof -
  assume d: "bare_file i d"
  then have "index_inv (drop_chunks_of i d)" by (simp add: bare_file_def owned_inv_def drop_chunks_inv)
  with d show ?thesis
    by (fastforce simp: bare_file_def owned_inv_def vectors_owned_def drop_chunks_of_def chunks_of_def)
qed

lemma bare_edges: "bare_file i d \<Longrightarrow> bare_file i (drop_edges_of k d)"
  by (auto simp: bare_file_def owned_inv_def drop_edges_inv) (auto simp: vectors_owned_def drop_edges_of_def chunks_of_def)

lemma bare_gone: "bare_file i d \<Longrightarrow> owned_inv (drop_file i d)"
proof -
  assume d: "bare_file i d"
  then have "index_inv (drop_file i d)" by (simp add: bare_file_def owned_inv_def drop_file_inv)
  with d show ?thesis
    by (fastforce simp: bare_file_def owned_inv_def vectors_owned_def drop_file_def drop_chunks_of_def chunks_of_def)
qed

text \<open>Statements that lead from one condition to the next, each of which has the invariant.\<close>

lemma ix_exec_then:
  assumes "\<And>d. P d \<Longrightarrow> owned_inv d" and "\<And>d. P d \<Longrightarrow> Q (f d)" and "P (ir_db m)"
    and "\<And>m. Q (ir_db m) \<Longrightarrow> owned_inv (ir_db (snd (k m)))"
  shows "owned_inv (ir_db (snd (st_bind (ix_exec f) (\<lambda>_. k) m)))"
  using ix_write_cases [of "\<lambda>d. Inr ((), f d)" m] assms
  by (auto simp: ix_exec_def st_bind_def)

lemma ix_exec_last:
  assumes "\<And>d. P d \<Longrightarrow> owned_inv d" and "\<And>d. P d \<Longrightarrow> owned_inv (f d)" and "P (ir_db m)"
  shows "owned_inv (ir_db (snd (ix_exec f m)))"
  using ix_write_cases [of "\<lambda>d. Inr ((), f d)" m] assms by (auto simp: ix_exec_def)

lemma bare_owned: "bare_file i d \<Longrightarrow> owned_inv d"
  by (simp add: bare_file_def)

lemma first_vectors:
  assumes "owned_inv (ir_db m)" and "\<And>m. bare_file i (ir_db m) \<Longrightarrow> owned_inv (ir_db (snd (k m)))"
  shows "owned_inv (ir_db (snd (st_bind (ix_exec (drop_vectors_of i)) (\<lambda>_. k) m)))"
  by (rule ix_exec_then [where P = owned_inv and Q = "bare_file i"]) (auto intro: bare_vectors assms)

lemma then_bare:
  assumes "bare_file i (ir_db m)" and "\<And>d. bare_file i d \<Longrightarrow> bare_file i (f d)"
    and "\<And>m. bare_file i (ir_db m) \<Longrightarrow> owned_inv (ir_db (snd (k m)))"
  shows "owned_inv (ir_db (snd (st_bind (ix_exec f) (\<lambda>_. k) m)))"
  by (rule ix_exec_then [where P = "bare_file i" and Q = "bare_file i"]) (auto intro: bare_owned assms)

lemma last_gone: "bare_file i (ir_db m) \<Longrightarrow> owned_inv (ir_db (snd (ix_exec (drop_file i) m)))"
  by (rule ix_exec_last [where P = "bare_file i"]) (auto intro: bare_owned bare_gone)

lemma delete_file_owned: "keeps_owned (delete_file i path)"
proof -
  have "owned_inv (ir_db (snd (delete_file i path m)))" if "owned_inv (ir_db m)" for m
    unfolding delete_file_def
    by (rule first_vectors [OF that], rule then_bare, assumption, erule bare_chunks, rule then_bare, assumption,
        erule bare_edges, erule last_gone)
  then show ?thesis by (simp add: within_def keeping_def)
qed

lemma same_vectors_owned:
  assumes "index_inv d \<Longrightarrow> index_inv (f d)" and "xd_vectors (f d) = xd_vectors d" and "set (xd_chunks d) \<subseteq> set (xd_chunks (f d))"
  shows "owned_inv d \<Longrightarrow> owned_inv (f d)"
  unfolding owned_inv_def vectors_owned_def assms(2) using assms(1,3) by blast

lemma put_file_owned: "owned_inv d \<Longrightarrow> owned_inv (put_file path language h mtime d)"
  by (rule same_vectors_owned [where f = "put_file path language h mtime"]) (auto simp: put_file_inv, auto simp: put_file_def split: option.split)

lemma renew_file_owned: "keeps_owned (renew_file D path path_str language h)"
proof -
  have r: "owned_inv (ir_db (snd (st_bind (delete_embeddings_for_file i)
        (\<lambda>_. st_bind (delete_chunks_for_file i) (\<lambda>_. st_ok i)) m)))" if "owned_inv (ir_db m)" for i m
    unfolding delete_embeddings_for_file_def delete_chunks_for_file_def
    by (rule first_vectors [OF that], rule then_bare, assumption, erule bare_chunks) (simp add: bare_owned st_runs)
  show ?thesis
    unfolding renew_file_def upsert_file_def
    by (rule kept_inv.binds, rule kept_inv.binds, rule ix_exec_within, erule put_file_owned, rule ix_read_within)
      (simp add: within_def keeping_def r)
qed

lemma insert_chunk_owned: "keeps_owned (insert_chunk i node_type name start_line end_line content metadata token_count)"
proof -
  let ?m = "insert_chunk i node_type name start_line end_line content metadata token_count"
  have "owned_inv (ir_db (snd (?m m)))" if "owned_inv (ir_db m)" for m
  proof -
    have "index_inv (ir_db (snd (?m m)))"
      using insert_chunk_keeps that by (fastforce simp: within_def keeping_def owned_inv_def)
    moreover have "xd_vectors (ir_db (snd (?m m))) = xd_vectors (ir_db m) \<and> set (xd_chunks (ir_db m)) \<subseteq> set (xd_chunks (ir_db (snd (?m m))))"
      by (auto simp: insert_chunk_def ix_write_def split: option.split nat.split)
    ultimately show ?thesis using that unfolding owned_inv_def vectors_owned_def by (metis subsetD)
  qed
  then show ?thesis by (simp add: within_def keeping_def)
qed

lemma drop_edges_owned: "owned_inv d \<Longrightarrow> owned_inv (drop_edges_of k d)"
  by (rule same_vectors_owned [where f = "drop_edges_of k"]) (auto simp: drop_edges_inv, auto simp: drop_edges_of_def)

lemma add_edge_owned: "owned_inv d \<Longrightarrow> owned_inv (add_edge_row e d)"
  by (rule same_vectors_owned [where f = "add_edge_row e"]) (auto simp: add_edge_inv, auto simp: add_edge_row_def)

lemma replace_edges_owned: "keeps_owned (replace_edges path edges)"
  unfolding replace_edges_def by (intro kept_inv.binds kept_inv.eaches ix_exec_within drop_edges_owned add_edge_owned)

lemma append_mention_owned: "keeps_owned (append_mention_edges path ms)"
  unfolding append_mention_edges_def by (intro kept_inv.eaches ix_exec_within add_edge_owned)

lemma store_chunks_owned: "keeps_owned (store_chunks X i cs acc)"
  by (induction X i cs acc rule: store_chunks.induct)
    (auto simp: Let_def intro!: kept_inv.reads kept_inv.binds insert_chunk_owned)

lemma put_meta_owned: "owned_inv d \<Longrightarrow> owned_inv (put_meta k v d)"
  by (rule same_vectors_owned [where f = "put_meta k v"]) (auto simp: put_meta_inv, auto simp: put_meta_def)

lemmas run_owned = kept_inv.reads kept_inv.binds renew_file_owned store_chunks_owned warned_within
  replace_edges_owned append_mention_owned ix_read_within

lemma process_file_owned: "keeps_owned (process_file X D force base_dir path acc)"
  unfolding process_file_def process_doc_file_def process_pdf_file_def process_text_file_def hash_current_def file_hash_def
    file_has_chunks_def Let_def
  by (auto split: option.split intro!: run_owned)

lemma process_files_owned: "keeps_owned (process_files X D force base_dir ps acc)"
  by (induction ps arbitrary: acc) (auto intro!: kept_inv.reads kept_inv.binds process_file_owned)

lemma delete_unvisited_owned: "keeps_owned (delete_unvisited visited rows)"
  by (induction visited rows rule: delete_unvisited.induct) (auto intro!: kept_inv.reads kept_inv.binds delete_file_owned)

lemma run_parse_phase_owned: "keeps_owned (run_parse_phase X D force config base_dir files filtered)"
  unfolding run_parse_phase_def cleanup_stale_def file_paths_under_def chunks_missing_embeddings_def stamp_chunker_config_def Let_def
  by (auto intro!: kept_inv.reads kept_inv.binds process_files_owned delete_unvisited_owned ix_read_within ix_exec_within put_meta_owned)

text \<open>C34: The code index is well formed however a run of the parse phase ends: ids and paths are unique, every chunk belongs
  to a file, every vector to a chunk and has the dimension of the table.  No statement of a run, of the removal
  of a file or of storing its chunks breaks this, so being killed between two of them does not either.\<close>
theorem index_stays_well_formed:
  "within (keeping (\<lambda>m. owned_inv (ir_db m))) (run_parse_phase X D force config base_dir files filtered) \<and>
   within (keeping (\<lambda>m. owned_inv (ir_db m))) (delete_file file_id path) \<and>
   within (keeping (\<lambda>m. owned_inv (ir_db m))) (renew_file D path path_str language h) \<and>
   within (keeping (\<lambda>m. owned_inv (ir_db m))) (store_chunks X file_id cs acc)"
  by (intro conjI run_parse_phase_owned delete_file_owned renew_file_owned store_chunks_owned)

end
