(* ===== verification/IndexViews.thy ===== *)
theory IndexViews
  imports IndexInv
begin

text \<open>
  The index as a function of the path: what it says of a file, whatever the rowids are.  Every
  statement of the parse phase changes the view at the path it is about and nowhere else.
\<close>

type_synonym row_view = "string \<times> string option \<times> nat \<times> nat \<times> string \<times> string option \<times> nat"
type_synonym path_view = "(string option \<times> string \<times> row_view list) option \<times> graph_edge list"

definition id_at :: "index_db \<Rightarrow> string \<Rightarrow> int option" where
  "id_at d k = map_option fi_id (file_at d k)"

definition view_of_row :: "index_chunk \<Rightarrow> row_view" where
  "view_of_row c = (ck_node_type c, ck_name c, ck_start_line c, ck_end_line c, ck_content c, ck_metadata c, ck_token_count c)"

definition record_at :: "index_db \<Rightarrow> string \<Rightarrow> (string option \<times> string \<times> row_view list) option" where
  "record_at d k = map_option (\<lambda>f. (fi_language f, fi_hash f, map view_of_row (chunks_of d (fi_id f)))) (file_at d k)"

definition edges_at :: "index_db \<Rightarrow> string \<Rightarrow> graph_edge list" where
  "edges_at d k = filter (\<lambda>e. ge_source_file e = k) (xd_edges d)"

definition view_at :: "index_db \<Rightarrow> string \<Rightarrow> path_view" where
  "view_at d k = (record_at d k, edges_at d k)"

fun rows_of :: "(string option \<times> string \<times> row_view list) option \<Rightarrow> row_view list" where
  "rows_of None = []"
| "rows_of (Some (l, h, rows)) = rows"

section \<open>Statements\<close>

lemma file_at_upd [simp]:
  "file_at (d\<lparr> xd_chunks := cs \<rparr>) k = file_at d k" "file_at (d\<lparr> xd_vectors := vs \<rparr>) k = file_at d k"
  "file_at (d\<lparr> xd_edges := es \<rparr>) k = file_at d k" "file_at (d\<lparr> xd_chunk_seq := n \<rparr>) k = file_at d k"
  by (simp_all add: file_at_def)

lemma chunks_of_upd [simp]:
  "chunks_of (d\<lparr> xd_vectors := vs \<rparr>) i = chunks_of d i" "chunks_of (d\<lparr> xd_edges := es \<rparr>) i = chunks_of d i"
  by (simp_all add: chunks_of_def)

lemma find_map_same_pred: "(\<And>x. P (g x) = P x) \<Longrightarrow> find P (map g xs) = map_option g (find P xs)"
  by (induction xs) auto

lemma file_at_put:
  "file_at (put_file k language h t d) j =
     (if j = k then Some \<lparr> fi_id = (case id_at d k of Some i \<Rightarrow> i | None \<Rightarrow> xd_file_seq d + 1), fi_path = k, fi_language = language,
        fi_hash = h, fi_indexed_at = xd_now d, fi_mtime = t \<rparr> else file_at d j)"
proof (cases "file_at d k")
  case None
  then show ?thesis
    by (cases "j = k"; simp add: put_file_def None id_at_def; simp add: file_at_def find_append split: option.split)
next
  case (Some old)
  let ?g = "\<lambda>f. if fi_path f = k then f\<lparr> fi_language := language, fi_hash := h, fi_indexed_at := xd_now d, fi_mtime := t \<rparr> else f"
  have "file_at (put_file k language h t d) j = map_option ?g (file_at d j)"
  proof -
    have "xd_files (put_file k language h t d) = map ?g (xd_files d)" using Some by (simp add: put_file_def)
    then show ?thesis unfolding file_at_def by (simp only:) (rule find_map_same_pred, simp)
  qed
  with Some file_at_Some [OF Some] show ?thesis
    by (auto simp: id_at_def dest: file_at_Some intro!: option.map_ident_strong)
qed

lemma put_file_chunks [simp]: "xd_chunks (put_file k language h t d) = xd_chunks d" "xd_edges (put_file k language h t d) = xd_edges d"
  by (simp_all add: put_file_def split: option.split)

lemma chunks_of_fresh: "index_inv d \<Longrightarrow> chunks_of d (xd_file_seq d + 1) = []"
proof -
  assume d: "index_inv d"
  have "ck_file_id c \<noteq> xd_file_seq d + 1" if c: "c \<in> set (xd_chunks d)" for c
  proof -
    from d c have "ck_file_id c \<in> fi_id ` set (xd_files d)" by (simp add: index_inv_def chunks_ok_def)
    then obtain f where "f \<in> set (xd_files d)" "ck_file_id c = fi_id f" by auto
    with d show ?thesis by (auto simp: index_inv_def files_ok_def)
  qed
  then show ?thesis by (simp add: chunks_of_def filter_empty_conv)
qed

lemma view_put_file:
  assumes "index_inv d"
  shows "view_at (put_file k language h t d) = (view_at d)(k := (Some (language, h, rows_of (record_at d k)), edges_at d k))"
proof
  fix j
  have e: "edges_at (put_file k language h t d) j = edges_at d j" by (simp add: edges_at_def)
  have c: "chunks_of (put_file k language h t d) i = chunks_of d i" for i by (simp add: chunks_of_def)
  show "view_at (put_file k language h t d) j = ((view_at d)(k := (Some (language, h, rows_of (record_at d k)), edges_at d k))) j"
    unfolding view_at_def record_at_def file_at_put c
    by (cases "file_at d k") (auto simp: e id_at_def chunks_of_fresh [OF assms])
qed

lemma id_at_put: "\<exists>i. id_at (put_file k language h t d) k = Some i"
  by (simp add: id_at_def file_at_put)

lemma id_at_inj: "index_inv d \<Longrightarrow> id_at d k = Some i \<Longrightarrow> id_at d j = Some i \<Longrightarrow> j = k"
  unfolding id_at_def index_inv_def files_ok_def
  by (auto dest!: file_at_Some) (metis distinct_map_eq)

lemma view_drop_vectors [simp]: "view_at (drop_vectors_of i d) = view_at d"
  by (simp add: fun_eq_iff view_at_def record_at_def edges_at_def drop_vectors_of_def)

lemma view_drop_chunks:
  assumes "index_inv d" and "id_at d k = Some i"
  shows "view_at (drop_chunks_of i d) = (view_at d)(k := (map_option (\<lambda>(l, h, rows). (l, h, [])) (record_at d k), edges_at d k))"
proof
  fix j
  have f: "file_at (drop_chunks_of i d) j = file_at d j" and e: "edges_at (drop_chunks_of i d) j = edges_at d j" for j
    by (simp_all add: drop_chunks_of_def edges_at_def)
  have c: "chunks_of (drop_chunks_of i d) i' = (if i' = i then [] else chunks_of d i')" for i'
    by (auto simp: drop_chunks_of_def chunks_of_def filter_empty_conv intro: filter_cong)
  show "view_at (drop_chunks_of i d) j = ((view_at d)(k := (map_option (\<lambda>(l, h, rows). (l, h, [])) (record_at d k), edges_at d k))) j"
  proof (cases "j = k")
    case True
    with assms(2) show ?thesis by (auto simp: view_at_def record_at_def f c e id_at_def)
  next
    case False
    with assms id_at_inj have "id_at d j \<noteq> Some i" by blast
    with False show ?thesis
      by (cases "file_at d j") (auto simp: view_at_def record_at_def f c e id_at_def)
  qed
qed

lemma view_drop_edges: "view_at (drop_edges_of k d) = (view_at d)(k := (record_at d k, []))"
  by (auto simp: fun_eq_iff view_at_def record_at_def edges_at_def drop_edges_of_def filter_empty_conv intro: filter_cong)

lemma view_add_edge: "ge_source_file e = k \<Longrightarrow> view_at (add_edge_row e d) = (view_at d)(k := (record_at d k, edges_at d k @ [e]))"
  by (auto simp: fun_eq_iff view_at_def record_at_def edges_at_def add_edge_row_def)

lemma view_drop_file:
  assumes "index_inv d" and "id_at d k = Some i"
  shows "view_at (drop_file i d) = (view_at d)(k := (None, edges_at d k))"
proof
  fix j
  have e: "edges_at (drop_file i d) j = edges_at d j" for j by (simp add: drop_file_def drop_chunks_of_def edges_at_def)
  have fs: "xd_files (drop_file i d) = filter (\<lambda>f. fi_id f \<noteq> i) (xd_files d)" by (simp add: drop_file_def drop_chunks_of_def)
  have c: "chunks_of (drop_file i d) i' = (if i' = i then [] else chunks_of d i')" for i'
    by (auto simp: drop_file_def drop_chunks_of_def chunks_of_def filter_empty_conv intro: filter_cong)
  from assms(2) obtain f where f: "file_at d k = Some f" "fi_id f = i" by (auto simp: id_at_def)
  show "view_at (drop_file i d) j = ((view_at d)(k := (None, edges_at d k))) j"
  proof (cases "j = k")
    case True
    have "g = f" if "g \<in> set (xd_files d)" "fi_path g = k" for g
      using that assms(1) file_at_Some [OF f(1)] by (metis distinct_map_eq index_inv_def files_ok_def)
    with f(2) True have "file_at (drop_file i d) j = None" by (auto simp: file_at_None fs)
    with True show ?thesis by (simp add: view_at_def record_at_def e)
  next
    case False
    have "find (\<lambda>g. fi_path g = j) (filter (\<lambda>f. fi_id f \<noteq> i) gs) = find (\<lambda>g. fi_path g = j) gs"
      if "\<forall>g \<in> set gs. fi_id g = i \<longrightarrow> fi_path g = k" for gs using that False by (induction gs) auto
    moreover have "\<forall>g \<in> set (xd_files d). fi_id g = i \<longrightarrow> fi_path g = k"
      using assms(1) file_at_Some [OF f(1)] f(2) by (metis distinct_map_eq index_inv_def files_ok_def)
    ultimately have fj: "file_at (drop_file i d) j = file_at d j" by (simp add: file_at_def fs)
    have "id_at d j \<noteq> Some i" using assms False id_at_inj by blast
    with False show ?thesis
      by (cases "file_at d j") (auto simp: view_at_def record_at_def fj c e id_at_def)
  qed
qed

text \<open>A row appended to the file with the id \<open>i\<close>.\<close>

lemma view_add_chunk:
  assumes "index_inv d" and "id_at d k = Some i" and "ck_file_id c = i"
    and "xd_files d' = xd_files d" and "xd_edges d' = xd_edges d" and "xd_chunks d' = xd_chunks d @ [c]"
  shows "view_at d' = (view_at d)(k := (map_option (\<lambda>(l, h, rows). (l, h, rows @ [view_of_row c])) (record_at d k), edges_at d k))"
proof
  fix j
  have f: "file_at d' j = file_at d j" and e: "edges_at d' j = edges_at d j" for j using assms(4,5) by (simp_all add: edges_at_def file_at_def)
  have c: "chunks_of d' i' = chunks_of d i' @ (if i' = i then [c] else [])" for i' using assms(3,6) by (simp add: chunks_of_def)
  show "view_at d' j = ((view_at d)(k := (map_option (\<lambda>(l, h, rows). (l, h, rows @ [view_of_row c])) (record_at d k), edges_at d k))) j"
  proof (cases "j = k")
    case True
    with assms(2) show ?thesis by (auto simp: view_at_def record_at_def f c e id_at_def)
  next
    case False
    with assms(1,2) id_at_inj have "id_at d j \<noteq> Some i" by blast
    with False show ?thesis
      by (cases "file_at d j") (auto simp: view_at_def record_at_def f c e id_at_def)
  qed
qed

section \<open>Methods that return\<close>

lemma ix_exec_Inr: "ix_exec f m = (Inr x, m') \<Longrightarrow> ir_db m' = f (ir_db m)"
  by (auto simp: ix_exec_def ix_write_def split: option.splits nat.splits)

lemma ix_read_Inr: "ix_read f m = (Inr x, m') \<longleftrightarrow> x = f (ir_db m) \<and> m' = m"
  by (auto simp: ix_read_def st_runs)

lemma upsert_file_Inr:
  assumes "upsert_file k language h t m = (Inr i, m')"
  shows "ir_db m' = put_file k language h t (ir_db m) \<and> id_at (ir_db m') k = Some i"
proof -
  from assms obtain u m1 where "ix_exec (put_file k language h t) m = (Inr u, m1)" and m': "m' = m1"
    and i: "i = (case file_at (ir_db m1) k of Some f \<Rightarrow> fi_id f | None \<Rightarrow> 0)"
    by (auto simp: upsert_file_def st_bind_Inr ix_read_Inr)
  then have d: "ir_db m1 = put_file k language h t (ir_db m)" by (simp add: ix_exec_Inr)
  with i m' show ?thesis using id_at_put [of k language h t "ir_db m"] by (auto simp: id_at_def)
qed

lemma renew_file_Inr:
  assumes "renew_file D path k language h m = (Inr i, m')" and "index_inv (ir_db m)"
  shows "index_inv (ir_db m') \<and> id_at (ir_db m') k = Some i \<and>
    view_at (ir_db m') = (view_at (ir_db m))(k := (Some (Some language, h, []), edges_at (ir_db m) k))"
proof -
  from assms(1) obtain m1 u m2 v where
    1: "upsert_file k (Some language) h (stat_mtime D path) m = (Inr i, m1)"
    and 2: "ix_exec (drop_vectors_of i) m1 = (Inr u, m2)" and 3: "ix_exec (drop_chunks_of i) m2 = (Inr v, m')"
    by (auto simp: renew_file_def delete_embeddings_for_file_def delete_chunks_for_file_def st_bind_Inr st_ok_def)
  let ?d = "ir_db m" and ?d1 = "put_file k (Some language) h (stat_mtime D path) (ir_db m)"
  let ?d2 = "drop_vectors_of i ?d1"
  have d: "ir_db m' = drop_chunks_of i ?d2"
    using upsert_file_Inr [OF 1] ix_exec_Inr [OF 2] ix_exec_Inr [OF 3] by simp
  have i1: "index_inv ?d1" by (rule put_file_inv [OF assms(2)])
  have i2: "index_inv ?d2" by (rule drop_vectors_inv [OF i1])
  have id1: "id_at ?d1 k = Some i" using upsert_file_Inr [OF 1] by metis
  have id2: "id_at ?d2 k = Some i" using id1 by (simp add: id_at_def drop_vectors_of_def)
  have v1: "view_at ?d2 = (view_at ?d)(k := (Some (Some language, h, rows_of (record_at ?d k)), edges_at ?d k))"
    using view_put_file [OF assms(2)] by simp
  then have "record_at ?d2 k = Some (Some language, h, rows_of (record_at ?d k))" "edges_at ?d2 k = edges_at ?d k"
    by (metis fun_upd_same prod.inject view_at_def)+
  then have "view_at (drop_chunks_of i ?d2) = (view_at ?d)(k := (Some (Some language, h, []), edges_at ?d k))"
    using view_drop_chunks [OF i2 id2] v1 by simp
  moreover have "id_at (drop_chunks_of i ?d2) k = Some i" using id2 by (simp add: id_at_def drop_chunks_of_def)
  ultimately show ?thesis using d drop_chunks_inv [OF i2] by simp
qed

lemma view_upd_same: "view_at d' = (view_at d)(k := (r, es)) \<Longrightarrow> record_at d' k = r \<and> edges_at d' k = es"
  by (metis fun_upd_same prod.inject view_at_def)

lemma view_upd_other: "view_at d' = (view_at d)(k := v) \<Longrightarrow> j \<noteq> k \<Longrightarrow> view_at d' j = view_at d j"
  by simp

lemma view_upd_trans:
  "view_at d1 = (view_at d)(k := v) \<Longrightarrow> view_at d2 = (view_at d1)(k := w) \<Longrightarrow> view_at d2 = (view_at d)(k := w)"
  by simp

lemma view_upd_id: "(view_at d)(k := (record_at d k, edges_at d k)) = view_at d"
  by (simp add: view_at_def fun_eq_iff)

text \<open>Writing edges touches neither the files nor the chunks.\<close>

lemma add_edges_Inr:
  assumes "st_each (\<lambda>x. ix_exec (add_edge_row (g x))) xs m = (Inr u, m')" and "\<forall>x \<in> set xs. ge_source_file (g x) = k"
  shows "view_at (ir_db m') = (view_at (ir_db m))(k := (record_at (ir_db m) k, edges_at (ir_db m) k @ map g xs)) \<and>
    (index_inv (ir_db m) \<longrightarrow> index_inv (ir_db m')) \<and> xd_files (ir_db m') = xd_files (ir_db m)"
  using assms
proof (induction xs arbitrary: m)
  case Nil
  then show ?case by (simp add: st_ok_def view_upd_id)
next
  case (Cons x xs)
  from Cons.prems obtain v m1 where 1: "ix_exec (add_edge_row (g x)) m = (Inr v, m1)"
    and 2: "st_each (\<lambda>x. ix_exec (add_edge_row (g x))) xs m1 = (Inr u, m')"
    by (auto simp: st_bind_Inr)
  have d: "ir_db m1 = add_edge_row (g x) (ir_db m)" by (rule ix_exec_Inr [OF 1])
  have v: "view_at (ir_db m1) = (view_at (ir_db m))(k := (record_at (ir_db m) k, edges_at (ir_db m) k @ [g x]))"
    unfolding d by (rule view_add_edge) (use Cons.prems(2) in simp)
  have "xd_files (ir_db m1) = xd_files (ir_db m)" "index_inv (ir_db m) \<longrightarrow> index_inv (ir_db m1)"
    unfolding d by (simp_all add: add_edge_row_def add_edge_inv [unfolded add_edge_row_def])
  moreover have "view_at (ir_db m') = (view_at (ir_db m1))(k := (record_at (ir_db m1) k, edges_at (ir_db m1) k @ map g xs)) \<and>
      (index_inv (ir_db m1) \<longrightarrow> index_inv (ir_db m')) \<and> xd_files (ir_db m') = xd_files (ir_db m1)"
    by (rule Cons.IH [OF 2]) (use Cons.prems(2) in simp)
  ultimately show ?case using v view_upd_same [OF v] by simp
qed

lemma replace_edges_Inr:
  assumes "replace_edges k es m = (Inr u, m')" and "\<forall>e \<in> set es. ed_source_file e = k" and "index_inv (ir_db m)"
  shows "view_at (ir_db m') = (view_at (ir_db m))(k := (record_at (ir_db m) k, map stored_edge es)) \<and>
    index_inv (ir_db m') \<and> xd_files (ir_db m') = xd_files (ir_db m)"
proof -
  from assms(1) obtain v m1 where 1: "ix_exec (drop_edges_of k) m = (Inr v, m1)"
    and 2: "st_each (\<lambda>e. ix_exec (add_edge_row (stored_edge e))) es m1 = (Inr u, m')"
    by (auto simp: replace_edges_def st_bind_Inr)
  have d: "ir_db m1 = drop_edges_of k (ir_db m)" by (rule ix_exec_Inr [OF 1])
  have v: "view_at (ir_db m1) = (view_at (ir_db m))(k := (record_at (ir_db m) k, []))" unfolding d by (rule view_drop_edges)
  have i: "index_inv (ir_db m1)" unfolding d by (rule drop_edges_inv [OF assms(3)])
  have f: "xd_files (ir_db m1) = xd_files (ir_db m)" unfolding d by (simp add: drop_edges_of_def)
  have "view_at (ir_db m') = (view_at (ir_db m1))(k := (record_at (ir_db m1) k, edges_at (ir_db m1) k @ map stored_edge es)) \<and>
      (index_inv (ir_db m1) \<longrightarrow> index_inv (ir_db m')) \<and> xd_files (ir_db m') = xd_files (ir_db m1)"
    by (rule add_edges_Inr [OF 2]) (use assms(2) in \<open>simp add: stored_edge_def\<close>)
  then show ?thesis using i f v view_upd_same [OF v] by simp
qed

lemma append_mention_Inr:
  assumes "append_mention_edges k ms m = (Inr u, m')" and "index_inv (ir_db m)"
  shows "view_at (ir_db m') = (view_at (ir_db m))(k := (record_at (ir_db m) k, edges_at (ir_db m) k @ map (mention_edge k) ms)) \<and>
    index_inv (ir_db m') \<and> xd_files (ir_db m') = xd_files (ir_db m)"
  using add_edges_Inr [where k = k, OF assms(1) [unfolded append_mention_edges_def]] assms(2)
  by (metis (no_types, lifting) graph_edge.select_convs(1) mention_edge_def)

text \<open>The chunks that are stored, and the row of one.\<close>

definition kept_chunks :: "indexer \<Rightarrow> chunk list \<Rightarrow> chunk list" where
  "kept_chunks X cs = filter (\<lambda>c. \<not> xr_secret X (embedding_text c)) cs"

definition view_of_chunk :: "indexer \<Rightarrow> chunk \<Rightarrow> row_view" where
  "view_of_chunk X c =
     (kind_text (ch_kind c), ch_name c, ch_start_line c, ch_end_line c, ch_content c, Some (stored_metadata X c), estimate_tokens (ch_content c))"

lemma insert_chunk_Inr:
  assumes "insert_chunk i node_type name start_line end_line content metadata token_count m = (Inr j, m')"
  obtains c where "ir_db m' = (ir_db m)\<lparr> xd_chunks := xd_chunks (ir_db m) @ [c], xd_chunk_seq := xd_chunk_seq (ir_db m) + 1 \<rparr>"
    and "ck_file_id c = i" and "j = ck_id c" and "j = xd_chunk_seq (ir_db m) + 1" and "ck_summary c = None"
    and "view_of_row c = (node_type, name, start_line, end_line, content, metadata, token_count)"
proof -
  let ?c = "\<lparr> ck_id = xd_chunk_seq (ir_db m) + 1, ck_file_id = i, ck_node_type = node_type, ck_name = name,
      ck_start_line = start_line, ck_end_line = end_line, ck_content = content, ck_metadata = metadata,
      ck_token_count = token_count, ck_graph_rank = 0, ck_summary = None \<rparr>"
  from assms have "ir_db m' = (ir_db m)\<lparr> xd_chunks := xd_chunks (ir_db m) @ [?c], xd_chunk_seq := xd_chunk_seq (ir_db m) + 1 \<rparr>"
    "j = xd_chunk_seq (ir_db m) + 1"
    by (auto simp: insert_chunk_def ix_write_def split: option.splits nat.splits if_splits)
  then show ?thesis by (intro that [of ?c]) (simp_all add: view_of_row_def)
qed

lemma store_chunks_Inr:
  assumes "store_chunks X i cs acc m = (Inr acc', m')" and "index_inv (ir_db m)" and "id_at (ir_db m) k = Some i"
  shows "index_inv (ir_db m') \<and> xd_files (ir_db m') = xd_files (ir_db m) \<and>
    view_at (ir_db m') = (view_at (ir_db m))(k := (map_option (\<lambda>(l, h, rows). (l, h, rows @ map (view_of_chunk X) (kept_chunks X cs)))
      (record_at (ir_db m) k), edges_at (ir_db m) k))"
  using assms
proof (induction cs arbitrary: acc m)
  case Nil
  have "map_option (\<lambda>(l, h, rows). (l, h, rows @ map (view_of_chunk X) (kept_chunks X []))) r = r"
    for r :: "(string option \<times> string \<times> row_view list) option" by (cases r) (auto simp: kept_chunks_def)
  with Nil show ?case by (simp only: view_upd_id) (simp add: st_ok_def)
next
  case (Cons c cs)
  show ?case
  proof (cases "xr_secret X (embedding_text c)")
    case True
    with Cons show ?thesis by (simp add: kept_chunks_def)
  next
    case False
    with Cons.prems(1) obtain j m1 acc1 where
      1: "insert_chunk i (kind_text (ch_kind c)) (ch_name c) (ch_start_line c) (ch_end_line c) (ch_content c)
            (Some (stored_metadata X c)) (estimate_tokens (ch_content c)) m = (Inr j, m1)"
      and 2: "store_chunks X i cs acc1 m1 = (Inr acc', m')"
      by (auto simp: Let_def st_bind_Inr)
    from insert_chunk_Inr [OF 1] obtain r where
      d: "ir_db m1 = (ir_db m)\<lparr> xd_chunks := xd_chunks (ir_db m) @ [r], xd_chunk_seq := xd_chunk_seq (ir_db m) + 1 \<rparr>"
      and r: "ck_file_id r = i" "view_of_row r = view_of_chunk X c" unfolding view_of_chunk_def by blast
    have v: "view_at (ir_db m1) = (view_at (ir_db m))(k := (map_option (\<lambda>(l, h, rows). (l, h, rows @ [view_of_chunk X c]))
        (record_at (ir_db m) k), edges_at (ir_db m) k))"
      using view_add_chunk [OF Cons.prems(2,3) r(1), of "ir_db m1"] r(2) by (simp add: d)
    have i1: "index_inv (ir_db m1)" using insert_chunk_keeps Cons.prems(2) withinD [OF insert_chunk_keeps 1] by (simp add: keeping_def)
    have id1: "id_at (ir_db m1) k = Some i" using Cons.prems(3) by (simp add: id_at_def d)
    have k: "kept_chunks X (c # cs) = c # kept_chunks X cs" using False by (simp add: kept_chunks_def)
    have files: "xd_files (ir_db m1) = xd_files (ir_db m)" by (simp add: d)
    from Cons.IH [OF 2 i1 id1] view_upd_same [OF v] v show ?thesis
      by (simp add: files k option.map_comp comp_def case_prod_unfold) (simp add: fun_eq_iff)
  qed
qed

end
