(* ===== verification/IndexSpec.thy ===== *)
theory IndexSpec
  imports IndexViews
begin

text \<open>
  What a run of the parse phase makes of the index: a function of the files it found.  The condition on the
  index before is that a record which carries the hash of some content was stored from that content.
\<close>

section \<open>What the files say\<close>

definition is_text :: "indexer \<Rightarrow> string \<Rightarrow> bool" where
  "is_text X p \<longleftrightarrow> xr_doc_language X p = None \<and> xr_language X p \<noteq> Some ''pdf''"

text \<open>What a content is stored as; \<open>pdf_text\<close> gives the pages of a PDF.\<close>

definition content_view :: "indexer \<Rightarrow> (string \<Rightarrow> (nat \<times> string) list option) \<Rightarrow> string \<Rightarrow> string \<Rightarrow> string \<Rightarrow> path_view option" where
  "content_view X pdf_text base_dir p bytes =
     (let k = path_key base_dir p;
          stored = (\<lambda>l cs es. (Some (Some l, xr_hash X bytes, map (view_of_chunk X) (kept_chunks X cs)), es))
      in case xr_doc_language X p of
           Some l \<Rightarrow> Some (stored l (xr_parse_doc X bytes k l) [])
         | None \<Rightarrow>
             if xr_language X p = Some ''pdf''
             then map_option (\<lambda>pages. stored ''pdf'' (pages_to_chunks pages k) []) (pdf_text bytes)
             else Option.bind (text_language_of X p) (\<lambda>l. Option.bind (xr_parse X bytes k l) (\<lambda>cs. Option.bind (xr_edges X bytes k l)
               (\<lambda>es. Some (stored l cs (map stored_edge es @ map (mention_edge k) (mention_pairs X l cs)))))))"

text \<open>\<open>None\<close> for a file that cannot be read or parsed.\<close>

definition file_view :: "indexer \<Rightarrow> (string \<Rightarrow> (nat \<times> string) list option) \<Rightarrow> source_tree \<Rightarrow> string \<Rightarrow> string \<Rightarrow> path_view option" where
  "file_view X pdf_text D base_dir p =
     (if is_file_too_large D p then None
      else Option.bind (dv_read D p) (\<lambda>bytes.
        if is_text X p \<and> (\<not> utf8_valid bytes \<or> text_language_of X p \<in> {Some ''text'', Some ''markdown''} \<and> dv_binary D p) then None
        else content_view X pdf_text base_dir p bytes))"

text \<open>The documented behaviour of what is outside, for the paths \<open>S\<close> a walk can give and the contents \<open>B\<close> that occur.\<close>

definition index_laws ::
    "indexer \<Rightarrow> (string \<Rightarrow> (nat \<times> string) list option) \<Rightarrow> source_tree \<Rightarrow> string \<Rightarrow> string set \<Rightarrow> string set \<Rightarrow> bool" where
  "index_laws X pdf_text D base_dir S B \<longleftrightarrow>
     inj_on (path_key base_dir) S \<and> inj_on (xr_hash X) B \<and>
     (\<forall>p bytes. dv_read D p = Some bytes \<longrightarrow> bytes \<in> B \<and> dv_pdf_pages D p = pdf_text bytes) \<and>
     (\<forall>source k l. \<exists>es. xr_edges X source k l = Some es \<and> (\<forall>e \<in> set es. ed_source_file e = k))"

text \<open>A record was stored from a content with its hash, or is that of a text none of whose chunks are stored.\<close>

definition honest_at ::
    "indexer \<Rightarrow> (string \<Rightarrow> (nat \<times> string) list option) \<Rightarrow> string \<Rightarrow> string set \<Rightarrow> string set \<Rightarrow> string \<Rightarrow> path_view \<Rightarrow> bool" where
  "honest_at X pdf_text base_dir S B k v \<longleftrightarrow>
     (case v of
        (None, es) \<Rightarrow> es = []
      | (Some (l, h, rows), es) \<Rightarrow>
          \<exists>p \<in> S. \<exists>bytes \<in> B. path_key base_dir p = k \<and> h = xr_hash X bytes \<and>
            (content_view X pdf_text base_dir p bytes = Some v \<or> is_text X p \<and> rows = []))"

definition honest_index ::
    "indexer \<Rightarrow> (string \<Rightarrow> (nat \<times> string) list option) \<Rightarrow> string \<Rightarrow> string set \<Rightarrow> string set \<Rightarrow> index_db \<Rightarrow> bool" where
  "honest_index X pdf_text base_dir S B d \<longleftrightarrow> (\<forall>k. honest_at X pdf_text base_dir S B k (view_at d k))"

lemma content_view_hash: "content_view X pdf_text base_dir p bytes = Some v \<Longrightarrow> \<exists>l rows es. v = (Some (Some l, xr_hash X bytes, rows), es)"
  by (auto simp: content_view_def Let_def bind_eq_Some_conv split: option.splits if_splits)

lemma content_view_honest:
  assumes "content_view X pdf_text base_dir p bytes = Some v" and "p \<in> S" and "bytes \<in> B"
  shows "honest_at X pdf_text base_dir S B (path_key base_dir p) v"
proof -
  from content_view_hash [OF assms(1)] obtain l rows es where "v = (Some (Some l, xr_hash X bytes, rows), es)" by blast
  with assms show ?thesis by (auto simp: honest_at_def)
qed

lemma file_view_Some:
  "file_view X pdf_text D base_dir p = Some v \<Longrightarrow> \<exists>bytes. dv_read D p = Some bytes \<and> content_view X pdf_text base_dir p bytes = Some v"
  by (auto simp: file_view_def bind_eq_Some_conv split: if_splits)

section \<open>One file\<close>

lemma hash_current_Inr: "hash_current k h m = (Inr x, m') \<longleftrightarrow> m' = m \<and> x = (\<exists>l rows. record_at (ir_db m) k = Some (l, h, rows))"
  by (auto simp: hash_current_def file_hash_def st_bind_Inr ix_read_Inr st_ok_def record_at_def)

lemma has_chunks_Inr:
  assumes "index_inv (ir_db m)"
  shows "file_has_chunks k m = (Inr x, m') \<longleftrightarrow> m' = m \<and> x = (rows_of (record_at (ir_db m) k) \<noteq> [])"
proof -
  let ?d = "ir_db m"
  have "(\<exists>f \<in> set (xd_files ?d). fi_path f = k \<and> chunks_of ?d (fi_id f) \<noteq> []) \<longleftrightarrow> rows_of (record_at ?d k) \<noteq> []"
  proof (cases "file_at ?d k")
    case None
    then have "k \<notin> fi_path ` set (xd_files ?d)" "record_at ?d k = None" by (simp_all add: file_at_None record_at_def)
    then show ?thesis by auto
  next
    case (Some f)
    have "g = f" if "g \<in> set (xd_files ?d)" "fi_path g = k" for g
      using that assms file_at_Some [OF Some] by (metis distinct_map_eq index_inv_def files_ok_def)
    with Some file_at_Some [OF Some] show ?thesis by (auto simp: record_at_def)
  qed
  then show ?thesis by (auto simp: file_has_chunks_def ix_read_Inr list_ex_iff)
qed

text \<open>Where a hash is current, so is the record.\<close>

lemma honest_current:
  assumes "honest_index X pdf_text base_dir S B d" and "index_laws X pdf_text D base_dir S B" and "p \<in> S" and "dv_read D p = Some bytes"
    and "record_at d (path_key base_dir p) = Some (l, xr_hash X bytes, rows)" and "is_text X p \<Longrightarrow> rows \<noteq> []"
  shows "content_view X pdf_text base_dir p bytes = Some (view_at d (path_key base_dir p))"
proof -
  let ?k = "path_key base_dir p"
  have "honest_at X pdf_text base_dir S B ?k (Some (l, xr_hash X bytes, rows), edges_at d ?k)"
    using assms(1,5) by (simp add: honest_index_def view_at_def) metis
  then obtain q b where q: "q \<in> S" "b \<in> B" "path_key base_dir q = ?k" "xr_hash X bytes = xr_hash X b"
    "content_view X pdf_text base_dir q b = Some (Some (l, xr_hash X bytes, rows), edges_at d ?k) \<or> is_text X q \<and> rows = []"
    by (auto simp: honest_at_def)
  have "q = p" using assms(2,3) q(1,3) by (auto simp: index_laws_def dest: inj_onD)
  moreover have "b = bytes" using assms(2,4) q(2,4) by (auto simp: index_laws_def dest: inj_onD)
  ultimately show ?thesis using q(5) assms(5,6) by (auto simp: view_at_def)
qed

lemma warned_Inr: "warned m s = (Inr u, t) \<Longrightarrow> (\<exists>e. m s = (Inl e, t) \<and> e \<noteq> IxKilled) \<or> (\<exists>u. m s = (Inr u, t))"
  by (auto simp: warned_def split: prod.splits sum.splits ix_error.splits)

lemma ix_exec_error: "ix_exec f m = (Inl e, m') \<Longrightarrow> e = IxKilled"
  by (auto simp: ix_exec_def ix_write_def split: option.splits nat.splits)

lemma each_exec_error: "st_each (\<lambda>x. ix_exec (g x)) xs m = (Inl e, m') \<Longrightarrow> e = IxKilled"
  by (induction xs arbitrary: m) (auto simp: st_bind_iff st_ok_def dest: ix_exec_error)

lemma warned_replace: "warned (replace_edges k es) m = (Inr u, m') \<Longrightarrow> \<exists>u. replace_edges k es m = (Inr u, m')"
  using warned_Inr [of "replace_edges k es" m u m']
  by (auto simp: replace_edges_def st_bind_iff dest: ix_exec_error each_exec_error)

lemma warned_mention: "warned (append_mention_edges k ms) m = (Inr u, m') \<Longrightarrow> \<exists>u. append_mention_edges k ms m = (Inr u, m')"
  using warned_Inr [of "append_mention_edges k ms" m u m'] by (auto simp: append_mention_edges_def dest: each_exec_error)

text \<open>A file that is stored anew: record, edges, chunks.\<close>

lemma stored_anew:
  assumes "renew_file D p k l h m = (Inr i, m1)" and "index_inv (ir_db m)"
    and "view_at (ir_db m2) = (view_at (ir_db m1))(k := (record_at (ir_db m1) k, es))"
    and "index_inv (ir_db m2)" and "xd_files (ir_db m2) = xd_files (ir_db m1)"
    and "store_chunks X i cs acc m2 = (Inr acc', m')"
  shows "index_inv (ir_db m') \<and>
    view_at (ir_db m') = (view_at (ir_db m))(k := (Some (Some l, h, map (view_of_chunk X) (kept_chunks X cs)), es))"
proof -
  from renew_file_Inr [OF assms(1,2)] have 1: "id_at (ir_db m1) k = Some i"
    "view_at (ir_db m1) = (view_at (ir_db m))(k := (Some (Some l, h, []), edges_at (ir_db m) k))" by simp_all
  have id2: "id_at (ir_db m2) k = Some i" using 1(1) assms(5) by (simp add: id_at_def file_at_def)
  have v2: "view_at (ir_db m2) = (view_at (ir_db m))(k := (Some (Some l, h, []), es))"
    using assms(3) 1(2) view_upd_same [OF 1(2)] by simp
  from store_chunks_Inr [OF assms(6,4) id2] view_upd_same [OF v2] v2 show ?thesis by simp
qed

lemma process_text_view:
  assumes "process_text_file X D force p (path_key base_dir p) l acc m = (Inr acc', m')" and "text_language_of X p = Some l"
    and "is_text X p" and "index_laws X pdf_text D base_dir S B" and "p \<in> S"
    and "index_inv (ir_db m)" and "honest_index X pdf_text base_dir S B (ir_db m)"
  shows "index_inv (ir_db m') \<and> view_at (ir_db m') =
    (case file_view X pdf_text D base_dir p of None \<Rightarrow> view_at (ir_db m) | Some v \<Rightarrow> (view_at (ir_db m))(path_key base_dir p := v))"
proof -
  let ?k = "path_key base_dir p" and ?d = "ir_db m"
  consider "(l = ''text'' \<or> l = ''markdown'') \<and> dv_binary D p" | "is_file_too_large D p" | "dv_read D p = None"
    | bytes where "dv_read D p = Some bytes" "\<not> utf8_valid bytes"
    | bytes where "\<not> ((l = ''text'' \<or> l = ''markdown'') \<and> dv_binary D p)" "\<not> is_file_too_large D p" "dv_read D p = Some bytes" "utf8_valid bytes"
    by (metis not_None_eq)
  then show ?thesis
  proof cases
    case (5 bytes)
    have fv: "file_view X pdf_text D base_dir p = content_view X pdf_text base_dir p bytes"
      using 5 assms(2) by (auto simp: file_view_def)
    from assms(1) 5 obtain skip where
      s: "skip = (\<not> force \<and> (\<exists>l' rows. record_at ?d ?k = Some (l', xr_hash X bytes, rows)) \<and> rows_of (record_at ?d ?k) \<noteq> [])"
      and rest: "(if skip then st_ok (count_skipped acc) else case xr_parse X bytes ?k l of
          None \<Rightarrow> st_ok acc
        | Some chunks \<Rightarrow>
            st_bind (renew_file D p ?k l (xr_hash X bytes))
              (\<lambda>file_id. st_bind (case xr_edges X bytes ?k l of
                    Some edges \<Rightarrow> warned (replace_edges ?k edges) | None \<Rightarrow> st_ok ())
                (\<lambda>_. st_bind (warned (append_mention_edges ?k (mention_pairs X l chunks)))
                  (\<lambda>_. st_bind (store_chunks X file_id chunks acc)
                    (\<lambda>acc. st_ok (count_indexed acc)))))) m = (Inr acc', m')"
      by (auto simp: process_text_file_def st_bind_Inr hash_current_Inr has_chunks_Inr [OF assms(6)] st_ok_def split: if_splits)
    show ?thesis
    proof (cases skip)
      case True
      with s obtain l' rows where r: "record_at ?d ?k = Some (l', xr_hash X bytes, rows)" "rows \<noteq> []" by auto
      have "content_view X pdf_text base_dir p bytes = Some (view_at ?d ?k)"
        by (rule honest_current [OF assms(7,4,5) 5(3) r(1)]) (rule r(2))
      with True rest fv assms(6) show ?thesis by (simp add: st_ok_def fun_upd_idem)
    next
      case False
      show ?thesis
      proof (cases "xr_parse X bytes ?k l")
        case None
        with False rest assms(6) have "m' = m" by (simp add: st_ok_def)
        moreover have "content_view X pdf_text base_dir p bytes = None"
          using None assms(2,3) by (simp add: content_view_def is_text_def Let_def)
        ultimately show ?thesis using fv assms(6) by simp
      next
        case (Some cs)
        from assms(4) obtain es where es: "xr_edges X bytes ?k l = Some es" "\<forall>e \<in> set es. ed_source_file e = ?k"
          by (auto simp: index_laws_def) metis
        from rest False Some es(1) obtain i m1 u m2 v m3 acc1 where
          1: "renew_file D p ?k l (xr_hash X bytes) m = (Inr i, m1)"
          and 2: "warned (replace_edges ?k es) m1 = (Inr u, m2)"
          and 3: "warned (append_mention_edges ?k (mention_pairs X l cs)) m2 = (Inr v, m3)"
          and 4: "store_chunks X i cs acc m3 = (Inr acc1, m')"
          by (auto simp: st_bind_Inr st_ok_def)
        have i1: "index_inv (ir_db m1)" using renew_file_Inr [OF 1 assms(6)] by simp
        from warned_replace [OF 2] obtain u' where 2: "replace_edges ?k es m1 = (Inr u', m2)" by blast
        from warned_mention [OF 3] obtain v' where 3: "append_mention_edges ?k (mention_pairs X l cs) m2 = (Inr v', m3)" by blast
        note r = replace_edges_Inr [OF 2 es(2) i1]
        note a = append_mention_Inr [OF 3 conjunct1 [OF conjunct2 [OF r]]]
        have v3: "view_at (ir_db m3) = (view_at (ir_db m1))(?k := (record_at (ir_db m1) ?k,
            map stored_edge es @ map (mention_edge ?k) (mention_pairs X l cs)))"
          using a view_upd_same [OF conjunct1 [OF r]] r by simp
        have "index_inv (ir_db m3)" "xd_files (ir_db m3) = xd_files (ir_db m1)" using a r by simp_all
        with stored_anew [OF 1 assms(6) v3 _ _ 4]
        have "index_inv (ir_db m') \<and> view_at (ir_db m') = (view_at ?d)(?k := (Some (Some l, xr_hash X bytes,
            map (view_of_chunk X) (kept_chunks X cs)), map stored_edge es @ map (mention_edge ?k) (mention_pairs X l cs)))"
          by simp
        moreover have "content_view X pdf_text base_dir p bytes = Some (Some (Some l, xr_hash X bytes,
            map (view_of_chunk X) (kept_chunks X cs)), map stored_edge es @ map (mention_edge ?k) (mention_pairs X l cs))"
          using Some es(1) assms(2,3) by (simp add: content_view_def is_text_def Let_def)
        ultimately show ?thesis using fv by simp
      qed
    qed
  qed (use assms in \<open>auto simp: process_text_file_def file_view_def st_ok_def split: if_splits option.splits\<close>)
qed

text \<open>Documents and PDFs have no edges, and none are left at their path.\<close>

lemma no_edges_of_rich:
  assumes "honest_index X pdf_text base_dir S B d" and "inj_on (path_key base_dir) S" and "p \<in> S" and "\<not> is_text X p"
  shows "edges_at d (path_key base_dir p) = []"
proof -
  let ?k = "path_key base_dir p"
  have h: "honest_at X pdf_text base_dir S B ?k (record_at d ?k, edges_at d ?k)" using assms(1) by (simp add: honest_index_def view_at_def)
  show ?thesis
  proof (cases "record_at d ?k")
    case None
    with h show ?thesis by (simp add: honest_at_def)
  next
    case (Some r)
    obtain l hs rows where r: "r = (l, hs, rows)" by (cases r) auto
    from h Some r obtain q b where q: "q \<in> S" "path_key base_dir q = ?k"
      "content_view X pdf_text base_dir q b = Some (Some (l, hs, rows), edges_at d ?k) \<or> is_text X q \<and> rows = []"
      by (auto simp: honest_at_def)
    have "q = p" using assms(2,3) q(1,2) by (auto dest: inj_onD)
    with q(3) assms(4) show ?thesis
      by (auto simp: content_view_def is_text_def Let_def split: option.splits if_splits)
  qed
qed

lemma stored_rich:
  assumes "renew_file D p k l h m = (Inr i, m1)" and "index_inv (ir_db m)" and "edges_at (ir_db m) k = []"
    and "store_chunks X i cs acc m1 = (Inr acc', m')"
  shows "index_inv (ir_db m') \<and> view_at (ir_db m') = (view_at (ir_db m))(k := (Some (Some l, h, map (view_of_chunk X) (kept_chunks X cs)), []))"
proof -
  note r = renew_file_Inr [OF assms(1,2)]
  have "edges_at (ir_db m1) k = []" using view_upd_same [OF conjunct2 [OF conjunct2 [OF r]]] assms(3) by simp
  then have "view_at (ir_db m1) = (view_at (ir_db m1))(k := (record_at (ir_db m1) k, []))" by (metis view_upd_id)
  then show ?thesis using stored_anew [OF assms(1,2) _ _ _ assms(4)] r by simp
qed

lemma process_doc_view:
  assumes "process_doc_file X D force p (path_key base_dir p) l acc m = (Inr acc', m')" and "xr_doc_language X p = Some l"
    and "index_laws X pdf_text D base_dir S B" and "p \<in> S" and "index_inv (ir_db m)" and "honest_index X pdf_text base_dir S B (ir_db m)"
  shows "index_inv (ir_db m') \<and> view_at (ir_db m') =
    (case file_view X pdf_text D base_dir p of None \<Rightarrow> view_at (ir_db m) | Some v \<Rightarrow> (view_at (ir_db m))(path_key base_dir p := v))"
proof (cases "is_file_too_large D p \<or> dv_read D p = None")
  case True
  with assms(1,5) show ?thesis by (auto simp: process_doc_file_def file_view_def st_ok_def split: if_splits option.splits)
next
  case False
  let ?k = "path_key base_dir p" and ?d = "ir_db m"
  from False obtain bytes where b: "dv_read D p = Some bytes" by auto
  have nt: "\<not> is_text X p" using assms(2) by (simp add: is_text_def)
  have fv: "file_view X pdf_text D base_dir p = content_view X pdf_text base_dir p bytes" using False b nt by (simp add: file_view_def)
  have cv: "content_view X pdf_text base_dir p bytes =
      Some (Some (Some l, xr_hash X bytes, map (view_of_chunk X) (kept_chunks X (xr_parse_doc X bytes ?k l))), [])"
    using assms(2) by (simp add: content_view_def Let_def)
  have e: "edges_at ?d ?k = []" using no_edges_of_rich [OF assms(6) _ assms(4) nt] assms(3) by (simp add: index_laws_def)
  show ?thesis
  proof (cases "\<not> force \<and> (\<exists>l' rows. record_at ?d ?k = Some (l', xr_hash X bytes, rows))")
    case True
    then obtain l' rows where r: "record_at ?d ?k = Some (l', xr_hash X bytes, rows)" by auto
    have "m' = m" using assms(1) False b True
      by (auto simp: process_doc_file_def st_bind_Inr hash_current_Inr st_ok_def)
    moreover have "content_view X pdf_text base_dir p bytes = Some (view_at ?d ?k)"
      by (rule honest_current [OF assms(6,3,4) b r]) (simp add: nt)
    ultimately show ?thesis using fv assms(5) by (simp add: fun_upd_idem)
  next
    case skip: False
    with assms(1) False b obtain i m1 acc1 where 1: "renew_file D p ?k l (xr_hash X bytes) m = (Inr i, m1)"
      and 2: "store_chunks X i (xr_parse_doc X bytes ?k l) acc m1 = (Inr acc1, m')"
      by (auto simp: process_doc_file_def st_bind_Inr hash_current_Inr st_ok_def split: if_splits)
    from stored_rich [OF 1 assms(5) e 2] fv cv show ?thesis by simp
  qed
qed

lemma process_pdf_view:
  assumes "process_pdf_file X D force p (path_key base_dir p) acc m = (Inr acc', m')" and "xr_doc_language X p = None" and "xr_language X p = Some ''pdf''"
    and "index_laws X pdf_text D base_dir S B" and "p \<in> S" and "index_inv (ir_db m)" and "honest_index X pdf_text base_dir S B (ir_db m)"
  shows "index_inv (ir_db m') \<and> view_at (ir_db m') =
    (case file_view X pdf_text D base_dir p of None \<Rightarrow> view_at (ir_db m) | Some v \<Rightarrow> (view_at (ir_db m))(path_key base_dir p := v))"
proof (cases "is_file_too_large D p \<or> dv_read D p = None")
  case True
  with assms(1,6) show ?thesis by (auto simp: process_pdf_file_def file_view_def st_ok_def split: if_splits option.splits)
next
  case False
  let ?k = "path_key base_dir p" and ?d = "ir_db m"
  from False obtain bytes where b: "dv_read D p = Some bytes" by auto
  have nt: "\<not> is_text X p" using assms(3) by (simp add: is_text_def)
  have pages: "dv_pdf_pages D p = pdf_text bytes" using assms(4) b by (simp add: index_laws_def)
  have fv: "file_view X pdf_text D base_dir p = content_view X pdf_text base_dir p bytes" using False b nt by (simp add: file_view_def)
  have e: "edges_at ?d ?k = []" using no_edges_of_rich [OF assms(7) _ assms(5) nt] assms(4) by (simp add: index_laws_def)
  show ?thesis
  proof (cases "\<not> force \<and> (\<exists>l' rows. record_at ?d ?k = Some (l', xr_hash X bytes, rows))")
    case True
    then obtain l' rows where r: "record_at ?d ?k = Some (l', xr_hash X bytes, rows)" by auto
    have "m' = m" using assms(1) False b True
      by (auto simp: process_pdf_file_def st_bind_Inr hash_current_Inr st_ok_def)
    moreover have "content_view X pdf_text base_dir p bytes = Some (view_at ?d ?k)"
      by (rule honest_current [OF assms(7,4,5) b r]) (simp add: nt)
    ultimately show ?thesis using fv assms(6) by (simp add: fun_upd_idem)
  next
    case skip: False
    show ?thesis
    proof (cases "pdf_text bytes")
      case None
      with assms(1) False b skip pages have "m' = m"
        by (auto simp: process_pdf_file_def st_bind_Inr hash_current_Inr st_ok_def split: if_splits)
      with None assms(2,3,6) fv show ?thesis by (simp add: content_view_def Let_def)
    next
      case (Some ps)
      with assms(1) False b skip pages obtain i m1 acc1 where 1: "renew_file D p ?k ''pdf'' (xr_hash X bytes) m = (Inr i, m1)"
        and 2: "store_chunks X i (pages_to_chunks ps ?k) acc m1 = (Inr acc1, m')"
        by (auto simp: process_pdf_file_def st_bind_Inr hash_current_Inr st_ok_def split: if_splits)
      from stored_rich [OF 1 assms(6) e 2] fv Some assms(2,3) show ?thesis by (simp add: content_view_def Let_def)
    qed
  qed
qed

lemma process_file_view:
  assumes "process_file X D force base_dir p acc m = (Inr acc', m')"
    and "index_laws X pdf_text D base_dir S B" and "p \<in> S" and "index_inv (ir_db m)" and "honest_index X pdf_text base_dir S B (ir_db m)"
  shows "index_inv (ir_db m') \<and> view_at (ir_db m') =
    (case file_view X pdf_text D base_dir p of None \<Rightarrow> view_at (ir_db m) | Some v \<Rightarrow> (view_at (ir_db m))(path_key base_dir p := v))"
proof (cases "xr_doc_language X p")
  case (Some l)
  with assms(1) show ?thesis by (auto simp: process_file_def Let_def intro!: process_doc_view [OF _ Some assms(2-5)])
next
  case None
  show ?thesis
  proof (cases "xr_language X p = Some ''pdf''")
    case True
    with assms(1) None show ?thesis by (auto simp: process_file_def Let_def intro!: process_pdf_view [OF _ None True assms(2-5)])
  next
    case False
    with assms(1) None obtain l where l: "text_language_of X p = Some l"
      and r: "process_text_file X D force p (path_key base_dir p) l acc m = (Inr acc', m')"
      by (auto simp: process_file_def Let_def st_err_def split: option.splits)
    from process_text_view [OF r l _ assms(2-5)] None False show ?thesis by (simp add: is_text_def)
  qed
qed

section \<open>All files\<close>

lemma process_file_honest:
  assumes "index_inv (ir_db m') \<and> view_at (ir_db m') =
      (case file_view X pdf_text D base_dir p of None \<Rightarrow> view_at (ir_db m) | Some v \<Rightarrow> (view_at (ir_db m))(path_key base_dir p := v))"
    and "index_laws X pdf_text D base_dir S B" and "p \<in> S" and "honest_index X pdf_text base_dir S B (ir_db m)"
  shows "honest_index X pdf_text base_dir S B (ir_db m')"
proof (cases "file_view X pdf_text D base_dir p")
  case None
  with assms(1,4) show ?thesis by (simp add: honest_index_def)
next
  case (Some v)
  from file_view_Some [OF Some] obtain bytes where b: "dv_read D p = Some bytes" "content_view X pdf_text base_dir p bytes = Some v" by blast
  have "honest_at X pdf_text base_dir S B (path_key base_dir p) v"
    using content_view_honest [OF b(2) assms(3)] b(1) assms(2) by (simp add: index_laws_def)
  with Some assms(1,4) show ?thesis by (simp add: honest_index_def)
qed

text \<open>What the files that were processed say of a path, or else what the index said.\<close>

definition told_by :: "indexer \<Rightarrow> (string \<Rightarrow> (nat \<times> string) list option) \<Rightarrow> source_tree \<Rightarrow> string \<Rightarrow> string list \<Rightarrow> (string \<Rightarrow> path_view) \<Rightarrow> string \<Rightarrow> path_view" where
  "told_by X pdf_text D base_dir ps before k =
     (case find (\<lambda>p. path_key base_dir p = k) ps of
        None \<Rightarrow> before k
      | Some p \<Rightarrow> (case file_view X pdf_text D base_dir p of None \<Rightarrow> before k | Some v \<Rightarrow> v))"

lemma told_by_Cons:
  assumes "inj_on (path_key base_dir) S" and "set (p # ps) \<subseteq> S"
  shows "told_by X pdf_text D base_dir ps (case file_view X pdf_text D base_dir p of None \<Rightarrow> before | Some v \<Rightarrow> before(path_key base_dir p := v)) k =
    told_by X pdf_text D base_dir (p # ps) before k"
proof (cases "path_key base_dir p = k")
  case True
  have "q = p" if "find (\<lambda>p. path_key base_dir p = k) ps = Some q" for q
    using find_SomeE [OF that] True assms by (auto dest: inj_onD)
  with True show ?thesis by (auto simp: told_by_def split: option.split)
qed (auto simp: told_by_def split: option.split)

lemma process_files_view:
  assumes "process_files X D force base_dir ps acc m = (Inr acc', m')"
    and "index_laws X pdf_text D base_dir S B" and "set ps \<subseteq> S" and "index_inv (ir_db m)" and "honest_index X pdf_text base_dir S B (ir_db m)"
  shows "index_inv (ir_db m') \<and> honest_index X pdf_text base_dir S B (ir_db m') \<and>
    view_at (ir_db m') = told_by X pdf_text D base_dir ps (view_at (ir_db m))"
  using assms
proof (induction ps arbitrary: acc m)
  case Nil
  then show ?case by (simp add: st_ok_def told_by_def fun_eq_iff)
next
  case (Cons p ps)
  from Cons.prems(1) obtain acc1 m1 where 1: "process_file X D force base_dir p acc m = (Inr acc1, m1)"
    and 2: "process_files X D force base_dir ps acc1 m1 = (Inr acc', m')" by (auto simp: st_bind_Inr)
  have p: "p \<in> S" "set ps \<subseteq> S" using Cons.prems(3) by auto
  note v = process_file_view [OF 1 Cons.prems(2) p(1) Cons.prems(4,5)]
  note h = process_file_honest [OF v Cons.prems(2) p(1) Cons.prems(5)]
  from Cons.IH [OF 2 Cons.prems(2) p(2) conjunct1 [OF v] h]
  have "index_inv (ir_db m') \<and> honest_index X pdf_text base_dir S B (ir_db m') \<and> view_at (ir_db m') = told_by X pdf_text D base_dir ps (view_at (ir_db m1))" .
  moreover have "told_by X pdf_text D base_dir ps (view_at (ir_db m1)) k = told_by X pdf_text D base_dir (p # ps) (view_at (ir_db m)) k" for k
    using told_by_Cons [of base_dir S p ps X pdf_text D "view_at (ir_db m)" k] v Cons.prems(2,3) by (simp add: index_laws_def)
  ultimately show ?case by (simp add: fun_eq_iff)
qed

section \<open>Stale records\<close>

lemma like_all: "like_match ''%'' t"
  by (induction t) auto

lemma all_paths: "file_paths_under [] m = (Inr rows, m') \<longleftrightarrow> m' = m \<and> rows = map (\<lambda>f. (fi_id f, fi_path f)) (xd_files (ir_db m))"
  by (auto simp: file_paths_under_def ix_read_Inr escape_like_def like_all simp del: like_match.simps)

lemma delete_file_Inr:
  assumes "delete_file i k m = (Inr u, m')" and "index_inv (ir_db m)" and "id_at (ir_db m) k = Some i"
  shows "index_inv (ir_db m') \<and> view_at (ir_db m') = (view_at (ir_db m))(k := (None, [])) \<and>
    xd_files (ir_db m') = filter (\<lambda>f. fi_id f \<noteq> i) (xd_files (ir_db m))"
proof -
  let ?d = "ir_db m"
  let ?d1 = "drop_vectors_of i ?d"
  let ?d2 = "drop_chunks_of i ?d1"
  let ?d3 = "drop_edges_of k ?d2"
  from assms(1) have d: "ir_db m' = drop_file i ?d3"
    by (auto simp: delete_file_def st_bind_Inr dest!: ix_exec_Inr)
  have i1: "index_inv ?d1" by (rule drop_vectors_inv [OF assms(2)])
  have i2: "index_inv ?d2" by (rule drop_chunks_inv [OF i1])
  have i3: "index_inv ?d3" by (rule drop_edges_inv [OF i2])
  have id1: "id_at ?d1 k = Some i" using assms(3) by (simp add: id_at_def drop_vectors_of_def)
  have id3: "id_at ?d3 k = Some i" using assms(3) by (simp add: id_at_def drop_vectors_of_def drop_edges_of_def drop_chunks_of_def)
  obtain r where v2: "view_at ?d2 = (view_at ?d)(k := r)" using view_drop_chunks [OF i1 id1] by auto
  then obtain r where v3: "view_at ?d3 = (view_at ?d)(k := (r, []))" using view_drop_edges [of k ?d2] by auto
  then have "view_at (drop_file i ?d3) = (view_at ?d)(k := (None, []))"
    using view_drop_file [OF i3 id3] view_upd_same [OF v3] by simp
  moreover have "xd_files (drop_file i ?d3) = filter (\<lambda>f. fi_id f \<noteq> i) (xd_files ?d)"
    by (simp add: drop_file_def drop_chunks_of_def drop_vectors_of_def drop_edges_of_def)
  ultimately show ?thesis using d drop_file_inv [OF i3] by simp
qed

lemma id_at_member: "index_inv d \<Longrightarrow> f \<in> set (xd_files d) \<Longrightarrow> id_at d (fi_path f) = Some (fi_id f)"
proof -
  assume d: "index_inv d" and f: "f \<in> set (xd_files d)"
  then obtain g where g: "file_at d (fi_path f) = Some g" by (cases "file_at d (fi_path f)") (auto simp: file_at_None)
  have "g = f" using d f file_at_Some [OF g] by (metis distinct_map_eq index_inv_def files_ok_def)
  with g show ?thesis by (simp add: id_at_def)
qed

lemma delete_unvisited_view:
  assumes "delete_unvisited visited (map (\<lambda>f. (fi_id f, fi_path f)) fs) m = (Inr n, m')" and "index_inv (ir_db m)"
    and "set fs \<subseteq> set (xd_files (ir_db m))" and "distinct fs"
  shows "index_inv (ir_db m') \<and>
    view_at (ir_db m') = (\<lambda>k. if k \<in> fi_path ` set fs - visited then (None, []) else view_at (ir_db m) k)"
  using assms
proof (induction fs arbitrary: m n)
  case Nil
  then show ?case by (simp add: st_ok_def)
next
  case (Cons f fs)
  show ?case
  proof (cases "fi_path f \<in> visited")
    case True
    with Cons.prems have "delete_unvisited visited (map (\<lambda>f. (fi_id f, fi_path f)) fs) m = (Inr n, m')" by simp
    from Cons.IH [OF this] Cons.prems True show ?thesis by (auto simp: fun_eq_iff)
  next
    case False
    with Cons.prems(1) obtain u m1 n1 where 1: "delete_file (fi_id f) (fi_path f) m = (Inr u, m1)"
      and 2: "delete_unvisited visited (map (\<lambda>f. (fi_id f, fi_path f)) fs) m1 = (Inr n1, m')"
      by (auto simp: st_bind_Inr st_ok_def)
    have f: "f \<in> set (xd_files (ir_db m))" using Cons.prems(3) by simp
    note d = delete_file_Inr [OF 1 Cons.prems(2) id_at_member [OF Cons.prems(2) f]]
    have "fi_id g \<noteq> fi_id f" if "g \<in> set fs" for g
      using that f Cons.prems(2,3,4) by (metis distinct.simps(2) distinct_map_eq index_inv_def files_ok_def insert_iff list.simps(15) subsetD)
    with d Cons.prems(3) have "set fs \<subseteq> set (xd_files (ir_db m1))" by auto
    from Cons.IH [OF 2 conjunct1 [OF d] this] Cons.prems(4) d False show ?thesis by (auto simp: fun_eq_iff)
  qed
qed

lemma cleanup_view:
  assumes "cleanup_stale files base_dir m = (Inr n, m')" and "index_inv (ir_db m)" and "\<And>k. record_at (ir_db m) k = None \<Longrightarrow> edges_at (ir_db m) k = []"
  shows "index_inv (ir_db m') \<and>
    view_at (ir_db m') = (\<lambda>k. if k \<in> path_key base_dir ` set files then view_at (ir_db m) k else (None, []))"
proof -
  let ?fs = "xd_files (ir_db m)"
  from assms(1) have 1: "delete_unvisited (path_key base_dir ` set files) (map (\<lambda>f. (fi_id f, fi_path f)) ?fs) m = (Inr n, m')"
    by (auto simp: cleanup_stale_def st_bind_Inr all_paths)
  have "distinct ?fs" using assms(2) by (auto simp: index_inv_def files_ok_def distinct_map)
  from delete_unvisited_view [OF 1 assms(2) _ this]
  have v: "index_inv (ir_db m')" "view_at (ir_db m') = (\<lambda>k. if k \<in> fi_path ` set ?fs - path_key base_dir ` set files then (None, []) else view_at (ir_db m) k)"
    by simp_all
  have "view_at (ir_db m) k = (None, [])" if "k \<notin> fi_path ` set ?fs" for k
  proof -
    have "record_at (ir_db m) k = None" using that file_at_None [of "ir_db m" k] by (simp add: record_at_def)
    with assms(3) show ?thesis by (simp add: view_at_def)
  qed
  with v show ?thesis by (auto simp: fun_eq_iff)
qed

section \<open>The run\<close>

lemma stamp_view: "stamp_chunker_config config m = (Inr u, m') \<Longrightarrow> view_at (ir_db m') = view_at (ir_db m)"
  unfolding stamp_chunker_config_def
  by (drule ix_exec_Inr) (simp add: put_meta_def fun_eq_iff view_at_def record_at_def edges_at_def file_at_def chunks_of_def)

lemma view_none: "edges_at d k = [] \<Longrightarrow> record_at d k = None \<Longrightarrow> view_at d k = (None, [])"
  by (simp add: view_at_def)

lemma honest_None: "honest_index X pdf_text base_dir S B d \<Longrightarrow> record_at d k = None \<Longrightarrow> edges_at d k = []"
  by (auto simp: honest_index_def honest_at_def view_at_def dest!: spec [where x = k])


end
