(* ===== verification/IndexQueue.thy ===== *)
theory IndexQueue
  imports IndexSpec
begin

text \<open>
  What a run hands to the embedder, and what it never stores: the queue is exactly the chunks without
  a vector, with the text of each; no chunk that is added matches the scan for secrets, however the run ends.
\<close>

text \<open>The metadata column gives back the docstring, and no parser writes a summary.\<close>

definition text_laws :: "indexer \<Rightarrow> bool" where
  "text_laws X \<longleftrightarrow> (\<forall>doc scope. xr_docstring X (xr_metadata X doc scope) = doc) \<and>
     (\<forall>s k l cs c. xr_parse X s k l = Some cs \<longrightarrow> c \<in> set cs \<longrightarrow> ch_summary c = None) \<and>
     (\<forall>s k l c. c \<in> set (xr_parse_doc X s k l) \<longrightarrow> ch_summary c = None)"

text \<open>The text that is rebuilt from a row is the text of the chunk.\<close>

lemma reconstructed:
  "text_laws X \<Longrightarrow> reconstruct_embedding_text X (ch_name c) (Some (stored_metadata X c)) (ch_summary c) (ch_content c) = embedding_text c"
  by (simp add: text_laws_def reconstruct_embedding_text_def stored_metadata_def embedding_text_def)

lemma effective_of_estimate: "effective_token_count (estimate_tokens s) s = max (estimate_tokens s) 1"
  by (simp add: effective_token_count_def estimate_tokens_def)

section \<open>Secrets\<close>

definition clean_row :: "indexer \<Rightarrow> index_chunk \<Rightarrow> bool" where
  "clean_row X c \<longleftrightarrow> \<not> xr_secret X (reconstruct_embedding_text X (ck_name c) (ck_metadata c) None (ck_content c))"

definition adds_clean :: "indexer \<Rightarrow> index_run \<Rightarrow> index_run \<Rightarrow> bool" where
  "adds_clean X m m' \<longleftrightarrow> (\<forall>c \<in> set (xd_chunks (ir_db m')). c \<in> set (xd_chunks (ir_db m)) \<or> clean_row X c)"

interpretation clean_steps: step_order "adds_clean X"
  by unfold_locales (auto simp: adds_clean_def)

lemma ix_exec_clean: "(\<And>d. set (xd_chunks (f d)) \<subseteq> set (xd_chunks d)) \<Longrightarrow> within (adds_clean X) (ix_exec f)"
  unfolding within_def
proof
  fix m :: index_run
  assume f: "\<And>d. set (xd_chunks (f d)) \<subseteq> set (xd_chunks d)"
  then have "set (xd_chunks (f (ir_db m))) \<subseteq> set (xd_chunks (ir_db m))" by blast
  then show "adds_clean X m (snd (ix_exec f m))"
    using ix_write_cases [of "\<lambda>d. Inr ((), f d)" m] by (auto simp: ix_exec_def adds_clean_def dest: subsetD)
qed

lemma ix_read_clean: "within (adds_clean X) (ix_read f)"
  by (simp add: ix_read_def clean_steps.reads)

lemma put_file_clean: "set (xd_chunks (put_file k l h t d)) \<subseteq> set (xd_chunks d)"
  by simp

lemma drops_clean:
  "set (xd_chunks (drop_vectors_of i d)) \<subseteq> set (xd_chunks d)" "set (xd_chunks (drop_chunks_of i d)) \<subseteq> set (xd_chunks d)"
  "set (xd_chunks (drop_edges_of k d)) \<subseteq> set (xd_chunks d)" "set (xd_chunks (drop_file i d)) \<subseteq> set (xd_chunks d)"
  "set (xd_chunks (add_edge_row e d)) \<subseteq> set (xd_chunks d)" "set (xd_chunks (put_meta a b d)) \<subseteq> set (xd_chunks d)"
  by (auto simp: drop_vectors_of_def drop_chunks_of_def drop_edges_of_def drop_file_def add_edge_row_def put_meta_def)

lemma insert_chunk_clean:
  assumes "\<not> xr_secret X (embedding_text c)" and "text_laws X" and "ch_summary c = None"
  shows "within (adds_clean X) (insert_chunk i (kind_text (ch_kind c)) (ch_name c) (ch_start_line c) (ch_end_line c) (ch_content c)
    (Some (stored_metadata X c)) tc)"
proof -
  have "reconstruct_embedding_text X (ch_name c) (Some (stored_metadata X c)) None (ch_content c) = embedding_text c"
    using reconstructed [OF assms(2), of c] assms(3) by simp
  with assms(1) show ?thesis
    by (auto simp: within_def adds_clean_def insert_chunk_def ix_write_def clean_row_def split: option.split nat.split)
qed

lemma store_chunks_clean:
  assumes "text_laws X" and "\<forall>c \<in> set cs. ch_summary c = None"
  shows "within (adds_clean X) (store_chunks X i cs acc)"
  using assms(2)
  by (induction cs arbitrary: acc) (auto simp: Let_def intro!: clean_steps.reads clean_steps.binds insert_chunk_clean [OF _ assms(1)])

lemma renew_file_clean: "within (adds_clean X) (renew_file D p k l h)"
  unfolding renew_file_def upsert_file_def delete_embeddings_for_file_def delete_chunks_for_file_def
  by (intro clean_steps.binds clean_steps.reads ix_exec_clean ix_read_clean put_file_clean drops_clean)

lemma edges_clean: "within (adds_clean X) (warned (replace_edges k es))" "within (adds_clean X) (warned (append_mention_edges k ms))"
  unfolding replace_edges_def append_mention_edges_def
  by (intro warned_within clean_steps.binds clean_steps.eaches ix_exec_clean drops_clean)+

lemma process_file_clean:
  assumes "text_laws X"
  shows "within (adds_clean X) (process_file X D force base_dir p acc)"
proof -
  have h: "within (adds_clean X) (hash_current k h)" for k h
    unfolding hash_current_def file_hash_def by (intro clean_steps.binds clean_steps.reads ix_read_clean)
  have pages: "\<forall>c \<in> set (pages_to_chunks ps k). ch_summary c = None" for ps k by (auto simp: pages_to_chunks_def)
  have doc: "\<forall>c \<in> set (xr_parse_doc X s k l). ch_summary c = None" for s k l using assms by (auto simp: text_laws_def)
  have parsed: "xr_parse X s k l = Some cs \<Longrightarrow> \<forall>c \<in> set cs. ch_summary c = None" for s k l cs using assms by (auto simp: text_laws_def)
  show ?thesis
    unfolding process_file_def process_doc_file_def process_pdf_file_def process_text_file_def file_has_chunks_def Let_def
    by (auto split: option.split intro!: clean_steps.reads clean_steps.binds h ix_read_clean renew_file_clean edges_clean
        store_chunks_clean [OF assms] pages doc parsed)
qed

lemma process_files_clean: "text_laws X \<Longrightarrow> within (adds_clean X) (process_files X D force base_dir ps acc)"
  by (induction ps arbitrary: acc) (auto intro!: clean_steps.reads clean_steps.binds process_file_clean)

lemma delete_file_clean: "within (adds_clean X) (delete_file i k)"
  unfolding delete_file_def by (intro clean_steps.binds ix_exec_clean drops_clean)

lemma delete_unvisited_clean: "within (adds_clean X) (delete_unvisited visited rows)"
  by (induction visited rows rule: delete_unvisited.induct) (auto intro!: clean_steps.reads clean_steps.binds delete_file_clean)

lemma stamp_clean: "within (adds_clean X) (stamp_chunker_config config)"
  unfolding stamp_chunker_config_def by (intro ix_exec_clean drops_clean)

lemma run_clean: "text_laws X \<Longrightarrow> within (adds_clean X) (run_parse_phase X D force config base_dir files filtered)"
  unfolding run_parse_phase_def cleanup_stale_def file_paths_under_def chunks_missing_embeddings_def Let_def
  by (auto intro!: clean_steps.reads clean_steps.binds process_files_clean delete_unvisited_clean ix_read_clean stamp_clean)

text \<open>C33: No chunk that matches the scan for secrets is ever stored: whatever a run of the parse phase adds to the index, also when
  it is killed or fails, does not match, in the text it will be embedded as.\<close>
theorem no_secret_chunk_stored:
  assumes "text_laws X" and "run_parse_phase X D force config base_dir files filtered m = (r, m')"
    and "c \<in> set (xd_chunks (ir_db m'))" and "c \<notin> set (xd_chunks (ir_db m))"
  shows "\<not> xr_secret X (reconstruct_embedding_text X (ck_name c) (ck_metadata c) None (ck_content c))"
  using withinD [OF run_clean [OF assms(1)] assms(2)] assms(3,4) by (auto simp: adds_clean_def clean_row_def)

section \<open>The queue\<close>

text \<open>An entry of the queue is the chunk of a file that was processed, and has no vector.\<close>

definition queued :: "indexer \<Rightarrow> string set \<Rightarrow> index_db \<Rightarrow> int \<times> string \<times> nat \<Rightarrow> bool" where
  "queued X ks d e \<longleftrightarrow>
     (\<exists>c \<in> set (xd_chunks d). queue_entry X c = e \<and> ck_id c \<notin> fst ` set (xd_vectors d) \<and> (\<exists>k \<in> ks. id_at d k = Some (ck_file_id c)))"

definition queue_ok :: "indexer \<Rightarrow> string set \<Rightarrow> index_db \<Rightarrow> parse_acc \<Rightarrow> bool" where
  "queue_ok X ks d acc \<longleftrightarrow> distinct (map fst (pa_queue acc)) \<and> (\<forall>e \<in> set (pa_queue acc). queued X ks d e)"

lemma queued_mono: "queued X ks d e \<Longrightarrow> ks \<subseteq> ks' \<Longrightarrow> queued X ks' d e"
  by (auto simp: queued_def)

text \<open>Statements about another path keep the entries.\<close>

lemma queued_step:
  assumes "queued X ks d e"
    and "\<And>c k. c \<in> set (xd_chunks d) \<Longrightarrow> k \<in> ks \<Longrightarrow> id_at d k = Some (ck_file_id c) \<Longrightarrow> c \<in> set (xd_chunks d')"
    and "fst ` set (xd_vectors d') \<subseteq> fst ` set (xd_vectors d)"
    and "\<And>k i. k \<in> ks \<Longrightarrow> id_at d k = Some i \<Longrightarrow> id_at d' k = Some i"
  shows "queued X ks d' e"
proof -
  from assms(1) obtain c k where "c \<in> set (xd_chunks d)" "queue_entry X c = e" "ck_id c \<notin> fst ` set (xd_vectors d)" "k \<in> ks" "id_at d k = Some (ck_file_id c)"
    by (auto simp: queued_def)
  with assms(2-4) show ?thesis unfolding queued_def by blast
qed

lemma vectors_put_file: "xd_vectors (put_file k l h t d) = xd_vectors d"
  by (simp add: put_file_def split: option.split)

lemma queued_put_file: "queued X ks d e \<Longrightarrow> queued X ks (put_file k l h t d) e"
  by (erule queued_step) (auto simp: id_at_def file_at_put vectors_put_file)

lemma queued_drop_vectors: "queued X ks d e \<Longrightarrow> queued X ks (drop_vectors_of i d) e"
  by (erule queued_step) (auto simp: id_at_def drop_vectors_of_def)

lemma queued_drop_chunks:
  assumes "queued X ks d e" and "index_inv d" and "id_at d k = Some i" and "k \<notin> ks"
  shows "queued X ks (drop_chunks_of i d) e"
proof (rule queued_step [OF assms(1)])
  fix c j
  assume c: "c \<in> set (xd_chunks d)" "j \<in> ks" "id_at d j = Some (ck_file_id c)"
  have "ck_file_id c \<noteq> i" using id_at_inj [OF assms(2,3), of j] c assms(4) by auto
  with c show "c \<in> set (xd_chunks (drop_chunks_of i d))" by (simp add: drop_chunks_of_def)
qed (auto simp: id_at_def drop_chunks_of_def)

lemma queued_same: "xd_files d' = xd_files d \<Longrightarrow> xd_chunks d' = xd_chunks d \<Longrightarrow> xd_vectors d' = xd_vectors d \<Longrightarrow> queued X ks d' e = queued X ks d e"
  by (simp add: queued_def id_at_def file_at_def)

lemma renew_file_queued:
  assumes "renew_file D p k l h m = (Inr i, m')" and "index_inv (ir_db m)" and "k \<notin> ks" and "queued X ks (ir_db m) e"
  shows "queued X ks (ir_db m') e"
proof -
  from assms(1) obtain m1 u m2 v where
    1: "upsert_file k (Some l) h (stat_mtime D p) m = (Inr i, m1)"
    and 2: "ix_exec (drop_vectors_of i) m1 = (Inr u, m2)" and 3: "ix_exec (drop_chunks_of i) m2 = (Inr v, m')"
    by (auto simp: renew_file_def delete_embeddings_for_file_def delete_chunks_for_file_def st_bind_Inr st_ok_def)
  let ?d1 = "put_file k (Some l) h (stat_mtime D p) (ir_db m)"
  have d: "ir_db m1 = ?d1" "ir_db m' = drop_chunks_of i (drop_vectors_of i ?d1)"
    using upsert_file_Inr [OF 1] ix_exec_Inr [OF 2] ix_exec_Inr [OF 3] by simp_all
  have id: "id_at (drop_vectors_of i ?d1) k = Some i"
    using upsert_file_Inr [OF 1] d(1) by (simp add: id_at_def drop_vectors_of_def)
  show ?thesis
    unfolding d(2)
    by (rule queued_drop_chunks [OF queued_drop_vectors [OF queued_put_file [OF assms(4)]] drop_vectors_inv [OF put_file_inv [OF assms(2)]] id assms(3)])
qed

definition same_chunks :: "index_run \<Rightarrow> index_run \<Rightarrow> bool" where
  "same_chunks m m' \<longleftrightarrow> xd_files (ir_db m') = xd_files (ir_db m) \<and> xd_chunks (ir_db m') = xd_chunks (ir_db m) \<and> xd_vectors (ir_db m') = xd_vectors (ir_db m)"

interpretation same_steps: step_order same_chunks
  by unfold_locales (auto simp: same_chunks_def)

lemma edges_same: "within same_chunks (warned (replace_edges k es))" "within same_chunks (warned (append_mention_edges k ms))"
proof -
  have e: "within same_chunks (ix_exec f)"
    if "\<And>d. xd_files (f d) = xd_files d \<and> xd_chunks (f d) = xd_chunks d \<and> xd_vectors (f d) = xd_vectors d" for f
    unfolding within_def
  proof
    fix m show "same_chunks m (snd (ix_exec f m))"
      using ix_write_cases [of "\<lambda>d. Inr ((), f d)" m] that by (auto simp: ix_exec_def same_chunks_def)
  qed
  show "within same_chunks (warned (replace_edges k es))" "within same_chunks (warned (append_mention_edges k ms))"
    unfolding replace_edges_def append_mention_edges_def
    by (intro warned_within same_steps.binds same_steps.eaches e; simp add: drop_edges_of_def add_edge_row_def)+
qed

text \<open>Storing chunks appends their entries.\<close>

lemma store_chunks_queued:
  assumes "store_chunks X i cs acc m = (Inr acc', m')" and "owned_inv (ir_db m)" and "id_at (ir_db m) k = Some i"
    and "queue_ok X (insert k ks) (ir_db m) acc" and "text_laws X" and "\<forall>c \<in> set cs. ch_summary c = None"
  shows "queue_ok X (insert k ks) (ir_db m') acc' \<and> owned_inv (ir_db m')"
  using assms(1-4,6)
proof (induction cs arbitrary: acc m)
  case Nil
  then show ?case by (simp add: st_ok_def)
next
  case (Cons c cs)
  show ?case
  proof (cases "xr_secret X (embedding_text c)")
    case True
    with Cons show ?thesis by simp
  next
    case False
    let ?tc = "estimate_tokens (ch_content c)" and ?d = "ir_db m"
    from False Cons.prems(1) obtain j m1 where
      1: "insert_chunk i (kind_text (ch_kind c)) (ch_name c) (ch_start_line c) (ch_end_line c) (ch_content c)
            (Some (stored_metadata X c)) ?tc m = (Inr j, m1)"
      and 2: "store_chunks X i cs (acc\<lparr> pa_queue := pa_queue acc @ [(j, embedding_text c, max ?tc 1)] \<rparr>) m1 = (Inr acc', m')"
      by (auto simp: Let_def st_bind_Inr)
    from insert_chunk_Inr [OF 1] obtain r where
      d: "ir_db m1 = ?d\<lparr> xd_chunks := xd_chunks ?d @ [r], xd_chunk_seq := xd_chunk_seq ?d + 1 \<rparr>"
      and r: "ck_file_id r = i" "j = ck_id r" "j = xd_chunk_seq ?d + 1" "ck_summary r = None"
        "view_of_row r = (kind_text (ch_kind c), ch_name c, ch_start_line c, ch_end_line c, ch_content c, Some (stored_metadata X c), ?tc)"
      by blast
    have own: "owned_inv (ir_db m1)" using withinD [OF insert_chunk_owned 1] Cons.prems(2) by (simp add: keeping_def)
    have id1: "id_at (ir_db m1) k = Some i" using Cons.prems(3) by (simp add: id_at_def d)
    have "queue_entry X r = (j, embedding_text c, max ?tc 1)"
      using r(2,4,5) reconstructed [OF assms(5), of c] Cons.prems(5)
      by (simp add: queue_entry_def view_of_row_def effective_of_estimate)
    moreover have fresh: "\<forall>c' \<in> set (xd_chunks ?d). ck_id c' < j"
      using Cons.prems(2) r(3) by (fastforce simp: owned_inv_def index_inv_def chunks_ok_def)
    have "j \<notin> fst ` set (xd_vectors ?d)"
    proof
      assume "j \<in> fst ` set (xd_vectors ?d)"
      with Cons.prems(2) obtain c' where "c' \<in> set (xd_chunks ?d)" "ck_id c' = j" by (auto simp: owned_inv_def vectors_owned_def)
      with fresh show False by auto
    qed
    ultimately have new: "queued X (insert k ks) (ir_db m1) (j, embedding_text c, max ?tc 1)"
      using r(1,2) id1 by (auto simp: queued_def d)
    have old: "queued X (insert k ks) (ir_db m1) e" if "queued X (insert k ks) ?d e" for e
      by (rule queued_step [OF that]) (auto simp: d id_at_def)
    have "j \<notin> fst ` set (pa_queue acc)"
    proof
      assume "j \<in> fst ` set (pa_queue acc)"
      then obtain e where "e \<in> set (pa_queue acc)" "fst e = j" by auto
      with Cons.prems(4) obtain c' where "c' \<in> set (xd_chunks ?d)" "ck_id c' = j" by (auto simp: queue_ok_def queued_def queue_entry_def)
      with fresh show False by auto
    qed
    with new old Cons.prems(4) have "queue_ok X (insert k ks) (ir_db m1) (acc\<lparr> pa_queue := pa_queue acc @ [(j, embedding_text c, max ?tc 1)] \<rparr>)"
      by (auto simp: queue_ok_def)
    from Cons.IH [OF 2 own id1 this] Cons.prems(5) show ?thesis by simp
  qed
qed

lemma queue_ok_insert: "queue_ok X ks d acc \<Longrightarrow> queue_ok X (insert k ks) d acc"
  by (auto simp: queue_ok_def intro: queued_mono)

lemma queue_ok_counts [simp]: "queue_ok X ks d (count_indexed acc) = queue_ok X ks d acc" "queue_ok X ks d (count_skipped acc) = queue_ok X ks d acc"
  by (simp_all add: queue_ok_def count_indexed_def count_skipped_def)

text \<open>Renewing a file, writing its edges and storing its chunks.\<close>

lemma stored_queued:
  assumes "renew_file D p k l h m = (Inr i, m1)" and "same_chunks m1 m2" and "owned_inv (ir_db m2)"
    and "store_chunks X i cs acc m2 = (Inr acc', m')" and "owned_inv (ir_db m)" and "k \<notin> ks"
    and "queue_ok X ks (ir_db m) acc" and "text_laws X" and "\<forall>c \<in> set cs. ch_summary c = None"
  shows "queue_ok X (insert k ks) (ir_db m') (count_indexed acc')"
proof -
  have inv: "index_inv (ir_db m)" using assms(5) by (simp add: owned_inv_def)
  have "queue_ok X ks (ir_db m1) acc"
    using assms(7) renew_file_queued [OF assms(1) inv assms(6)] by (auto simp: queue_ok_def)
  then have "queue_ok X ks (ir_db m2) acc"
    using assms(2) queued_same [of "ir_db m2" "ir_db m1"] by (simp add: queue_ok_def same_chunks_def)
  then have q: "queue_ok X (insert k ks) (ir_db m2) acc" by (rule queue_ok_insert)
  have "id_at (ir_db m2) k = Some i"
    using renew_file_Inr [OF assms(1) inv] assms(2) by (simp add: id_at_def file_at_def same_chunks_def)
  from store_chunks_queued [OF assms(4,3) this q assms(8,9)] show ?thesis by simp
qed

lemma renewed_owned: "renew_file D p k l h m = (Inr i, m1) \<Longrightarrow> owned_inv (ir_db m) \<Longrightarrow> owned_inv (ir_db m1)"
  using withinD [OF renew_file_owned] by (auto simp: keeping_def)

lemma rich_queued:
  assumes "st_bind (renew_file D p k l h) (\<lambda>i. st_bind (store_chunks X i cs acc) (\<lambda>acc. st_ok (count_indexed acc))) m = (Inr acc', m')"
    and "owned_inv (ir_db m)" and "k \<notin> ks" and "queue_ok X ks (ir_db m) acc" and "text_laws X" and "\<forall>c \<in> set cs. ch_summary c = None"
  shows "queue_ok X (insert k ks) (ir_db m') acc'"
proof -
  from assms(1) obtain i m1 a where 1: "renew_file D p k l h m = (Inr i, m1)" and 2: "store_chunks X i cs acc m1 = (Inr a, m')"
    and a: "acc' = count_indexed a"
    by (auto simp: st_bind_Inr st_ok_def)
  from stored_queued [OF 1 same_steps.stays renewed_owned [OF 1 assms(2)] 2 assms(2-6)] a show ?thesis by simp
qed

lemma process_doc_queued:
  assumes "process_doc_file X D force p k l acc m = (Inr acc', m')"
    and "owned_inv (ir_db m)" and "k \<notin> ks" and "queue_ok X ks (ir_db m) acc" and "text_laws X"
  shows "queue_ok X (insert k ks) (ir_db m') acc'"
proof -
  consider "m' = m" "acc' = acc \<or> acc' = count_skipped acc"
    | bytes where "st_bind (renew_file D p k l (xr_hash X bytes))
        (\<lambda>i. st_bind (store_chunks X i (xr_parse_doc X bytes k l) acc) (\<lambda>acc. st_ok (count_indexed acc))) m = (Inr acc', m')"
    using assms(1) by (auto simp: process_doc_file_def st_bind_Inr [of "hash_current _ _"] hash_current_Inr st_ok_def split: if_splits option.splits)
  then show ?thesis
  proof cases
    case 1
    with assms(4) show ?thesis by (auto intro: queue_ok_insert)
  next
    case 2
    from rich_queued [OF 2 assms(2-5)] assms(5) show ?thesis by (simp add: text_laws_def)
  qed
qed

lemma process_pdf_queued:
  assumes "process_pdf_file X D force p k acc m = (Inr acc', m')"
    and "owned_inv (ir_db m)" and "k \<notin> ks" and "queue_ok X ks (ir_db m) acc" and "text_laws X"
  shows "queue_ok X (insert k ks) (ir_db m') acc'"
proof -
  consider "m' = m" "acc' = acc \<or> acc' = count_skipped acc"
    | bytes pages where "st_bind (renew_file D p k ''pdf'' (xr_hash X bytes))
        (\<lambda>i. st_bind (store_chunks X i (pages_to_chunks pages k) acc) (\<lambda>acc. st_ok (count_indexed acc))) m = (Inr acc', m')"
    using assms(1) by (auto simp: process_pdf_file_def st_bind_Inr [of "hash_current _ _"] hash_current_Inr st_ok_def split: if_splits option.splits)
  then show ?thesis
  proof cases
    case 1
    with assms(4) show ?thesis by (auto intro: queue_ok_insert)
  next
    case 2
    have "\<forall>c \<in> set (pages_to_chunks pages k). ch_summary c = None" by (auto simp: pages_to_chunks_def)
    from rich_queued [OF 2 assms(2-5) this] show ?thesis .
  qed
qed

lemma edges_step:
  assumes "(case es of Some edges \<Rightarrow> warned (replace_edges k edges) | None \<Rightarrow> st_ok ()) m = (Inr u, m')" and "owned_inv (ir_db m)"
  shows "same_chunks m m' \<and> owned_inv (ir_db m')"
proof (cases es)
  case None
  with assms show ?thesis by (simp add: st_ok_def same_steps.stays)
next
  case (Some edges)
  with assms(1) have "warned (replace_edges k edges) m = (Inr u, m')" by simp
  with withinD [OF edges_same(1)] withinD [OF warned_within [OF replace_edges_owned]] assms(2) show ?thesis
    by (auto simp: keeping_def)
qed

lemma mentions_step:
  assumes "warned (append_mention_edges k ms) m = (Inr u, m')" and "owned_inv (ir_db m)"
  shows "same_chunks m m' \<and> owned_inv (ir_db m')"
  using assms withinD [OF edges_same(2)] withinD [OF warned_within [OF append_mention_owned]] by (auto simp: keeping_def)

lemma text_queued:
  assumes "st_bind (renew_file D p k l h) (\<lambda>i. st_bind (case es of Some edges \<Rightarrow> warned (replace_edges k edges) | None \<Rightarrow> st_ok ())
      (\<lambda>_. st_bind (warned (append_mention_edges k ms)) (\<lambda>_. st_bind (store_chunks X i cs acc) (\<lambda>acc. st_ok (count_indexed acc))))) m = (Inr acc', m')"
    and "owned_inv (ir_db m)" and "k \<notin> ks" and "queue_ok X ks (ir_db m) acc" and "text_laws X" and "\<forall>c \<in> set cs. ch_summary c = None"
  shows "queue_ok X (insert k ks) (ir_db m') acc'"
proof -
  from assms(1) obtain i m1 u m2 v m3 a where 1: "renew_file D p k l h m = (Inr i, m1)"
    and 2: "(case es of Some edges \<Rightarrow> warned (replace_edges k edges) | None \<Rightarrow> st_ok ()) m1 = (Inr u, m2)"
    and 3: "warned (append_mention_edges k ms) m2 = (Inr v, m3)"
    and 4: "store_chunks X i cs acc m3 = (Inr a, m')" and a: "acc' = count_indexed a"
    by (auto simp: st_bind_Inr st_ok_def)
  note e = edges_step [OF 2 renewed_owned [OF 1 assms(2)]]
  note n = mentions_step [OF 3 conjunct2 [OF e]]
  have "same_chunks m1 m3" using e n same_steps.joins by blast
  from stored_queued [OF 1 this _ 4 assms(2-6)] n a show ?thesis by simp
qed

lemma process_text_queued:
  assumes "process_text_file X D force p k l acc m = (Inr acc', m')"
    and "owned_inv (ir_db m)" and "k \<notin> ks" and "queue_ok X ks (ir_db m) acc" and "text_laws X"
  shows "queue_ok X (insert k ks) (ir_db m') acc'"
proof -
  have inv: "index_inv (ir_db m)" using assms(2) by (simp add: owned_inv_def)
  have ok: "st_ok x m = (Inr acc', m') \<longleftrightarrow> m' = m \<and> acc' = x" for x by (auto simp: st_ok_def)
  have skips: "(if b then file_has_chunks k else st_ok False) m = (Inr x, m1) \<Longrightarrow> m1 = m" for b x m1
    using has_chunks_Inr [OF inv] by (auto simp: st_ok_def split: if_splits)
  consider "m' = m" "acc' = acc \<or> acc' = count_skipped acc"
    | bytes cs where "xr_parse X bytes k l = Some cs"
      "st_bind (renew_file D p k l (xr_hash X bytes)) (\<lambda>i. st_bind (case xr_edges X bytes k l of Some edges \<Rightarrow> warned (replace_edges k edges) | None \<Rightarrow> st_ok ())
        (\<lambda>_. st_bind (warned (append_mention_edges k (mention_pairs X l cs))) (\<lambda>_. st_bind (store_chunks X i cs acc) (\<lambda>acc. st_ok (count_indexed acc))))) m = (Inr acc', m')"
  proof (cases "(l = ''text'' \<or> l = ''markdown'') \<and> dv_binary D p \<or> is_file_too_large D p \<or> (\<forall>bytes. dv_read D p = Some bytes \<longrightarrow> \<not> utf8_valid bytes)")
    case True
    with assms(1) that(1) show ?thesis by (auto simp: process_text_file_def ok split: if_splits option.splits)
  next
    case False
    then obtain bytes where b: "dv_read D p = Some bytes" "utf8_valid bytes" by auto
    from assms(1) False b obtain current skip m1 where
      1: "(if \<not> force \<and> current then file_has_chunks k else st_ok False) m = (Inr skip, m1)"
      and 2: "(if skip then st_ok (count_skipped acc) else case xr_parse X bytes k l of None \<Rightarrow> st_ok acc
          | Some cs \<Rightarrow> st_bind (renew_file D p k l (xr_hash X bytes)) (\<lambda>i. st_bind (case xr_edges X bytes k l of Some edges \<Rightarrow> warned (replace_edges k edges) | None \<Rightarrow> st_ok ())
        (\<lambda>_. st_bind (warned (append_mention_edges k (mention_pairs X l cs))) (\<lambda>_. st_bind (store_chunks X i cs acc) (\<lambda>acc. st_ok (count_indexed acc)))))) m1 = (Inr acc', m')"
      by (auto simp: process_text_file_def st_bind_Inr [of "hash_current _ _"] st_bind_Inr [of "If _ _ _"] hash_current_Inr simp del: not_None_eq)
    from skips [OF 1] have "m1 = m" .
    with 2 that show ?thesis by (auto simp: ok split: if_splits option.splits)
  qed
  then show ?thesis
  proof cases
    case 1
    with assms(4) show ?thesis by (auto intro: queue_ok_insert)
  next
    case 2
    from text_queued [OF 2(2) assms(2-5)] 2(1) assms(5) show ?thesis by (auto simp: text_laws_def)
  qed
qed

lemma process_file_queued:
  assumes "process_file X D force base_dir p acc m = (Inr acc', m')" and "owned_inv (ir_db m)"
    and "path_key base_dir p \<notin> ks" and "queue_ok X ks (ir_db m) acc" and "text_laws X"
  shows "queue_ok X (insert (path_key base_dir p) ks) (ir_db m') acc'"
  using assms(1)
  by (auto simp: process_file_def Let_def st_err_def split: option.splits if_splits
      intro: process_doc_queued [OF _ assms(2-5)] process_pdf_queued [OF _ assms(2-5)] process_text_queued [OF _ assms(2-5)])

lemma process_files_queued:
  assumes "process_files X D force base_dir ps acc m = (Inr acc', m')" and "owned_inv (ir_db m)" and "distinct (map (path_key base_dir) ps)"
    and "path_key base_dir ` set ps \<inter> ks = {}" and "queue_ok X ks (ir_db m) acc" and "text_laws X"
  shows "queue_ok X (path_key base_dir ` set ps \<union> ks) (ir_db m') acc' \<and> owned_inv (ir_db m')"
  using assms(1-5)
proof (induction ps arbitrary: acc m ks)
  case Nil
  then show ?case by (simp add: st_ok_def)
next
  case (Cons p ps)
  from Cons.prems(1) obtain a m1 where 1: "process_file X D force base_dir p acc m = (Inr a, m1)"
    and 2: "process_files X D force base_dir ps a m1 = (Inr acc', m')" by (auto simp: st_bind_Inr)
  let ?ks = "insert (path_key base_dir p) ks"
  have own: "owned_inv (ir_db m1)" using withinD [OF process_file_owned 1] Cons.prems(2) by (simp add: keeping_def)
  have q: "queue_ok X ?ks (ir_db m1) a"
    by (rule process_file_queued [OF 1 Cons.prems(2) _ Cons.prems(5) assms(6)]) (use Cons.prems(4) in auto)
  have "path_key base_dir ` set ps \<inter> ?ks = {}" using Cons.prems(3,4) by auto
  from Cons.IH [OF 2 own _ this q] Cons.prems(3) show ?case by (simp add: Un_commute insert_commute)
qed

section \<open>Stale files are not those of the queue\<close>

lemma delete_file_queued:
  assumes "delete_file i k m = (Inr u, m')" and "index_inv (ir_db m)" and "id_at (ir_db m) k = Some i" and "k \<notin> ks"
    and "queued X ks (ir_db m) e"
  shows "queued X ks (ir_db m') e"
proof (rule queued_step [OF assms(5)])
  let ?d = "ir_db m"
  from assms(1) have d: "ir_db m' = drop_file i (drop_edges_of k (drop_chunks_of i (drop_vectors_of i ?d)))"
    by (auto simp: delete_file_def st_bind_Inr dest!: ix_exec_Inr)
  have other: "j \<noteq> i" if "l \<in> ks" "id_at ?d l = Some j" for l j using that id_at_inj [OF assms(2,3), of l] assms(4) by auto
  show "c \<in> set (xd_chunks (ir_db m'))" if "c \<in> set (xd_chunks ?d)" "l \<in> ks" "id_at ?d l = Some (ck_file_id c)" for c l
    using that other [OF that(2,3)] by (simp add: d drop_file_def drop_chunks_of_def drop_edges_of_def drop_vectors_of_def)
  show "fst ` set (xd_vectors (ir_db m')) \<subseteq> fst ` set (xd_vectors ?d)"
    by (auto simp: d drop_file_def drop_chunks_of_def drop_edges_of_def drop_vectors_of_def)
  show "id_at (ir_db m') l = Some j" if "l \<in> ks" "id_at ?d l = Some j" for l j
  proof -
    from that(2) obtain f where f: "file_at ?d l = Some f" "fi_id f = j" by (auto simp: id_at_def)
    from delete_file_Inr [OF assms(1-3)] have inv: "index_inv (ir_db m')"
      and fs: "xd_files (ir_db m') = filter (\<lambda>f. fi_id f \<noteq> i) (xd_files ?d)" by simp_all
    have "f \<in> set (xd_files (ir_db m'))" using file_at_Some [OF f(1)] other [OF that] f(2) by (simp add: fs)
    from id_at_member [OF inv this] file_at_Some [OF f(1)] f(2) show ?thesis by simp
  qed
qed

lemma delete_unvisited_queued:
  assumes "delete_unvisited visited (map (\<lambda>f. (fi_id f, fi_path f)) fs) m = (Inr n, m')" and "index_inv (ir_db m)"
    and "set fs \<subseteq> set (xd_files (ir_db m))" and "distinct fs" and "queued X visited (ir_db m) e"
  shows "queued X visited (ir_db m') e"
  using assms
proof (induction fs arbitrary: m n)
  case Nil
  then show ?case by (simp add: st_ok_def)
next
  case (Cons f fs)
  show ?case
  proof (cases "fi_path f \<in> visited")
    case True
    with Cons show ?thesis by simp
  next
    case False
    with Cons.prems(1) obtain u m1 n1 where 1: "delete_file (fi_id f) (fi_path f) m = (Inr u, m1)"
      and 2: "delete_unvisited visited (map (\<lambda>f. (fi_id f, fi_path f)) fs) m1 = (Inr n1, m')"
      by (auto simp: st_bind_Inr st_ok_def)
    have f: "f \<in> set (xd_files (ir_db m))" using Cons.prems(3) by simp
    note id = id_at_member [OF Cons.prems(2) f]
    note d = delete_file_Inr [OF 1 Cons.prems(2) id]
    have "fi_id g \<noteq> fi_id f" if "g \<in> set fs" for g
      using that f Cons.prems(2,3,4) by (metis distinct.simps(2) distinct_map_eq index_inv_def files_ok_def insert_iff list.simps(15) subsetD)
    with d Cons.prems(3) have "set fs \<subseteq> set (xd_files (ir_db m1))" by auto
    from Cons.IH [OF 2 conjunct1 [OF d] this _ delete_file_queued [OF 1 Cons.prems(2) id False Cons.prems(5)]] Cons.prems(4) show ?thesis
      by simp
  qed
qed

lemma cleanup_queued:
  assumes "cleanup_stale files base_dir m = (Inr n, m')" and "index_inv (ir_db m)"
    and "queue_ok X (path_key base_dir ` set files) (ir_db m) acc"
  shows "queue_ok X (path_key base_dir ` set files) (ir_db m') acc"
proof -
  from assms(1) have 1: "delete_unvisited (path_key base_dir ` set files) (map (\<lambda>f. (fi_id f, fi_path f)) (xd_files (ir_db m))) m = (Inr n, m')"
    by (auto simp: cleanup_stale_def st_bind_Inr all_paths)
  have "distinct (xd_files (ir_db m))" using assms(2) by (auto simp: index_inv_def files_ok_def distinct_map)
  with delete_unvisited_queued [OF 1 assms(2) subset_refl] assms(3) show ?thesis by (auto simp: queue_ok_def)
qed

text \<open>In a well-formed index every chunk has its file, so what lacks a vector is in the list.\<close>

lemma queued_unembedded:
  assumes "index_inv d" and "queued X ks d e"
  shows "e \<in> queue_entry X ` set (unembedded d)"
proof -
  from assms(2) obtain c where c: "c \<in> set (xd_chunks d)" "queue_entry X c = e" "ck_id c \<notin> fst ` set (xd_vectors d)" by (auto simp: queued_def)
  with assms(1) have "ck_file_id c \<in> fi_id ` set (xd_files d)" by (simp add: index_inv_def chunks_ok_def)
  then have "file_of d c \<noteq> None" by (auto simp: file_of_def find_None_iff)
  with c show ?thesis by (force simp: unembedded_def)
qed

lemma entry_id [simp]: "fst (queue_entry X c) = ck_id c"
  by (simp add: queue_entry_def)

lemma queue_of_missing:
  assumes "index_inv d" and "queue_ok X ks d acc" and "set missing = set (unembedded d)" and "distinct missing"
  shows "distinct (map fst (pa_queue acc @ map (queue_entry X) (filter (\<lambda>c. ck_id c \<notin> fst ` set (pa_queue acc)) missing))) \<and>
    set (pa_queue acc @ map (queue_entry X) (filter (\<lambda>c. ck_id c \<notin> fst ` set (pa_queue acc)) missing)) = queue_entry X ` set (unembedded d)"
proof
  have i: "inj_on ck_id (set (xd_chunks d))" using assms(1) by (simp add: index_inv_def chunks_ok_def distinct_map)
  have sub: "set (unembedded d) \<subseteq> set (xd_chunks d)" by (auto simp: unembedded_def)
  have "inj_on ck_id (set missing)" using i sub assms(3) by (auto intro: inj_on_subset)
  then have "distinct (map ck_id missing)" using assms(4) by (simp add: distinct_map)
  then have "distinct (map ck_id (filter (\<lambda>c. ck_id c \<notin> fst ` set (pa_queue acc)) missing))" by (rule distinct_map_filter)
  then show "distinct (map fst (pa_queue acc @ map (queue_entry X) (filter (\<lambda>c. ck_id c \<notin> fst ` set (pa_queue acc)) missing)))"
    using assms(2) by (auto simp: queue_ok_def comp_def) force
  have old: "e \<in> queue_entry X ` set (unembedded d)" if "e \<in> set (pa_queue acc)" for e
    using queued_unembedded [OF assms(1), of X ks e] assms(2) that by (simp add: queue_ok_def)
  have all: "queue_entry X c \<in> set (pa_queue acc)" if c: "c \<in> set (unembedded d)" and q: "ck_id c \<in> fst ` set (pa_queue acc)" for c
  proof -
    from q obtain e where e: "e \<in> set (pa_queue acc)" "fst e = ck_id c" by auto
    from old [OF e(1)] obtain c' where c': "c' \<in> set (unembedded d)" "e = queue_entry X c'" by auto
    have "c' = c" using inj_onD [OF i, of c' c] c' e(2) c sub by auto
    with e(1) c'(2) show ?thesis by simp
  qed
  show "set (pa_queue acc @ map (queue_entry X) (filter (\<lambda>c. ck_id c \<notin> fst ` set (pa_queue acc)) missing)) = queue_entry X ` set (unembedded d)"
    (is "?q = ?u")
  proof
    show "?q \<subseteq> ?u" using old assms(3) by auto
    show "?u \<subseteq> ?q"
    proof
      fix e assume "e \<in> ?u"
      then obtain c where c: "c \<in> set (unembedded d)" "e = queue_entry X c" by auto
      with all [OF c(1)] assms(3) show "e \<in> ?q" by (cases "ck_id c \<in> fst ` set (pa_queue acc)") auto
    qed
  qed
qed

lemma missing_Inr:
  "chunks_missing_embeddings m = (Inr cs, m') \<Longrightarrow> m' = m \<and> set cs = set (unembedded (ir_db m)) \<and> (index_inv (ir_db m) \<longrightarrow> distinct cs)"
  by (auto simp: chunks_missing_embeddings_def ix_read_Inr index_inv_def chunks_ok_def unembedded_def distinct_map)

lemma stamp_unembedded: "stamp_chunker_config config m = (Inr u, m') \<Longrightarrow> unembedded (ir_db m') = unembedded (ir_db m)"
  unfolding stamp_chunker_config_def by (drule ix_exec_Inr) (simp add: put_meta_def unembedded_def file_of_def)

lemma queue_of_run:
  assumes "run_parse_phase X D force config base_dir files filtered m = (Inr r, m')" and "files \<noteq> []"
    and "distinct (map (path_key base_dir) files)" and "text_laws X" and "owned_inv (ir_db m)"
  shows "distinct (map fst (pr_queue r)) \<and> set (pr_queue r) = queue_entry X ` set (unembedded (ir_db m'))"
proof -
  from assms(1,2) obtain acc m1 n m2 missing m3 u where
    1: "process_files X D force base_dir files \<lparr> pa_queue = [], pa_indexed = 0, pa_skipped = 0 \<rparr> m = (Inr acc, m1)"
    and 2: "cleanup_stale files base_dir m1 = (Inr n, m2)" and 3: "chunks_missing_embeddings m2 = (Inr missing, m3)"
    and 4: "(if force then stamp_chunker_config config else st_ok ()) m3 = (Inr u, m')"
    and r: "pr_queue r = pa_queue acc @ map (queue_entry X) (filter (\<lambda>c. ck_id c \<notin> fst ` set (pa_queue acc)) missing)"
    by (auto simp: run_parse_phase_def Let_def st_bind_Inr st_ok_def split: if_splits)
  have "queue_ok X {} (ir_db m) \<lparr> pa_queue = [], pa_indexed = 0, pa_skipped = 0 \<rparr>" by (simp add: queue_ok_def)
  from process_files_queued [OF 1 assms(5,3) _ this assms(4)]
  have q: "queue_ok X (path_key base_dir ` set files) (ir_db m1) acc" and own: "owned_inv (ir_db m1)" by simp_all
  have own2: "owned_inv (ir_db m2)"
    using 2 withinD [OF delete_unvisited_owned] own by (auto simp: cleanup_stale_def st_bind_Inr all_paths keeping_def)
  have inv: "index_inv (ir_db m1)" "index_inv (ir_db m2)" using own own2 by (simp_all add: owned_inv_def)
  from missing_Inr [OF 3] inv have m3: "m3 = m2" "set missing = set (unembedded (ir_db m2))" "distinct missing" by simp_all
  have "unembedded (ir_db m') = unembedded (ir_db m2)"
    using 4 m3(1) by (cases force) (auto simp: st_ok_def dest: stamp_unembedded)
  with queue_of_missing [OF inv(2) cleanup_queued [OF 2 inv(1) q] m3(2,3)] r show ?thesis by simp
qed

text \<open>C32: The queue of a run that returns holds every chunk of the index that has no vector exactly once, and nothing
  else: each with the text and the token count that its row gives, whether the chunk was stored by this run or was left
  without a vector by one before it.\<close>
theorem embed_queue_exact:
  assumes "run_parse_phase X D force config base_dir files filtered m = (Inr r, m')" and "files \<noteq> []"
    and "distinct (map (path_key base_dir) files)" and "text_laws X" and "owned_inv (ir_db m)"
  shows "distinct (map fst (pr_queue r)) \<and> set (pr_queue r) = queue_entry X ` set (unembedded (ir_db m'))"
  using assms by (rule queue_of_run)

end
