(* ===== verification/EmbedPhase.thy ===== *)
theory EmbedPhase
  imports IndexQueue
begin

text \<open>
  The embed phase of \<open>spelunk index\<close> (\<open>spelunk-cli/src/cli/cmd/index/embed_phase.rs\<close>): the queue is sent to a
  server in batches whose size follows the measured rate, and the vectors of each batch are stored in
  one transaction.  The server is arbitrary, floating-point arithmetic is a parameter, and a duration is
  its nanoseconds.
\<close>

definition MAX_BATCH :: nat where
  "MAX_BATCH = 256"

definition DEFAULT_BATCH_CEILING :: nat where
  "DEFAULT_BATCH_CEILING = MAX_BATCH"

definition CALIBRATION_BATCH_1 :: nat where
  "CALIBRATION_BATCH_1 = 1"

definition CALIBRATION_BATCH_2 :: nat where
  "CALIBRATION_BATCH_2 = 4"

definition TARGET_BATCH_SECONDS :: int where
  "TARGET_BATCH_SECONDS = 240"

definition from_secs :: "int \<Rightarrow> int" where
  "from_secs s = s * 1000000000"

definition MIN_REQUEST_TIMEOUT :: int where
  "MIN_REQUEST_TIMEOUT = from_secs 60"

definition MAX_REQUEST_TIMEOUT :: int where
  "MAX_REQUEST_TIMEOUT = from_secs 1800"

definition CONNECT_FAILURE_BACKOFFS :: "int list" where
  "CONNECT_FAILURE_BACKOFFS = map from_secs [5, 15, 45, 90, 180]"

definition DEFAULT_SATURATION_RETRY :: int where
  "DEFAULT_SATURATION_RETRY = from_secs 5"

definition MAX_SATURATION_RETRIES :: nat where
  "MAX_SATURATION_RETRIES = 30"

definition LEGACY_SERVER_REQUEST_BUDGET_SECS :: int where
  "LEGACY_SERVER_REQUEST_BUDGET_SECS = 30"

definition GROWTH_FACTOR :: nat where
  "GROWTH_FACTOR = 8"

definition FIRST_REQUEST_TIMEOUT :: int where
  "FIRST_REQUEST_TIMEOUT = from_secs 300"

section \<open>Sizes and deadlines\<close>

text \<open>What is computed with \<open>f64\<close>: two thirds of a number of seconds, rounded down; a duration over a number of
  tokens; the two blends of rates; whether so many tokens exceed what a rate allows in a time; four
  times the expected duration of a batch, between 0 and half an hour.\<close>

record float_ops =
  fo_two_thirds :: "int \<Rightarrow> int"
  fo_div :: "int \<Rightarrow> nat \<Rightarrow> int"
  fo_deweight :: "int \<Rightarrow> int \<Rightarrow> int"
  fo_mean :: "int \<Rightarrow> int \<Rightarrow> int"
  fo_over :: "int \<Rightarrow> int \<Rightarrow> nat \<Rightarrow> bool"
  fo_budget :: "int \<Rightarrow> nat \<Rightarrow> int"

record embed_limits =
  el_request_timeout_secs :: "int option"
  el_max_batch_chunks :: "nat option"

definition resolve_batch_ceiling :: "nat \<Rightarrow> nat option \<Rightarrow> nat" where
  "resolve_batch_ceiling requested server_max_batch_chunks =
     (let ceiling = (if requested = 0 then DEFAULT_BATCH_CEILING else min requested MAX_BATCH)
      in case server_max_batch_chunks of Some server_max \<Rightarrow> min ceiling server_max | None \<Rightarrow> ceiling)"

definition resolve_target_batch_seconds :: "float_ops \<Rightarrow> embed_limits option \<Rightarrow> int" where
  "resolve_target_batch_seconds F limits =
     (let budget_secs = (case Option.bind limits el_request_timeout_secs of
            Some s \<Rightarrow> s | None \<Rightarrow> LEGACY_SERVER_REQUEST_BUDGET_SECS)
      in min TARGET_BATCH_SECONDS (max (fo_two_thirds F budget_secs) 1))"

fun fitting :: "float_ops \<Rightarrow> int \<Rightarrow> int \<Rightarrow> nat list \<Rightarrow> nat \<Rightarrow> nat \<Rightarrow> nat" where
  "fitting F target per_token [] len tokens = len"
| "fitting F target per_token (tc # tcs) len tokens =
     (let tokens = tokens + max tc 1
      in if 0 < len \<and> fo_over F target per_token tokens then len
         else fitting F target per_token tcs (len + 1) tokens)"

definition next_batch_len :: "float_ops \<Rightarrow> int \<Rightarrow> nat list \<Rightarrow> nat \<Rightarrow> nat \<Rightarrow> int \<Rightarrow> nat" where
  "next_batch_len F per_token token_tail ceiling previous_batch_size target_seconds =
     (let growth_cap = min (max previous_batch_size 1 * GROWTH_FACTOR) (max ceiling 1)
      in if per_token = 0 then min growth_cap (max (length token_tail) 1)
         else max (fitting F target_seconds per_token (take growth_cap token_tail) 0 0) 1)"

definition batch_timeout :: "float_ops \<Rightarrow> int \<Rightarrow> nat \<Rightarrow> int" where
  "batch_timeout F per_token batch_tokens =
     min MAX_REQUEST_TIMEOUT (max MIN_REQUEST_TIMEOUT (fo_budget F per_token (max batch_tokens 1)))"

record rate_estimate =
  rt_per_token :: "int option"
  rt_samples_seen :: nat

definition new_rate :: rate_estimate where
  "new_rate = \<lparr> rt_per_token = None, rt_samples_seen = 0 \<rparr>"

definition update_rate :: "float_ops \<Rightarrow> rate_estimate \<Rightarrow> int \<Rightarrow> nat \<Rightarrow> rate_estimate" where
  "update_rate F rate elapsed tokens =
     (if tokens = 0 then rate
      else let sample = fo_div F elapsed tokens
        in rate\<lparr> rt_per_token := Some (case rt_per_token rate of
               None \<Rightarrow> sample
             | Some prev \<Rightarrow> if rt_samples_seen rate = 1 then fo_deweight F prev sample else fo_mean F prev sample),
           rt_samples_seen := rt_samples_seen rate + 1 \<rparr>)"

definition percent_of :: "nat \<Rightarrow> nat \<Rightarrow> nat" where
  "percent_of k n = (if n = 0 then 0 else min (k * 100) (2 ^ 64 - 1) div n)"

section \<open>A request\<close>

text \<open>What the HTTP client reports; a response has a status, a \<open>Retry-After\<close> and a body that may fail to arrive.\<close>

datatype embed_reply =
    Rp_Connect
  | Rp_Timeout
  | Rp_Error
  | Rp_Response int "string option" "string option"

datatype embed_outcome =
    Em_Bytes string
  | Em_BudgetExceeded
  | Em_ConnectFailure
  | Em_Saturated int
  | Em_Other

definition header_text :: "string \<Rightarrow> string option" where
  "header_text h = (if list_all (\<lambda>c. byte c = 9 \<or> 32 \<le> byte c \<and> byte c < 127) h then Some h else None)"

definition parse_retry_after :: "string option \<Rightarrow> int" where
  "parse_retry_after header =
     (case Option.bind (Option.bind header header_text) (\<lambda>s. parse_usize (trim s)) of
        Some n \<Rightarrow> from_secs (int n) | None \<Rightarrow> DEFAULT_SATURATION_RETRY)"

definition stride :: nat where
  "stride = INDEX_DIM * 4"

definition embed_one_batch :: "embed_reply \<Rightarrow> nat \<Rightarrow> embed_outcome" where
  "embed_one_batch reply batch_len =
     (case reply of
        Rp_Connect \<Rightarrow> Em_ConnectFailure
      | Rp_Timeout \<Rightarrow> Em_BudgetExceeded
      | Rp_Error \<Rightarrow> Em_Other
      | Rp_Response status retry_after body \<Rightarrow>
          if status = 408 then Em_BudgetExceeded
          else if status = 429 then Em_Saturated (parse_retry_after retry_after)
          else if 400 \<le> status \<and> status < 600 then Em_Other
          else (case body of
              None \<Rightarrow> Em_Other
            | Some bytes \<Rightarrow> if length bytes \<noteq> batch_len * stride then Em_Other else Em_Bytes bytes))"

text \<open>The server, over its own state: the answer to a request with a deadline and the time it took, and a sleep.\<close>

record 's embed_server =
  es_send :: "int \<Rightarrow> (string \<times> string) list \<Rightarrow> 's \<Rightarrow> embed_reply \<times> int \<times> 's"
  es_sleep :: "int \<Rightarrow> 's \<Rightarrow> 's"

type_synonym queue = "(int \<times> string \<times> nat) list"

definition req_chunk :: "int \<times> string \<times> nat \<Rightarrow> string \<times> string" where
  "req_chunk e = (case e of (chunk_id, content, tc) \<Rightarrow> (int_to_string chunk_id, content))"

definition batch_tokens :: "queue \<Rightarrow> nat" where
  "batch_tokens batch = sum_list (map (\<lambda>(chunk_id, content, tc). max tc 1) batch)"

text \<open>The retries of one batch of the first \<open>n\<close> entries of the queue: its bytes, its final length and the rate, or nothing
  where the phase gives up.  Each retry shrinks the batch or uses up one of a limited number of tries.\<close>

function retry_batch ::
    "float_ops \<Rightarrow> 's embed_server \<Rightarrow> int list \<Rightarrow> queue \<Rightarrow> nat \<Rightarrow> rate_estimate \<Rightarrow> bool \<Rightarrow> nat \<Rightarrow> nat \<Rightarrow> 's
      \<Rightarrow> (string \<times> nat \<times> rate_estimate) option \<times> 's" where
  "retry_batch F E backoffs queue n rate escalated connect_failures saturation_retries s =
     (let tokens = batch_tokens (take n queue);
          timeout = (case rt_per_token rate of
              Some per_token \<Rightarrow> batch_timeout F per_token tokens
            | None \<Rightarrow> if escalated then MAX_REQUEST_TIMEOUT else FIRST_REQUEST_TIMEOUT)
      in case es_send E timeout (map req_chunk (take n queue)) s of
           (reply, elapsed, s) \<Rightarrow>
             (case embed_one_batch reply n of
                Em_Bytes bytes \<Rightarrow> (Some (bytes, n, update_rate F rate elapsed tokens), s)
              | Em_BudgetExceeded \<Rightarrow>
                  if n = 1
                  then if \<not> escalated \<and> rt_per_token rate = None
                       then retry_batch F E backoffs queue n rate True connect_failures saturation_retries s
                       else (None, s)
                  else let shrunk = max (n div 2) 1
                    in if shrunk = n then (None, s)
                       else retry_batch F E backoffs queue shrunk (update_rate F rate timeout tokens)
                         escalated connect_failures saturation_retries s
              | Em_ConnectFailure \<Rightarrow>
                  if length backoffs \<le> connect_failures then (None, s)
                  else retry_batch F E backoffs queue n rate escalated (connect_failures + 1) saturation_retries
                    (es_sleep E (backoffs ! connect_failures) s)
              | Em_Saturated retry_after \<Rightarrow>
                  if MAX_SATURATION_RETRIES \<le> saturation_retries then (None, s)
                  else retry_batch F E backoffs queue n rate escalated connect_failures (saturation_retries + 1)
                    (es_sleep E retry_after s)
              | Em_Other \<Rightarrow> (None, s)))"
  by pat_completeness auto
termination
  by (relation "measure (\<lambda>(F, E, backoffs, queue, n, rate, escalated, cf, sr, s).
       (if n = 0 then 2 else n) + (if escalated then 0 else 1) + (length backoffs - cf) + (MAX_SATURATION_RETRIES - sr))") auto

declare retry_batch.simps [simp del]

text \<open>A batch that succeeds does so by its last request.\<close>

lemma retry_batch_last:
  "retry_batch F E backoffs queue n rate escalated cf sr s = (Some (bytes, k, rate'), s') \<Longrightarrow> 0 < n \<Longrightarrow>
     0 < k \<and> k \<le> n \<and> (\<exists>timeout s0 reply elapsed rate0. es_send E timeout (map req_chunk (take k queue)) s0 = (reply, elapsed, s') \<and>
       embed_one_batch reply k = Em_Bytes bytes \<and> rate' = update_rate F rate0 elapsed (batch_tokens (take k queue)))"
proof (induction F E backoffs queue n rate escalated cf sr s rule: retry_batch.induct)
  case (1 F E backoffs queue n rate escalated cf sr s)
  let ?tokens = "batch_tokens (take n queue)"
  obtain timeout where t: "timeout = (case rt_per_token rate of Some per_token \<Rightarrow> batch_timeout F per_token ?tokens
      | None \<Rightarrow> if escalated then MAX_REQUEST_TIMEOUT else FIRST_REQUEST_TIMEOUT)" by simp
  obtain reply elapsed s1 where send: "es_send E timeout (map req_chunk (take n queue)) s = (reply, elapsed, s1)"
    by (cases "es_send E timeout (map req_chunk (take n queue)) s") auto
  note p = 1(5) [unfolded retry_batch.simps [of F E backoffs queue n rate escalated cf sr s] Let_def t [symmetric] send prod.case]
  show ?case
  proof (cases "embed_one_batch reply n")
    case (Em_Bytes b)
    with p have "k = n" "bytes = b" "s' = s1" "rate' = update_rate F rate elapsed ?tokens" by auto
    with send Em_Bytes have "es_send E timeout (map req_chunk (take k queue)) s = (reply, elapsed, s')"
      "embed_one_batch reply k = Em_Bytes bytes" "rate' = update_rate F rate elapsed (batch_tokens (take k queue))" by simp_all
    with \<open>k = n\<close> 1(6) show ?thesis by blast
  next
    case Em_BudgetExceeded
    show ?thesis
    proof (cases "n = 1")
      case True
      with p Em_BudgetExceeded 1(1) [OF refl t send [symmetric] refl Em_BudgetExceeded] show ?thesis
        by (auto split: if_splits)
    next
      case False
      with p Em_BudgetExceeded have "max (n div 2) 1 \<noteq> n"
        "retry_batch F E backoffs queue (max (n div 2) 1) (update_rate F rate timeout ?tokens) escalated cf sr s1 = (Some (bytes, k, rate'), s')"
        by (auto split: if_splits)
      note r = 1(2) [OF refl t send [symmetric] refl Em_BudgetExceeded False refl this]
      have "max (n div 2) 1 \<le> n" using 1(6) by auto
      with r show ?thesis by (meson le_trans max.strict_coboundedI2 zero_less_one)
    qed
  next
    case Em_ConnectFailure
    with p have "\<not> length backoffs \<le> cf"
      "retry_batch F E backoffs queue n rate escalated (cf + 1) sr (es_sleep E (backoffs ! cf) s1) = (Some (bytes, k, rate'), s')"
      by (auto split: if_splits)
    from 1(3) [OF refl t send [symmetric] refl Em_ConnectFailure this 1(6)] show ?thesis .
  next
    case (Em_Saturated w)
    with p have "\<not> MAX_SATURATION_RETRIES \<le> sr"
      "retry_batch F E backoffs queue n rate escalated cf (sr + 1) (es_sleep E w s1) = (Some (bytes, k, rate'), s')"
      by (auto split: if_splits)
    from 1(4) [OF refl t send [symmetric] refl Em_Saturated this 1(6)] show ?thesis .
  next
    case Em_Other
    with p show ?thesis by simp
  qed
qed

lemma retry_batch_len:
  "retry_batch F E backoffs queue n rate escalated cf sr s = (Some (bytes, k, rate'), s') \<Longrightarrow> 0 < n \<Longrightarrow> 0 < k \<and> k \<le> n"
  by (drule retry_batch_last) auto

section \<open>The phase\<close>

text \<open>The bytes of a batch, cut into its vectors of four-byte components.\<close>

function pieces :: "nat \<Rightarrow> string \<Rightarrow> string list" where
  "pieces k s = (if k = 0 \<or> length s < k then [] else take k s # pieces k (drop k s))"
  by pat_completeness auto
termination by (relation "measure (\<lambda>(k, s). length s)") auto

declare pieces.simps [simp del]

definition response_vec :: "string \<Rightarrow> string list" where
  "response_vec b = pieces 4 b"

definition batch_vectors :: "string \<Rightarrow> queue \<Rightarrow> (int \<times> string list) list" where
  "batch_vectors bytes batch =
     map (\<lambda>(i, (chunk_id, content, tc)). (chunk_id, response_vec (take stride (drop (i * stride) bytes)))) (enumerate 0 batch)"

record 's embed_run =
  ew_index :: index_run
  ew_server :: 's

datatype embed_error =
    Em_Index ix_error
  | Em_NoBearer
  | Em_NoClient
  | Em_Unseeded

definition on_index :: "'a ix \<Rightarrow> ('s embed_run, embed_error, 'a) st" where
  "on_index m = (\<lambda>w. case m (ew_index w) of
       (Inl e, d) \<Rightarrow> (Inl (Em_Index e), w\<lparr> ew_index := d \<rparr>) | (Inr x, d) \<Rightarrow> (Inr x, w\<lparr> ew_index := d \<rparr>))"

definition batch_size ::
    "float_ops \<Rightarrow> nat \<Rightarrow> int \<Rightarrow> nat \<Rightarrow> nat \<Rightarrow> rate_estimate \<Rightarrow> queue \<Rightarrow> embed_error + nat" where
  "batch_size F ceiling target batch_num previous_batch_size rate queue =
     map_sum id (\<lambda>n. min (length queue) (max 1 n))
       (if batch_num = 1 then Inr CALIBRATION_BATCH_1
        else if batch_num = 2 then Inr CALIBRATION_BATCH_2
        else case rt_per_token rate of
            None \<Rightarrow> Inl Em_Unseeded
          | Some per_token \<Rightarrow> Inr (next_batch_len F per_token (map (\<lambda>(chunk_id, content, tc). tc) queue) ceiling previous_batch_size target))"

lemma batch_size_bounds: "batch_size F ceiling target num prev rate queue = Inr n \<Longrightarrow> queue \<noteq> [] \<Longrightarrow> 0 < n \<and> n \<le> length queue"
  by (cases queue) (auto simp: batch_size_def split: if_splits option.splits)

text \<open>The loop over the queue from the cursor on; its result is the number of chunks embedded.\<close>

function embed_batches ::
    "float_ops \<Rightarrow> (string \<Rightarrow> char) \<Rightarrow> 's embed_server \<Rightarrow> int list \<Rightarrow> nat \<Rightarrow> int \<Rightarrow> nat \<Rightarrow> nat \<Rightarrow> rate_estimate \<Rightarrow> nat \<Rightarrow> queue
      \<Rightarrow> 's embed_run \<Rightarrow> (embed_error + nat) \<times> 's embed_run" where
  "embed_batches F quantise E backoffs ceiling target batch_num previous_batch_size rate embedded queue w =
     (if queue = [] then (Inr embedded, w)
      else case batch_size F ceiling target (batch_num + 1) previous_batch_size rate queue of
          Inl e \<Rightarrow> (Inl e, w)
        | Inr n \<Rightarrow>
            (case retry_batch F E backoffs queue n rate False 0 0 (ew_server w) of
               (None, s) \<Rightarrow> (Inr embedded, w\<lparr> ew_server := s \<rparr>)
             | (Some (bytes, k, rate'), s) \<Rightarrow>
                 (case on_index (insert_embeddings quantise (batch_vectors bytes (take k queue))) (w\<lparr> ew_server := s \<rparr>) of
                    (Inl e, w) \<Rightarrow> (Inl e, w)
                  | (Inr u, w) \<Rightarrow>
                      embed_batches F quantise E backoffs ceiling target (batch_num + 1) k rate' (embedded + k) (drop k queue) w)))"
  by pat_completeness auto
termination
proof (relation "measure (\<lambda>(F, quantise, E, backoffs, ceiling, target, num, prev, rate, embedded, queue, w). length queue)")
qed (auto dest!: batch_size_bounds retry_batch_len [OF sym])

declare embed_batches.simps [simp del]

text \<open>The tier: offline, or a server with its limits, and whether there is a credential for it and a client can be built.\<close>

datatype embed_tier =
    Tier_Offline
  | Tier_Server "embed_limits option" bool bool

definition run_embed_phase_with_backoff ::
    "float_ops \<Rightarrow> (string \<Rightarrow> char) \<Rightarrow> 's embed_server \<Rightarrow> string \<Rightarrow> string \<Rightarrow> embed_tier \<Rightarrow> nat \<Rightarrow> int list \<Rightarrow> queue
      \<Rightarrow> ('s embed_run, embed_error, nat) st" where
  "run_embed_phase_with_backoff F quantise E model_id config tier requested backoffs queue =
     (case tier of
        Tier_Offline \<Rightarrow> st_ok 0
      | Tier_Server limits bearer client \<Rightarrow>
          if \<not> bearer then st_err Em_NoBearer
          else st_bind (on_index (ensure_embedding_model model_id))
            (\<lambda>_. st_bind (on_index (ensure_chunker_config config))
              (\<lambda>_. if \<not> client then st_err Em_NoClient
                else embed_batches F quantise E backoffs
                  (resolve_batch_ceiling requested (Option.bind limits el_max_batch_chunks))
                  (resolve_target_batch_seconds F limits) 0 1 new_rate 0 queue)))"

definition run_embed_phase ::
    "float_ops \<Rightarrow> (string \<Rightarrow> char) \<Rightarrow> 's embed_server \<Rightarrow> string \<Rightarrow> string \<Rightarrow> embed_tier \<Rightarrow> nat \<Rightarrow> queue
      \<Rightarrow> ('s embed_run, embed_error, nat) st" where
  "run_embed_phase F quantise E model_id config tier requested queue =
     run_embed_phase_with_backoff F quantise E model_id config tier requested CONNECT_FAILURE_BACKOFFS queue"

end
