(* ===== verification/EmbedSpec.thy ===== *)
theory EmbedSpec
  imports EmbedPhase
begin

text \<open>
  What the embed phase stores: however it ends, the vectors of a prefix of the queue, batch by batch, and
  nothing else; what it leaves is the queue of the next run.
\<close>

section \<open>The server's answers\<close>

text \<open>\<open>handlers/index.rs\<close>: the vectors of the chunks in the order of the request; \<open>vec\<close> is the model.\<close>

definition answers :: "(string \<Rightarrow> string) \<Rightarrow> 's embed_server \<Rightarrow> bool" where
  "answers vec E \<longleftrightarrow> (\<forall>content. length (vec content) = stride) \<and>
     (\<forall>timeout cs s status header bytes elapsed s'.
        es_send E timeout cs s = (Rp_Response status header (Some bytes), elapsed, s') \<longrightarrow>
        400 \<le> status \<and> status < 600 \<or> bytes = concat (map (\<lambda>(chunk_id, content). vec content) cs))"

definition stored_vector :: "(string \<Rightarrow> char) \<Rightarrow> (string \<Rightarrow> string) \<Rightarrow> int \<times> string \<times> nat \<Rightarrow> int \<times> string" where
  "stored_vector quantise vec e = (case e of (chunk_id, content, tc) \<Rightarrow> (chunk_id, map quantise (response_vec (vec content))))"

lemma fst_stored [simp]: "fst (stored_vector quantise vec e) = fst e"
  by (simp add: stored_vector_def split: prod.split)

lemma length_pieces: "0 < k \<Longrightarrow> length s = n * k \<Longrightarrow> length (pieces k s) = n"
proof (induction n arbitrary: s)
  case 0
  then show ?case by (subst pieces.simps) simp
next
  case (Suc n)
  then show ?case by (subst pieces.simps) simp
qed

lemma response_dim: "length s = stride \<Longrightarrow> length (response_vec s) = INDEX_DIM"
  unfolding response_vec_def stride_def by (rule length_pieces) simp_all

lemma cut_concat:
  "\<forall>x \<in> set xs. length (f x) = w \<Longrightarrow> i < length xs \<Longrightarrow> take w (drop (i * w) (concat (map f xs))) = f (xs ! i)"
proof (induction xs arbitrary: i)
  case Nil
  then show ?case by simp
next
  case (Cons x xs)
  then show ?case by (cases i) simp_all
qed

lemma batch_vectors_answer:
  assumes "\<forall>content. length (vec content) = stride"
  shows "batch_vectors (concat (map (\<lambda>(chunk_id, content, tc). vec content) batch)) batch =
    map (\<lambda>(chunk_id, content, tc). (chunk_id, response_vec (vec content))) batch"
proof (rule nth_equalityI)
  show "length (batch_vectors (concat (map (\<lambda>(chunk_id, content, tc). vec content) batch)) batch) =
      length (map (\<lambda>(chunk_id, content, tc). (chunk_id, response_vec (vec content))) batch)"
    by (simp add: batch_vectors_def)
next
  fix i
  assume "i < length (batch_vectors (concat (map (\<lambda>(chunk_id, content, tc). vec content) batch)) batch)"
  then have i: "i < length batch" by (simp add: batch_vectors_def)
  obtain chunk_id content tc where e: "batch ! i = (chunk_id, content, tc)" by (cases "batch ! i") auto
  have "take stride (drop (i * stride) (concat (map (\<lambda>(chunk_id, content, tc). vec content) batch))) = vec content"
    using cut_concat [of batch "\<lambda>(chunk_id, content, tc). vec content" stride i] assms i e by (simp add: case_prod_unfold)
  with i e show "batch_vectors (concat (map (\<lambda>(chunk_id, content, tc). vec content) batch)) batch ! i =
      map (\<lambda>(chunk_id, content, tc). (chunk_id, response_vec (vec content))) batch ! i"
    by (simp add: batch_vectors_def nth_enumerate_eq)
qed

lemma answered_bytes:
  assumes "answers vec E" and "es_send E timeout (map req_chunk batch) s = (reply, elapsed, s')" and "embed_one_batch reply k = Em_Bytes bytes"
  shows "bytes = concat (map (\<lambda>(chunk_id, content, tc). vec content) batch)"
proof -
  from assms(3) obtain status header where r: "reply = Rp_Response status header (Some bytes)" "\<not> (400 \<le> status \<and> status < 600)"
    by (auto simp: embed_one_batch_def split: embed_reply.splits if_splits option.splits)
  with assms(1,2) have "bytes = concat (map (\<lambda>(chunk_id, content). vec content) (map req_chunk batch))"
    unfolding answers_def by blast
  then show ?thesis by (simp add: req_chunk_def comp_def case_prod_unfold)
qed

section \<open>Storing a batch\<close>

lemma put_vectors_Inr:
  assumes "distinct (map fst rows)" and "\<forall>(i, v) \<in> set rows. length v = INDEX_DIM"
  shows "put_vectors quantise rows d =
    Inr (d\<lparr> xd_vectors := filter (\<lambda>(i, v). i \<notin> fst ` set rows) (xd_vectors d) @ map (\<lambda>(i, v). (i, map quantise v)) rows \<rparr>)"
  using assms
proof (induction rows arbitrary: d)
  case Nil
  then show ?case by simp
next
  case (Cons row rows)
  obtain i v where row: "row = (i, v)" by (cases row) auto
  have "filter (\<lambda>(j, u). j \<notin> fst ` set rows) (filter (\<lambda>(j, u). j \<noteq> i) (xd_vectors d) @ [(i, map quantise v)]) =
      filter (\<lambda>(j, u). j \<notin> insert i (fst ` set rows)) (xd_vectors d) @ [(i, map quantise v)]"
    using Cons.prems(1) row by (auto simp: case_prod_unfold conj_commute intro: filter_cong)
  with Cons row show ?case
    by (simp add: put_vector_def vec_to_int8_blob_def Let_def)
qed

text \<open>The index after the first \<open>n\<close> entries of the queue are stored.\<close>

definition with_vectors :: "(string \<Rightarrow> char) \<Rightarrow> (string \<Rightarrow> string) \<Rightarrow> queue \<Rightarrow> index_db \<Rightarrow> index_db" where
  "with_vectors quantise vec batch d =
     d\<lparr> xd_vectors := filter (\<lambda>(i, v). i \<notin> fst ` set batch) (xd_vectors d) @ map (stored_vector quantise vec) batch \<rparr>"

lemma with_vectors_Nil [simp]: "with_vectors quantise vec [] d = d"
  by (simp add: with_vectors_def)

lemma with_vectors_append:
  assumes "distinct (map fst (xs @ ys))"
  shows "with_vectors quantise vec ys (with_vectors quantise vec xs d) = with_vectors quantise vec (xs @ ys) d"
proof -
  have "filter (\<lambda>(i, v). i \<notin> fst ` set ys) (map (stored_vector quantise vec) xs) = map (stored_vector quantise vec) xs"
    using assms by (auto simp: filter_id_conv case_prod_unfold)
  then show ?thesis by (simp add: with_vectors_def case_prod_unfold conj_ac image_Un)
qed

lemma insert_batch:
  assumes "\<forall>content. length (vec content) = stride" and "distinct (map fst batch)"
    and "insert_embeddings quantise (batch_vectors (concat (map (\<lambda>(chunk_id, content, tc). vec content) batch)) batch) m = (r, m')"
  shows "r = Inl IxKilled \<and> m' = m \<or> r = Inr () \<and> ir_db m' = with_vectors quantise vec batch (ir_db m)"
proof -
  let ?rows = "map (\<lambda>(chunk_id, content, tc). (chunk_id, response_vec (vec content))) batch"
  have f: "map fst ?rows = map fst batch" by (simp add: case_prod_unfold)
  have l: "\<forall>(i, v) \<in> set ?rows. length v = INDEX_DIM" using assms(1) by (auto simp: response_dim)
  have m: "map (\<lambda>(i, v). (i, map quantise v)) ?rows = map (stored_vector quantise vec) batch"
    by (simp add: stored_vector_def case_prod_unfold)
  have s: "fst ` set ?rows = fst ` set batch" using f by (metis list.set_map)
  have "put_vectors quantise ?rows d = Inr (with_vectors quantise vec batch d)" for d
    unfolding with_vectors_def m [symmetric] s [symmetric] by (rule put_vectors_Inr, simp only: f assms(2), rule l)
  with assms(3) show ?thesis
    by (auto simp: batch_vectors_answer [OF assms(1)] insert_embeddings_def ix_write_def split: option.splits nat.splits)
qed

section \<open>The loop\<close>

lemma batch_tokens_pos: "0 < k \<Longrightarrow> queue \<noteq> [] \<Longrightarrow> batch_tokens (take k queue) \<noteq> 0"
  by (cases queue; cases k) (auto simp: batch_tokens_def)

lemma update_seeds: "tokens \<noteq> 0 \<Longrightarrow> rt_per_token (update_rate F rate elapsed tokens) \<noteq> None"
  by (simp add: update_rate_def Let_def)

lemma distinct_drop_fst: "distinct (map fst queue) \<Longrightarrow> distinct (map fst (drop k queue))" "distinct (map fst queue) \<Longrightarrow> distinct (map fst (take k queue))"
  by (simp_all flip: drop_map take_map)

lemma embed_batches_run:
  "answers vec E \<Longrightarrow> embed_batches F quantise E backoffs ceiling target num prev rate embedded queue w = (r, w') \<Longrightarrow> distinct (map fst queue) \<Longrightarrow>
    num = 0 \<or> rt_per_token rate \<noteq> None \<Longrightarrow>
    \<exists>n \<le> length queue. ir_db (ew_index w') = with_vectors quantise vec (take n queue) (ir_db (ew_index w)) \<and>
      (r = Inr (embedded + n) \<or> r = Inl (Em_Index IxKilled))"
proof (induction F quantise E backoffs ceiling target num prev rate embedded queue w rule: embed_batches.induct)
  case (1 F quantise E backoffs ceiling target num prev rate embedded queue w)
  note p = 1(3) [unfolded embed_batches.simps [of F quantise E backoffs ceiling target num prev rate embedded queue w]]
  show ?case
  proof (cases "queue = []")
    case True
    with p show ?thesis by auto
  next
    case False
    have "\<exists>n. batch_size F ceiling target (num + 1) prev rate queue = Inr n"
      using 1(5) by (auto simp: batch_size_def split: option.split)
    then obtain n where n: "batch_size F ceiling target (num + 1) prev rate queue = Inr n" by blast
    have n0: "0 < n" "n \<le> length queue" using batch_size_bounds [OF n False] by simp_all
    obtain b s where b: "retry_batch F E backoffs queue n rate False 0 0 (ew_server w) = (b, s)"
      by (cases "retry_batch F E backoffs queue n rate False 0 0 (ew_server w)") auto
    show ?thesis
    proof (cases b)
      case None
      with p False n b have "r = Inr embedded" "w' = w\<lparr> ew_server := s \<rparr>" by auto
      then show ?thesis by (intro exI [where x = 0]) simp
    next
      case (Some x)
      obtain bytes k rate' where x: "x = (bytes, k, rate')" by (cases x) auto
      note b = b [unfolded Some x]
      from retry_batch_last [OF b n0(1)] obtain timeout s0 reply elapsed rate0 where
        k: "0 < k" "k \<le> n" and send: "es_send E timeout (map req_chunk (take k queue)) s0 = (reply, elapsed, s)"
        and ans: "embed_one_batch reply k = Em_Bytes bytes" and rate': "rate' = update_rate F rate0 elapsed (batch_tokens (take k queue))"
        by blast
      have bytes: "bytes = concat (map (\<lambda>(chunk_id, content, tc). vec content) (take k queue))"
        by (rule answered_bytes [OF _ send ans]) (rule 1(2))
      have v: "\<forall>content. length (vec content) = stride" using 1(2) by (simp add: answers_def)
      obtain r1 m1 where ins: "insert_embeddings quantise (batch_vectors bytes (take k queue)) (ew_index w) = (r1, m1)"
        by (cases "insert_embeddings quantise (batch_vectors bytes (take k queue)) (ew_index w)") auto
      from insert_batch [OF v distinct_drop_fst(2) [OF 1(4)] ins [unfolded bytes]]
      consider "r1 = Inl IxKilled" "m1 = ew_index w" | "r1 = Inr ()" "ir_db m1 = with_vectors quantise vec (take k queue) (ir_db (ew_index w))"
        by blast
      then show ?thesis
      proof cases
        case 1
        with p False n b ins have "r = Inl (Em_Index IxKilled)" "w' = w\<lparr> ew_server := s, ew_index := ew_index w \<rparr>"
          by (auto simp: on_index_def)
        then show ?thesis by (intro exI [where x = 0]) simp
      next
        case 2
        let ?w1 = "w\<lparr> ew_server := s, ew_index := m1 \<rparr>"
        have on: "on_index (insert_embeddings quantise (batch_vectors bytes (take k queue))) (w\<lparr> ew_server := s \<rparr>) = (Inr (), ?w1)"
          using ins 2(1) by (simp add: on_index_def)
        have rest: "embed_batches F quantise E backoffs ceiling target (num + 1) k rate' (embedded + k) (drop k queue) ?w1 = (r, w')"
          using p False n b on by simp
        have seeded: "rt_per_token rate' \<noteq> None" unfolding rate' by (rule update_seeds [OF batch_tokens_pos [OF k(1) False]])
        from "1.IH" [OF False n b [symmetric] refl refl refl on [symmetric] refl 1(2) rest distinct_drop_fst(1) [OF 1(4)]] seeded
        obtain j where j: "j \<le> length (drop k queue)"
          "ir_db (ew_index w') = with_vectors quantise vec (take j (drop k queue)) (ir_db (ew_index ?w1))"
          "r = Inr (embedded + k + j) \<or> r = Inl (Em_Index IxKilled)" by blast
        have t: "take (k + j) queue = take k queue @ take j (drop k queue)" by (simp add: take_add)
        have "distinct (map fst (take k queue @ take j (drop k queue)))" unfolding t [symmetric] by (rule distinct_drop_fst(2) [OF 1(4)])
        from with_vectors_append [OF this] j(2) 2(2)
        have "ir_db (ew_index w') = with_vectors quantise vec (take (k + j) queue) (ir_db (ew_index w))" by (simp add: t)
        moreover have "k + j \<le> length queue" using j(1) k n0 by simp
        ultimately show ?thesis using j(3) by (intro exI [where x = "k + j"]) (simp add: add.assoc)
      qed
    qed
  qed
qed

section \<open>The phase\<close>

definition same_index :: "index_db \<Rightarrow> index_db \<Rightarrow> bool" where
  "same_index d d' \<longleftrightarrow> xd_files d' = xd_files d \<and> xd_chunks d' = xd_chunks d \<and> xd_edges d' = xd_edges d"

lemma same_index_with [simp]: "same_index d (with_vectors quantise vec batch d)"
  by (simp add: same_index_def with_vectors_def)

text \<open>The provenance is in a table of its own.\<close>

definition only_meta :: "index_db \<Rightarrow> index_db \<Rightarrow> bool" where
  "only_meta d d' \<longleftrightarrow> d' = d\<lparr> xd_meta := xd_meta d' \<rparr>"

lemma only_meta_trans: "only_meta d d1 \<Longrightarrow> only_meta d1 d2 \<Longrightarrow> only_meta d d2"
  unfolding only_meta_def by (metis index_db.surjective index_db.update_convs(7))

lemma exec_meta: "(\<And>d. only_meta d (f d)) \<Longrightarrow> only_meta (ir_db m) (ir_db (snd (ix_exec f m)))"
  by (auto simp: ix_exec_def ix_write_def only_meta_def split: option.split nat.split)

lemma provenance_meta:
  "only_meta (ir_db m) (ir_db (snd (ensure_embedding_model model_id m)))"
  "only_meta (ir_db m) (ir_db (snd (ensure_chunker_config config m)))"
proof -
  have x: "only_meta (ir_db m) (ir_db (snd (st_bind (ix_exec f) g m)))"
    if "\<And>d. only_meta d (f d)" "\<And>u m. snd (g u m) = m" for f and g :: "unit \<Rightarrow> 'b ix"
    using exec_meta [of f m] that by (auto simp: st_bind_def split: prod.splits sum.splits)
  have p: "only_meta d (put_meta k v d)" for d k v by (simp add: put_meta_def only_meta_def)
  show "only_meta (ir_db m) (ir_db (snd (ensure_embedding_model model_id m)))"
    using exec_meta [of "\<lambda>d. put_meta ''embedding_dim'' (nat_digits INDEX_DIM) (put_meta ''embedding_model'' model_id d)" m]
    by (auto simp: ensure_embedding_model_def embedding_model_def ix_read_def st_bind_def st_runs only_meta_trans [OF p p] split: option.split)
       (simp_all add: only_meta_def)
  show "only_meta (ir_db m) (ir_db (snd (ensure_chunker_config config m)))"
    using x [OF p, of "\<lambda>_. st_ok None"]
    by (auto simp: ensure_chunker_config_def chunker_config_def stamp_chunker_config_def ix_read_def st_bind_def st_runs split: option.split)
       (simp_all add: only_meta_def)
qed

lemma on_index_state: "on_index m w = (r, w') \<Longrightarrow> w' = w\<lparr> ew_index := snd (m (ew_index w)) \<rparr>"
  by (auto simp: on_index_def split: prod.splits sum.splits)

lemma meta_vectors:
  "only_meta d d' \<Longrightarrow> same_index d d' \<and> xd_vectors d' = xd_vectors d"
  unfolding only_meta_def same_index_def by (metis index_db.select_convs index_db.surjective index_db.update_convs(7))

definition stored_prefix :: "(string \<Rightarrow> char) \<Rightarrow> (string \<Rightarrow> string) \<Rightarrow> queue \<Rightarrow> index_db \<Rightarrow> index_db \<Rightarrow> bool" where
  "stored_prefix quantise vec batch d d' \<longleftrightarrow> same_index d d' \<and>
     xd_vectors d' = filter (\<lambda>(i, v). i \<notin> fst ` set batch) (xd_vectors d) @ map (stored_vector quantise vec) batch"

lemma stored_prefix_meta: "only_meta d d1 \<Longrightarrow> stored_prefix quantise vec batch d (with_vectors quantise vec batch d1)"
  by (auto simp: stored_prefix_def with_vectors_def same_index_def dest!: meta_vectors)

lemma stored_prefix_none: "only_meta d d' \<Longrightarrow> stored_prefix quantise vec [] d d'"
  using stored_prefix_meta [of d d' quantise vec "[]"] by simp

lemma phase_stores_prefix:
  assumes "answers vec E" and "distinct (map fst queue)"
    and "run_embed_phase_with_backoff F quantise E model_id config tier requested backoffs queue w = (r, w')"
  shows "\<exists>n \<le> length queue. stored_prefix quantise vec (take n queue) (ir_db (ew_index w)) (ir_db (ew_index w')) \<and>
    (\<forall>k. r = Inr k \<longrightarrow> k = n) \<and> r \<noteq> Inl Em_Unseeded"
proof (cases tier)
  case Tier_Offline
  with assms(3) have "r = Inr 0" "w' = w" by (simp_all add: run_embed_phase_with_backoff_def st_ok_def)
  then show ?thesis by (intro exI [where x = 0]) (simp add: stored_prefix_none only_meta_def)
next
  case (Tier_Server limits bearer client)
  let ?none = "\<exists>n \<le> length queue. stored_prefix quantise vec (take n queue) (ir_db (ew_index w)) (ir_db (ew_index w')) \<and>
    (\<forall>k. r = Inr k \<longrightarrow> k = n) \<and> r \<noteq> Inl Em_Unseeded"
  let ?d = "ir_db (ew_index w)"
  have none: ?none if "only_meta ?d (ir_db (ew_index w'))" "r = Inl e" "e \<noteq> Em_Unseeded" for e
    using that by (intro exI [where x = 0]) (simp add: stored_prefix_none)
  obtain r1 w1 where 1: "on_index (ensure_embedding_model model_id) w = (r1, w1)" by (cases "on_index (ensure_embedding_model model_id) w") auto
  obtain r2 w2 where 2: "on_index (ensure_chunker_config config) w1 = (r2, w2)" by (cases "on_index (ensure_chunker_config config) w1") auto
  have m1: "only_meta ?d (ir_db (ew_index w1))"
    unfolding on_index_state [OF 1] using provenance_meta(1) by simp
  have m2: "only_meta ?d (ir_db (ew_index w2))"
    using only_meta_trans [OF m1] provenance_meta(2) [of "ew_index w1" config] on_index_state [OF 2] by simp
  have e: "r1 \<noteq> Inl Em_Unseeded" "r2 \<noteq> Inl Em_Unseeded"
    using 1 2 by (auto simp: on_index_def split: prod.splits sum.splits)
  consider "\<not> bearer" | e where "bearer" "r1 = Inl e" | x e where "bearer" "r1 = Inr x" "r2 = Inl e"
    | x y where "bearer" "r1 = Inr x" "r2 = Inr y" "\<not> client" | x y where "bearer" "r1 = Inr x" "r2 = Inr y" "client"
    by (metis sum.exhaust)
  then show ?thesis
  proof cases
    case 1
    with assms(3) Tier_Server have "r = Inl Em_NoBearer" "w' = w" by (simp_all add: run_embed_phase_with_backoff_def st_err_def)
    then show ?thesis by (intro none [of Em_NoBearer]) (simp_all add: only_meta_def)
  next
    case (2 er)
    with assms(3) Tier_Server 1 have "r = Inl er" "w' = w1" by (simp_all add: run_embed_phase_with_backoff_def st_bind_def)
    with 2 m1 e show ?thesis by (intro none [of er]) auto
  next
    case (3 x er)
    with assms(3) Tier_Server 1 2 have "r = Inl er" "w' = w2" by (simp_all add: run_embed_phase_with_backoff_def st_bind_def)
    with 3 m2 e show ?thesis by (intro none [of er]) auto
  next
    case (4 x y)
    with assms(3) Tier_Server 1 2 have "r = Inl Em_NoClient" "w' = w2"
      by (simp_all add: run_embed_phase_with_backoff_def st_bind_def st_err_def)
    with m2 show ?thesis by (intro none [of Em_NoClient]) auto
  next
    case (5 x y)
    with assms(3) Tier_Server 1 2 have b: "embed_batches F quantise E backoffs (resolve_batch_ceiling requested (Option.bind limits el_max_batch_chunks))
        (resolve_target_batch_seconds F limits) 0 1 new_rate 0 queue w2 = (r, w')"
      by (simp add: run_embed_phase_with_backoff_def st_bind_def)
    from embed_batches_run [OF assms(1) b assms(2)] obtain n where
      n: "n \<le> length queue" "ir_db (ew_index w') = with_vectors quantise vec (take n queue) (ir_db (ew_index w2))"
      "r = Inr (0 + n) \<or> r = Inl (Em_Index IxKilled)" by auto
    from stored_prefix_meta [OF m2, of quantise vec "take n queue"] n show ?thesis by (intro exI [where x = n]) auto
  qed
qed

section \<open>What is left\<close>

text \<open>A chunk is missing from the index after a prefix of its queue is stored iff it is in the rest.\<close>

lemma rest_is_missing:
  assumes "index_inv d" and "set queue = queue_entry X ` set (unembedded d)" and "distinct (map fst queue)"
    and "stored_prefix quantise vec (take n queue) d d'"
  shows "queue_entry X ` set (unembedded d') = set (drop n queue)"
proof -
  have f: "file_of d' c = file_of d c" "xd_chunks d' = xd_chunks d" for c using assms(4) by (simp_all add: stored_prefix_def same_index_def file_of_def)
  have v: "fst ` set (xd_vectors d') = (fst ` set (xd_vectors d)) \<union> fst ` set (take n queue)"
    using assms(4) by (force simp: stored_prefix_def image_Un image_image)
  have u: "set (unembedded d') = {c \<in> set (unembedded d). ck_id c \<notin> fst ` set (take n queue)}"
    by (auto simp: unembedded_def f v)
  have d: "fst ` set (take n queue) \<inter> fst ` set (drop n queue) = {}"
    using assms(3) by (metis append_take_drop_id distinct_append list.set_map map_append)
  have s: "set queue = set (take n queue) \<union> set (drop n queue)" by (metis append_take_drop_id set_append)
  show ?thesis
  proof
    show "queue_entry X ` set (unembedded d') \<subseteq> set (drop n queue)"
    proof
      fix e assume "e \<in> queue_entry X ` set (unembedded d')"
      then obtain c where c: "c \<in> set (unembedded d)" "ck_id c \<notin> fst ` set (take n queue)" "e = queue_entry X c" by (auto simp: u)
      then have "e \<in> set queue" using assms(2) by auto
      moreover have "e \<notin> set (take n queue)" using c(2,3) by (metis entry_id image_eqI)
      ultimately show "e \<in> set (drop n queue)" using s by blast
    qed
    show "set (drop n queue) \<subseteq> queue_entry X ` set (unembedded d')"
    proof
      fix e assume e: "e \<in> set (drop n queue)"
      with s assms(2) obtain c where c: "c \<in> set (unembedded d)" "e = queue_entry X c" by blast
      have "ck_id c \<notin> fst ` set (take n queue)" using e c(2) d by (metis IntI empty_iff entry_id image_eqI)
      with c show "e \<in> queue_entry X ` set (unembedded d')" by (simp add: u)
    qed
  qed
qed

text \<open>C37: An index run can be resumed from wherever its embed phase stops.  After the parse phase and the embed phase, the
  index holds, beside the vectors of other chunks, the vectors of the first \<open>n\<close> entries of the queue, each that of its own
  text, where \<open>n\<close> is what the phase reports if it returns; and the chunks that still have no vector, which the next
  run queues, are exactly the rest of the queue.  This holds for every server that answers a request with its vectors or
  an error, and when the process is killed; the phase never meets an unseeded rate.\<close>
theorem embed_resumes_exactly:
  assumes "run_parse_phase X D force config base_dir files filtered m = (Inr p, m')" and "files \<noteq> []"
    and "distinct (map (path_key base_dir) files)" and "text_laws X" and "owned_inv (ir_db m)" and "answers vec E"
    and "run_embed_phase F quantise E model_id config tier requested (pr_queue p) \<lparr> ew_index = m', ew_server = s \<rparr> = (r, w')"
  shows "\<exists>n \<le> length (pr_queue p). (\<forall>k. r = Inr k \<longrightarrow> k = n) \<and> r \<noteq> Inl Em_Unseeded \<and>
    (\<forall>e \<in> set (take n (pr_queue p)). stored_vector quantise vec e \<in> set (xd_vectors (ir_db (ew_index w')))) \<and>
    queue_entry X ` set (unembedded (ir_db (ew_index w'))) = set (drop n (pr_queue p))"
proof -
  have q: "distinct (map fst (pr_queue p))" "set (pr_queue p) = queue_entry X ` set (unembedded (ir_db m'))"
    using queue_of_run [OF assms(1-5)] by simp_all
  have "owned_inv (ir_db m')" using withinD [OF run_parse_phase_owned assms(1)] assms(5) by (simp add: keeping_def)
  then have inv: "index_inv (ir_db m')" by (simp add: owned_inv_def)
  from phase_stores_prefix [OF assms(6) q(1) assms(7) [unfolded run_embed_phase_def]] obtain n where
    n: "n \<le> length (pr_queue p)" "stored_prefix quantise vec (take n (pr_queue p)) (ir_db m') (ir_db (ew_index w'))"
    "\<forall>k. r = Inr k \<longrightarrow> k = n" "r \<noteq> Inl Em_Unseeded" by auto
  have "\<forall>e \<in> set (take n (pr_queue p)). stored_vector quantise vec e \<in> set (xd_vectors (ir_db (ew_index w')))"
    using n(2) by (auto simp: stored_prefix_def)
  with rest_is_missing [OF inv q(2,1) n(2)] n(1,3,4) show ?thesis by blast
qed

end
