(* ===== verification/IndexRuns.thy ===== *)
theory IndexRuns
  imports IndexQueue
begin

text \<open>Runs of the parse phase over a few files: a whole run, runs that are killed, an empty tree, and a key in a text.\<close>

text \<open>The text after the \<open>x\<close> is the docstring; a line of a text is a chunk, named \<open>s\<close>, and every word of more than
  three letters is mentioned.\<close>

definition small_indexer :: indexer where
  "small_indexer =
     \<lparr> xr_language = (\<lambda>p. None), xr_text_language = (\<lambda>p. Some ''markdown''),
       xr_doc_language = (\<lambda>p. if p = ''a.docx'' then Some ''docx'' else None), xr_hash = id,
       xr_parse = (\<lambda>s k l. Some (sliding_window 1 s k l (Some ''s'') None None)),
       xr_parse_doc = (\<lambda>s k l. sliding_window 1 s k l None None None),
       xr_edges = (\<lambda>s k l. Some []), xr_mentions = (\<lambda>s l. if length s < 4 then [] else [s]),
       xr_secret = (\<lambda>s. drop 17 s = ''AKIA''), xr_metadata = (\<lambda>doc scope. case doc of None \<Rightarrow> [] | Some s \<Rightarrow> ''x'' @ s),
       xr_docstring = (\<lambda>m. case m of [] \<Rightarrow> None | x # s \<Rightarrow> Some s) \<rparr>"

definition small_tree :: "(string \<times> string) list \<Rightarrow> source_tree" where
  "small_tree fs =
     \<lparr> dv_size = (\<lambda>p. None), dv_modified = (\<lambda>p. Some 3), dv_read = map_of fs,
       dv_binary = (\<lambda>p. False), dv_pdf_pages = (\<lambda>p. None) \<rparr>"

definition new_index :: index_db where
  "new_index =
     \<lparr> xd_files = [], xd_chunks = [], xd_vectors = [], xd_edges = [], xd_specs = [], xd_links = [], xd_meta = [],
       xd_file_seq = 0, xd_chunk_seq = 0, xd_spec_seq = 0, xd_now = 7, xd_burns = False \<rparr>"

definition small_run :: "nat option \<Rightarrow> index_db \<Rightarrow> (string \<times> string) list \<Rightarrow> index_run" where
  "small_run budget d fs =
     snd (run_parse_phase small_indexer (small_tree fs) False [] [] (map fst fs) 0 \<lparr> ir_db = d, ir_budget = budget \<rparr>)"

text \<open>Two lines, two chunks.\<close>

definition two_lines :: string where
  "two_lines = ''ab'' @ [nl] @ ''cd''"

definition contents :: "index_db \<Rightarrow> string list" where
  "contents d = map ck_content (xd_chunks d)"

lemma whole_run: "contents (ir_db (small_run None new_index [(''a.md'', two_lines)])) = [''ab'', ''cd'']"
  by code_simp

text \<open>Killed after the hash is written: recovered for a text, not for a document.\<close>

lemma killed_text: "contents (ir_db (small_run (Some 1) new_index [(''a.md'', two_lines)])) = []"
  by code_simp

lemma killed_text_recovered:
  "contents (ir_db (small_run None (ir_db (small_run (Some 1) new_index [(''a.md'', two_lines)])) [(''a.md'', two_lines)])) = [''ab'', ''cd'']"
  by code_simp


text \<open>A tree without files leaves the records of the files that were there.\<close>

lemma empty_tree_keeps_records:
  "ir_db (small_run None (ir_db (small_run None new_index [(''a.md'', two_lines)])) []) = ir_db (small_run None new_index [(''a.md'', two_lines)])"
  by code_simp

text \<open>The chunk with the key is dropped, and the edge that mentions the key is stored.\<close>

lemma secret_in_edges:
  "contents (ir_db (small_run None new_index [(''a.md'', ''AKIA'')])) = [] \<and>
   map ge_target_name (xd_edges (ir_db (small_run None new_index [(''a.md'', ''AKIA'')]))) = [''AKIA'']"
  by code_simp

section \<open>The properties on a small tree\<close>

abbreviation small_phase :: "(string \<times> string) list \<Rightarrow> parse_result ix" where
  "small_phase fs \<equiv> run_parse_phase small_indexer (small_tree fs) False [] [] (map fst fs) 0"

lemma small_returns:
  "small_phase [(''a.md'', two_lines)] \<lparr> ir_db = new_index, ir_budget = None \<rparr> =
     (Inr \<lparr> pr_queue = [(1, ''title: s | text: ab'', 1), (2, ''title: s | text: cd'', 1)], pr_indexed = 1, pr_removed = 0, pr_filtered = 0 \<rparr>,
      small_run None new_index [(''a.md'', two_lines)])"
proof -
  have "fst (small_phase [(''a.md'', two_lines)] \<lparr> ir_db = new_index, ir_budget = None \<rparr>) =
      Inr \<lparr> pr_queue = [(1, ''title: s | text: ab'', 1), (2, ''title: s | text: cd'', 1)], pr_indexed = 1, pr_removed = 0, pr_filtered = 0 \<rparr>"
    by code_simp
  then show ?thesis unfolding small_run_def by (simp add: prod_eq_iff)
qed

lemma small_text_laws: "text_laws small_indexer"
proof -
  have "ch_summary c = None" if "c \<in> set (sliding_window 1 s k l nm None None)" for c s k l nm
    using that by (auto simp: sliding_window_def Let_def window_chunk_def)
  then show ?thesis by (auto simp: text_laws_def small_indexer_def split: option.split)
qed

lemma new_index_inv: "owned_inv new_index" "index_inv new_index"
  by (simp_all add: owned_inv_def index_inv_def files_ok_def chunks_ok_def vectors_ok_def specs_ok_def vectors_owned_def new_index_def)


theorem no_secret_chunk_stored_witness:
  "\<exists>c \<in> set (xd_chunks (ir_db (small_run None new_index [(''a.md'', two_lines)]))).
     \<not> xr_secret small_indexer (reconstruct_embedding_text small_indexer (ck_name c) (ck_metadata c) None (ck_content c))"
proof -
  have "contents (ir_db (small_run None new_index [(''a.md'', two_lines)])) = [''ab'', ''cd'']" by (rule whole_run)
  then obtain c where c: "c \<in> set (xd_chunks (ir_db (small_run None new_index [(''a.md'', two_lines)])))"
    by (metis contents_def list.set_intros(1) list.simps(8) neq_Nil_conv)
  have "c \<notin> set (xd_chunks (ir_db \<lparr> ir_db = new_index, ir_budget = None \<rparr>))" by (simp add: new_index_def)
  from no_secret_chunk_stored [OF small_text_laws small_returns c this] c show ?thesis by blast
qed

theorem embed_queue_exact_witness:
  "queue_entry small_indexer ` set (unembedded (ir_db (small_run None new_index [(''a.md'', two_lines)]))) =
     {(1, ''title: s | text: ab'', 1), (2, ''title: s | text: cd'', 1)}"
  using embed_queue_exact [OF small_returns _ _ small_text_laws] new_index_inv(1) by simp

theorem sliding_window_covers_witness:
  "\<exists>c \<in> set (sliding_window 1 two_lines [] [] None None None). ch_start_line c \<le> 2 \<and> 2 \<le> ch_end_line c"
proof -
  have "str_lines two_lines = [''ab'', ''cd'']" by code_simp
  then have "1 < length (str_lines two_lines)" by simp
  with sliding_window_covers [of two_lines 1 "[]" "[]" None None None] show ?thesis
    unfolding Let_def by (metis one_add_one)
qed

end
