(* ===== verification/EmbedLive.thy ===== *)
theory EmbedLive
  imports EmbedSpec IndexRuns
begin

text \<open>
  Which requests the embed phase sends, a server with which it always completes, and one with which it
  does not although every batch the server announced to take would have been answered.
\<close>

section \<open>The size of a request\<close>

lemma fitting_bound: "fitting F target per_token tcs len tokens \<le> len + length tcs"
proof (induction tcs arbitrary: len tokens)
  case (Cons tc tcs)
  from Cons [of "len + 1" "tokens + max tc 1"] show ?case by (auto simp: Let_def)
qed simp

lemma next_batch_len_bound: "next_batch_len F per_token tail ceiling prev target \<le> max ceiling 1"
proof -
  obtain cap where c: "cap = min (max prev 1 * GROWTH_FACTOR) (max ceiling 1)" by simp
  then have "cap \<le> max ceiling 1" by simp
  moreover have "fitting F target per_token (take cap tail) 0 0 \<le> cap"
    using fitting_bound [of F target per_token "take cap tail" 0 0] by simp
  ultimately show ?thesis unfolding next_batch_len_def Let_def c [symmetric] by auto
qed

lemma batch_size_bound: "batch_size F ceiling target num prev rate queue = Inr n \<Longrightarrow> n \<le> max ceiling 4"
proof -
  assume n: "batch_size F ceiling target num prev rate queue = Inr n"
  have "\<exists>k. n = min (length queue) (max 1 k) \<and> (k = 1 \<or> k = 4 \<or> k \<le> max ceiling 1)"
  proof (cases "num = 1 \<or> num = 2")
    case True
    with n have "n = min (length queue) (max 1 1) \<or> n = min (length queue) (max 1 4)"
      by (auto simp: batch_size_def CALIBRATION_BATCH_1_def CALIBRATION_BATCH_2_def)
    then show ?thesis by blast
  next
    case False
    with n obtain p where "n = min (length queue) (max 1 (next_batch_len F p (map (\<lambda>(chunk_id, content, tc). tc) queue) ceiling prev target))"
      by (auto simp: batch_size_def split: option.splits)
    with next_batch_len_bound show ?thesis by blast
  qed
  then show ?thesis by auto
qed

definition keeps_server :: "('s \<Rightarrow> bool) \<Rightarrow> nat \<Rightarrow> 's embed_server \<Rightarrow> bool" where
  "keeps_server P limit E \<longleftrightarrow> (\<forall>s. P s \<longrightarrow> (\<forall>d. P (es_sleep E d s)) \<and>
     (\<forall>d cs. cs \<noteq> [] \<longrightarrow> length cs \<le> limit \<longrightarrow> P (snd (snd (es_send E d cs s)))))"

lemma retry_batch_keeps:
  "keeps_server P limit E \<Longrightarrow> P s \<Longrightarrow> 0 < n \<Longrightarrow> n \<le> limit \<Longrightarrow> queue \<noteq> [] \<Longrightarrow> P (snd (retry_batch F E backoffs queue n rate escalated cf sr s))"
proof (induction F E backoffs queue n rate escalated cf sr s rule: retry_batch.induct)
  case (1 F E backoffs queue n rate escalated cf sr s)
  let ?tokens = "batch_tokens (take n queue)"
  obtain timeout where t: "timeout = (case rt_per_token rate of Some per_token \<Rightarrow> batch_timeout F per_token ?tokens
      | None \<Rightarrow> if escalated then MAX_REQUEST_TIMEOUT else FIRST_REQUEST_TIMEOUT)" by simp
  obtain reply elapsed s1 where send: "es_send E timeout (map req_chunk (take n queue)) s = (reply, elapsed, s1)"
    by (cases "es_send E timeout (map req_chunk (take n queue)) s") auto
  have s1: "P s1" using 1(5-9) send unfolding keeps_server_def
    by (metis (no_types, lifting) Nil_is_map_conv gr_implies_not0 le_trans length_map length_take min.cobounded2 snd_conv take_eq_Nil)
  have sleep: "P (es_sleep E d s1)" for d using 1(5) s1 by (simp add: keeps_server_def)
  note r = retry_batch.simps [of F E backoffs queue n rate escalated cf sr s, unfolded Let_def t [symmetric] send prod.case]
  show ?case
  proof (cases "embed_one_batch reply n")
    case (Em_Bytes b)
    with s1 show ?thesis by (subst r) simp
  next
    case Em_BudgetExceeded
    have m: "0 < max (n div 2) 1" "max (n div 2) 1 \<le> limit" using 1(7,8) by auto
    show ?thesis
      using 1(1) [OF refl t send [symmetric] refl Em_BudgetExceeded] 1(2) [OF refl t send [symmetric] refl Em_BudgetExceeded _ refl]
        1(5,7-9) s1 m Em_BudgetExceeded
      by (subst r) (simp split: if_split)
  next
    case Em_ConnectFailure
    with 1(3) [OF refl t send [symmetric] refl Em_ConnectFailure] 1(5,7-9) s1 sleep show ?thesis
      by (subst r) simp
  next
    case (Em_Saturated w)
    with 1(4) [OF refl t send [symmetric] refl Em_Saturated] 1(5,7-9) s1 sleep show ?thesis
      by (subst r) simp
  next
    case Em_Other
    with s1 show ?thesis by (subst r) simp
  qed
qed

lemma embed_batches_keeps:
  "keeps_server P (max ceiling 4) E \<Longrightarrow> P (ew_server w) \<Longrightarrow>
     P (ew_server (snd (embed_batches F quantise E backoffs ceiling target num prev rate embedded queue w)))"
proof (induction F quantise E backoffs ceiling target num prev rate embedded queue w rule: embed_batches.induct)
  case (1 F quantise E backoffs ceiling target num prev rate embedded queue w)
  note r = embed_batches.simps [of F quantise E backoffs ceiling target num prev rate embedded queue w]
  show ?case
  proof (cases "queue = []")
    case False
    show ?thesis
    proof (cases "batch_size F ceiling target (num + 1) prev rate queue")
      case (Inr n)
      obtain b s where b: "retry_batch F E backoffs queue n rate False 0 0 (ew_server w) = (b, s)"
        by (cases "retry_batch F E backoffs queue n rate False 0 0 (ew_server w)") auto
      have "0 < n" "n \<le> max ceiling 4" using batch_size_bounds [OF Inr False] batch_size_bound [OF Inr] by simp_all
      with retry_batch_keeps [OF 1(2,3) _ _ False] b have s: "P s" by (metis snd_conv)
      show ?thesis
      proof (cases b)
        case None
        with False Inr b s show ?thesis by (subst r) simp
      next
        case (Some x)
        obtain bytes k rate' where x: "x = (bytes, k, rate')" by (cases x) auto
        obtain r1 w1 where on: "on_index (insert_embeddings quantise (batch_vectors bytes (take k queue))) (w\<lparr> ew_server := s \<rparr>) = (r1, w1)"
          by (cases "on_index (insert_embeddings quantise (batch_vectors bytes (take k queue))) (w\<lparr> ew_server := s \<rparr>)") auto
        have w1: "P (ew_server w1)" using on_index_state [OF on] s by simp
        show ?thesis
        proof (cases r1)
          case (Inl e)
          with False Inr b Some x on w1 show ?thesis by (subst r) simp
        next
          case r1: (Inr u)
          from 1(1) [OF False Inr b [symmetric] Some x [symmetric] refl on [symmetric] r1 1(2) w1] False Inr b Some x on r1 show ?thesis
            by (subst r) simp
        qed
      qed
    qed (use False 1(3) in \<open>subst r, simp\<close>)
  qed (use 1(3) in \<open>subst r, simp\<close>)
qed

section \<open>A server that answers\<close>

text \<open>Every request of up to \<open>cap\<close> chunks is answered with its vectors, every larger one refused.\<close>

definition serves :: "(string \<Rightarrow> string) \<Rightarrow> nat \<Rightarrow> 's embed_server \<Rightarrow> bool" where
  "serves vec cap E \<longleftrightarrow> (\<forall>content. length (vec content) = stride) \<and>
     (\<forall>d cs s. \<exists>elapsed s'. es_send E d cs s =
        (if length cs \<le> cap then Rp_Response 200 None (Some (concat (map (\<lambda>(chunk_id, content). vec content) cs)))
         else Rp_Response 413 None None, elapsed, s'))"

lemma serves_answers: "serves vec cap E \<Longrightarrow> answers vec E"
  unfolding serves_def answers_def
proof (intro conjI allI impI; elim conjE)
  fix d cs s status header bytes elapsed s'
  assume s: "\<forall>d cs s. \<exists>elapsed s'. es_send E d cs s =
        (if length cs \<le> cap then Rp_Response 200 None (Some (concat (map (\<lambda>(chunk_id, content). vec content) cs)))
         else Rp_Response 413 None None, elapsed, s')"
    and "es_send E d cs s = (Rp_Response status header (Some bytes), elapsed, s')"
  with s [rule_format, of d cs s] show "400 \<le> status \<and> status < 600 \<or> bytes = concat (map (\<lambda>(chunk_id, content). vec content) cs)"
    by (auto split: if_splits)
qed blast

lemma length_answer:
  "\<forall>content. length (vec content) = stride \<Longrightarrow> length (concat (map (\<lambda>(chunk_id, content). vec content) cs)) = length cs * stride"
  by (induction cs) auto

lemma retry_served:
  assumes "serves vec cap E" and "n \<le> length queue"
  shows "\<exists>bytes elapsed s'. retry_batch F E backoffs queue n rate escalated cf sr s =
    (if n \<le> cap then Some (bytes, n, update_rate F rate elapsed (batch_tokens (take n queue))) else None, s')"
proof -
  let ?tokens = "batch_tokens (take n queue)" and ?cs = "map req_chunk (take n queue)"
  obtain timeout where t: "timeout = (case rt_per_token rate of Some per_token \<Rightarrow> batch_timeout F per_token ?tokens
      | None \<Rightarrow> if escalated then MAX_REQUEST_TIMEOUT else FIRST_REQUEST_TIMEOUT)" by simp
  have n: "length ?cs = n" using assms(2) by simp
  have v: "\<forall>content. length (vec content) = stride" using assms(1) by (simp add: serves_def)
  obtain elapsed s' where send: "es_send E timeout ?cs s =
      (if n \<le> cap then Rp_Response 200 None (Some (concat (map (\<lambda>(chunk_id, content). vec content) ?cs))) else Rp_Response 413 None None, elapsed, s')"
    using assms(1) n unfolding serves_def by metis
  have l: "length (concat (map (\<lambda>(chunk_id, content). vec content) ?cs)) = n * stride" using length_answer [OF v, of ?cs] n by simp
  note r = retry_batch.simps [of F E backoffs queue n rate escalated cf sr s, unfolded Let_def t [symmetric] send prod.case]
  show ?thesis
  proof (cases "n \<le> cap")
    case True
    then show ?thesis
      by (subst r) (simp add: embed_one_batch_def l del: length_concat map_map, blast)
  next
    case False
    then show ?thesis by (subst r) (simp add: embed_one_batch_def)
  qed
qed

lemma put_vectors_error: "put_vectors quantise rows d = Inl e \<Longrightarrow> e = IxDimension"
  by (induction rows arbitrary: d) (auto simp: put_vector_def Let_def bind_res_def split: prod.splits if_splits sum.splits)

lemma insert_unkilled:
  "insert_embeddings quantise rows m = (r, m') \<Longrightarrow> ir_budget m = None \<Longrightarrow> r \<noteq> Inl IxKilled \<and> ir_budget m' = None"
  using put_vectors_error [of quantise rows "ir_db m"]
  by (auto simp: insert_embeddings_def ix_write_def bind_res_def split: sum.splits)

text \<open>One turn of the loop.\<close>

lemma batch_served:
  assumes "serves vec cap E" and "queue \<noteq> []" and "distinct (map fst queue)" and "num = 0 \<or> rt_per_token rate \<noteq> None"
    and "ir_budget (ew_index w) = None"
  shows "\<exists>n. batch_size F ceiling target (num + 1) prev rate queue = Inr n \<and> 0 < n \<and> n \<le> length queue \<and> n \<le> max ceiling 4 \<and>
    (if n \<le> cap
     then \<exists>rate' w1. rt_per_token rate' \<noteq> None \<and> ir_budget (ew_index w1) = None \<and>
       embed_batches F quantise E backoffs ceiling target num prev rate embedded queue w =
       embed_batches F quantise E backoffs ceiling target (num + 1) n rate' (embedded + n) (drop n queue) w1
     else fst (embed_batches F quantise E backoffs ceiling target num prev rate embedded queue w) = Inr embedded)"
proof -
  note r = embed_batches.simps [of F quantise E backoffs ceiling target num prev rate embedded queue w]
  have "\<exists>n. batch_size F ceiling target (num + 1) prev rate queue = Inr n"
    using assms(4) by (auto simp: batch_size_def split: option.split)
  then obtain n where n: "batch_size F ceiling target (num + 1) prev rate queue = Inr n" by blast
  have n0: "0 < n" "n \<le> length queue" using batch_size_bounds [OF n assms(2)] by simp_all
  from retry_served [OF assms(1) n0(2)] obtain bytes elapsed s where
    b: "retry_batch F E backoffs queue n rate False 0 0 (ew_server w) =
      (if n \<le> cap then Some (bytes, n, update_rate F rate elapsed (batch_tokens (take n queue))) else None, s)" by blast
  show ?thesis
  proof (cases "n \<le> cap")
    case True
    let ?rate = "update_rate F rate elapsed (batch_tokens (take n queue))"
    have b: "retry_batch F E backoffs queue n rate False 0 0 (ew_server w) = (Some (bytes, n, ?rate), s)" using b True by simp
    obtain timeout s0 reply el where send: "es_send E timeout (map req_chunk (take n queue)) s0 = (reply, el, s)"
      and ans: "embed_one_batch reply n = Em_Bytes bytes"
      using retry_batch_last [OF b n0(1)] by blast
    have bytes: "bytes = concat (map (\<lambda>(chunk_id, content, tc). vec content) (take n queue))"
      by (rule answered_bytes [OF serves_answers [OF assms(1)] send ans])
    have v: "\<forall>content. length (vec content) = stride" using assms(1) by (simp add: serves_def)
    obtain r1 m1 where ins: "insert_embeddings quantise (batch_vectors bytes (take n queue)) (ew_index w) = (r1, m1)"
      by (cases "insert_embeddings quantise (batch_vectors bytes (take n queue)) (ew_index w)") auto
    from insert_batch [OF v distinct_drop_fst(2) [OF assms(3)] ins [unfolded bytes]] insert_unkilled [OF ins assms(5)]
    have ok: "r1 = Inr ()" "ir_budget m1 = None" by auto
    let ?w1 = "w\<lparr> ew_server := s, ew_index := m1 \<rparr>"
    have "on_index (insert_embeddings quantise (batch_vectors bytes (take n queue))) (w\<lparr> ew_server := s \<rparr>) = (Inr (), ?w1)"
      using ins ok by (simp add: on_index_def)
    then have "embed_batches F quantise E backoffs ceiling target num prev rate embedded queue w =
        embed_batches F quantise E backoffs ceiling target (num + 1) n ?rate (embedded + n) (drop n queue) ?w1"
      using assms(2) n b by (subst r) simp
    moreover have "rt_per_token ?rate \<noteq> None" by (rule update_seeds [OF batch_tokens_pos [OF n0(1) assms(2)]])
    moreover have "ir_budget (ew_index ?w1) = None" using ok(2) by simp
    ultimately show ?thesis using n n0 batch_size_bound [OF n] True by (intro exI [where x = n]) (simp only: if_True, blast)
  next
    case False
    with assms(2) n b have "fst (embed_batches F quantise E backoffs ceiling target num prev rate embedded queue w) = Inr embedded"
      by (subst r) simp
    with n n0 batch_size_bound [OF n] False show ?thesis by auto
  qed
qed

lemma embed_batches_all:
  assumes "serves vec cap E" and "max ceiling 4 \<le> cap"
  shows "distinct (map fst queue) \<Longrightarrow> num = 0 \<or> rt_per_token rate \<noteq> None \<Longrightarrow> ir_budget (ew_index w) = None \<Longrightarrow>
    fst (embed_batches F quantise E backoffs ceiling target num prev rate embedded queue w) = Inr (embedded + length queue)"
proof (induction "length queue" arbitrary: num prev rate embedded queue w rule: less_induct)
  case less
  show ?case
  proof (cases "queue = []")
    case True
    then show ?thesis by (subst embed_batches.simps) simp
  next
    case False
    from batch_served [OF assms(1) False less.prems, of F ceiling target prev quantise backoffs embedded] assms(2) obtain n rate' w1 where
      n: "0 < n" "n \<le> length queue" and w1: "rt_per_token rate' \<noteq> None" "ir_budget (ew_index w1) = None"
      and e: "embed_batches F quantise E backoffs ceiling target num prev rate embedded queue w =
        embed_batches F quantise E backoffs ceiling target (num + 1) n rate' (embedded + n) (drop n queue) w1"
      by (auto split: if_splits)
    have "fst (embed_batches F quantise E backoffs ceiling target (num + 1) n rate' (embedded + n) (drop n queue) w1) =
        Inr (embedded + n + length (drop n queue))"
      by (rule less.hyps) (use n w1 distinct_drop_fst(1) [OF less.prems(1)] in auto)
    with e n(2) show ?thesis by simp
  qed
qed

section \<open>The phase with such a server\<close>

definition same_model :: "string \<Rightarrow> index_run \<Rightarrow> bool" where
  "same_model model_id m \<longleftrightarrow> ir_budget m = None \<and> (\<forall>recorded. map_of (xd_meta (ir_db m)) ''embedding_model'' = Some recorded \<longrightarrow> recorded = model_id)"

lemma exec_unkilled: "ir_budget m = None \<Longrightarrow> ix_exec f m = (Inr (), m\<lparr> ir_db := f (ir_db m) \<rparr>)"
  by (simp add: ix_exec_def ix_write_def)

lemma provenance_ok:
  assumes "same_model model_id m"
  shows "\<exists>m1. ensure_embedding_model model_id m = (Inr (), m1) \<and> ir_budget m1 = None"
    "ir_budget m1 = None \<Longrightarrow> \<exists>x m2. ensure_chunker_config config m1 = (Inr x, m2) \<and> ir_budget m2 = None"
  using assms
  by (auto simp: same_model_def ensure_embedding_model_def embedding_model_def ensure_chunker_config_def chunker_config_def stamp_chunker_config_def
      ix_read_def st_bind_def st_runs exec_unkilled split: option.split)

lemma phase_is_loop:
  assumes "same_model model_id (ew_index w)"
  shows "\<exists>w2. ir_budget (ew_index w2) = None \<and>
    run_embed_phase_with_backoff F quantise E model_id config (Tier_Server limits True True) requested backoffs queue w =
    embed_batches F quantise E backoffs (resolve_batch_ceiling requested (Option.bind limits el_max_batch_chunks))
      (resolve_target_batch_seconds F limits) 0 1 new_rate 0 queue w2"
proof -
  from provenance_ok(1) [OF assms] obtain m1 where 1: "ensure_embedding_model model_id (ew_index w) = (Inr (), m1)" "ir_budget m1 = None" by blast
  from provenance_ok(2) [OF assms 1(2), of config] obtain x m2 where 2: "ensure_chunker_config config m1 = (Inr x, m2)" "ir_budget m2 = None" by blast
  from 1(1) 2(1) have "run_embed_phase_with_backoff F quantise E model_id config (Tier_Server limits True True) requested backoffs queue w =
    embed_batches F quantise E backoffs (resolve_batch_ceiling requested (Option.bind limits el_max_batch_chunks))
      (resolve_target_batch_seconds F limits) 0 1 new_rate 0 queue (w\<lparr> ew_index := m2 \<rparr>)"
    by (simp add: run_embed_phase_with_backoff_def st_bind_def on_index_def)
  with 2(2) show ?thesis by (intro exI [where x = "w\<lparr> ew_index := m2 \<rparr>"]) simp
qed



text \<open>C40: Every request of the embed phase has between one chunk and the ceiling, or four where the ceiling is smaller: a
  property of the server that such requests and pauses keep holds after the phase, whatever was answered.  The
  ceiling is at most 256 and at most what the server announced.\<close>
theorem embed_requests_bounded:
  assumes "keeps_server P (max (resolve_batch_ceiling requested server_max) CALIBRATION_BATCH_2) E" and "P (ew_server w)"
    and "server_max = Option.bind limits el_max_batch_chunks"
  shows "P (ew_server (snd (run_embed_phase F quantise E model_id config (Tier_Server limits bearer client) requested queue w))) \<and>
    resolve_batch_ceiling requested server_max \<le> MAX_BATCH \<and> (\<forall>k. server_max = Some k \<longrightarrow> resolve_batch_ceiling requested server_max \<le> k)"
proof
  have k: "keeps_server P (max (resolve_batch_ceiling requested (Option.bind limits el_max_batch_chunks)) 4) E"
    using assms(1,3) by (simp add: CALIBRATION_BATCH_2_def)
  have on: "P (ew_server (snd (on_index f w)))" if "P (ew_server w)" for f :: "'b ix" and w
    using that on_index_state [of f w] by (metis (mono_tags, lifting) embed_run.select_convs(2) embed_run.surjective embed_run.update_convs(1) prod.collapse)
  show "P (ew_server (snd (run_embed_phase F quantise E model_id config (Tier_Server limits bearer client) requested queue w)))"
    unfolding run_embed_phase_def run_embed_phase_with_backoff_def
    by (auto simp: st_bind_def st_err_def split: prod.split sum.split intro!: embed_batches_keeps [OF k])
       (use on assms(2) in \<open>metis snd_conv\<close>)+
  show "resolve_batch_ceiling requested server_max \<le> MAX_BATCH \<and> (\<forall>k. server_max = Some k \<longrightarrow> resolve_batch_ceiling requested server_max \<le> k)"
    by (auto simp: resolve_batch_ceiling_def Let_def DEFAULT_BATCH_CEILING_def split: option.split)
qed

section \<open>Runs\<close>

text \<open>Rates in whole nanoseconds; a server that notes the size of each request.\<close>

definition whole_ops :: float_ops where
  "whole_ops =
     \<lparr> fo_two_thirds = (\<lambda>n. 2 * n div 3), fo_div = (\<lambda>d n. d div int n), fo_deweight = (\<lambda>a b. (a + 9 * b) div 10),
       fo_mean = (\<lambda>a b. (a + b) div 2), fo_over = (\<lambda>target rate tokens. from_secs target < rate * int tokens),
       fo_budget = (\<lambda>rate tokens. 4 * rate * int tokens) \<rparr>"

definition flat_vector :: "string \<Rightarrow> string" where
  "flat_vector content = replicate stride (CHR 0x01)"

definition noting_server :: "nat \<Rightarrow> nat list embed_server" where
  "noting_server cap =
     \<lparr> es_send = (\<lambda>d cs s. (if length cs \<le> cap then Rp_Response 200 None (Some (concat (map (\<lambda>(chunk_id, content). flat_vector content) cs)))
         else Rp_Response 413 None None, 1000, s @ [length cs])),
       es_sleep = (\<lambda>d s. s) \<rparr>"

definition five_chunks :: queue where
  "five_chunks = [(1, ''a'', 1), (2, ''b'', 1), (3, ''c'', 1), (4, ''d'', 1), (5, ''e'', 1)]"

lemma noting_serves: "serves flat_vector cap (noting_server cap)"
  by (auto simp: serves_def noting_server_def flat_vector_def)

lemma five_distinct: "distinct (map fst five_chunks)"
  by (simp add: five_chunks_def)

lemma fresh_model: "same_model model_id (ew_index \<lparr> ew_index = \<lparr> ir_db = new_index, ir_budget = None \<rparr>, ew_server = s \<rparr>)"
  by (simp add: same_model_def new_index_def)



theorem embed_requests_bounded_witness:
  "list_all (\<lambda>n. n \<le> 256) (ew_server (snd (run_embed_phase whole_ops (\<lambda>f. CHR 0x01) (noting_server 256) ''m'' ''c'' (Tier_Server None True True) 0 five_chunks
     \<lparr> ew_index = \<lparr> ir_db = new_index, ir_budget = None \<rparr>, ew_server = [] \<rparr>)))"
proof -
  have k: "keeps_server (\<lambda>log. \<forall>n \<in> set log. n \<le> 256) (max (resolve_batch_ceiling 0 None) CALIBRATION_BATCH_2) (noting_server 256)"
    by (auto simp: keeps_server_def noting_server_def resolve_batch_ceiling_def DEFAULT_BATCH_CEILING_def MAX_BATCH_def CALIBRATION_BATCH_2_def)
  show ?thesis
    using embed_requests_bounded [OF k, where w = "\<lparr> ew_index = \<lparr> ir_db = new_index, ir_budget = None \<rparr>, ew_server = [] \<rparr>"
      and limits = None and F = whole_ops and quantise = "\<lambda>f. CHR 0x01" and model_id = "''m''" and config = "''c''"
      and bearer = True and client = True and queue = five_chunks] by (simp add: list_all_iff)
qed

theorem embed_resumes_exactly_witness:
  "\<exists>n \<le> 2. queue_entry small_indexer ` set (unembedded (ir_db (ew_index (snd (run_embed_phase whole_ops (\<lambda>f. CHR 0x01) (noting_server 256) ''m'' []
      (Tier_Server None True True) 0 [(1, ''title: s | text: ab'', 1), (2, ''title: s | text: cd'', 1)]
      \<lparr> ew_index = small_run None new_index [(''a.md'', two_lines)], ew_server = [] \<rparr>))))) =
     set (drop n [(1, ''title: s | text: ab'', 1), (2, ''title: s | text: cd'', 1)])"
proof -
  let ?q = "[(1, ''title: s | text: ab'', 1), (2, ''title: s | text: cd'', 1)]"
  obtain r w' where run: "run_embed_phase whole_ops (\<lambda>f. CHR 0x01) (noting_server 256) ''m'' [] (Tier_Server None True True) 0 ?q
      \<lparr> ew_index = small_run None new_index [(''a.md'', two_lines)], ew_server = [] \<rparr> = (r, w')"
    by (cases "run_embed_phase whole_ops (\<lambda>f. CHR 0x01) (noting_server 256) ''m'' [] (Tier_Server None True True) 0 ?q
      \<lparr> ew_index = small_run None new_index [(''a.md'', two_lines)], ew_server = [] \<rparr>") auto
  have "\<exists>n \<le> length ?q. queue_entry small_indexer ` set (unembedded (ir_db (ew_index w'))) = set (drop n ?q)"
    using embed_resumes_exactly [OF small_returns _ _ small_text_laws _ serves_answers [OF noting_serves [of 256]], where F = whole_ops
      and quantise = "\<lambda>f. CHR 0x01" and model_id = "''m''" and tier = "Tier_Server None True True" and requested = 0
      and s = "[]" and r = r and w' = w'] run new_index_inv(1) by simp blast
  with run show ?thesis by (simp add: numeral_2_eq_2)
qed

end
