(* ===== verification/Spec2Isabelle.thy ===== *)
theory Spec2Isabelle
  imports NotesRace GitBackend MemorySchema DedupeSpec Outbox ServerRuns ServerLimits ReconcileRuns NotesImportSpec RegistryRuns EmbedLive
begin

text \<open>
  The memory of spelunk, and its code index.  The memory is the entries (decisions, requirements, notes) that a team records beside its
  code.  An entry lives in up to three places, and most of the program keeps them consistent:
  \<^item> the \<^emph>\<open>notes ref\<close> \<open>refs/notes/spelunk\<close>, where an entry is a line of JSON in the git note of a
    commit.  Lines are only appended, so the ref accumulates copies, and reading it folds the
    copies of an entry into one (\<open>spelunk-core/src/storage/git_notes/\<close>);
  \<^item> the \<^emph>\<open>store\<close> \<open>memory.db\<close>, an SQLite database with one row per entry
    (\<open>spelunk-core/src/storage/memory/\<close>);
  \<^item> the \<^emph>\<open>team server\<close> (\<open>spelunk-server/\<close>), a database of the entries of many projects, reached by \<open>spelunk sync\<close> (\<open>spelunk-cli/src/cli/cmd/memory/sync/\<close> over
    \<open>spelunk-core/src/storage/remote/sync.rs\<close>), or in the background through the \<^emph>\<open>local relay\<close>
    (\<open>spelunk-server/src/relay/\<close>, \<open>spelunk-cli/src/cli/cmd/memory/outbox.rs\<close>).

  \<^bold>\<open>Shared layers.\<close>  \<open>Prelude\<close>: results (\<open>Inl\<close> an error, \<open>Inr\<close> a value), the iterators of the Rust
  library, grouping, and the locales \<open>keyed_min\<close>, \<open>add_wins\<close> and \<open>transaction\<close>.  \<open>RustText\<close>: a Rust
  \<open>String\<close> is its UTF-8 bytes, a HOL \<open>string\<close>; splitting, trimming, decimal numbers, decoding.

  \<^bold>\<open>Entries.\<close>  \<open>NoteId\<close> (\<open>memory/note_id.rs\<close>), \<open>NoteRecord\<close> (\<open>note_record.rs\<close>, \<open>entity_id.rs\<close>,
  \<open>note_kind.rs\<close>): ids, the line format, the content hash that identifies an entry.  SHA-256 is the
  parameter \<open>hashing\<close>; where a property needs it, it is assumed injective on the entries at hand.

  \<^bold>\<open>The carrier.\<close>  \<open>NotesFold\<close> (\<open>fold.rs\<close>): the fold does not depend on the order of the lines, keeps
  one entry per entity, merges tags add-wins and archival sticky.  \<open>NotesBlob\<close> and \<open>GitBackend\<close>
  (\<open>mod.rs\<close>, \<open>backend_impl.rs\<close>): the text of a note, the batch reader, the listings and the backend
  operations.  \<open>GitLock\<close> (\<open>lock.rs\<close>) and \<open>GitCarrier\<close> (\<open>mod.rs\<close>, \<open>publish.rs\<close>): appending under the
  writers' lock, merging the tracking ref, publishing.  Git, the file system and the clock are the
  parameters of a \<open>world\<close>, with what a command documents as named hypotheses.  \<open>NotesRace\<close>: any number
  of appenders, interleaved step by step, as an inductive relation.

  \<^bold>\<open>The store.\<close>  \<open>MemoryDb\<close>: the tables with their constraints, the statements, and the invariant
  every statement keeps (\<open>store_inv\<close>: rowids ascend, unique columns are unique, references point to
  rows).  A method is a function of type \<open>store \<Rightarrow> (db_error + 'a) \<times> store\<close>, and \<open>keeps\<close> says that it
  keeps the invariant whatever it returns.  \<open>MemoryNotes\<close>, \<open>MemoryEdges\<close> and \<open>MemorySync\<close> have the
  methods of \<open>notes.rs\<close>, \<open>edges.rs\<close>, \<open>sync.rs\<close> and \<open>import_state.rs\<close>.  \<open>MemorySchema\<close>: the migration
  runner of \<open>memory/mod.rs\<close> over the shape of the database, a statement at a time, so that a run may
  be killed anywhere.  \<open>EntityIdMigration\<close> and \<open>Dedupe\<close> (\<open>entity_id_migration/\<close>, \<open>dedupe/\<close>): the two
  repairs of a store with duplicate rows; \<open>DedupeSpec\<close> gives the store after a dedupe run as a
  function of the store before it.

  \<^bold>\<open>The relay.\<close>  \<open>Relay\<close>: the operations of \<open>relay/mod.rs\<close> on a session's buffers.  \<open>RelaySpec\<close>: the
  sequence of operations as events, the bounds of the buffers, and the locale \<open>kept_until_confirmed\<close>,
  interpreted for pushes and pulls.  \<open>RelayCursor\<close>: registrations, confirmations, catch-ups whose
  answer arrives late and remote writes, interleaved, with the invariant of the cursor.
  \<open>RelayDelivery\<close>: what a number of catch-ups deliver, and the event stream however it is cut.
  \<open>Outbox\<close> composes the CLI's loop with the relay: an entry once offered is still offered or on a row.

  \<^bold>\<open>The sync.\<close>  \<open>CloudSync\<close>: the client, in a monad over the store and an arbitrary outside (server,
  embedder, clock, UUIDs).  \<open>SyncRound\<close>: pull, push, repair of embeddings, the round.  \<open>SyncSpec\<close>: no
  step loses, rewrites or un-archives a row (locale \<open>store_order\<close>), and a pull applies the backlog.
  \<open>SyncFailures\<close>: a concrete outside, the witnesses, and the run after which entries are never pulled.

  \<^bold>\<open>The team server.\<close>  \<open>StateError\<close>: the error and state monad of its code, and the locale
  \<open>step_order\<close> by which a relation of states passes from the statements to what they compose.
  \<open>ServerDb\<close> (\<open>db.rs\<close>): tables, constraints and methods; \<open>ServerInv\<close>: every statement keeps the
  invariant \<open>server_inv\<close>.  \<open>ServerHandlers\<close> (\<open>handlers/\<close>, \<open>lib.rs\<close>, \<open>security.rs\<close>): validation, the
  memory handlers, pull, stream and batch push.  \<open>ServerSpec\<close>: sequences of requests keep the
  invariant and leave other projects alone.  \<open>ServerBatch\<close>: what a batch push acknowledges, and
  pushing it again.  \<open>ServerArrivals\<close>: an entry that arrives later has a larger id, by the locale
  \<open>row_fact\<close>; the stream.  \<open>ServerSync\<close>: the sync client of one machine and of another against the
  server.  \<open>RemoteBackend\<close> (\<open>remote/mod.rs\<close>, \<open>wire_types.rs\<close>): the memory backend over the server's
  API.  \<open>ServerLimits\<close> (\<open>rate_limiter.rs\<close>, \<open>auth.rs\<close>).  \<open>ServerRuns\<close>: a concrete server at which
  the properties apply.  UUIDs are assumed to be minted in ascending order; the vector table, the regular
  expressions, the embedder and RFC 3339 dates are parameters.

  \<^bold>\<open>Into the store.\<close>  Two more ways lead into \<open>memory.db\<close>, both in \<open>cmd/memory/reconcile.rs\<close>.
  \<open>Reconcile\<close>: the entries of a local daemon's database, collapsed by entity; \<open>ReconcileSpec\<close>: nothing is
  lost, the counts partition the candidates, a second run imports nothing; \<open>ReconcileRuns\<close>: runs.
  \<open>NotesImport\<close>: the import of the notes ref and the refresh of a read, gated by two markers, which
  compares them with the refs that \<open>NotesRefs\<close> (\<open>git_notes/refs.rs\<close>) reads from the files;
  \<open>NotesImportSpec\<close>: no listed note is lost, the steady state costs nothing, and a merge that the
  writers' lock prevented is forgotten.

  \<^bold>\<open>Projects.\<close>  \<open>Registry\<close> (\<open>registry.rs\<close>, \<open>config/paths.rs\<close>, \<open>cmd/link.rs\<close>): how a path leads to a
  project, a worktree to its main worktree, the global registry with its links, and the cleaning of
  stale entries over an abstract disk; \<open>RegistrySpec\<close>: its invariant, the nearest project, linking
  undone by unlinking, what cleaning spares.  \<open>CrossProject\<close> (\<open>cmd/memory/cross_project.rs\<close>): what a
  project sees of the memories of the projects it is linked to; \<open>RegistryRuns\<close>: runs of both.

  \<^bold>\<open>The code index.\<close>  Beside the memory, spelunk keeps an index \<open>index.db\<close> of the project's files.
  \<open>Chunker\<close> (\<open>indexer/chunker.rs\<close>): chunks and the sliding window, which covers every line within its
  budget.  \<open>CodeIndex\<close> and \<open>CodeGraph\<close> (\<open>storage/files.rs\<close>, \<open>chunks.rs\<close>, \<open>graph.rs\<close>, \<open>specs.rs\<close>,
  \<open>db.rs\<close>): the tables and methods, where a process may be killed before any statement that writes.  \<open>IndexRun\<close>
  (\<open>cmd/index/parse_phase.rs\<close>): a run over the files that the walk found; \<open>IndexInv\<close>: no statement breaks the constraints, and no
  vector is left without its chunk; \<open>IndexViews\<close> and \<open>IndexSpec\<close>: what the index says of a path, as a
  function of the file there; \<open>IndexQueue\<close>: what is handed to the embedder, and that no chunk with a
  secret is stored; \<open>IndexRuns\<close>: concrete runs, among them killed ones.  Parsers, BLAKE3 and the scan for
  secrets are the parameters of an \<open>indexer\<close>; the hash is injective on the contents at hand.
  \<open>EmbedPhase\<close> (\<open>cmd/index/embed_phase.rs\<close>): the queue goes to a server in batches, with retries, and each
  batch is stored in one transaction; \<open>EmbedSpec\<close>: it stores a prefix of the queue, and the rest is what the next run
  queues; \<open>EmbedLive\<close>: the sizes of its requests, when it completes, and when it does not.

  \<^bold>\<open>Bounds and fuel.\<close>  Loops are structural or terminate by a measure, but for two.  Polling the lock
  (\<open>lock_poll\<close>) runs on the clock of the world, whose progress is the hypothesis under which it
  returns.  The retries of a batch (\<open>retry_batch\<close>) end by a measure: each shrinks the batch or uses up a limited number of tries.
  Paging (\<open>pull_pages\<close>) has fuel and fails with \<open>OutOfFuel\<close>, which is no error of the
  code; \<open>pull_applies_backlog\<close> shows that one page more than the backlog has is enough.  An \<open>i64\<close>
  is an \<open>int\<close>: no operation that is modelled does arithmetic on one but adding one to a rowid.
  JSON is a parameter with the round trip of \<open>serde_json\<close> as hypothesis.

  \<^bold>\<open>Not modelled.\<close>  Printing and argument parsing; HTTP transport below a request and its answer; the
  tokio runtime, whose effect is the order of the events; tree-sitter parsing, the walk of the directory and
  the later phases of an index run; ranking by vectors and full text (\<open>f32\<close> inside SQLite's virtual tables); embedding models and
  LLM clients.
\<close>

end
